(* ===== verification/Prelude.thy ===== *)
theory Prelude
  imports Main "HOL-Library.Word" "HOL-Library.Monad_Syntax"
begin

text \<open>
  The vocabulary shared by every component of the development.

  \<^item> C integers. \<open>int\<close> values of the code are HOL integers; \<open>i32\<close> is the conversion to a
    32-bit \<open>int\<close>, \<open>u32\<close> and \<open>u64\<close> the conversions to \<open>unsigned int\<close> and \<open>size_t\<close> (the
    code is built for 64-bit Linux). Every place where the code converts or can wrap applies one
    of them, and the lemmas \<open>i32_id\<close>, \<open>u32_id\<close>, \<open>u64_id\<close> remove it where the value is in range.
    \<open>c_rem\<close> is the C remainder, which takes the sign of the dividend.
  \<^item> Undefined behaviour. An operation that can fault (an access outside a buffer, a call through
    a null pointer, a failed assert) returns an option, and \<open>None\<close> is the fault.
  \<^item> Bytes and buffers. A buffer is a list of bytes; \<open>memcpy\<close> and \<open>put_byte\<close> check their bounds.
  \<^item> The collections \<open>cint\<close> (removal of conversions) and \<open>buf\<close> (buffers).
\<close>

named_theorems cint "removal of C integer conversions of values in range"
named_theorems buf "facts about byte buffers"

type_synonym byte = "8 word"

subsection \<open>C integers\<close>

definition i32 :: "int \<Rightarrow> int" where
  "i32 x = (x + 2 ^ 31) mod 2 ^ 32 - 2 ^ 31"

definition u32 :: "int \<Rightarrow> int" where
  "u32 x = x mod 2 ^ 32"

definition u64 :: "int \<Rightarrow> int" where
  "u64 x = x mod 2 ^ 64"

definition c_rem :: "int \<Rightarrow> int \<Rightarrow> int" where
  "c_rem a b = sgn a * (\<bar>a\<bar> mod \<bar>b\<bar>)"

definition c_div :: "int \<Rightarrow> int \<Rightarrow> int" where
  "c_div a b = sgn a * sgn b * (\<bar>a\<bar> div \<bar>b\<bar>)"

lemma i32_id [cint]: "- (2 ^ 31) \<le> x \<Longrightarrow> x < 2 ^ 31 \<Longrightarrow> i32 x = x"
  by (simp add: i32_def)

lemma i32_range: "- (2 ^ 31) \<le> i32 x \<and> i32 x < 2 ^ 31"
proof -
  have "0 \<le> (x + 2 ^ 31) mod 2 ^ 32" and "(x + 2 ^ 31) mod 2 ^ 32 < (2 :: int) ^ 32"
    by simp_all
  then show ?thesis by (simp add: i32_def)
qed

lemma u32_id [cint]: "0 \<le> x \<Longrightarrow> x < 2 ^ 32 \<Longrightarrow> u32 x = x"
  by (simp add: u32_def)

lemma u32_range [simp]: "0 \<le> u32 x" "u32 x < 2 ^ 32"
  by (simp_all add: u32_def)

lemma u64_id [cint]: "0 \<le> x \<Longrightarrow> x < 2 ^ 64 \<Longrightarrow> u64 x = x"
  by (simp add: u64_def)

lemma u64_range [simp]: "0 \<le> u64 x" "u64 x < 2 ^ 64"
  by (simp_all add: u64_def)

lemma c_rem_nonneg [cint]: "0 \<le> a \<Longrightarrow> 0 < b \<Longrightarrow> c_rem a b = a mod b"
  by (cases "a = 0") (simp_all add: c_rem_def)

lemma c_div_nonneg [cint]: "0 \<le> a \<Longrightarrow> 0 < b \<Longrightarrow> c_div a b = a div b"
  by (cases "a = 0") (simp_all add: c_div_def)

lemma c_div_rem: "b \<noteq> 0 \<Longrightarrow> c_div a b * b + c_rem a b = a"
proof -
  assume "b \<noteq> 0"
  have "c_div a b * b + c_rem a b = sgn a * ((\<bar>a\<bar> div \<bar>b\<bar>) * (sgn b * b) + \<bar>a\<bar> mod \<bar>b\<bar>)"
    by (simp add: c_div_def c_rem_def algebra_simps)
  also have "sgn b * b = \<bar>b\<bar>" by (simp add: abs_sgn mult.commute)
  also have "(\<bar>a\<bar> div \<bar>b\<bar>) * \<bar>b\<bar> + \<bar>a\<bar> mod \<bar>b\<bar> = \<bar>a\<bar>" by simp
  also have "sgn a * \<bar>a\<bar> = a" by (simp add: sgn_mult_abs)
  finally show ?thesis .
qed

subsection \<open>Buffers\<close>

definition put_byte :: "byte list \<Rightarrow> int \<Rightarrow> byte \<Rightarrow> byte list option" where
  "put_byte b i x = (if 0 \<le> i \<and> i < int (length b) then Some (b[nat i := x]) else None)"

definition get_byte :: "byte list \<Rightarrow> int \<Rightarrow> byte option" where
  "get_byte b i = (if 0 \<le> i \<and> i < int (length b) then Some (b ! nat i) else None)"

text \<open>\<open>memcpy dst d src s n\<close> is \<open>memcpy(dst + d, src + s, n)\<close> for two distinct buffers.\<close>

definition memcpy ::
  "byte list \<Rightarrow> int \<Rightarrow> byte list \<Rightarrow> int \<Rightarrow> int \<Rightarrow> byte list option" where
  "memcpy dst d src s n =
     (if 0 \<le> n \<and> 0 \<le> d \<and> d + n \<le> int (length dst) \<and> 0 \<le> s \<and> s + n \<le> int (length src)
      then Some (take (nat d) dst @ take (nat n) (drop (nat s) src) @ drop (nat (d + n)) dst)
      else None)"

text \<open>\<open>mem_read src s n\<close> is what \<open>memcpy(buf, src + s, n)\<close> puts into \<open>buf\<close>.\<close>

definition mem_read :: "byte list \<Rightarrow> int \<Rightarrow> int \<Rightarrow> byte list option" where
  "mem_read src s n =
     (if 0 \<le> n \<and> 0 \<le> s \<and> s + n \<le> int (length src)
      then Some (take (nat n) (drop (nat s) src)) else None)"

lemma length_put_byte [buf]: "put_byte b i x = Some b' \<Longrightarrow> length b' = length b"
  by (auto simp: put_byte_def split: if_splits)

lemma length_memcpy [buf]: "memcpy dst d src s n = Some dst' \<Longrightarrow> length dst' = length dst"
  by (auto simp: memcpy_def split: if_splits)

lemma length_mem_read [buf]: "mem_read src s n = Some xs \<Longrightarrow> int (length xs) = n"
  by (auto simp: mem_read_def split: if_splits)

subsection \<open>Unsigned ints as four bytes, least significant first\<close>

definition le32 :: "int \<Rightarrow> byte list" where
  "le32 n = [word_of_int n, word_of_int (n div 2 ^ 8), word_of_int (n div 2 ^ 16),
             word_of_int (n div 2 ^ 24)]"

fun le_value :: "byte list \<Rightarrow> int" where
  "le_value [] = 0"
| "le_value (b # bs) = uint b + 256 * le_value bs"

lemma length_le32 [simp]: "length (le32 n) = 4"
  by (simp add: le32_def)

lemma le_value_le32 [buf]:
  assumes "0 \<le> n" and "n < 2 ^ 32"
  shows "le_value (le32 n) = n"
proof -
  have "n div 2 ^ 24 < 256" using assms by simp
  then have top: "n div 2 ^ 24 mod 256 = n div 2 ^ 24" using assms by simp
  have step: "a mod 256 + 256 * (a div 256) = a" for a :: int by simp
  have d: "n div 2 ^ 16 = n div 2 ^ 8 div 256" "n div 2 ^ 24 = n div 2 ^ 16 div 256"
    "n div 2 ^ 8 = n div 256"
    by (simp_all add: zdiv_zmult2_eq [symmetric])
  have "le_value (le32 n) = n mod 256 + 256 * (n div 2 ^ 8 mod 256 + 256 * (n div 2 ^ 16 mod 256
          + 256 * (n div 2 ^ 24 mod 256)))"
    by (simp add: le32_def uint_word_of_int)
  also have "\<dots> = n"
    unfolding top unfolding d step by (simp only: step)
  finally show ?thesis .
qed

lemma le_value_nonneg [simp]: "0 \<le> le_value bs"
  by (induction bs) simp_all

lemma le_value_bound: "le_value bs < 256 ^ length bs"
proof (induction bs)
  case (Cons b bs)
  have "uint b < 256" using uint_lt2p [of b] by simp
  with Cons show ?case by simp
qed simp

end
