(* ===== verification/Ring.thy ===== *)
theory Ring
  imports Prelude
begin

text \<open>
  Circular buffers as lists: \<open>ring_read b h n\<close> is the content of \<open>n\<close> cells from position \<open>h\<close> on,
  \<open>ring_write b t xs\<close> stores \<open>xs\<close> from position \<open>t\<close> on, both modulo the length of the list. The
  lemmas say how the two interact and what they are in terms of \<open>take\<close> and \<open>drop\<close>, which is what
  the one or two \<open>memcpy\<close> calls of the message queue compute. Collection \<open>ring\<close>.
\<close>

named_theorems ring "reading and writing circular buffers"

definition ring_read :: "'a list \<Rightarrow> nat \<Rightarrow> nat \<Rightarrow> 'a list" where
  "ring_read b h n = map (\<lambda>k. b ! ((h + k) mod length b)) [0..<n]"

fun ring_write :: "'a list \<Rightarrow> nat \<Rightarrow> 'a list \<Rightarrow> 'a list" where
  "ring_write b t [] = b"
| "ring_write b t (x # xs) = ring_write (b[t mod length b := x]) (Suc t) xs"

lemma length_ring_read [simp]: "length (ring_read b h n) = n"
  by (simp add: ring_read_def)

lemma length_ring_write [simp]: "length (ring_write b t xs) = length b"
  by (induction xs arbitrary: b t) simp_all

lemma ring_write_append:
  "ring_write b t (xs @ ys) = ring_write (ring_write b t xs) (t + length xs) ys"
  by (induction xs arbitrary: b t) simp_all

lemma ring_read_0 [simp]: "ring_read b h 0 = []"
  by (simp add: ring_read_def)

lemma ring_read_Suc: "ring_read b h (Suc n) = b ! (h mod length b) # ring_read b (Suc h) n"
  by (simp add: ring_read_def upt_conv_Cons map_Suc_upt [symmetric] del: upt_Suc)

lemma ring_read_add: "ring_read b h (m + n) = ring_read b h m @ ring_read b (h + m) n"
  by (rule nth_equalityI) (auto simp: ring_read_def nth_append add.assoc)

lemma ring_read_mod: "ring_read b (h mod length b) n = ring_read b h n"
  by (simp add: ring_read_def mod_add_left_eq)

lemma ring_write_mod: "ring_write b (t mod length b) xs = ring_write b t xs"
proof (induction xs arbitrary: b t)
  case (Cons x xs)
  have "ring_write c (Suc (t mod length c)) xs = ring_write c (Suc t) xs" for c :: "'a list"
    using Cons.IH [of c "Suc (t mod length c)"] Cons.IH [of c "Suc t"] by (simp add: mod_Suc_eq)
  from this [of "b[t mod length b := x]"] show ?case by simp
qed simp

lemma mod_shift_ne:
  fixes t j n :: nat
  assumes "0 < j" and "j < n"
  shows "(t + j) mod n \<noteq> t mod n"
proof
  assume "(t + j) mod n = t mod n"
  then have "n dvd (t + j) - t" by (metis mod_eq_dvd_iff_nat le_add1)
  with assms show False by (auto dest: dvd_imp_le)
qed

text \<open>The one characterisation everything else rests on: every cell after a write.\<close>

lemma ring_write_nth:
  assumes "length xs \<le> length b" and "j < length b"
  shows "ring_write b t xs ! ((t + j) mod length b) =
    (if j < length xs then xs ! j else b ! ((t + j) mod length b))"
  using assms
proof (induction xs arbitrary: b t j)
  case (Cons x xs)
  let ?n = "length b" and ?b = "b[t mod length b := x]"
  have pos: "0 < ?n" using Cons.prems by auto
  show ?case
  proof (cases j)
    case 0
    have "Suc t + (?n - 1) = t + ?n" using pos by simp
    then have idx: "(Suc t + (?n - 1)) mod ?n = t mod ?n" by (metis mod_add_self2)
    have "ring_write ?b (Suc t) xs ! ((Suc t + (?n - 1)) mod length ?b) =
        (if ?n - 1 < length xs then xs ! (?n - 1) else ?b ! ((Suc t + (?n - 1)) mod length ?b))"
      by (rule Cons.IH) (use Cons.prems in auto)
    moreover have "\<not> ?n - 1 < length xs" using Cons.prems by auto
    ultimately have "ring_write ?b (Suc t) xs ! ((Suc t + (?n - 1)) mod length ?b) =
        ?b ! ((Suc t + (?n - 1)) mod length ?b)"
      by (simp only: if_False)
    then show ?thesis using pos 0 by (simp add: idx del: add_Suc)
  next
    case (Suc i)
    have "ring_write ?b (Suc t) xs ! ((Suc t + i) mod length ?b) =
        (if i < length xs then xs ! i else ?b ! ((Suc t + i) mod length ?b))"
      using Cons.IH [of ?b i "Suc t"] Cons.prems Suc by simp
    moreover have "(t + j) mod ?n \<noteq> t mod ?n"
      using Cons.prems Suc by (intro mod_shift_ne) auto
    ultimately show ?thesis using Suc by (simp add: nth_list_update_neq [symmetric])
  qed
qed simp

lemma ring_cell:
  fixes i t n :: nat
  assumes "i < n" and "t < n"
  shows "(t + (i + n - t) mod n) mod n = i"
proof -
  have "(t + (i + n - t) mod n) mod n = (t + (i + n - t)) mod n" by (simp add: mod_add_right_eq)
  also have "t + (i + n - t) = i + n" using assms by simp
  also have "(i + n) mod n = i" using assms by simp
  finally show ?thesis .
qed

lemma ring_read_write_same [ring]:
  "length xs \<le> length b \<Longrightarrow> ring_read (ring_write b t xs) t (length xs) = xs"
  by (rule nth_equalityI) (simp_all add: ring_read_def ring_write_nth)

text \<open>A write starting where a region ends leaves the region alone if both fit in the ring.\<close>

lemma ring_read_write_other [ring]:
  assumes "n + length xs \<le> length b"
  shows "ring_read (ring_write b (h + n) xs) h n = ring_read b h n"
proof (rule nth_equalityI)
  fix i assume "i < length (ring_read (ring_write b (h + n) xs) h n)"
  then have i: "i < n" by simp
  let ?N = "length b" and ?j = "length b - n + i"
  have e: "(h + n + ?j) mod ?N = (h + i) mod ?N"
  proof -
    have "h + n + ?j = h + i + ?N" using i assms by simp
    then show ?thesis by (metis mod_add_self2)
  qed
  have "\<not> ?j < length xs" using assms by simp
  moreover have "ring_write b (h + n) xs ! ((h + n + ?j) mod ?N) =
      (if ?j < length xs then xs ! ?j else b ! ((h + n + ?j) mod ?N))"
    by (rule ring_write_nth) (use i assms in auto)
  ultimately have "ring_write b (h + n) xs ! ((h + n + ?j) mod ?N) = b ! ((h + n + ?j) mod ?N)"
    by (simp only: if_False)
  then show "ring_read (ring_write b (h + n) xs) h n ! i = ring_read b h n ! i"
    using i by (simp add: ring_read_def e)
qed simp

subsection \<open>The one-copy and two-copy forms\<close>

lemma ring_read_flat:
  assumes "h + n \<le> length b"
  shows "ring_read b h n = take n (drop h b)"
  by (rule nth_equalityI) (use assms in \<open>simp_all add: ring_read_def\<close>)

lemma ring_read_wrap:
  assumes "h < length b" and "length b < h + n" and "n \<le> length b"
  shows "ring_read b h n = drop h b @ take (n - (length b - h)) b"
proof (rule nth_equalityI)
  fix i assume i: "i < length (ring_read b h n)"
  show "ring_read b h n ! i = (drop h b @ take (n - (length b - h)) b) ! i"
  proof (cases "i < length b - h")
    case True
    then show ?thesis using i assms by (simp add: ring_read_def nth_append)
  next
    case False
    then have "length b \<le> h + i" "h + i - length b < length b" using i assms by auto
    then have "(h + i) mod length b = h + i - length b"
      by (metis le_mod_geq mod_less)
    moreover have "h + i - length b = i - (length b - h)" using False assms by simp
    ultimately show ?thesis using i assms False by (simp add: ring_read_def nth_append)
  qed
qed (use assms in simp)

lemma ring_write_flat:
  assumes "t + length xs \<le> length b"
  shows "ring_write b t xs = take t b @ xs @ drop (t + length xs) b"
  using assms
proof (induction xs arbitrary: b t)
  case (Cons x xs)
  have "t < length b" using Cons.prems by simp
  then have "take (Suc t) (b[t := x]) = take t b @ [x]"
    and "drop (Suc (t + length xs)) (b[t := x]) = drop (Suc (t + length xs)) b"
    by (simp_all add: take_Suc_conv_app_nth)
  then show ?case using Cons.IH [of "Suc t" "b[t := x]"] Cons.prems by simp
qed simp

lemma ring_write_wrap:
  assumes "t < length b" and "length b < t + length xs" and "length xs \<le> length b"
  shows "ring_write b t xs =
    drop (length b - t) xs @ drop (length xs - (length b - t)) (take t b) @ take (length b - t) xs"
    (is "_ = ?rhs")
proof -
  let ?k = "length b - t"
  have flat: "ring_write b t (take ?k xs) = take t b @ take ?k xs"
    using assms by (subst ring_write_flat) simp_all
  have "ring_write b t xs = ring_write b t (take ?k xs @ drop ?k xs)" by simp
  also have "\<dots> = ring_write (take t b @ take ?k xs) (t + length (take ?k xs)) (drop ?k xs)"
    unfolding ring_write_append flat ..
  also have "t + length (take ?k xs) = length (take t b @ take ?k xs)"
    using assms by simp
  also have "ring_write (take t b @ take ?k xs) (length (take t b @ take ?k xs)) (drop ?k xs) =
      ring_write (take t b @ take ?k xs) 0 (drop ?k xs)"
    using ring_write_mod [of "take t b @ take ?k xs" "length (take t b @ take ?k xs)"] by simp
  also have "\<dots> = ?rhs"
    using assms by (subst ring_write_flat) (simp_all add: drop_take)
  finally show ?thesis .
qed

end
