(* ===== verification/MessageQueue.thy ===== *)
theory MessageQueue
  imports Ring
begin

text \<open>
  The shared-memory ring buffer of \<open>common/container/message_queue.{h,cc}\<close>.

  \<^item> \<open>shm\<close> is a shared segment read as the code reads it: \<open>struct QueueHead\<close> at its start and
    the bytes after it. A \<open>MessageQueue\<close> object is \<open>shm option\<close>: \<open>None\<close> while \<open>queue_head_\<close> is
    \<open>NULL\<close> and \<open>Some\<close> of the attached segment afterwards.
  \<^item> \<open>Attach\<close>, \<open>SendMsg\<close>, \<open>RecvMsg\<close>, \<open>IsQueueEmpty\<close>, \<open>GetLeftSize\<close> and \<open>GetSize\<close> follow the
    member functions statement by statement; \<open>None\<close> is undefined behaviour. The loops over the
    four length bytes are \<open>put_len\<close> and \<open>get_len\<close>.
  \<^item> \<open>send_copy\<close> and \<open>recv_copy\<close> are the bodies between the two index loads and the index store.
    The interleaving model of \<open>QueueSpsc\<close> uses the same two functions.
  \<^item> \<open>queue_ok\<close> is the well-formedness invariant and \<open>queue_holds\<close> the abstraction relation: the
    bytes from \<open>head_idx\<close> to \<open>tail_idx\<close> are the frames of a list of messages.
\<close>

subsection \<open>State and operations\<close>

record shm =
  head_idx :: int
  tail_idx :: int
  sh_size :: int
  queue_buff :: "byte list"

type_synonym msg_queue = "shm option"

definition QUEUE_VACUUM_SLOT :: int where
  "QUEUE_VACUUM_SLOT = 8"

definition sizeof_QueueHead :: int where
  "sizeof_QueueHead = 12"

definition MessageQueue_new :: msg_queue where
  "MessageQueue_new = None"

text \<open>The indices in the segment, which \<open>SendMsg\<close> and \<open>RecvMsg\<close> read once and write back one of; without a segment a null
  pointer is dereferenced.\<close>

definition GetHeadIdx :: "msg_queue \<Rightarrow> int option" where "GetHeadIdx q = map_option head_idx q"
definition GetTailIdx :: "msg_queue \<Rightarrow> int option" where "GetTailIdx q = map_option tail_idx q"
definition SetHeadIdx :: "int \<Rightarrow> msg_queue \<Rightarrow> msg_queue option" where "SetHeadIdx i q = map_option (\<lambda>s. Some (s\<lparr>head_idx := i\<rparr>)) q"
definition SetTailIdx :: "int \<Rightarrow> msg_queue \<Rightarrow> msg_queue option" where "SetTailIdx i q = map_option (\<lambda>s. Some (s\<lparr>tail_idx := i\<rparr>)) q"

text \<open>\<open>queue_head_\<close> keeps its value when the segment is too small.\<close>

definition Attach :: "msg_queue \<Rightarrow> shm \<Rightarrow> int \<Rightarrow> bool \<Rightarrow> msg_queue" where
  "Attach q buf sz init_head =
     (if sz < sizeof_QueueHead + QUEUE_VACUUM_SLOT then q
      else if init_head
        then Some (buf\<lparr>head_idx := 0, tail_idx := 0, sh_size := i32 (u64 (sz - sizeof_QueueHead))\<rparr>)
        else Some buf)"

definition IsQueueEmpty :: "msg_queue \<Rightarrow> bool option" where
  "IsQueueEmpty q = do {
     s \<leftarrow> q;
     Some (tail_idx s = i32 (head_idx s + QUEUE_VACUUM_SLOT)) }"

definition GetLeftSize :: "int \<Rightarrow> int \<Rightarrow> int \<Rightarrow> int" where
  "GetLeftSize sz head tail =
     (if tail \<ge> head then i32 (sz - tail + head - QUEUE_VACUUM_SLOT)
      else i32 (head - tail - QUEUE_VACUUM_SLOT))"

definition GetSize :: "int \<Rightarrow> int \<Rightarrow> int \<Rightarrow> int" where
  "GetSize sz head tail =
     (if tail \<ge> head then u32 (tail - head) else u32 (sz - head + tail))"

text \<open>The two byte loops. Each iteration takes an index modulo \<open>queue_head_->size\<close>.\<close>

fun put_len :: "int \<Rightarrow> byte list \<Rightarrow> int \<Rightarrow> byte list \<Rightarrow> (byte list \<times> int) option" where
  "put_len sz b tail [] = Some (b, tail)"
| "put_len sz b tail (x # xs) = do {
     b' \<leftarrow> put_byte b tail x;
     (if sz = 0 then None else put_len sz b' (c_rem (i32 (tail + 1)) sz) xs) }"

fun get_len :: "int \<Rightarrow> byte list \<Rightarrow> int \<Rightarrow> nat \<Rightarrow> (byte list \<times> int) option" where
  "get_len sz b head 0 = Some ([], head)"
| "get_len sz b head (Suc n) = do {
     x \<leftarrow> get_byte b head;
     (if sz = 0 then None
      else do {
        (xs, h) \<leftarrow> get_len sz b (c_rem (i32 (head + 1)) sz) n;
        Some (x # xs, h) }) }"

text \<open>
  \<open>head_idx + length\<close> is unsigned in the code, so its remainder is taken on unsigned values.
\<close>

definition advance_idx :: "int \<Rightarrow> int \<Rightarrow> int \<Rightarrow> int option" where
  "advance_idx sz i len =
     (if u32 sz = 0 then None else Some (i32 (u32 (u32 i + len) mod u32 sz)))"

text \<open>The payload copies: two \<open>memcpy\<close> calls when the message runs past the end of the ring.\<close>

definition copy_in ::
  "int \<Rightarrow> byte list \<Rightarrow> int \<Rightarrow> byte list \<Rightarrow> int \<Rightarrow> byte list option" where
  "copy_in sz b t msg len =
     (if i32 (i32 len + t) > sz
      then do {
        b' \<leftarrow> memcpy b t msg 0 (i32 (sz - t));
        memcpy b' 0 msg (i32 (sz - t)) (u32 (len - u32 (sz - t))) }
      else memcpy b t msg 0 len)"

definition copy_out :: "int \<Rightarrow> byte list \<Rightarrow> int \<Rightarrow> int \<Rightarrow> byte list option" where
  "copy_out sz b h len =
     (if i32 (h + i32 len) > sz
      then do {
        d1 \<leftarrow> mem_read b h (i32 (sz - h));
        d2 \<leftarrow> mem_read b 0 (u32 (len - u32 (sz - h)));
        Some (d1 @ d2) }
      else mem_read b h len)"

text \<open>
  \<open>SendMsg\<close> after the two index loads and before \<open>SetTailIdx\<close>: the result is \<open>None\<close> for
  undefined behaviour, \<open>Some None\<close> where the code returns \<open>false\<close>, and otherwise the written
  buffer with the new tail.
\<close>

definition send_copy ::
  "int \<Rightarrow> int \<Rightarrow> int \<Rightarrow> byte list \<Rightarrow> byte list \<Rightarrow> int \<Rightarrow> (byte list \<times> int) option option" where
  "send_copy sz head tail b msg len =
     (if u32 (GetLeftSize sz head tail) < u64 (len + 4) then Some None
      else do {
        (b1, t) \<leftarrow> put_len sz b tail (le32 len);
        b2 \<leftarrow> copy_in sz b1 t msg len;
        t' \<leftarrow> advance_idx sz t len;
        Some (Some (b2, t')) })"

definition SendMsg :: "msg_queue \<Rightarrow> byte list option \<Rightarrow> int \<Rightarrow> (bool \<times> msg_queue) option" where
  "SendMsg q buf len =
     (case buf of
        None \<Rightarrow> Some (False, q)
      | Some msg \<Rightarrow> do {
          s \<leftarrow> q;
          r \<leftarrow> send_copy (sh_size s) (head_idx s) (tail_idx s) (queue_buff s) msg len;
          (case r of
             None \<Rightarrow> Some (False, q)
           | Some (b, t) \<Rightarrow> Some (True, Some (s\<lparr>queue_buff := b, tail_idx := t\<rparr>))) })"

text \<open>
  \<open>RecvMsg\<close> between the index loads and \<open>SetHeadIdx\<close>: \<open>RecvNone\<close> carries the value left in
  \<open>length\<close> where the code returns \<open>false\<close>.
\<close>

datatype recv = RecvNone int | RecvOk int "byte list" int

definition recv_copy :: "int \<Rightarrow> int \<Rightarrow> int \<Rightarrow> byte list \<Rightarrow> recv option" where
  "recv_copy sz head tail b =
     (if head = tail then Some (RecvNone 0)
      else if GetSize sz head tail < 4 then Some (RecvNone 0)
      else do {
        (lb, h) \<leftarrow> get_len sz b head 4;
        let len = le_value lb;
        (if len > u32 (GetSize sz head tail - 4) then Some (RecvNone len)
         else do {
           d \<leftarrow> copy_out sz b h len;
           h' \<leftarrow> advance_idx sz h len;
           Some (RecvOk len d h') }) })"

text \<open>
  The result: the returned flag, the value of the reference parameter \<open>length\<close>, the bytes copied
  into the caller's buffer (the copy is not bounded by that buffer's capacity) and the queue.
\<close>

definition RecvMsg ::
  "msg_queue \<Rightarrow> bool \<Rightarrow> int \<Rightarrow> (bool \<times> int \<times> byte list \<times> msg_queue) option" where
  "RecvMsg q buf_null len =
     (if buf_null then Some (False, len, [], q)
      else do {
        s \<leftarrow> q;
        r \<leftarrow> recv_copy (sh_size s) (head_idx s) (tail_idx s) (queue_buff s);
        (case r of
           RecvNone l \<Rightarrow> Some (False, l, [], q)
         | RecvOk l d h \<Rightarrow> Some (True, l, d, Some (s\<lparr>head_idx := h\<rparr>))) })"

subsection \<open>What the loops and copies compute\<close>

text \<open>
  The range every lemma below works in: the recorded size is the size of the buffer, both indices
  are inside it, and twice the size still is an \<open>int\<close> (the sums \<open>head_idx + (int)length\<close> and
  \<open>(int)length + tail_idx\<close> of the code are not to overflow).
\<close>

definition ring_ok :: "int \<Rightarrow> byte list \<Rightarrow> bool" where
  "ring_ok sz b \<longleftrightarrow> sz = int (length b) \<and> 8 \<le> sz \<and> sz \<le> 2 ^ 30"

definition idx_ok :: "int \<Rightarrow> int \<Rightarrow> bool" where
  "idx_ok sz i \<longleftrightarrow> 0 \<le> i \<and> i < sz"

lemma ring_ok_write [simp]: "ring_ok sz (ring_write b t xs) = ring_ok sz b"
  by (simp add: ring_ok_def)

lemma ring_ok_pos: "ring_ok sz b \<Longrightarrow> 0 < sz \<and> b \<noteq> []"
  by (auto simp: ring_ok_def)

lemma idx_ok_mod [simp]: "ring_ok sz b \<Longrightarrow> idx_ok sz (x mod sz)"
  using ring_ok_pos [of sz b] by (simp add: idx_ok_def)

lemma idx_nat: "ring_ok sz b \<Longrightarrow> idx_ok sz i \<Longrightarrow> nat i mod length b = nat i"
  by (auto simp: ring_ok_def idx_ok_def nat_less_iff)

lemma nat_mod_length: "0 \<le> t \<Longrightarrow> nat (t mod int (length b)) = nat t mod length b"
  by (simp add: nat_mod_distrib)

lemma put_len_ring:
  assumes "ring_ok sz b" and "idx_ok sz t"
  shows "put_len sz b t xs = Some (ring_write b (nat t) xs, (t + int (length xs)) mod sz)"
  using assms
proof (induction xs arbitrary: b t)
  case Nil
  then show ?case by (simp add: idx_ok_def)
next
  case (Cons x xs)
  let ?b = "b[nat t := x]" and ?t = "(t + 1) mod sz"
  have put: "put_byte b t x = Some ?b"
    using Cons.prems by (simp add: put_byte_def ring_ok_def idx_ok_def)
  have nz: "sz \<noteq> 0" using ring_ok_pos [OF Cons.prems(1)] by simp
  have next_t: "c_rem (i32 (t + 1)) sz = ?t"
    using Cons.prems ring_ok_pos [OF Cons.prems(1)] by (simp add: cint ring_ok_def idx_ok_def)
  have "ring_ok sz ?b" using Cons.prems by (simp add: ring_ok_def)
  moreover have "idx_ok sz ?t" using Cons.prems by simp
  ultimately have IH: "put_len sz ?b ?t xs =
      Some (ring_write ?b (nat ?t) xs, (?t + int (length xs)) mod sz)" by (rule Cons.IH)
  have "ring_write ?b (nat ?t) xs = ring_write ?b (Suc (nat t)) xs"
    using Cons.prems nat_mod_length [of "t + 1" ?b] ring_write_mod [of ?b "Suc (nat t)" xs]
    by (simp add: ring_ok_def idx_ok_def Suc_nat_eq_nat_zadd1 add.commute)
  moreover have "ring_write b (nat t) (x # xs) = ring_write ?b (Suc (nat t)) xs"
    by (simp add: idx_nat [OF Cons.prems])
  moreover have "(?t + int (length xs)) mod sz = (t + int (length (x # xs))) mod sz"
    by (simp add: mod_add_left_eq add.assoc)
  ultimately show ?case using IH by (simp add: put nz next_t del: ring_write.simps)
qed

lemma get_len_ring:
  assumes "ring_ok sz b" and "idx_ok sz h"
  shows "get_len sz b h n = Some (ring_read b (nat h) n, (h + int n) mod sz)"
  using assms
proof (induction n arbitrary: h)
  case 0
  then show ?case by (simp add: idx_ok_def)
next
  case (Suc n)
  let ?h = "(h + 1) mod sz"
  have get: "get_byte b h = Some (b ! nat h)" and nz: "sz \<noteq> 0"
    using Suc.prems ring_ok_pos [OF Suc.prems(1)] by (simp_all add: get_byte_def ring_ok_def idx_ok_def)
  have next_h: "c_rem (i32 (h + 1)) sz = ?h"
    using Suc.prems ring_ok_pos [OF Suc.prems(1)] by (simp add: cint ring_ok_def idx_ok_def)
  have "idx_ok sz ?h" using Suc.prems by simp
  from Suc.IH [OF Suc.prems(1) this] have IH: "get_len sz b ?h n =
      Some (ring_read b (nat ?h) n, (?h + int n) mod sz)" .
  have "ring_read b (nat ?h) n = ring_read b (Suc (nat h)) n"
    using Suc.prems nat_mod_length [of "h + 1" b] ring_read_mod [of b "Suc (nat h)" n]
    by (simp add: ring_ok_def idx_ok_def Suc_nat_eq_nat_zadd1 add.commute)
  moreover have "ring_read b (nat h) (Suc n) = b ! nat h # ring_read b (Suc (nat h)) n"
    by (simp add: ring_read_Suc idx_nat [OF Suc.prems])
  moreover have "(?h + int n) mod sz = (h + int (Suc n)) mod sz"
    by (simp add: mod_add_left_eq add.assoc)
  ultimately show ?case using IH by (simp add: get nz next_h)
qed

lemma advance_idx_mod:
  assumes "ring_ok sz b" and "idx_ok sz i" and "0 \<le> len" and "len \<le> sz"
  shows "advance_idx sz i len = Some ((i + len) mod sz)"
proof -
  have "idx_ok sz ((i + len) mod sz)" using assms by simp
  then have "i32 ((i + len) mod sz) = (i + len) mod sz"
    using assms by (intro i32_id) (auto simp: idx_ok_def ring_ok_def)
  then show ?thesis
    using assms ring_ok_pos [OF assms(1)] by (simp add: advance_idx_def ring_ok_def idx_ok_def cint)
qed

lemma copy_in_ring:
  assumes "ring_ok sz b" and "idx_ok sz t" and "0 \<le> len" and "len \<le> sz"
    and "len \<le> int (length msg)"
  shows "copy_in sz b t msg len = Some (ring_write b (nat t) (take (nat len) msg))"
proof (cases "len + t > sz")
  case True
  let ?m = "take (nat len) msg" and ?k = "sz - t"
  have wrap: "ring_write b (nat t) ?m = drop (nat ?k) ?m @
      drop (nat len - nat ?k) (take (nat t) b) @ take (nat ?k) ?m"
    using assms True ring_write_wrap [of "nat t" b ?m]
    by (simp add: ring_ok_def idx_ok_def nat_diff_distrib min_absorb2)
  have first: "memcpy b t msg 0 ?k = Some (take (nat t) b @ take (nat ?k) msg)"
    using assms True by (simp add: memcpy_def ring_ok_def idx_ok_def)
  have second: "memcpy (take (nat t) b @ take (nat ?k) msg) 0 msg ?k (len - ?k) =
      Some (ring_write b (nat t) ?m)"
    using assms True
    by (auto simp: memcpy_def ring_ok_def idx_ok_def wrap drop_take nat_diff_distrib min_def)
  show ?thesis
    using assms True first second
    by (simp add: copy_in_def ring_ok_def idx_ok_def cint)
next
  case False
  then have fits: "nat t + nat len \<le> length b" using assms by (auto simp: ring_ok_def idx_ok_def)
  then have "ring_write b (nat t) (take (nat len) msg) =
      take (nat t) b @ take (nat len) msg @ drop (nat t + nat len) b"
    using assms ring_write_flat [of "nat t" "take (nat len) msg" b] by (simp add: min_absorb2)
  then show ?thesis
    using False assms
    by (simp add: copy_in_def memcpy_def ring_ok_def idx_ok_def cint nat_add_distrib add.commute)
qed

lemma copy_out_ring:
  assumes "ring_ok sz b" and "idx_ok sz h" and "0 \<le> len" and "len \<le> sz"
  shows "copy_out sz b h len = Some (ring_read b (nat h) (nat len))"
proof (cases "h + len > sz")
  case True
  then show ?thesis
    using assms ring_read_wrap [of "nat h" b "nat len"]
    by (auto simp: copy_out_def mem_read_def ring_ok_def idx_ok_def cint nat_diff_distrib)
next
  case False
  then show ?thesis
    using assms ring_read_flat [of "nat h" "nat len" b]
    by (auto simp: copy_out_def mem_read_def ring_ok_def idx_ok_def cint)
qed

end
