(* ===== verification/QueueProofs.thy ===== *)
theory QueueProofs
  imports MessageQueue
begin

text \<open>
  The contract of the message queue: a bounded FIFO of messages. \<open>queue_holds s ms\<close> relates a
  segment to the messages in it, and \<open>SendMsg\<close> and \<open>RecvMsg\<close> are shown to append and to take the
  first one, never to fault, and to leave the segment alone where they return \<open>false\<close>. The locale
  \<open>fifo\<close> is the interface the users of a queue rely on; it is interpreted on the two operations.
\<close>

subsection \<open>Sizes\<close>

definition used :: "int \<Rightarrow> int \<Rightarrow> int \<Rightarrow> int" where
  "used sz h t = (t - h) mod sz"

lemma used_cases:
  assumes "idx_ok sz h" and "idx_ok sz t"
  shows "used sz h t = (if h \<le> t then t - h else sz - h + t)"
proof (cases "h \<le> t")
  case True
  then show ?thesis using assms by (simp add: used_def idx_ok_def)
next
  case False
  have "(t - h) mod sz = (t - h + sz) mod sz" by simp
  also have "\<dots> = t - h + sz" using assms False by (intro mod_pos_pos_trivial) (auto simp: idx_ok_def)
  finally show ?thesis using False by (simp add: used_def)
qed

lemma used_range: "ring_ok sz b \<Longrightarrow> 0 \<le> used sz h t \<and> used sz h t < sz"
  using ring_ok_pos [of sz b] by (simp add: used_def)

lemma GetSize_used:
  "ring_ok sz b \<Longrightarrow> idx_ok sz h \<Longrightarrow> idx_ok sz t \<Longrightarrow> GetSize sz h t = used sz h t"
  by (auto simp: GetSize_def used_cases ring_ok_def idx_ok_def cint)

lemma GetLeftSize_used:
  "ring_ok sz b \<Longrightarrow> idx_ok sz h \<Longrightarrow> idx_ok sz t \<Longrightarrow> GetLeftSize sz h t = sz - 8 - used sz h t"
  by (auto simp: GetLeftSize_def used_cases ring_ok_def idx_ok_def cint QUEUE_VACUUM_SLOT_def)

lemma used_advance_tail:
  assumes "ring_ok sz b" and "0 \<le> n" and "used sz h t + n < sz"
  shows "used sz h ((t + n) mod sz) = used sz h t + n"
proof -
  have "((t + n) mod sz - h) mod sz = (t - h + n) mod sz" by (simp add: mod_diff_left_eq algebra_simps)
  also have "\<dots> = ((t - h) mod sz + n) mod sz" by (simp add: mod_add_left_eq)
  also have "\<dots> = (t - h) mod sz + n"
    using assms used_range [OF assms(1), of h t] by (intro mod_pos_pos_trivial) (auto simp: used_def)
  finally show ?thesis by (simp add: used_def)
qed

lemma used_advance_head:
  assumes "ring_ok sz b" and "0 \<le> n" and "n \<le> used sz h t"
  shows "used sz ((h + n) mod sz) t = used sz h t - n"
proof -
  have "(t - (h + n) mod sz) mod sz = (t - h - n) mod sz" by (simp add: mod_diff_right_eq algebra_simps)
  also have "\<dots> = ((t - h) mod sz - n) mod sz" by (simp add: mod_diff_left_eq)
  also have "\<dots> = (t - h) mod sz - n"
    using assms used_range [OF assms(1), of h t] by (intro mod_pos_pos_trivial) (auto simp: used_def)
  finally show ?thesis by (simp add: used_def)
qed

lemma tail_is_head_plus_used:
  assumes "ring_ok sz b" and "idx_ok sz h" and "idx_ok sz t"
  shows "nat t = (nat h + nat (used sz h t)) mod length b"
proof -
  have "(h + used sz h t) mod sz = t"
    using assms by (simp add: used_def mod_add_right_eq idx_ok_def)
  moreover have "0 \<le> h" "0 \<le> used sz h t" using assms used_range [of sz b h t] by (auto simp: idx_ok_def)
  ultimately show ?thesis
    using assms nat_mod_length [of "h + used sz h t" b] by (simp add: ring_ok_def nat_add_distrib)
qed

subsection \<open>Frames\<close>

definition frame :: "byte list \<Rightarrow> byte list" where
  "frame m = le32 (int (length m)) @ m"

abbreviation frames :: "byte list list \<Rightarrow> byte list" where
  "frames ms \<equiv> concat (map frame ms)"

lemma length_frame [simp]: "length (frame m) = 4 + length m"
  by (simp add: frame_def)

lemma send_copy_ring:
  assumes ok: "ring_ok sz b" "idx_ok sz h" "idx_ok sz t" and room: "used sz h t + 8 \<le> sz"
    and len: "0 \<le> len" "len < 2 ^ 32" "len \<le> int (length msg)"
  shows "send_copy sz h t b msg len = Some (if used sz h t + 4 + len + 8 \<le> sz
    then Some (ring_write b (nat t) (frame (take (nat len) msg)), (t + (4 + len)) mod sz) else None)"
proof -
  let ?u = "used sz h t"
  have u: "0 \<le> ?u" "sz \<le> 2 ^ 30" using used_range [OF ok(1)] ok by (auto simp: ring_ok_def)
  have left: "u32 (GetLeftSize sz h t) = sz - 8 - ?u"
    using room u by (simp add: GetLeftSize_used [OF ok] cint)
  have need: "u64 (len + 4) = len + 4" using len by (simp add: cint)
  show ?thesis
  proof (cases "?u + 4 + len + 8 \<le> sz")
    case True
    let ?b = "ring_write b (nat t) (le32 len)" and ?t = "(t + 4) mod sz"
    have l: "len \<le> sz" using True u by simp
    have ok': "ring_ok sz ?b" "idx_ok sz ?t" using ok by simp_all
    have put: "put_len sz b t (le32 len) = Some (?b, ?t)"
      by (simp add: put_len_ring [OF ok(1,3)])
    have "ring_write ?b (nat ?t) (take (nat len) msg) =
        ring_write b (nat t) (frame (take (nat len) msg))"
    proof -
      have "nat ?t = (nat t + 4) mod length ?b"
        using ok nat_mod_length [of "t + 4" b] by (simp add: idx_ok_def ring_ok_def nat_add_distrib)
      moreover have "length (take (nat len) msg) = nat len" using len by (simp add: min_absorb2)
      ultimately show ?thesis
        using len by (simp add: frame_def ring_write_append ring_write_mod del: length_ring_write)
    qed
    moreover have "(?t + len) mod sz = (t + (4 + len)) mod sz" by (simp add: mod_add_left_eq add.assoc)
    ultimately show ?thesis
      using True left need
      by (simp add: send_copy_def put copy_in_ring [OF ok' len(1) l len(3)]
          advance_idx_mod [OF ok' len(1) l])
  next
    case False
    then show ?thesis using left need by (simp add: send_copy_def)
  qed
qed

lemma recv_copy_empty [simp]: "recv_copy sz h h b = Some (RecvNone 0)"
  by (simp add: recv_copy_def)

lemma recv_copy_frame:
  assumes ok: "ring_ok sz b" "idx_ok sz h" "idx_ok sz t"
    and data: "ring_read b (nat h) (nat (used sz h t)) = frame m @ rest"
  shows "recv_copy sz h t b = Some (RecvOk (int (length m)) m ((h + (4 + int (length m))) mod sz))"
proof -
  let ?u = "used sz h t" and ?l = "int (length m)" and ?h = "(h + 4) mod sz"
  have u: "0 \<le> ?u" "?u < sz" "sz \<le> 2 ^ 30" using used_range [OF ok(1)] ok by (auto simp: ring_ok_def)
  have "length (ring_read b (nat h) (nat ?u)) = 4 + length m + length rest" by (simp add: data)
  then have un: "nat ?u = 4 + (length m + length rest)" by simp
  then have ul: "?u = 4 + ?l + int (length rest)" using u by simp
  have ne: "h \<noteq> t" using ul by (auto simp: used_def)
  have split: "ring_read b (nat h) 4 @ ring_read b (nat h + 4) (length m + length rest) =
      le32 ?l @ (m @ rest)"
    using data un by (simp add: ring_read_add frame_def)
  then have hd4: "ring_read b (nat h) 4 = le32 ?l"
    and tl4: "ring_read b (nat h + 4) (length m + length rest) = m @ rest"
    by simp_all
  then have body: "ring_read b (nat h + 4) (length m) = m" by (simp add: ring_read_add)
  have h: "nat ?h = (nat h + 4) mod length b"
    using ok nat_mod_length [of "h + 4" b] by (simp add: idx_ok_def ring_ok_def nat_add_distrib)
  have get: "get_len sz b h 4 = Some (le32 ?l, ?h)"
    using get_len_ring [OF ok(1,2), of 4] hd4 by simp
  have lv: "le_value (le32 ?l) = ?l" using ul u by (intro le_value_le32) auto
  have l: "0 \<le> ?l" "?l \<le> sz" using ul u by auto
  have ok': "idx_ok sz ?h" using ok by simp
  have "copy_out sz b ?h ?l = Some m"
    using copy_out_ring [OF ok(1) ok' l] body by (simp add: h ring_read_mod)
  moreover have "(?h + ?l) mod sz = (h + (4 + ?l)) mod sz" by (simp add: mod_add_left_eq add.assoc)
  moreover have "\<not> ?u < 4" "\<not> ?l > u32 (?u - 4)" using ul u by (simp_all add: cint)
  ultimately show ?thesis
    using ne by (simp add: recv_copy_def Let_def GetSize_used [OF ok] get lv advance_idx_mod [OF ok(1) ok' l])
qed

subsection \<open>The abstraction\<close>

text \<open>
  A segment is well formed when the recorded size is the size of the buffer and at most \<open>2^30\<close>
  (the program uses 100 MB), the indices are inside the buffer and the vacuum slot is free.
\<close>

definition queue_used :: "shm \<Rightarrow> int" where
  "queue_used s = used (sh_size s) (head_idx s) (tail_idx s)"

definition queue_ok :: "shm \<Rightarrow> bool" where
  "queue_ok s \<longleftrightarrow> ring_ok (sh_size s) (queue_buff s) \<and> idx_ok (sh_size s) (head_idx s) \<and>
     idx_ok (sh_size s) (tail_idx s) \<and> queue_used s + QUEUE_VACUUM_SLOT \<le> sh_size s"

definition queue_holds :: "shm \<Rightarrow> byte list list \<Rightarrow> bool" where
  "queue_holds s ms \<longleftrightarrow> queue_ok s \<and>
     ring_read (queue_buff s) (nat (head_idx s)) (nat (queue_used s)) = frames ms"

text \<open>Whether the code has room for a message of \<open>len\<close> bytes behind the messages \<open>ms\<close>.\<close>

definition queue_fits :: "shm \<Rightarrow> byte list list \<Rightarrow> int \<Rightarrow> bool" where
  "queue_fits s ms len \<longleftrightarrow>
     int (length (frames ms)) + 4 + len + QUEUE_VACUUM_SLOT \<le> sh_size s"

lemma queue_okD:
  assumes "queue_ok s"
  shows "ring_ok (sh_size s) (queue_buff s)" and "idx_ok (sh_size s) (head_idx s)"
    and "idx_ok (sh_size s) (tail_idx s)" and "queue_used s + 8 \<le> sh_size s" and "0 \<le> queue_used s"
  using assms used_range [of "sh_size s" "queue_buff s"]
  by (auto simp: queue_ok_def QUEUE_VACUUM_SLOT_def queue_used_def)

lemma queue_holds_used: "queue_holds s ms \<Longrightarrow> queue_used s = int (length (frames ms))"
proof -
  assume h: "queue_holds s ms"
  then have "length (ring_read (queue_buff s) (nat (head_idx s)) (nat (queue_used s))) =
      length (frames ms)"
    by (simp only: queue_holds_def)
  moreover have "0 \<le> queue_used s" using h queue_okD(5) by (simp add: queue_holds_def)
  ultimately show ?thesis by simp
qed

text \<open>Appending a written frame, at the level of the ring: the invariant and the content.\<close>

lemma queue_holds_write:
  assumes holds: "queue_holds s ms" and fits: "queue_fits s ms (int (length m))"
  shows "queue_holds (s\<lparr>queue_buff := ring_write (queue_buff s) (nat (tail_idx s)) (frame m),
      tail_idx := (tail_idx s + (4 + int (length m))) mod sh_size s\<rparr>) (ms @ [m])"
    (is "queue_holds ?s _")
proof -
  let ?b = "queue_buff s" and ?h = "nat (head_idx s)" and ?u = "queue_used s"
  from holds have ok: "queue_ok s"
    and data: "ring_read ?b ?h (nat ?u) = frames ms" by (simp_all add: queue_holds_def)
  note o = queue_okD [OF ok]
  have u: "?u = int (length (frames ms))" using holds by (rule queue_holds_used)
  have room: "?u + (4 + int (length m)) + 8 \<le> sh_size s"
    using fits by (simp add: u queue_fits_def QUEUE_VACUUM_SLOT_def)
  have u': "queue_used ?s = ?u + (4 + int (length m))"
    using room used_advance_tail [OF o(1), of "4 + int (length m)" "head_idx s" "tail_idx s"]
    by (simp add: queue_used_def)
  have tail: "nat (tail_idx s) = (?h + nat ?u) mod length ?b"
    using tail_is_head_plus_used [OF o(1-3)] by (simp add: queue_used_def)
  let ?b' = "ring_write ?b (?h + nat ?u) (frame m)"
  have b': "ring_write ?b (nat (tail_idx s)) (frame m) = ?b'"
    unfolding tail by (rule ring_write_mod)
  have len: "nat ?u + length (frame m) \<le> length ?b"
    using room o by (simp add: ring_ok_def)
  have "ring_read ?b' ?h (nat ?u + length (frame m)) = frames ms @ frame m"
    using len by (simp only: ring_read_add ring_read_write_other [OF len] data
        ring_read_write_same [OF add_leD2 [OF len]])
  moreover have "nat (queue_used ?s) = nat ?u + length (frame m)"
    using o(5) by (simp add: u' nat_add_distrib)
  moreover have "queue_ok ?s"
    using o room u' by (simp add: queue_ok_def QUEUE_VACUUM_SLOT_def)
  ultimately show ?thesis by (simp add: queue_holds_def b')
qed

lemma queue_holds_drop:
  assumes holds: "queue_holds s (m # ms)"
  shows "queue_holds (s\<lparr>head_idx := (head_idx s + (4 + int (length m))) mod sh_size s\<rparr>) ms"
    (is "queue_holds ?s _")
proof -
  let ?b = "queue_buff s" and ?h = "nat (head_idx s)" and ?u = "queue_used s"
  from holds have ok: "queue_ok s"
    and data: "ring_read ?b ?h (nat ?u) = frame m @ frames ms" by (simp_all add: queue_holds_def)
  note o = queue_okD [OF ok]
  have u: "?u = 4 + int (length m) + int (length (frames ms))"
    using queue_holds_used [OF holds] by simp
  have u': "queue_used ?s = ?u - (4 + int (length m))"
    using u used_advance_head [OF o(1), of "4 + int (length m)" "head_idx s" "tail_idx s"]
    by (simp add: queue_used_def)
  have h': "nat ((head_idx s + (4 + int (length m))) mod sh_size s) = (?h + (4 + length m)) mod length ?b"
    using o nat_mod_length [of "head_idx s + (4 + int (length m))" ?b]
    by (simp add: idx_ok_def ring_ok_def nat_add_distrib)
  have "nat ?u = (4 + length m) + length (frames ms)" using u by simp
  with data have "ring_read ?b (?h + (4 + length m)) (length (frames ms)) = frames ms"
    by (simp add: ring_read_add [of ?b ?h "4 + length m"])
  moreover have "nat (queue_used ?s) = length (frames ms)" using u u' by simp
  moreover have "queue_ok ?s" using o u u' by (simp add: queue_ok_def QUEUE_VACUUM_SLOT_def)
  ultimately show ?thesis by (simp add: queue_holds_def h' ring_read_mod)
qed

subsection \<open>The operations\<close>

lemma SendMsg_refines:
  assumes holds: "queue_holds s ms" and len: "0 \<le> len" "len < 2 ^ 32" "len \<le> int (length msg)"
  shows "\<exists>s'. SendMsg (Some s) (Some msg) len = Some (queue_fits s ms len, Some s') \<and>
    sh_size s' = sh_size s \<and> (\<not> queue_fits s ms len \<longrightarrow> s' = s) \<and>
    queue_holds s' (if queue_fits s ms len then ms @ [take (nat len) msg] else ms)"
proof -
  from holds have ok: "queue_ok s" by (simp add: queue_holds_def)
  note o = queue_okD [OF ok]
  have u: "used (sh_size s) (head_idx s) (tail_idx s) = int (length (frames ms))"
    using queue_holds_used [OF holds] by (simp add: queue_used_def)
  note send = send_copy_ring [OF o(1-3) _ len]
  show ?thesis
  proof (cases "queue_fits s ms len")
    case True
    then have "queue_fits s ms (int (length (take (nat len) msg)))" using len by (simp add: min_absorb2)
    from queue_holds_write [OF holds this] True o(4) len show ?thesis
      by (simp add: SendMsg_def send u queue_used_def queue_fits_def QUEUE_VACUUM_SLOT_def min_absorb2)
  next
    case False
    then show ?thesis using holds o(4)
      by (simp add: SendMsg_def send u queue_used_def queue_fits_def QUEUE_VACUUM_SLOT_def)
  qed
qed

lemma RecvMsg_empty:
  assumes "queue_holds s []"
  shows "RecvMsg (Some s) False l = Some (False, 0, [], Some s)"
proof -
  have "used (sh_size s) (head_idx s) (tail_idx s) = 0"
    using queue_holds_used [OF assms] by (simp add: queue_used_def)
  then have "head_idx s = tail_idx s"
    using assms queue_okD(2,3) [of s]
    by (auto simp: queue_holds_def used_cases idx_ok_def split: if_splits)
  then show ?thesis by (simp add: RecvMsg_def)
qed

lemma RecvMsg_refines:
  assumes "queue_holds s (m # ms)"
  shows "\<exists>s'. RecvMsg (Some s) False l = Some (True, int (length m), m, Some s') \<and>
    sh_size s' = sh_size s \<and> queue_holds s' ms"
proof -
  from assms have ok: "queue_ok s" by (simp add: queue_holds_def)
  note o = queue_okD [OF ok]
  have "ring_read (queue_buff s) (nat (head_idx s))
      (nat (used (sh_size s) (head_idx s) (tail_idx s))) = frame m @ frames ms"
    using assms by (simp add: queue_holds_def queue_used_def)
  from recv_copy_frame [OF o(1-3) this] queue_holds_drop [OF assms] show ?thesis
    by (simp add: RecvMsg_def)
qed

lemma Attach_init_empty:
  assumes "20 \<le> n" and "n \<le> 2 ^ 30" and "int (length (queue_buff buf)) = n - 12"
  shows "\<exists>s. Attach q buf n True = Some s \<and> sh_size s = n - 12 \<and> queue_holds s []"
  using assms
  by (simp add: Attach_def sizeof_QueueHead_def QUEUE_VACUUM_SLOT_def cint queue_holds_def
      queue_ok_def queue_used_def used_def ring_ok_def idx_ok_def)

subsection \<open>The interface of a bounded FIFO\<close>

text \<open>
  What a user of the queue relies on: \<open>send\<close> answers whether the message went in and appends it,
  \<open>recv\<close> delivers the oldest message, and neither faults. \<open>chan_run\<close> runs a list of calls and
  collects the accepted and the delivered messages.
\<close>

datatype 'm chan_op = ChanSend 'm | ChanRecv

fun chan_run ::
  "('q \<Rightarrow> 'm \<Rightarrow> (bool \<times> 'q) option) \<Rightarrow> ('q \<Rightarrow> ('m option \<times> 'q) option) \<Rightarrow>
   'q \<Rightarrow> 'm chan_op list \<Rightarrow> ('m list \<times> 'm list \<times> 'q) option" where
  "chan_run send recv q [] = Some ([], [], q)"
| "chan_run send recv q (ChanSend m # ops) = do {
     (ok, q1) \<leftarrow> send q m;
     (ss, rs, q2) \<leftarrow> chan_run send recv q1 ops;
     Some (if ok then m # ss else ss, rs, q2) }"
| "chan_run send recv q (ChanRecv # ops) = do {
     (r, q1) \<leftarrow> recv q;
     (ss, rs, q2) \<leftarrow> chan_run send recv q1 ops;
     Some (ss, (case r of None \<Rightarrow> rs | Some m \<Rightarrow> m # rs), q2) }"

definition sendable :: "('m \<Rightarrow> bool) \<Rightarrow> 'm chan_op list \<Rightarrow> bool" where
  "sendable valid ops \<longleftrightarrow> (\<forall>m. ChanSend m \<in> set ops \<longrightarrow> valid m)"

locale fifo =
  fixes send :: "'q \<Rightarrow> 'm \<Rightarrow> (bool \<times> 'q) option"
    and recv :: "'q \<Rightarrow> ('m option \<times> 'q) option"
    and holds :: "'q \<Rightarrow> 'm list \<Rightarrow> bool"
    and valid :: "'m \<Rightarrow> bool"
  assumes send_law: "holds q ms \<Longrightarrow> valid m \<Longrightarrow>
      \<exists>ok q'. send q m = Some (ok, q') \<and> holds q' (if ok then ms @ [m] else ms)"
    and recv_nil_law: "holds q [] \<Longrightarrow> \<exists>q'. recv q = Some (None, q') \<and> holds q' []"
    and recv_cons_law: "holds q (m # ms) \<Longrightarrow> \<exists>q'. recv q = Some (Some m, q') \<and> holds q' ms"
begin

lemma run_fifo:
  "holds q ms \<Longrightarrow> sendable valid ops \<Longrightarrow>
   \<exists>ss rs q' ms'. chan_run send recv q ops = Some (ss, rs, q') \<and> holds q' ms' \<and> ms @ ss = rs @ ms'"
proof (induction ops arbitrary: q ms)
  case Nil
  then show ?case by simp
next
  case (Cons a ops)
  show ?case
  proof (cases a)
    case (ChanSend m)
    then have "valid m" and rest: "sendable valid ops" using Cons.prems by (auto simp: sendable_def)
    from send_law [OF Cons.prems(1) this(1)] obtain ok q1
      where q1: "send q m = Some (ok, q1)" "holds q1 (if ok then ms @ [m] else ms)" by blast
    from Cons.IH [OF q1(2) rest] obtain ss rs q' ms'
      where "chan_run send recv q1 ops = Some (ss, rs, q')" "holds q' ms'"
        "(if ok then ms @ [m] else ms) @ ss = rs @ ms'" by blast
    then show ?thesis using ChanSend q1(1) by (cases ok) auto
  next
    case ChanRecv
    have rest: "sendable valid ops" using Cons.prems by (auto simp: sendable_def)
    show ?thesis
    proof (cases ms)
      case Nil
      with recv_nil_law Cons.prems(1) obtain q1 where "recv q = Some (None, q1)" "holds q1 []" by blast
      with Cons.IH [OF this(2) rest] ChanRecv Nil show ?thesis by fastforce
    next
      case (Cons m ms1)
      with recv_cons_law Cons.prems(1) obtain q1
        where "recv q = Some (Some m, q1)" "holds q1 ms1" by blast
      with Cons.IH [OF this(2) rest] ChanRecv Cons show ?thesis by fastforce
    qed
  qed
qed

end

text \<open>The two operations with the call conventions of a user: the whole buffer is the message.\<close>

definition queue_send :: "shm \<Rightarrow> byte list \<Rightarrow> (bool \<times> shm) option" where
  "queue_send s m = do {
     (ok, q) \<leftarrow> SendMsg (Some s) (Some m) (int (length m));
     s' \<leftarrow> q;
     Some (ok, s') }"

definition queue_recv :: "shm \<Rightarrow> (byte list option \<times> shm) option" where
  "queue_recv s = do {
     (ok, len, d, q) \<leftarrow> RecvMsg (Some s) False 0;
     s' \<leftarrow> q;
     Some (if ok then Some d else None, s') }"

interpretation mq: fifo queue_send queue_recv queue_holds "\<lambda>m. int (length m) < 2 ^ 32"
proof
  fix s ms and m :: "byte list"
  assume "queue_holds s ms" and "int (length m) < 2 ^ 32"
  then obtain s' where "SendMsg (Some s) (Some m) (int (length m)) =
        Some (queue_fits s ms (int (length m)), Some s')"
      and "queue_holds s' (if queue_fits s ms (int (length m)) then ms @ [m] else ms)"
    using SendMsg_refines [of s ms "int (length m)" m] by (auto split: if_splits)
  then show "\<exists>ok s'. queue_send s m = Some (ok, s') \<and> queue_holds s' (if ok then ms @ [m] else ms)"
    by (simp add: queue_send_def)
next
  fix s
  assume "queue_holds s []"
  then show "\<exists>s'. queue_recv s = Some (None, s') \<and> queue_holds s' []"
    by (auto simp: queue_recv_def RecvMsg_empty)
next
  fix s m ms
  assume "queue_holds s (m # ms)"
  from RecvMsg_refines [OF this, of 0]
  show "\<exists>s'. queue_recv s = Some (Some m, s') \<and> queue_holds s' ms"
    by (auto simp: queue_recv_def)
qed

end
