(* ===== verification/QueueSpsc.thy ===== *)
theory QueueSpsc
  imports QueueProofs
begin

text \<open>
  One producer process and one consumer process on the same segment, interleaved. The segment is
  shared memory between the connection server and the zone server, without a lock, so each call is
  several steps: load both indices, copy, store one index.

  \<^item> The producer's copy is torn: between its index load and its index store the buffer can be any
    byte-wise mixture of the old and the new content (\<open>torn\<close>), in any order of the bytes.
  \<^item> The loaded indices can be stale: the other side may move its own index at any time.
  \<^item> \<open>sent\<close> and \<open>delivered\<close> record the messages whose call returned \<open>true\<close>.
  \<^item> Memory is sequentially consistent: the code has no barriers, and reordering by the hardware or
    the compiler is outside the model.
  The copies are \<open>send_copy\<close> and \<open>recv_copy\<close>, the bodies of \<open>SendMsg\<close> and \<open>RecvMsg\<close>; a fault of
  one of them is a state of its own, shown unreachable.
\<close>

datatype producer =
    PIdle
  | PLoaded "byte list" int int
  | PWriting "byte list" "byte list" "byte list" int
  | PFault

datatype consumer =
    CIdle
  | CLoaded int int
  | CCopied "byte list" int
  | CFault

record spsc =
  seg :: shm
  prod :: producer
  cons :: consumer
  sent :: "byte list list"
  delivered :: "byte list list"

definition torn :: "byte list \<Rightarrow> byte list \<Rightarrow> byte list \<Rightarrow> bool" where
  "torn b b' c \<longleftrightarrow> length b' = length b \<and> length c = length b \<and>
     (\<forall>i<length b. c ! i = b ! i \<or> c ! i = b' ! i)"

abbreviation set_buff :: "shm \<Rightarrow> byte list \<Rightarrow> shm" where
  "set_buff s b \<equiv> s\<lparr>queue_buff := b\<rparr>"

inductive spsc_step :: "spsc \<Rightarrow> spsc \<Rightarrow> bool" where
  p_load: "prod x = PIdle \<Longrightarrow> int (length m) < 2 ^ 32 \<Longrightarrow>
    spsc_step x (x\<lparr>prod := PLoaded m (head_idx (seg x)) (tail_idx (seg x))\<rparr>)"
| p_reject: "prod x = PLoaded m h t \<Longrightarrow>
    send_copy (sh_size (seg x)) h t (queue_buff (seg x)) m (int (length m)) = Some None \<Longrightarrow>
    spsc_step x (x\<lparr>prod := PIdle\<rparr>)"
| p_begin: "prod x = PLoaded m h t \<Longrightarrow>
    send_copy (sh_size (seg x)) h t (queue_buff (seg x)) m (int (length m)) = Some (Some (b', t')) \<Longrightarrow>
    spsc_step x (x\<lparr>prod := PWriting m (queue_buff (seg x)) b' t'\<rparr>)"
| p_fault: "prod x = PLoaded m h t \<Longrightarrow>
    send_copy (sh_size (seg x)) h t (queue_buff (seg x)) m (int (length m)) = None \<Longrightarrow>
    spsc_step x (x\<lparr>prod := PFault\<rparr>)"
| p_tear: "prod x = PWriting m b b' t' \<Longrightarrow> torn b b' c \<Longrightarrow>
    spsc_step x (x\<lparr>seg := set_buff (seg x) c\<rparr>)"
| p_commit: "prod x = PWriting m b b' t' \<Longrightarrow> queue_buff (seg x) = b' \<Longrightarrow>
    spsc_step x (x\<lparr>seg := (seg x)\<lparr>tail_idx := t'\<rparr>, prod := PIdle, sent := sent x @ [m]\<rparr>)"
| c_load: "cons x = CIdle \<Longrightarrow>
    spsc_step x (x\<lparr>cons := CLoaded (head_idx (seg x)) (tail_idx (seg x))\<rparr>)"
| c_none: "cons x = CLoaded h t \<Longrightarrow>
    recv_copy (sh_size (seg x)) h t (queue_buff (seg x)) = Some (RecvNone l) \<Longrightarrow>
    spsc_step x (x\<lparr>cons := CIdle\<rparr>)"
| c_copy: "cons x = CLoaded h t \<Longrightarrow>
    recv_copy (sh_size (seg x)) h t (queue_buff (seg x)) = Some (RecvOk l d h') \<Longrightarrow>
    spsc_step x (x\<lparr>cons := CCopied d h'\<rparr>)"
| c_fault: "cons x = CLoaded h t \<Longrightarrow>
    recv_copy (sh_size (seg x)) h t (queue_buff (seg x)) = None \<Longrightarrow>
    spsc_step x (x\<lparr>cons := CFault\<rparr>)"
| c_commit: "cons x = CCopied d h' \<Longrightarrow>
    spsc_step x (x\<lparr>seg := (seg x)\<lparr>head_idx := h'\<rparr>, cons := CIdle,
      delivered := delivered x @ [d]\<rparr>)"

definition spsc_init :: "shm \<Rightarrow> spsc" where
  "spsc_init s = \<lparr>seg = s, prod = PIdle, cons = CIdle, sent = [], delivered = []\<rparr>"

inductive spsc_reach :: "shm \<Rightarrow> spsc \<Rightarrow> bool" for s0 where
  start: "spsc_reach s0 (spsc_init s0)"
| step: "spsc_reach s0 x \<Longrightarrow> spsc_step x y \<Longrightarrow> spsc_reach s0 y"

subsection \<open>The invariant\<close>

text \<open>
  The producer's loaded head may lag behind: it then sees less room than there is. The consumer's
  loaded tail may lag behind: it then sees a prefix of the queue.
\<close>

fun prod_ok :: "shm \<Rightarrow> byte list list \<Rightarrow> producer \<Rightarrow> bool" where
  "prod_ok s ms PIdle = True"
| "prod_ok s ms (PLoaded m h t) =
     (int (length m) < 2 ^ 32 \<and> t = tail_idx s \<and> idx_ok (sh_size s) h \<and>
      queue_used s \<le> used (sh_size s) h t \<and> used (sh_size s) h t + 8 \<le> sh_size s)"
| "prod_ok s ms (PWriting m b b' t') =
     (torn b b' (queue_buff s) \<and> b' = ring_write b (nat (tail_idx s)) (frame m) \<and>
      t' = (tail_idx s + (4 + int (length m))) mod sh_size s \<and>
      queue_fits s ms (int (length m)) \<and> queue_holds (set_buff s b) ms \<and>
      queue_holds (set_buff s b') ms)"
| "prod_ok s ms PFault = False"

fun cons_ok :: "shm \<Rightarrow> byte list list \<Rightarrow> consumer \<Rightarrow> bool" where
  "cons_ok s ms CIdle = True"
| "cons_ok s ms (CLoaded h t) =
     (h = head_idx s \<and> idx_ok (sh_size s) t \<and>
      (\<exists>ms1 ms2. ms = ms1 @ ms2 \<and> used (sh_size s) h t = int (length (frames ms1))))"
| "cons_ok s ms (CCopied d h') =
     (\<exists>ms'. ms = d # ms' \<and> h' = (head_idx s + (4 + int (length d))) mod sh_size s)"
| "cons_ok s ms CFault = False"

definition spsc_inv :: "spsc \<Rightarrow> bool" where
  "spsc_inv x \<longleftrightarrow> (\<exists>ms. queue_holds (seg x) ms \<and> sent x = delivered x @ ms \<and>
     prod_ok (seg x) ms (prod x) \<and> cons_ok (seg x) ms (cons x))"

lemma spsc_invI:
  "queue_holds (seg x) ms \<Longrightarrow> sent x = delivered x @ ms \<Longrightarrow> prod_ok (seg x) ms (prod x) \<Longrightarrow>
   cons_ok (seg x) ms (cons x) \<Longrightarrow> spsc_inv x"
  by (auto simp: spsc_inv_def)

lemma queue_used_set_buff [simp]: "queue_used (set_buff s b) = queue_used s"
  by (simp add: queue_used_def)

lemma queue_fits_set_buff [simp]: "queue_fits (set_buff s b) ms l = queue_fits s ms l"
  by (simp add: queue_fits_def)

lemma set_buff_head [simp]: "(set_buff s b)\<lparr>head_idx := h\<rparr> = set_buff (s\<lparr>head_idx := h\<rparr>) b"
  by simp

lemma torn_refl [simp]: "length b' = length b \<Longrightarrow> torn b b' b"
  by (simp add: torn_def)

text \<open>Where the old and the new buffer agree, so does every mixture of them.\<close>

lemma queue_holds_torn:
  assumes old: "queue_holds (set_buff s b) ms" and new: "queue_holds (set_buff s b') ms"
    and t: "torn b b' c"
  shows "queue_holds (set_buff s c) ms"
proof -
  let ?h = "nat (head_idx s)" and ?n = "nat (queue_used s)"
  have eq: "ring_read b ?h ?n = ring_read b' ?h ?n" using old new by (simp add: queue_holds_def)
  have ne: "0 < length b" using old ring_ok_pos queue_okD(1) by (force simp: queue_holds_def)
  have "ring_read c ?h ?n = ring_read b ?h ?n"
  proof (rule nth_equalityI)
    fix i assume "i < length (ring_read c ?h ?n)"
    then have i: "i < ?n" by simp
    let ?j = "(?h + i) mod length b"
    have "ring_read b ?h ?n ! i = ring_read b' ?h ?n ! i" by (simp add: eq)
    then have "b ! ?j = b' ! ?j" using i t by (simp add: ring_read_def torn_def)
    moreover have "c ! ?j = b ! ?j \<or> c ! ?j = b' ! ?j" using t ne by (simp add: torn_def)
    ultimately show "ring_read c ?h ?n ! i = ring_read b ?h ?n ! i"
      using i t by (auto simp: ring_read_def torn_def)
  qed simp
  with old t show ?thesis by (auto simp: queue_holds_def queue_ok_def ring_ok_def torn_def queue_used_def)
qed

text \<open>What the two copies do on loaded, possibly stale, indices.\<close>

lemma send_copy_stale:
  assumes "queue_holds s ms" and p: "prod_ok s ms (PLoaded m h t)"
  shows "send_copy (sh_size s) h t (queue_buff s) m (int (length m)) =
    Some (if used (sh_size s) h t + 4 + int (length m) + 8 \<le> sh_size s
      then Some (ring_write (queue_buff s) (nat t) (frame m), (t + (4 + int (length m))) mod sh_size s)
      else None)"
proof -
  have o: "ring_ok (sh_size s) (queue_buff s)" "idx_ok (sh_size s) (tail_idx s)"
    using assms queue_okD by (auto simp: queue_holds_def)
  show ?thesis
    using p o(2) by (subst send_copy_ring [OF o(1)]) auto
qed

lemma recv_copy_stale:
  assumes holds: "queue_holds s ms" and c: "cons_ok s ms (CLoaded h t)"
  shows "(h = t \<and> recv_copy (sh_size s) h t (queue_buff s) = Some (RecvNone 0)) \<or>
    (\<exists>m ms'. ms = m # ms' \<and> recv_copy (sh_size s) h t (queue_buff s) =
       Some (RecvOk (int (length m)) m ((h + (4 + int (length m))) mod sh_size s)))"
proof -
  from c obtain ms1 ms2 where ms: "ms = ms1 @ ms2" and h: "h = head_idx s"
    and t: "idx_ok (sh_size s) t" and u: "used (sh_size s) h t = int (length (frames ms1))"
    by auto
  have o: "ring_ok (sh_size s) (queue_buff s)" "idx_ok (sh_size s) h"
    using holds queue_okD h by (auto simp: queue_holds_def)
  show ?thesis
  proof (cases ms1)
    case Nil
    then have "h = t" using u o t by (auto simp: used_cases idx_ok_def split: if_splits)
    then show ?thesis by simp
  next
    case (Cons m ms1')
    have "nat (queue_used s) = length (frames ms1) + length (frames ms2)"
      using queue_holds_used [OF holds] ms by simp
    then have "ring_read (queue_buff s) (nat h) (nat (used (sh_size s) h t)) = frames ms1"
      using holds ms h u by (simp add: queue_holds_def ring_read_add)
    then have "ring_read (queue_buff s) (nat h) (nat (used (sh_size s) h t)) = frame m @ frames ms1'"
      using Cons by simp
    from recv_copy_frame [OF o t this] show ?thesis using ms Cons by simp
  qed
qed

subsection \<open>Every step keeps the invariant\<close>

text \<open>A consumer's store moves the head by a whole frame of the queue, which stays in the ring.\<close>

lemma prod_ok_pop:
  assumes holds: "queue_holds s (d # ms)" and p: "prod_ok s (d # ms) pr"
  shows "prod_ok (s\<lparr>head_idx := (head_idx s + (4 + int (length d))) mod sh_size s\<rparr>) ms pr"
    (is "prod_ok ?s _ _")
proof (cases pr)
  case (PLoaded m h t)
  have o: "ring_ok (sh_size s) (queue_buff s)" using holds queue_okD by (auto simp: queue_holds_def)
  have "4 + int (length d) \<le> queue_used s" using queue_holds_used [OF holds] by simp
  then have "queue_used ?s = queue_used s - (4 + int (length d))"
    using used_advance_head [OF o] by (simp add: queue_used_def)
  then show ?thesis using p PLoaded by auto
next
  case (PWriting m b b' t')
  have old: "queue_holds (set_buff s b) (d # ms)" and new: "queue_holds (set_buff s b') (d # ms)"
    using p PWriting by auto
  have "queue_holds (set_buff ?s b) ms" "queue_holds (set_buff ?s b') ms"
    using queue_holds_drop [OF old] queue_holds_drop [OF new] by simp_all
  moreover have "queue_fits ?s ms (int (length m))" using p PWriting by (simp add: queue_fits_def)
  ultimately show ?thesis using p PWriting by auto
qed (use p in simp_all)

lemma cons_ok_push: "cons_ok s ms c \<Longrightarrow>
    cons_ok (s\<lparr>tail_idx := t\<rparr>) (ms @ [m]) c"
  by (cases c) (auto, metis append.assoc)

lemma cons_ok_set_buff [simp]: "cons_ok (set_buff s b) ms c = cons_ok s ms c"
  by (cases c) simp_all

lemma begin_ok:
  assumes holds: "queue_holds s ms" and p: "prod_ok s ms (PLoaded m h t)"
    and send: "send_copy (sh_size s) h t (queue_buff s) m (int (length m)) = Some (Some (b', t'))"
  shows "prod_ok s ms (PWriting m (queue_buff s) b' t')"
proof -
  let ?b = "queue_buff s"
  have room: "used (sh_size s) h t + 4 + int (length m) + 8 \<le> sh_size s"
    and b': "b' = ring_write ?b (nat t) (frame m)"
    and t': "t' = (t + (4 + int (length m))) mod sh_size s"
    using send send_copy_stale [OF holds p] by (auto split: if_splits)
  have fits: "queue_fits s ms (int (length m))"
    using room p queue_holds_used [OF holds] by (auto simp: queue_fits_def QUEUE_VACUUM_SLOT_def)
  have o: "queue_ok s" using holds by (simp add: queue_holds_def)
  note q = queue_okD [OF o]
  have tail: "nat (tail_idx s) = (nat (head_idx s) + nat (queue_used s)) mod length ?b"
    using tail_is_head_plus_used [OF q(1-3)] by (simp add: queue_used_def)
  have "nat (queue_used s) + length (frame m) \<le> length ?b"
    using room p q(1,5) by (auto simp: ring_ok_def)
  from ring_read_write_other [OF this, of "nat (head_idx s)"]
  have "ring_read b' (nat (head_idx s)) (nat (queue_used s)) =
      ring_read ?b (nat (head_idx s)) (nat (queue_used s))"
    using p by (simp add: b' tail ring_write_mod)
  then have "queue_holds (set_buff s b') ms"
    using holds by (simp add: queue_holds_def queue_ok_def b')
  then show ?thesis using p holds fits b' t' by simp
qed

lemma spsc_step_inv: "spsc_step x y \<Longrightarrow> spsc_inv x \<Longrightarrow> spsc_inv y"
proof (induction rule: spsc_step.induct)
  case (p_load x m)
  then obtain ms where h: "queue_holds (seg x) ms" and r: "sent x = delivered x @ ms"
      "cons_ok (seg x) ms (cons x)"
    by (auto simp: spsc_inv_def)
  have o: "queue_ok (seg x)" using h by (simp add: queue_holds_def)
  show ?case using h r p_load queue_okD [OF o] by (intro spsc_invI) (auto simp: queue_used_def)
next
  case (p_reject x m h t)
  then show ?case by (auto simp: spsc_inv_def)
next
  case (p_begin x m h t b' t')
  then obtain ms where h: "queue_holds (seg x) ms" and r: "sent x = delivered x @ ms"
      "cons_ok (seg x) ms (cons x)" and p: "prod_ok (seg x) ms (PLoaded m h t)"
    by (auto simp: spsc_inv_def)
  show ?case using h r begin_ok [OF h p p_begin(2)] by (intro spsc_invI) auto
next
  case (p_fault x m h t)
  then obtain ms where "queue_holds (seg x) ms" "prod_ok (seg x) ms (PLoaded m h t)"
    by (auto simp: spsc_inv_def)
  from send_copy_stale [OF this] p_fault(2) show ?case by simp
next
  case (p_tear x m b b' t' c)
  then obtain ms where h: "queue_holds (seg x) ms" and r: "sent x = delivered x @ ms"
      "cons_ok (seg x) ms (cons x)" and p: "prod_ok (seg x) ms (PWriting m b b' t')"
    by (auto simp: spsc_inv_def)
  have "queue_holds (set_buff (seg x) c) ms"
    by (rule queue_holds_torn [where b = b and b' = b']) (use p p_tear(2) in auto)
  then show ?case using r p p_tear by (intro spsc_invI) auto
next
  case (p_commit x m b b' t')
  then obtain ms where r: "sent x = delivered x @ ms" "cons_ok (seg x) ms (cons x)"
      and p: "prod_ok (seg x) ms (PWriting m b b' t')"
    by (auto simp: spsc_inv_def)
  have "queue_holds ((seg x)\<lparr>queue_buff := b', tail_idx := t'\<rparr>) (ms @ [m])"
    using p queue_holds_write [of "set_buff (seg x) b" ms m] by simp
  then have "queue_holds ((seg x)\<lparr>tail_idx := t'\<rparr>) (ms @ [m])"
    using p_commit(2) by (auto simp del: shm.surjective)
  then show ?case using r cons_ok_push by (intro spsc_invI [of _ "ms @ [m]"]) auto
next
  case (c_load x)
  then obtain ms where h: "queue_holds (seg x) ms" and r: "sent x = delivered x @ ms"
      "prod_ok (seg x) ms (prod x)"
    by (auto simp: spsc_inv_def)
  have o: "queue_ok (seg x)" using h by (simp add: queue_holds_def)
  have "\<exists>ms1 ms2. ms = ms1 @ ms2 \<and> queue_used (seg x) = int (length (frames ms1))"
    by (intro exI [of _ ms] exI [of _ "[]"]) (simp add: queue_holds_used [OF h])
  then have "cons_ok (seg x) ms (CLoaded (head_idx (seg x)) (tail_idx (seg x)))"
    using queue_okD(3) [OF o] by (simp add: queue_used_def)
  then show ?case using h r by (intro spsc_invI) auto
next
  case (c_none x h t l)
  then show ?case by (auto simp: spsc_inv_def)
next
  case (c_copy x h t l d h')
  then obtain ms where h: "queue_holds (seg x) ms" and r: "sent x = delivered x @ ms"
      "prod_ok (seg x) ms (prod x)" and c: "cons_ok (seg x) ms (CLoaded h t)"
    by (auto simp: spsc_inv_def)
  from recv_copy_stale [OF h c] c_copy(2) c have "cons_ok (seg x) ms (CCopied d h')" by auto
  then show ?case using h r by (intro spsc_invI) auto
next
  case (c_fault x h t)
  then obtain ms where "queue_holds (seg x) ms" "cons_ok (seg x) ms (CLoaded h t)"
    by (auto simp: spsc_inv_def)
  from recv_copy_stale [OF this] c_fault(2) show ?case by auto
next
  case (c_commit x d h')
  then obtain ms ms' where h: "queue_holds (seg x) ms" and r: "sent x = delivered x @ ms"
      and p: "prod_ok (seg x) ms (prod x)" and c: "ms = d # ms'"
      "h' = (head_idx (seg x) + (4 + int (length d))) mod sh_size (seg x)"
    by (auto simp: spsc_inv_def)
  show ?case
    using queue_holds_drop [of "seg x" d ms'] prod_ok_pop [of "seg x" d ms' "prod x"] h r p c
    by (intro spsc_invI [of _ ms']) auto
qed

lemma spsc_reach_inv:
  assumes "queue_holds s0 []" and "spsc_reach s0 x"
  shows "spsc_inv x"
  using assms(2)
proof (induction rule: spsc_reach.induct)
  case start
  show ?case using assms(1) by (intro spsc_invI [of _ "[]"]) (simp_all add: spsc_init_def)
next
  case (step x y)
  then show ?case by (blast intro: spsc_step_inv)
qed

end
