(* ===== verification/QueueProps.thy ===== *)
theory QueueProps
  imports QueueSpsc
begin

text \<open>
  The properties of the message queue: the refinement of a sequence of messages by the ring
  buffer, the FIFO behaviour of arbitrary runs, the emptiness test, and the lock-free protocol of
  one producer and one consumer.
\<close>

lemmas queue_eval = queue_holds_def queue_ok_def queue_used_def used_def ring_ok_def idx_ok_def
  QUEUE_VACUUM_SLOT_def

definition ring40 :: "int \<Rightarrow> int \<Rightarrow> byte list \<Rightarrow> shm" where
  "ring40 h t b = \<lparr>head_idx = h, tail_idx = t, sh_size = 40, queue_buff = b\<rparr>"

text \<open>A queue whose only message wraps around the end of the buffer.\<close>

definition wrapped :: shm where
  "wrapped = ring40 36 3 ([1, 2, 3] @ replicate 33 0 @ [3, 0, 0, 0])"

lemma ring40_empty: "queue_holds (ring40 36 36 (replicate 40 0)) []"
  by (simp add: queue_eval ring40_def)

lemma wrapped_frames: "ring_read (queue_buff wrapped) 36 7 = frames [[1, 2, 3]]"
  by code_simp

lemma wrapped_holds: "queue_holds wrapped [[1, 2, 3]]"
  using wrapped_frames by (simp add: queue_eval wrapped_def ring40_def)

text \<open>C2. \<open>SendMsg\<close> refines appending to a list of messages: it never faults, it accepts the first
  \<open>len\<close> bytes exactly when frame and vacuum slot fit behind the queued frames, appends them then,
  and leaves the segment as it was otherwise. This holds at every position of the ring, for
  messages that wrap around its end included.\<close>
theorem SendMsg_appends:
  assumes "queue_holds s ms" and "0 \<le> len" "len < 2 ^ 32" "len \<le> int (length msg)"
  shows "\<exists>s'. SendMsg (Some s) (Some msg) len = Some (queue_fits s ms len, Some s') \<and>
    sh_size s' = sh_size s \<and> (\<not> queue_fits s ms len \<longrightarrow> s' = s) \<and>
    queue_holds s' (if queue_fits s ms len then ms @ [take (nat len) msg] else ms)"
  by (rule SendMsg_refines [OF assms])

theorem SendMsg_appends_witness:
  "\<exists>s'. SendMsg (Some (ring40 36 36 (replicate 40 0))) (Some [1, 2, 3, 4]) 3 = Some (True, Some s') \<and>
     queue_holds s' [[1, 2, 3]]"
  using SendMsg_appends [OF ring40_empty, of 3 "[1, 2, 3, 4]"]
  by (auto simp: queue_fits_def QUEUE_VACUUM_SLOT_def ring40_def numeral_eq_Suc)

text \<open>C3. \<open>RecvMsg\<close> refines taking the oldest message: on an empty queue it answers \<open>false\<close> and
  changes nothing; otherwise it delivers exactly the bytes that were sent, with their length, and
  leaves the younger messages.\<close>
theorem RecvMsg_takes_oldest:
  assumes "queue_holds s ms"
  shows "case ms of
      [] \<Rightarrow> RecvMsg (Some s) False l = Some (False, 0, [], Some s)
    | m # ms' \<Rightarrow> \<exists>s'. RecvMsg (Some s) False l = Some (True, int (length m), m, Some s') \<and>
        queue_holds s' ms'"
proof (cases ms)
  case Nil
  then show ?thesis using RecvMsg_empty [of s l] assms by simp
next
  case (Cons m ms')
  then show ?thesis using RecvMsg_refines [of s m ms' l] assms by auto
qed

theorem RecvMsg_takes_oldest_witness:
  "\<exists>s'. RecvMsg (Some wrapped) False 0 = Some (True, 3, [1, 2, 3], Some s') \<and> queue_holds s' []"
  using RecvMsg_takes_oldest [OF wrapped_holds, of 0] by simp

text \<open>Any run of sends and receives from a queue that holds \<open>ms\<close> finishes without a fault, and
  the messages delivered are, in order and byte for byte, a prefix of \<open>ms\<close> followed by the accepted
  messages; what is missing is still in the queue.\<close>
theorem queue_run_is_fifo:
  assumes "queue_holds s ms" and "sendable (\<lambda>m. int (length m) < 2 ^ 32) ops"
  shows "\<exists>ss rs s' ms'. chan_run queue_send queue_recv s ops = Some (ss, rs, s') \<and>
    queue_holds s' ms' \<and> ms @ ss = rs @ ms'"
  by (rule mq.run_fifo [OF assms])

theorem queue_run_is_fifo_witness:
  "\<exists>ss rs s' ms'. chan_run queue_send queue_recv wrapped [ChanSend [9], ChanRecv, ChanRecv, ChanRecv] =
     Some (ss, rs, s') \<and> queue_holds s' ms' \<and> [[1, 2, 3]] @ ss = rs @ ms'"
  using queue_run_is_fifo [OF wrapped_holds, of "[ChanSend [9], ChanRecv, ChanRecv, ChanRecv]"]
  by (auto simp: sendable_def)

text \<open>Attaching with initialisation gives an empty queue over all of the segment but its head;
  a segment without room for head and vacuum slot leaves the queue object as it was.\<close>
theorem Attach_gives_empty_queue:
  assumes "n \<le> 2 ^ 30" and "int (length (queue_buff buf)) = n - sizeof_QueueHead"
  shows "if sizeof_QueueHead + QUEUE_VACUUM_SLOT \<le> n
    then \<exists>s. Attach q buf n True = Some s \<and> sh_size s = n - sizeof_QueueHead \<and> queue_holds s []
    else Attach q buf n True = q"
proof (cases "sizeof_QueueHead + QUEUE_VACUUM_SLOT \<le> n")
  case True
  then have "20 \<le> n" by (simp add: sizeof_QueueHead_def QUEUE_VACUUM_SLOT_def)
  moreover have "int (length (queue_buff buf)) = n - 12" using assms by (simp add: sizeof_QueueHead_def)
  ultimately show ?thesis
    using True Attach_init_empty [OF _ assms(1), of buf q] by (auto simp: sizeof_QueueHead_def)
qed (simp add: Attach_def)

theorem Attach_gives_empty_queue_witness:
  "\<exists>s. Attach None (ring40 7 9 (replicate 40 5)) 52 True = Some s \<and> queue_holds s []"
  using Attach_gives_empty_queue [of 52 "ring40 7 9 (replicate 40 5)" None]
  by (auto simp: ring40_def sizeof_QueueHead_def QUEUE_VACUUM_SLOT_def)

text \<open>\<open>IsQueueEmpty\<close> compares the tail with the head plus the vacuum slot, which no empty queue
  satisfies: it answers \<open>false\<close> on every empty queue, and \<open>true\<close> only on queues that hold a
  message.\<close>
theorem IsQueueEmpty_never_on_empty:
  assumes "queue_holds s ms"
  shows "(ms = [] \<longrightarrow> IsQueueEmpty (Some s) = Some False) \<and>
    (IsQueueEmpty (Some s) = Some True \<longrightarrow> ms \<noteq> [])"
proof -
  have "IsQueueEmpty (Some s) = Some False" if "ms = []"
  proof -
    have ok: "queue_ok s" using assms by (simp add: queue_holds_def)
    note o = queue_okD [OF ok]
    have "queue_used s = 0" using queue_holds_used [OF assms] that by simp
    then have "tail_idx s = head_idx s"
      using o(2,3) by (auto simp: queue_used_def used_cases idx_ok_def split: if_splits)
    moreover have "i32 (head_idx s + 8) = head_idx s + 8"
      using o(1,2) by (intro i32_id) (auto simp: ring_ok_def idx_ok_def)
    ultimately show ?thesis by (simp add: IsQueueEmpty_def QUEUE_VACUUM_SLOT_def)
  qed
  then show ?thesis by auto
qed

theorem IsQueueEmpty_never_on_empty_witness:
  "IsQueueEmpty (Some (ring40 36 36 (replicate 40 0))) = Some False"
  using IsQueueEmpty_never_on_empty [OF ring40_empty] by simp

text \<open>C1. The lock-free protocol. In every state that one producer and one consumer can reach from a
  queue holding nothing, with every interleaving of their loads, torn byte copies and index stores:
  neither side has faulted, and the messages delivered so far are a prefix of the messages sent so
  far, the rest being in the ring.\<close>
theorem spsc_safe:
  assumes "queue_holds s0 []" and "spsc_reach s0 x"
  shows "prod x \<noteq> PFault \<and> cons x \<noteq> CFault \<and>
    (\<exists>ms. sent x = delivered x @ ms \<and> queue_holds (seg x) ms)"
proof -
  have "spsc_inv x" by (rule spsc_reach_inv [OF assms])
  then show ?thesis by (auto simp: spsc_inv_def)
qed

theorem spsc_safe_witness:
  "\<exists>x. spsc_reach (ring40 36 36 (replicate 40 0)) x \<and> cons x = CLoaded 36 36 \<and>
     prod x = PLoaded [7] 36 36 \<and> (\<exists>ms. sent x = delivered x @ ms)"
proof -
  let ?s = "ring40 36 36 (replicate 40 0)"
  let ?y = "(spsc_init ?s)\<lparr>prod := PLoaded [7] 36 36\<rparr>"
  let ?x = "?y\<lparr>cons := CLoaded 36 36\<rparr>"
  have "spsc_reach ?s ?y"
    using step [OF start p_load, of ?s "[7]"] by (simp add: spsc_init_def ring40_def)
  from step [OF this c_load] have r: "spsc_reach ?s ?x" by (simp add: spsc_init_def ring40_def)
  then show ?thesis using spsc_safe [OF ring40_empty r] by (intro exI [of _ ?x]) auto
qed

end
