(* ===== verification/RunFlags.thy ===== *)
theory RunFlags
  imports Prelude
begin

unbundle bit_operations_syntax

text \<open>
  The run flags of \<open>common/base/run_flags.{h,cc}\<close> (\<open>CRunFlag\<close>, one unsigned int) and the check of
  the zone's main loop on them, \<open>CheckRunFlags\<close> of \<open>Zone/src/system/world.cc\<close>. The four low bits
  are the start mode, the next four the quit mode; the lemmas say which bits each operation keeps.
\<close>

type_synonym flags = "32 word"

definition FLAG_START_NORMAL :: flags where "FLAG_START_NORMAL = 0x1"
definition FLAG_START_RESUME :: flags where "FLAG_START_RESUME = 0x2"
definition FLAG_QUIT_NORMAL :: flags where "FLAG_QUIT_NORMAL = 0x10"
definition FLAG_QUIT_ABNORMAL :: flags where "FLAG_QUIT_ABNORMAL = 0x20"
definition FLAG_QUIT_AFTER_KICK_ALL_USER :: flags where "FLAG_QUIT_AFTER_KICK_ALL_USER = 0x40"
definition FLAG_QUIT_COREDUMP :: flags where "FLAG_QUIT_COREDUMP = 0x80"

lemmas app_flags = FLAG_START_NORMAL_def FLAG_START_RESUME_def FLAG_QUIT_NORMAL_def
  FLAG_QUIT_ABNORMAL_def FLAG_QUIT_AFTER_KICK_ALL_USER_def FLAG_QUIT_COREDUMP_def

definition CRunFlag_new :: flags where
  "CRunFlag_new = 0"

definition GetAllFlag :: "flags \<Rightarrow> flags" where
  "GetAllFlag fl = fl"

definition ClearFlag :: "flags \<Rightarrow> flags \<Rightarrow> flags" where
  "ClearFlag fl flag = (if fl \<le> 0x80 then fl else fl AND (flag XOR 0xffff))"

definition SetFlag :: "flags \<Rightarrow> flags \<Rightarrow> flags" where
  "SetFlag fl flag =
     (if flag \<le> 0x8 then (fl AND 0xfff0) OR flag
      else if flag \<le> 0x80 then (fl AND 0xff0f) OR flag
      else fl OR flag)"

definition IsFlagSet :: "flags \<Rightarrow> flags \<Rightarrow> bool" where
  "IsFlagSet fl flag \<longleftrightarrow> fl AND flag \<noteq> 0"

definition CheckRunFlags :: "flags \<Rightarrow> flags" where
  "CheckRunFlags g_run_flags =
     (if IsFlagSet g_run_flags FLAG_QUIT_AFTER_KICK_ALL_USER then FLAG_QUIT_AFTER_KICK_ALL_USER
      else if IsFlagSet g_run_flags FLAG_QUIT_NORMAL then FLAG_QUIT_NORMAL
      else FLAG_START_NORMAL)"

subsection \<open>Bits\<close>

text \<open>A flag with a single bit is set exactly when the bit is.\<close>

lemma bit_two_power: "bit (2 ^ k :: flags) n \<longleftrightarrow> n = k \<and> k < 32"
  by (auto simp: bit_simps)

lemma IsFlagSet_bit:
  assumes "k < 32"
  shows "IsFlagSet fl (2 ^ k) \<longleftrightarrow> bit fl k"
proof
  assume "bit fl k"
  then have "bit (fl AND 2 ^ k) k" using assms by (simp add: bit_and_iff bit_two_power)
  then show "IsFlagSet fl (2 ^ k)" by (auto simp: IsFlagSet_def)
next
  assume "IsFlagSet fl (2 ^ k)"
  then have "fl AND 2 ^ k \<noteq> 0" by (simp add: IsFlagSet_def)
  then obtain n where "bit (fl AND 2 ^ k) n" by (metis bit_eqI bit_0_eq bot_apply bot_bool_def)
  then show "bit fl k" by (auto simp: bit_and_iff bit_two_power)
qed

lemma app_flags_bits:
  "FLAG_START_NORMAL = 2 ^ 0" "FLAG_START_RESUME = 2 ^ 1"
  "FLAG_QUIT_NORMAL = 2 ^ 4" "FLAG_QUIT_ABNORMAL = 2 ^ 5"
  "FLAG_QUIT_AFTER_KICK_ALL_USER = 2 ^ 6" "FLAG_QUIT_COREDUMP = 2 ^ 7"
  by (simp_all add: app_flags)

lemma bits_of_masks:
  "bit (0xfff0 :: flags) n \<longleftrightarrow> 4 \<le> n \<and> n < 16"
  "bit (0xff0f :: flags) n \<longleftrightarrow> n < 4 \<or> 8 \<le> n \<and> n < 16"
  "bit (0xffff :: flags) n \<longleftrightarrow> n < 16"
proof -
  have m: "(0xfff0 :: flags) = mask 16 AND NOT (mask 4)" "(0xffff :: flags) = mask 16"
    "(0xff0f :: flags) = mask 16 AND NOT (push_bit 4 (mask 4))"
    by (simp_all add: mask_eq_exp_minus_1)
  show "bit (0xfff0 :: flags) n \<longleftrightarrow> 4 \<le> n \<and> n < 16"
    unfolding m(1) by (auto simp: bit_simps)
  show "bit (0xff0f :: flags) n \<longleftrightarrow> n < 4 \<or> 8 \<le> n \<and> n < 16"
    unfolding m(3) by (auto simp: bit_simps)
  show "bit (0xffff :: flags) n \<longleftrightarrow> n < 16"
    unfolding m(2) by (auto simp: bit_simps)
qed

lemma two_power_le:
  assumes "k < 32" and "j < 32"
  shows "(2 ^ k :: flags) \<le> 2 ^ j \<longleftrightarrow> k \<le> j"
proof -
  have "uint (2 ^ i :: flags) = 2 ^ i" if "i < 32" for i
  proof (rule uint_2p)
    have "bit (2 ^ i :: flags) i" using that by (simp add: bit_two_power)
    then show "(0 :: flags) < 2 ^ i" by (metis bit_0_eq bot_apply bot_bool_def word_gt_0)
  qed
  then show ?thesis using assms by (simp add: word_le_def)
qed

text \<open>The effect of \<open>SetFlag\<close> and \<open>ClearFlag\<close> on every bit, for a single-bit flag.\<close>

lemma bit_SetFlag:
  assumes "k < 32" and "n < 32"
  shows "bit (SetFlag fl (2 ^ k)) n \<longleftrightarrow> n = k \<or>
    bit fl n \<and> (if k \<le> 3 then 4 \<le> n \<and> n < 16
                 else if k \<le> 7 then n < 4 \<or> 8 \<le> n \<and> n < 16 else True)"
proof -
  have "(2 ^ k :: flags) \<le> 0x8 \<longleftrightarrow> k \<le> 3" "(2 ^ k :: flags) \<le> 0x80 \<longleftrightarrow> k \<le> 7"
    using assms(1) two_power_le [of k 3] two_power_le [of k 7] by simp_all
  then show ?thesis
    using assms by (simp add: SetFlag_def bit_and_iff bit_or_iff bits_of_masks bit_two_power
        del: bit_numeral_word_iff) blast
qed

lemma bit_ClearFlag:
  assumes "k < 16" and "n < 32" and "0x80 < fl"
  shows "bit (ClearFlag fl (2 ^ k)) n \<longleftrightarrow> bit fl n \<and> n \<noteq> k \<and> n < 16"
proof -
  have "\<not> fl \<le> 0x80" using assms(3) by simp
  then show ?thesis
    using assms(1,2)
    by (auto simp: ClearFlag_def bit_and_iff bit_xor_iff bits_of_masks bit_two_power
        simp del: bit_numeral_word_iff)
qed

lemmas flag_bits = app_flags_bits IsFlagSet_bit bit_SetFlag bit_ClearFlag

end
