(* ===== verification/ObjId.thy ===== *)
theory ObjId
  imports Prelude
begin

text \<open>
  Object headers and object ids of \<open>common/jybase/obj_desc.{h,cc}\<close>.

  \<^item> \<open>obj_base\<close> is \<open>tagObjectBase\<close>: the bit fields \<open>m_type : 8\<close> and \<open>m_seq : 24\<close> and the checksum.
  \<^item> \<open>obj_id\<close> is \<open>tagObjID\<close>: the offset of the object in the pool memory, its type and sequence
    number. \<open>id_to_uint64\<close> is its conversion operator; \<open>type << 24\<close> is computed in \<open>int\<close> because
    an 8-bit field is promoted to \<open>int\<close>.
  \<^item> \<open>GetObject\<close> resolves an id against the headers found in memory: the outer option is undefined
    behaviour (no object header at that offset), the inner one the null pointer. The final
    \<open>dynamic_cast\<close> to the object's own class is the identity.
\<close>

record obj_base =
  m_type :: int
  m_seq :: int
  m_md5 :: int

definition GetObjType :: "obj_base \<Rightarrow> int" where
  "GetObjType ob = m_type ob"

definition SetObjType :: "int \<Rightarrow> obj_base \<Rightarrow> obj_base" where
  "SetObjType ty ob = ob\<lparr>m_type := ty mod 2 ^ 8\<rparr>"

definition IncSeq :: "obj_base \<Rightarrow> obj_base" where
  "IncSeq ob = ob\<lparr>m_seq := ((if m_seq ob > 0x007FFFFF then 0 else m_seq ob) + 1) mod 2 ^ 24\<rparr>"

definition GetSeq :: "obj_base \<Rightarrow> int" where
  "GetSeq ob = m_seq ob"

definition obj_destroy :: "obj_base \<Rightarrow> obj_base" where
  "obj_destroy ob = ob\<lparr>m_type := 0\<rparr>"

definition obj_wf :: "obj_base \<Rightarrow> bool" where
  "obj_wf ob \<longleftrightarrow> 0 \<le> m_type ob \<and> m_type ob < 2 ^ 8 \<and> 0 \<le> m_seq ob \<and> m_seq ob < 2 ^ 24"

subsection \<open>Object ids\<close>

record obj_id =
  oid :: int
  otype :: int
  oseq :: int

definition id_wf :: "obj_id \<Rightarrow> bool" where
  "id_wf x \<longleftrightarrow> 0 \<le> oid x \<and> oid x < 2 ^ 32 \<and> 0 \<le> otype x \<and> otype x < 2 ^ 8 \<and>
     0 \<le> oseq x \<and> oseq x < 2 ^ 24"

definition id_of_obj :: "int \<Rightarrow> obj_base \<Rightarrow> obj_id" where
  "id_of_obj off ob = \<lparr>oid = u32 off, otype = GetObjType ob, oseq = GetSeq ob\<rparr>"

definition id_eq :: "obj_id \<Rightarrow> obj_id \<Rightarrow> bool" where
  "id_eq x y \<longleftrightarrow> oid x = oid y \<and>
     ((0 = otype x \<or> 0 = otype y) \<or> (otype x = otype y \<and> oseq x = oseq y))"

definition id_neq :: "obj_id \<Rightarrow> obj_id \<Rightarrow> bool" where
  "id_neq x y \<longleftrightarrow> \<not> id_eq x y"

definition ID2Type :: "int \<Rightarrow> int" where
  "ID2Type i = (u32 i div 2 ^ 24) mod 2 ^ 8"

definition id_to_uint64 :: "obj_id \<Rightarrow> int" where
  "id_to_uint64 x = u64 (u64 (oid x * 2 ^ 32) + u64 (i32 (otype x * 2 ^ 24)) + u64 (oseq x))"

text \<open>A copy, by the constructor and by the assignment; \<open>same\<close> is the test for self-assignment.\<close>

definition id_copy :: "obj_id \<Rightarrow> obj_id" where
  "id_copy x = \<lparr>oid = oid x, otype = otype x, oseq = oseq x\<rparr>"

definition id_assign :: "bool \<Rightarrow> obj_id \<Rightarrow> obj_id \<Rightarrow> obj_id" where
  "id_assign same this x = (if \<not> same then this\<lparr>oid := oid x, otype := otype x, oseq := oseq x\<rparr> else this)"

definition id_GetType :: "obj_id \<Rightarrow> int" where "id_GetType x = otype x"

text \<open>The id of the object at an address, in pool memory that begins at \<open>start\<close>.\<close>

definition GetID :: "int \<Rightarrow> int \<Rightarrow> obj_base \<Rightarrow> obj_id" where
  "GetID start a ob = id_of_obj (a - start) ob"

definition NilID :: obj_id where
  "NilID = \<lparr>oid = 0, otype = 0, oseq = 0\<rparr>"

definition GetObject :: "(int \<Rightarrow> obj_base option) \<Rightarrow> int \<Rightarrow> obj_id \<Rightarrow> int option option" where
  "GetObject mem pool_size x =
     (if 0 = oid x then Some None
      else if oid x > pool_size then Some None
      else do {
        p \<leftarrow> mem (oid x);
        Some (if 0 = GetObjType p \<or> otype x \<noteq> GetObjType p \<or> oseq x \<noteq> GetSeq p
              then None else Some (oid x)) })"

subsection \<open>Ranges of ids\<close>

record id_range =
  mem_pool_start :: int
  mem_pool_end :: int
  range_unit :: int

definition range_reset :: "int \<Rightarrow> int \<Rightarrow> int \<Rightarrow> id_range" where
  "range_reset start_off unit max_size =
     \<lparr>mem_pool_start = start_off, mem_pool_end = start_off + unit * max_size, range_unit = u32 unit\<rparr>"

definition range_valid :: "id_range \<Rightarrow> int \<Rightarrow> bool option" where
  "range_valid r off =
     (if 1 \<noteq> range_unit r \<and> off \<ge> mem_pool_start r \<and> off \<le> mem_pool_end r
      then if range_unit r = 0 then None
           else Some (0 = (off - mem_pool_start r) mod range_unit r)
      else Some False)"

subsection \<open>The mode of the start\<close>

text \<open>The two static variables. \<open>SetResume\<close> and \<open>ResetInitlize\<close> are declared without a body, so they keep their
  initial values.\<close>

record resume_mode =
  g_resume :: bool
  g_resume_fix :: int

definition resume_mode_init :: resume_mode where
  "resume_mode_init = \<lparr>g_resume = False, g_resume_fix = 0\<rparr>"

definition IsResume :: "resume_mode \<Rightarrow> bool" where "IsResume g = g_resume g"
definition ResumeFix :: "resume_mode \<Rightarrow> int" where "ResumeFix g = g_resume_fix g"

subsection \<open>Sequence numbers\<close>

lemma IncSeq_wf: "obj_wf ob \<Longrightarrow> obj_wf (IncSeq ob)"
  by (auto simp: obj_wf_def IncSeq_def)

lemma IncSeq_seq: "0 \<le> m_seq ob \<Longrightarrow> m_seq ob \<le> 2 ^ 23 \<Longrightarrow>
    m_seq (IncSeq ob) = m_seq ob mod 2 ^ 23 + 1"
  by (cases "m_seq ob = 2 ^ 23") (auto simp: IncSeq_def)

lemma IncSeq_range: "0 \<le> m_seq ob \<Longrightarrow> m_seq ob \<le> 2 ^ 23 \<Longrightarrow>
    0 < m_seq (IncSeq ob) \<and> m_seq (IncSeq ob) \<le> 2 ^ 23"
  using pos_mod_bound [of "2 ^ 23" "m_seq ob"] by (simp add: IncSeq_seq)

lemma IncSeq_iter:
  assumes "0 \<le> m_seq ob" and "m_seq ob \<le> 2 ^ 23"
  shows "m_seq ((IncSeq ^^ Suc n) ob) = (m_seq ob + int n) mod 2 ^ 23 + 1"
proof (induction n)
  case 0
  then show ?case using IncSeq_seq [OF assms] by simp
next
  case (Suc n)
  let ?o = "(IncSeq ^^ Suc n) ob"
  have "0 \<le> m_seq ?o" "m_seq ?o \<le> 2 ^ 23"
    using Suc pos_mod_bound [of "2 ^ 23" "m_seq ob + int n"] by simp_all
  then have "m_seq (IncSeq ?o) = m_seq ?o mod 2 ^ 23 + 1" by (rule IncSeq_seq)
  also have "m_seq ?o mod 2 ^ 23 = (m_seq ob + int (Suc n)) mod 2 ^ 23"
    unfolding Suc by (simp only: mod_add_left_eq of_nat_Suc add.assoc add.commute [of 1])
  finally show ?case by simp
qed

lemma IncSeq_type [simp]: "m_type ((IncSeq ^^ n) ob) = m_type ob"
  by (induction n) (simp_all add: IncSeq_def)

subsection \<open>The 64-bit form\<close>

lemma id_to_uint64_low:
  assumes "id_wf x" and "otype x < 128"
  shows "id_to_uint64 x = oid x * 2 ^ 32 + otype x * 2 ^ 24 + oseq x"
proof -
  have "i32 (otype x * 2 ^ 24) = otype x * 2 ^ 24" using assms by (simp add: id_wf_def cint)
  then show ?thesis using assms by (simp add: id_to_uint64_def id_wf_def cint)
qed

lemma i32_high: "128 \<le> t \<Longrightarrow> t < 256 \<Longrightarrow> i32 (t * 2 ^ 24) = t * 2 ^ 24 - 2 ^ 32"
proof -
  assume t: "128 \<le> t" "t < 256"
  have "(t * 2 ^ 24 + 2 ^ 31) mod 2 ^ 32 = (t * 2 ^ 24 + 2 ^ 31 - 2 ^ 32) mod 2 ^ 32"
    by (simp only: minus_mod_self2)
  also have "\<dots> = t * 2 ^ 24 + 2 ^ 31 - 2 ^ 32" using t by (intro mod_pos_pos_trivial) auto
  finally show ?thesis by (simp add: i32_def)
qed

lemma id_to_uint64_high:
  assumes "id_wf x" and "128 \<le> otype x" and "0 < oid x"
  shows "id_to_uint64 x = (oid x - 1) * 2 ^ 32 + otype x * 2 ^ 24 + oseq x"
proof -
  let ?t = "otype x * 2 ^ 24"
  have "u64 (i32 ?t) = (?t - 2 ^ 32) mod 2 ^ 64"
    using assms i32_high [of "otype x"] by (simp add: id_wf_def u64_def)
  also have "\<dots> = (?t - 2 ^ 32 + 2 ^ 64) mod 2 ^ 64" by (simp only: mod_add_self2)
  also have "\<dots> = ?t - 2 ^ 32 + 2 ^ 64"
    using assms by (intro mod_pos_pos_trivial) (auto simp: id_wf_def)
  finally have t: "u64 (i32 ?t) = ?t - 2 ^ 32 + 2 ^ 64" .
  have i: "u64 (oid x * 2 ^ 32) = oid x * 2 ^ 32" "u64 (oseq x) = oseq x"
    using assms by (simp_all add: id_wf_def cint)
  let ?r = "(oid x - 1) * 2 ^ 32 + ?t + oseq x"
  have "id_to_uint64 x = u64 (oid x * 2 ^ 32 + (?t - 2 ^ 32 + 2 ^ 64) + oseq x)"
    unfolding id_to_uint64_def t i ..
  also have "oid x * 2 ^ 32 + (?t - 2 ^ 32 + 2 ^ 64) + oseq x = ?r + 2 ^ 64"
    by (simp add: algebra_simps)
  also have "u64 (?r + 2 ^ 64) = u64 ?r" unfolding u64_def by (rule mod_add_self2)
  also have "\<dots> = ?r" using assms by (intro u64_id) (auto simp: id_wf_def)
  finally show ?thesis .
qed

lemma ID2Type_value:
  assumes "0 \<le> t" "t < 256" "0 \<le> s" "s < 2 ^ 24"
  shows "ID2Type (i * 2 ^ 32 + t * 2 ^ 24 + s) = t"
proof -
  have "(i * 2 ^ 32 + t * 2 ^ 24 + s) mod 2 ^ 32 = (t * 2 ^ 24 + s) mod 2 ^ 32"
    by (simp add: add.assoc mod_mult_self3)
  also have "\<dots> = t * 2 ^ 24 + s" using assms by (intro mod_pos_pos_trivial) auto
  finally have "ID2Type (i * 2 ^ 32 + t * 2 ^ 24 + s) = (t * 2 ^ 24 + s) div 2 ^ 24 mod 2 ^ 8"
    by (simp add: ID2Type_def u32_def)
  also have "(t * 2 ^ 24 + s) div 2 ^ 24 = t" using assms by simp
  finally show ?thesis using assms by simp
qed

lemma GetObject_fresh:
  assumes "mem off = Some ob" and "0 < off" "off \<le> pool_size" "off < 2 ^ 32" and "m_type ob \<noteq> 0"
  shows "GetObject mem pool_size (id_of_obj off ob) = Some (Some off)"
  using assms by (simp add: GetObject_def id_of_obj_def cint GetObjType_def)

lemma IncSeq_same_seq:
  assumes "0 < m_seq ob" "m_seq ob \<le> 2 ^ 23"
  shows "m_seq ((IncSeq ^^ n) ob) = m_seq ob \<longleftrightarrow> 2 ^ 23 dvd int n"
proof (cases n)
  case (Suc k)
  have "(m_seq ob + int k) mod 2 ^ 23 + 1 = m_seq ob \<longleftrightarrow>
      (m_seq ob + int k) mod 2 ^ 23 = (m_seq ob - 1) mod 2 ^ 23"
    using assms by (simp add: mod_pos_pos_trivial) linarith
  also have "\<dots> \<longleftrightarrow> 2 ^ 23 dvd (m_seq ob + int k - (m_seq ob - 1))" by (rule mod_eq_dvd_iff)
  finally show ?thesis using IncSeq_iter [of ob k] assms Suc by (simp add: add.commute)
qed simp

text \<open>A slot that is re-used invalidates the ids handed out before: after \<open>n\<close> further objects in the slot, of any
  types, an id resolves only when \<open>n\<close> is a multiple of \<open>2 ^ 23\<close>.\<close>

lemma stale_id_is_rejected:
  assumes "0 < off" "off \<le> pool_size" "off < 2 ^ 32" and "0 < m_seq ob" "m_seq ob \<le> 2 ^ 23"
    and "m_type ob \<noteq> 0"
  shows "GetObject (\<lambda>a. if a = off then Some (SetObjType ty ((IncSeq ^^ n) ob)) else None) pool_size
      (id_of_obj off ob) =
    Some (if ty mod 2 ^ 8 = m_type ob \<and> 2 ^ 23 dvd int n then Some off else None)"
  using assms IncSeq_same_seq [OF assms(4,5), of n]
  by (auto simp: GetObject_def id_of_obj_def cint GetObjType_def GetSeq_def SetObjType_def)

end
