(* ===== verification/Align.thy ===== *)
theory Align
  imports Prelude
begin

unbundle bit_operations_syntax

text \<open>
  Rounding up to a power of two. \<open>ALIGN_SIZE\<close> is the macro of \<open>common/jybase/obj_pool.h\<close>, whose
  mask \<open>~(align - 1)\<close> is an \<open>int\<close> and is sign-extended to \<open>size_t\<close>; \<open>ALIGN_SIZE_fn\<close> is the
  inline function of the same name in \<open>common/platform/common.h\<close>, whose mask is a 32-bit unsigned
  value and is zero-extended.
\<close>

definition ALIGN_SIZE :: "int \<Rightarrow> int \<Rightarrow> int" where
  "ALIGN_SIZE n a = u64 (a - 1 + n) AND u64 (NOT (a - 1))"

definition ALIGN_SIZE_fn :: "int \<Rightarrow> int \<Rightarrow> int" where
  "ALIGN_SIZE_fn n a = u64 (u32 (a - 1) + n) AND u32 (NOT (u32 (a - 1)))"

lemma and_not_mask_int: "(x :: int) AND NOT (mask k) = x div 2 ^ k * 2 ^ k"
proof -
  have "x AND NOT (mask k) = push_bit k (drop_bit k x)"
    by (rule bit_eqI) (auto simp: bit_simps)
  then show ?thesis by (simp add: push_bit_eq_mult drop_bit_eq_div)
qed

lemma ALIGN_SIZE_pow2:
  assumes "0 \<le> n" and "n + 2 ^ k \<le> 2 ^ 64" and "k < 64"
  shows "ALIGN_SIZE n (2 ^ k) = (n + (2 ^ k - 1)) div 2 ^ k * 2 ^ k"
proof -
  let ?x = "2 ^ k - 1 + n"
  have m: "(2 ^ k - 1 :: int) = mask k" by (simp add: mask_eq_exp_minus_1)
  have t: "u64 i = take_bit 64 i" for i by (simp add: u64_def take_bit_eq_mod)
  have "ALIGN_SIZE n (2 ^ k) = take_bit 64 (?x AND NOT (mask k))"
    unfolding ALIGN_SIZE_def t by (simp add: take_bit_and m [symmetric])
  also have "?x AND NOT (mask k) = ?x div 2 ^ k * 2 ^ k" by (rule and_not_mask_int)
  also have "take_bit 64 (?x div 2 ^ k * 2 ^ k) = ?x div 2 ^ k * 2 ^ k"
  proof (rule take_bit_int_eq_self)
    have "0 \<le> ?x div 2 ^ k" using assms by (intro pos_imp_zdiv_nonneg_iff [THEN iffD2]) auto
    then show "0 \<le> ?x div 2 ^ k * 2 ^ k" by simp
    have "?x div 2 ^ k * 2 ^ k = ?x - ?x mod 2 ^ k" by (simp add: minus_mod_eq_div_mult)
    moreover have "0 \<le> ?x mod 2 ^ k" by (rule pos_mod_sign) simp
    ultimately have "?x div 2 ^ k * 2 ^ k \<le> ?x" by linarith
    with assms show "?x div 2 ^ k * 2 ^ k < 2 ^ 64" by simp
  qed
  finally show ?thesis by (simp add: add.commute)
qed

lemma ALIGN_SIZE_bounds:
  assumes "0 \<le> n" and "n + 2 ^ k \<le> 2 ^ 64" and "k < 64"
  shows "n \<le> ALIGN_SIZE n (2 ^ k)" and "ALIGN_SIZE n (2 ^ k) < n + 2 ^ k"
    and "2 ^ k dvd ALIGN_SIZE n (2 ^ k)"
proof -
  let ?x = "n + (2 ^ k - 1)"
  have eq: "ALIGN_SIZE n (2 ^ k) = ?x - ?x mod 2 ^ k"
    using ALIGN_SIZE_pow2 [OF assms] by (simp add: minus_mod_eq_div_mult)
  have "0 \<le> ?x mod 2 ^ k" "?x mod 2 ^ k < 2 ^ k" by simp_all
  then show "n \<le> ALIGN_SIZE n (2 ^ k)" "ALIGN_SIZE n (2 ^ k) < n + 2 ^ k" using eq by linarith+
  show "2 ^ k dvd ALIGN_SIZE n (2 ^ k)" using ALIGN_SIZE_pow2 [OF assms] by simp
qed

text \<open>The inline function keeps the low 32 bits of what the macro computes.\<close>

lemma ALIGN_SIZE_fn_truncates:
  assumes "0 < a" and "a \<le> 2 ^ 32"
  shows "ALIGN_SIZE_fn n a = ALIGN_SIZE n a mod 2 ^ 32"
proof -
  have m: "u32 (a - 1) = a - 1" using assms by (simp add: u32_id)
  have t: "u64 i = take_bit 64 i" "u32 i = take_bit 32 i" "i mod 2 ^ 32 = take_bit 32 i" for i
    by (simp_all add: u64_def u32_def take_bit_eq_mod)
  show ?thesis
    unfolding ALIGN_SIZE_fn_def ALIGN_SIZE_def m unfolding t
    by (rule bit_eqI) (auto simp: bit_simps)
qed

lemmas ALIGN_SIZE_8 = ALIGN_SIZE_bounds [where k = 3, simplified]
lemmas ALIGN_SIZE_4 = ALIGN_SIZE_bounds [where k = 2, simplified]

end
