(* ===== verification/BaseProps.thy ===== *)
theory BaseProps
  imports RunFlags ObjId Align
begin

unbundle bit_operations_syntax

text \<open>
  The properties of the run flags, of object ids and of the size alignment.
\<close>

text \<open>What \<open>SetFlag\<close> does to each of the 32 bits, for a flag of one bit: the flag is set; the
  other bits of its own nibble are cleared, so the two start modes exclude each other and the four
  quit modes exclude each other; the bits of the other nibble survive; and the sixteen high bits
  are lost whenever a start or quit flag is set.\<close>
theorem SetFlag_bits:
  assumes "k < 32" and "n < 32"
  shows "bit (SetFlag fl (2 ^ k)) n \<longleftrightarrow> n = k \<or>
    bit fl n \<and> (if k \<le> 3 then 4 \<le> n \<and> n < 16 else if k \<le> 7 then n < 4 \<or> 8 \<le> n \<and> n < 16 else True)"
  by (rule bit_SetFlag [OF assms])

theorem SetFlag_bits_witness:
  "\<not> bit (SetFlag (FLAG_QUIT_NORMAL OR FLAG_START_RESUME) FLAG_QUIT_COREDUMP) 4 \<and>
   bit (SetFlag (FLAG_QUIT_NORMAL OR FLAG_START_RESUME) FLAG_QUIT_COREDUMP) 1"
  using SetFlag_bits [of 7 4 "FLAG_QUIT_NORMAL OR FLAG_START_RESUME"]
    SetFlag_bits [of 7 1 "FLAG_QUIT_NORMAL OR FLAG_START_RESUME"]
  by (simp add: app_flags)

lemma bits_set_one:
  "k < 32 \<Longrightarrow> j < 32 \<Longrightarrow> IsFlagSet (SetFlag fl (2 ^ k)) (2 ^ j) \<longleftrightarrow> j = k \<or>
    bit fl j \<and> (if k \<le> 3 then 4 \<le> j \<and> j < 16 else if k \<le> 7 then j < 4 \<or> 8 \<le> j \<and> j < 16 else True)"
  by (simp add: IsFlagSet_bit bit_SetFlag)

lemma quit_flag_seen:
  "IsFlagSet (SetFlag (SetFlag fl (2 ^ 6)) (2 ^ 7)) (2 ^ j) \<longleftrightarrow> j = 7"
  "IsFlagSet (SetFlag (SetFlag fl (2 ^ 7)) (2 ^ 6)) (2 ^ j) \<longleftrightarrow> j = 6"
  if "4 \<le> j" "j < 8" for j
  using that bits_set_one [of 7 j "SetFlag fl (2 ^ 6)"] bits_set_one [of 6 j "SetFlag fl (2 ^ 7)"]
  by auto

text \<open>The two calls that the timer queue makes on a damaged bucket. Setting the core-dump flag
  after the kick-all-users flag erases the kick flag, and the main loop's check then sees neither a
  kick nor a normal quit: it answers as in normal running, whatever was set before. In the other
  order the kick is what the main loop sees.\<close>
theorem kick_then_coredump_is_lost:
  "CheckRunFlags (SetFlag (SetFlag fl FLAG_QUIT_AFTER_KICK_ALL_USER) FLAG_QUIT_COREDUMP) =
     FLAG_START_NORMAL \<and>
   CheckRunFlags (SetFlag (SetFlag fl FLAG_QUIT_COREDUMP) FLAG_QUIT_AFTER_KICK_ALL_USER) =
     FLAG_QUIT_AFTER_KICK_ALL_USER"
  unfolding CheckRunFlags_def app_flags_bits
  using quit_flag_seen(1) [of 4 fl] quit_flag_seen(1) [of 6 fl] quit_flag_seen(2) [of 6 fl] by simp

text \<open>\<open>ClearFlag\<close> works only on values above 0x80, where it removes the flag (and the sixteen
  high bits); a quit mode below, or a lone core-dump flag, is left set.\<close>
theorem ClearFlag_bits:
  assumes "k < 16" and "n < 32"
  shows "bit (ClearFlag fl (2 ^ k)) n \<longleftrightarrow> bit fl n \<and> (0x80 < fl \<longrightarrow> n \<noteq> k \<and> n < 16)"
proof (cases "0x80 < fl")
  case True
  then show ?thesis using bit_ClearFlag [OF assms True] by simp
next
  case False
  then have "fl \<le> 0x80" by (simp only: not_less)
  then have "ClearFlag fl (2 ^ k) = fl" unfolding ClearFlag_def by (rule if_P)
  with False show ?thesis by simp
qed

theorem ClearFlag_bits_witness:
  "IsFlagSet (ClearFlag FLAG_QUIT_NORMAL (2 ^ 4)) FLAG_QUIT_NORMAL \<and>
   \<not> bit (ClearFlag (FLAG_QUIT_COREDUMP OR 2 ^ 4) (2 ^ 4)) 4"
  using ClearFlag_bits [of 4 4 FLAG_QUIT_NORMAL] ClearFlag_bits [of 4 4 "FLAG_QUIT_COREDUMP OR 2 ^ 4"]
    IsFlagSet_bit [of 4 "ClearFlag FLAG_QUIT_NORMAL (2 ^ 4)"]
  by (simp add: app_flags)

text \<open>What the flags mean: a start mode, a quit mode and the other flags. A call that sets a mode replaces the one before;
  \<open>ClearFlag\<close> does something only when another flag is set, or the core-dump mode together with a start mode.\<close>

datatype flag_request = CallSet nat | CallClear nat

fun flag_call :: "flag_request \<Rightarrow> flags \<Rightarrow> flags" where
  "flag_call (CallSet k) fl = SetFlag fl (2 ^ k)"
| "flag_call (CallClear k) fl = ClearFlag fl (2 ^ k)"

record flag_modes =
  start_mode :: "nat option"
  quit_mode :: "nat option"
  other_flags :: "nat set"

definition no_modes :: flag_modes where
  "no_modes = \<lparr>start_mode = None, quit_mode = None, other_flags = {}\<rparr>"

definition without :: "nat \<Rightarrow> nat option \<Rightarrow> nat option" where
  "without k x = (if x = Some k then None else x)"

fun ref_call :: "flag_request \<Rightarrow> flag_modes \<Rightarrow> flag_modes" where
  "ref_call (CallSet k) m = (if k < 4 then m\<lparr>start_mode := Some k\<rparr> else if k < 8 then m\<lparr>quit_mode := Some k\<rparr>
     else m\<lparr>other_flags := insert k (other_flags m)\<rparr>)"
| "ref_call (CallClear k) m = (if other_flags m \<noteq> {} \<or> quit_mode m = Some 7 \<and> start_mode m \<noteq> None
     then \<lparr>start_mode = without k (start_mode m), quit_mode = without k (quit_mode m), other_flags = other_flags m - {k}\<rparr>
     else m)"

definition in_modes :: "nat \<Rightarrow> flag_modes \<Rightarrow> bool" where
  "in_modes k m \<longleftrightarrow> start_mode m = Some k \<or> quit_mode m = Some k \<or> k \<in> other_flags m"

definition flags_are :: "flags \<Rightarrow> flag_modes \<Rightarrow> bool" where
  "flags_are fl m \<longleftrightarrow> (\<forall>n < 32. bit fl n \<longleftrightarrow> in_modes n m) \<and> (\<forall>k. start_mode m = Some k \<longrightarrow> k < 4) \<and>
     (\<forall>k. quit_mode m = Some k \<longrightarrow> 4 \<le> k \<and> k < 8) \<and> other_flags m \<subseteq> {8..<16}"

lemma small_flags:
  fixes fl :: flags
  shows "fl \<le> 0x80 \<Longrightarrow> 8 \<le> n \<Longrightarrow> \<not> bit fl n"
proof
  assume fl: "fl \<le> 0x80" and n: "8 \<le> n" "bit fl n"
  have "uint fl < 2 ^ 8" using fl by (simp add: word_le_def)
  then have "take_bit 8 (uint fl) = uint fl" by (intro take_bit_int_eq_self) simp_all
  moreover have "bit (uint fl) n" using n(2) using bit_imp_le_length [OF n(2)] by (simp add: bit_uint_iff)
  ultimately show False using n(1) by (metis bit_take_bit_iff not_less)
qed

lemma mode_cases: "k < 4 \<Longrightarrow> k \<in> {0, 1, 2, 3 :: nat}" "4 \<le> k \<Longrightarrow> k < 8 \<Longrightarrow> k \<in> {4, 5, 6, 7 :: nat}"
  by auto

lemma clear_works:
  assumes "flags_are fl m"
  shows "0x80 < fl \<longleftrightarrow> other_flags m \<noteq> {} \<or> quit_mode m = Some 7 \<and> start_mode m \<noteq> None"
proof (cases "other_flags m = {}")
  case False
  then obtain n where n: "n \<in> other_flags m" by blast
  then have "n \<in> {8..<16}" using assms unfolding flags_are_def by blast
  then have "8 \<le> n" "n < 32" by simp_all
  then have "bit fl n" using assms n by (simp add: flags_are_def in_modes_def)
  then have "\<not> fl \<le> 0x80" using small_flags \<open>8 \<le> n\<close> by blast
  then show ?thesis using False by simp
next
  case True
  define v :: "nat option \<Rightarrow> flags" where "v x = (case x of None \<Rightarrow> 0 | Some k \<Rightarrow> 2 ^ k)" for x
  have "bit (v x) n \<longleftrightarrow> x = Some n" if "n < 32" for x n using that by (auto simp: v_def bit_two_power split: option.split)
  then have fl: "fl = v (start_mode m) OR v (quit_mode m)"
    using assms True by (intro bit_word_eqI) (auto simp: flags_are_def in_modes_def bit_or_iff)
  have s: "start_mode m \<in> {None, Some 0, Some 1, Some 2, Some 3}"
    using assms mode_cases(1) by (cases "start_mode m") (auto simp: flags_are_def)
  have k: "quit_mode m \<in> {None, Some 4, Some 5, Some 6, Some 7}"
    using assms mode_cases(2) by (cases "quit_mode m") (auto simp: flags_are_def)
  show ?thesis unfolding fl using s k by (elim insertE emptyE) (simp_all add: v_def True)
qed

lemma flags_are_call:
  assumes "flags_are fl m" and "case c of CallSet k \<Rightarrow> k < 16 | CallClear k \<Rightarrow> k < 16"
  shows "flags_are (flag_call c fl) (ref_call c m)"
proof (cases c)
  case (CallSet k)
  then show ?thesis using assms by (auto simp: flags_are_def in_modes_def bit_SetFlag subset_iff split: if_splits)
next
  case (CallClear k)
  have b: "bit (ClearFlag fl (2 ^ k)) n \<longleftrightarrow> bit fl n \<and> (0x80 < fl \<longrightarrow> n \<noteq> k \<and> n < 16)" if "n < 32" for n
    using ClearFlag_bits [of k n fl] assms(2) that CallClear by simp
  show ?thesis using assms(1) b clear_works [OF assms(1)] CallClear
    by (auto simp: flags_are_def in_modes_def without_def subset_iff split: if_splits)
qed

text \<open>C39. The run flags keep a start mode, a quit mode and other flags. Take any calls of \<open>SetFlag\<close> and \<open>ClearFlag\<close> on a new
  object, each with one of the sixteen single-bit flags. Exactly those flags are set that \<open>ref_call\<close> gives: setting a start or quit
  mode replaces the mode before and touches nothing else, any other flag is added, and \<open>ClearFlag\<close> removes its flag when one of
  the other flags is set, or the core-dump mode with a start mode, and is ignored otherwise. \<open>CheckRunFlags\<close> answers by the
  quit mode alone: a kick that the core-dump flag followed is gone, and the answer is that of normal running.\<close>
theorem run_flags_refine:
  assumes "\<forall>c \<in> set cs. case c of CallSet k \<Rightarrow> k < 16 | CallClear k \<Rightarrow> k < 16"
  shows "(\<forall>k < 32. IsFlagSet (fold flag_call cs CRunFlag_new) (2 ^ k) \<longleftrightarrow> in_modes k (fold ref_call cs no_modes)) \<and>
    CheckRunFlags (fold flag_call cs CRunFlag_new) =
      (if quit_mode (fold ref_call cs no_modes) = Some 6 then FLAG_QUIT_AFTER_KICK_ALL_USER
       else if quit_mode (fold ref_call cs no_modes) = Some 4 then FLAG_QUIT_NORMAL else FLAG_START_NORMAL)"
proof -
  have "flags_are fl m \<Longrightarrow> flags_are (fold flag_call cs fl) (fold ref_call cs m)" for fl m
    using assms by (induction cs arbitrary: fl m) (auto intro: flags_are_call)
  moreover have "flags_are CRunFlag_new no_modes" by (simp add: flags_are_def in_modes_def no_modes_def CRunFlag_new_def)
  ultimately have f: "flags_are (fold flag_call cs CRunFlag_new) (fold ref_call cs no_modes)" by blast
  then have s: "IsFlagSet (fold flag_call cs CRunFlag_new) (2 ^ k) \<longleftrightarrow> in_modes k (fold ref_call cs no_modes)" if "k < 32" for k
    using that by (simp add: flags_are_def IsFlagSet_bit)
  have "in_modes k (fold ref_call cs no_modes) \<longleftrightarrow> quit_mode (fold ref_call cs no_modes) = Some k" if "4 \<le> k" "k < 8" for k
    using f that by (fastforce simp: flags_are_def in_modes_def)
  then have "IsFlagSet (fold flag_call cs CRunFlag_new) FLAG_QUIT_AFTER_KICK_ALL_USER \<longleftrightarrow> quit_mode (fold ref_call cs no_modes) = Some 6"
    "IsFlagSet (fold flag_call cs CRunFlag_new) FLAG_QUIT_NORMAL \<longleftrightarrow> quit_mode (fold ref_call cs no_modes) = Some 4"
    using s [of 6] s [of 4] unfolding app_flags_bits by simp_all
  then show ?thesis using s unfolding CheckRunFlags_def by simp
qed

lemma run_flags_refine_witness:
  "IsFlagSet (fold flag_call [CallSet 0, CallSet 4, CallClear 4, CallSet 6] CRunFlag_new) (2 ^ 6) \<and>
   CheckRunFlags (fold flag_call [CallSet 0, CallSet 4, CallClear 4, CallSet 6] CRunFlag_new) = FLAG_QUIT_AFTER_KICK_ALL_USER \<and>
   CheckRunFlags (fold flag_call [CallSet 0, CallSet 6, CallSet 7, CallClear 7, CallSet 9, CallClear 0] CRunFlag_new) = FLAG_START_NORMAL"
proof -
  let ?a = "[CallSet 0, CallSet 4, CallClear 4, CallSet 6]" and ?b = "[CallSet 0, CallSet 6, CallSet 7, CallClear 7, CallSet 9, CallClear 0]"
  have a: "fold ref_call ?a no_modes = \<lparr>start_mode = Some 0, quit_mode = Some 6, other_flags = {}\<rparr>"
    and b: "fold ref_call ?b no_modes = \<lparr>start_mode = None, quit_mode = None, other_flags = {9}\<rparr>"
    by (simp_all add: no_modes_def without_def)
  have "\<forall>c \<in> set ?a. case c of CallSet k \<Rightarrow> k < 16 | CallClear k \<Rightarrow> k < 16" by simp
  note ra = run_flags_refine [OF this, unfolded a]
  have "IsFlagSet (fold flag_call ?a CRunFlag_new) (2 ^ 6)"
    by (rule iffD2 [OF conjunct1 [OF ra, THEN spec, THEN mp]]) (simp_all add: in_modes_def)
  moreover have "CheckRunFlags (fold flag_call ?a CRunFlag_new) = FLAG_QUIT_AFTER_KICK_ALL_USER" using conjunct2 [OF ra] by simp
  moreover have "\<forall>c \<in> set ?b. case c of CallSet k \<Rightarrow> k < 16 | CallClear k \<Rightarrow> k < 16" by simp
  from run_flags_refine [OF this] have "CheckRunFlags (fold flag_call ?b CRunFlag_new) = FLAG_START_NORMAL" unfolding b by simp
  ultimately show ?thesis by blast
qed

subsection \<open>Object ids\<close>

text \<open>The 64-bit form of an id gives back offset, type and sequence number, and \<open>ID2Type\<close> the
  type, for types below 128; from 128 on the sign extension of \<open>type << 24\<close> takes one from the
  offset half, so the id reads back as the object at the offset before.\<close>
theorem id_uint64_roundtrip:
  assumes "id_wf x" and "0 < oid x"
  shows "id_to_uint64 x = (if otype x < 128 then oid x else oid x - 1) * 2 ^ 32 + otype x * 2 ^ 24 + oseq x
    \<and> id_to_uint64 x div 2 ^ 32 = (if otype x < 128 then oid x else oid x - 1)
    \<and> ID2Type (id_to_uint64 x) = otype x \<and> id_to_uint64 x mod 2 ^ 24 = oseq x"
proof -
  let ?i = "if otype x < 128 then oid x else oid x - 1"
  have v: "id_to_uint64 x = ?i * 2 ^ 32 + otype x * 2 ^ 24 + oseq x"
    using id_to_uint64_low [OF assms(1)] id_to_uint64_high [OF assms(1) _ assms(2)] by auto
  have r: "0 \<le> otype x" "otype x < 256" "0 \<le> oseq x" "oseq x < 2 ^ 24"
    using assms by (auto simp: id_wf_def)
  have hi: "(i * 2 ^ 32 + (otype x * 2 ^ 24 + oseq x)) div 2 ^ 32 = i" for i
    using r by (simp add: div_mult_self3)
  have "(i * 2 ^ 32 + otype x * 2 ^ 24 + oseq x) mod 2 ^ 24 = oseq x" for i
  proof -
    have "i * 2 ^ 32 + otype x * 2 ^ 24 + oseq x = oseq x + (i * 2 ^ 8 + otype x) * 2 ^ 24"
      by (simp add: algebra_simps)
    then show ?thesis using r by (simp only: mod_mult_self1) simp
  qed
  then show ?thesis
    unfolding v using hi [of ?i] ID2Type_value [OF r, of ?i] by (simp only: add.assoc simp_thms)
qed

theorem id_uint64_roundtrip_witness:
  "id_to_uint64 \<lparr>oid = 64, otype = 200, oseq = 5\<rparr> div 2 ^ 32 = 63 \<and>
   id_to_uint64 \<lparr>oid = 64, otype = 100, oseq = 5\<rparr> div 2 ^ 32 = 64"
  using id_uint64_roundtrip [of "\<lparr>oid = 64, otype = 200, oseq = 5\<rparr>"]
    id_uint64_roundtrip [of "\<lparr>oid = 64, otype = 100, oseq = 5\<rparr>"]
  by (simp add: id_wf_def)

text \<open>Sequence numbers. From any number up to \<open>2 ^ 23\<close> they run through \<open>1 .. 2 ^ 23\<close> and come
  back after exactly \<open>2 ^ 23\<close> increments: two ids of one slot taken \<open>i\<close> and \<open>j\<close> increments apart are
  equal exactly when the distance is a multiple of \<open>2 ^ 23\<close>.\<close>
theorem IncSeq_period:
  assumes "0 \<le> m_seq ob" and "m_seq ob \<le> 2 ^ 23"
  shows "m_seq ((IncSeq ^^ Suc i) ob) = m_seq ((IncSeq ^^ Suc j) ob) \<longleftrightarrow>
    int i mod 2 ^ 23 = int j mod 2 ^ 23"
proof -
  have "(m_seq ob + int i) mod 2 ^ 23 = (m_seq ob + int j) mod 2 ^ 23 \<longleftrightarrow>
      int i mod 2 ^ 23 = int j mod 2 ^ 23"
    by (simp add: mod_eq_dvd_iff)
  then show ?thesis unfolding IncSeq_iter [OF assms] by linarith
qed

theorem IncSeq_period_witness:
  "m_seq ((IncSeq ^^ Suc 0) \<lparr>m_type = 3, m_seq = 0, m_md5 = 0\<rparr>) \<noteq>
   m_seq ((IncSeq ^^ Suc 1000) \<lparr>m_type = 3, m_seq = 0, m_md5 = 0\<rparr>)"
  using IncSeq_period [of "\<lparr>m_type = 3, m_seq = 0, m_md5 = 0\<rparr>" 0 1000] by simp

text \<open>\<open>ALIGN_SIZE\<close> rounds up to the next multiple of a power of two. The inline function of the
  same name agrees with the macro below \<open>2 ^ 32\<close>, and loses the upper half of larger sizes because
  its mask is a 32-bit value.\<close>
theorem ALIGN_SIZE_rounds_up:
  assumes "0 \<le> x" and "x + 8 \<le> 2 ^ 64" and "k \<in> {4, 8}"
  shows "x \<le> ALIGN_SIZE x k \<and> ALIGN_SIZE x k < x + k \<and> k dvd ALIGN_SIZE x k \<and>
    ALIGN_SIZE_fn x k = ALIGN_SIZE x k mod 2 ^ 32"
  using assms ALIGN_SIZE_8 [of x] ALIGN_SIZE_4 [of x] ALIGN_SIZE_fn_truncates [of k x] by auto

theorem ALIGN_SIZE_rounds_up_witness:
  "8 dvd ALIGN_SIZE 13 8 \<and> ALIGN_SIZE 13 4 < 17 \<and>
   ALIGN_SIZE_fn (2 ^ 32) 8 = ALIGN_SIZE (2 ^ 32) 8 mod 2 ^ 32"
  using ALIGN_SIZE_rounds_up [of "2 ^ 32" 8] ALIGN_SIZE_rounds_up [of 13 8] ALIGN_SIZE_rounds_up [of 13 4] by simp

end
