(* ===== verification/ObjPool.thy ===== *)
theory ObjPool
  imports ObjId Align
begin

text \<open>
  The object pool of \<open>common/jybase/obj_pool.{h,cc}\<close> and the array under it,
  \<open>common/jybase/buffer_array.h\<close>.

  \<^item> \<open>buffer_array\<close> is \<open>BufferArray\<close>; addresses are integers. A failed assert is \<open>None\<close>.
  \<^item> \<open>pool\<close> is \<open>CObjPoolBase\<close> with the objects behind it: \<open>bit_map\<close> holds 0 for a busy slot and
    otherwise the next free slot, counted from one, or \<open>TAIL_OF_LIST\<close>.
  \<^item> \<open>Allocate\<close>, \<open>Deallocate\<close>, \<open>GetFreeNode\<close>, \<open>SetFreeNode\<close>, \<open>FixFreeList\<close>, \<open>ResumeNode\<close>,
    \<open>ConstructFreeList\<close>, \<open>CreatePool\<close> and \<open>ForeachObj\<close> are the member functions. Constructing an
    object keeps its header, destroying it clears the type.
  \<^item> \<open>pool_ok\<close> is the invariant: the free list is a chain of distinct free slots that covers them
    all, every busy slot is below \<open>max_used_node\<close>, and the counters count the busy slots.
\<close>

subsection \<open>The array\<close>

record buffer_array =
  arr_start :: int
  arr_unit :: nat
  arr_count :: nat

definition BufferSize :: "nat \<Rightarrow> nat \<Rightarrow> nat" where
  "BufferSize u c = u * c"

definition BufferArray_new :: buffer_array where
  "BufferArray_new = \<lparr>arr_start = 0, arr_unit = 0, arr_count = 0\<rparr>"

definition InitArray :: "int \<Rightarrow> nat \<Rightarrow> nat \<Rightarrow> buffer_array" where
  "InitArray st u c = \<lparr>arr_start = st, arr_unit = u, arr_count = c\<rparr>"

definition Distance :: "buffer_array \<Rightarrow> int \<Rightarrow> nat option" where
  "Distance a x =
     (if x \<ge> arr_start a \<and> arr_unit a \<noteq> 0 \<and> (x - arr_start a) mod int (arr_unit a) = 0 \<and>
         (x - arr_start a) div int (arr_unit a) < int (arr_count a)
      then Some (nat ((x - arr_start a) div int (arr_unit a))) else None)"

definition slot_addr :: "buffer_array \<Rightarrow> nat \<Rightarrow> int" where
  "slot_addr a i = arr_start a + int (i * arr_unit a)"

definition At :: "buffer_array \<Rightarrow> nat \<Rightarrow> int option" where
  "At a i = (if i < arr_count a then Some (slot_addr a i) else None)"

lemma Distance_slot:
  assumes "arr_unit a \<noteq> 0" and "i < arr_count a"
  shows "Distance a (slot_addr a i) = Some i"
  using assms by (simp add: Distance_def slot_addr_def)

lemma slot_addr_inj: "arr_unit a \<noteq> 0 \<Longrightarrow> slot_addr a i = slot_addr a j \<Longrightarrow> i = j"
  by (simp add: slot_addr_def)

lemma slots_disjoint:
  assumes "i < j"
  shows "slot_addr a i + int (arr_unit a) \<le> slot_addr a j"
proof -
  have "Suc i * arr_unit a \<le> j * arr_unit a" using assms by (intro mult_le_mono1) simp
  then have "int (Suc i * arr_unit a) \<le> int (j * arr_unit a)" by (rule zle_int [THEN iffD2])
  then show ?thesis by (simp add: slot_addr_def algebra_simps)
qed

subsection \<open>The pool\<close>

definition BUSY_NODE_INDEX :: int where "BUSY_NODE_INDEX = 0"
definition TAIL_OF_LIST :: int where "TAIL_OF_LIST = -1"
definition MAX_ALLOCATE_COUNT :: nat where "MAX_ALLOCATE_COUNT = 0x0fffffff"

record pool =
  obj_type :: int
  parray :: buffer_array
  allocate_count :: nat
  deallocate_count :: nat
  pool_unit :: nat
  pool_count :: nat
  free_node :: int
  max_used_node :: int
  bit_map :: "int list"
  objs :: "obj_base list"

definition Size :: "pool \<Rightarrow> nat option" where
  "Size p = (if allocate_count p \<ge> deallocate_count p
     then Some (allocate_count p - deallocate_count p) else None)"

definition MaxSize :: "pool \<Rightarrow> nat" where
  "MaxSize p = arr_count (parray p)"

definition IsFree :: "pool \<Rightarrow> nat \<Rightarrow> bool" where
  "IsFree p i = (if i \<ge> pool_count p then False else bit_map p ! i \<noteq> BUSY_NODE_INDEX)"

definition GetDataPtr :: "pool \<Rightarrow> nat \<Rightarrow> int option" where
  "GetDataPtr p i = (if i \<ge> pool_count p then None else Some (slot_addr (parray p) i))"

definition SetFreeNode :: "pool \<Rightarrow> nat \<Rightarrow> pool option" where
  "SetFreeNode p i =
     (if i < length (bit_map p)
      then Some (p\<lparr>bit_map := (bit_map p)[i := free_node p], free_node := int i + 1\<rparr>) else None)"

fun free_from :: "nat \<Rightarrow> pool \<Rightarrow> pool option" where
  "free_from 0 p = Some p"
| "free_from (Suc i) p = do { p' \<leftarrow> SetFreeNode p i; free_from i p' }"

definition ConstructFreeList :: "pool \<Rightarrow> pool option" where
  "ConstructFreeList p = free_from (pool_count p) p"

text \<open>
  The loop of \<open>FixFreeList\<close> decrements its index once more when the slot is free; from index 0 it
  wraps around and the access is out of bounds.
\<close>

function fix_from :: "nat \<Rightarrow> pool \<Rightarrow> pool option" where
  "fix_from i p =
     (if i = 0 then Some p
      else if i - 1 \<ge> length (bit_map p) then None
      else if bit_map p ! (i - 1) \<noteq> BUSY_NODE_INDEX
        then if i - 1 = 0 then None
             else do { p' \<leftarrow> SetFreeNode p (i - 2); fix_from (i - 2) p' }
      else fix_from (i - 1) p)"
  by pat_completeness auto
termination by (relation "measure fst") auto

declare fix_from.simps [simp del]

definition FixFreeList :: "pool \<Rightarrow> pool option" where
  "FixFreeList p = fix_from (pool_count p) (p\<lparr>free_node := TAIL_OF_LIST\<rparr>)"

text \<open>The address of the node taken, or the null pointer, with the new pool.\<close>

definition GetFreeNode :: "pool \<Rightarrow> (int option \<times> pool) option" where
  "GetFreeNode p =
     (if free_node p = TAIL_OF_LIST then Some (None, p)
      else
        let p1 = (if free_node p > max_used_node p then p\<lparr>max_used_node := free_node p\<rparr> else p);
            curr = free_node p1 - 1
        in if curr < 0 \<or> curr \<ge> int (length (bit_map p1)) then None
           else if BUSY_NODE_INDEX = bit_map p1 ! nat curr
             then do { p2 \<leftarrow> FixFreeList p1; Some (None, p2) }
           else Some (Some (slot_addr (parray p1) (nat curr)),
                      p1\<lparr>free_node := bit_map p1 ! nat curr,
                         bit_map := (bit_map p1)[nat curr := BUSY_NODE_INDEX]\<rparr>))"

definition Allocate :: "pool \<Rightarrow> (int option \<times> pool) option" where
  "Allocate p = do {
     (r, p1) \<leftarrow> GetFreeNode p;
     (case r of
        None \<Rightarrow> Some (None, p1)
      | Some a \<Rightarrow> do {
          let p2 = p1\<lparr>allocate_count := allocate_count p1 + 1\<rparr>;
          p3 \<leftarrow> (if allocate_count p2 \<ge> MAX_ALLOCATE_COUNT
                 then if allocate_count p2 \<ge> deallocate_count p2
                   then Some (p2\<lparr>allocate_count := allocate_count p2 - deallocate_count p2,
                                 deallocate_count := 0\<rparr>)
                   else None
                 else Some p2);
          i \<leftarrow> Distance (parray p3) a;
          (if i < length (objs p3)
           then Some (Some a, p3\<lparr>objs := (objs p3)[i := SetObjType (obj_type p3) (IncSeq (objs p3 ! i))]\<rparr>)
           else None) }) }"

definition Deallocate :: "pool \<Rightarrow> int option \<Rightarrow> pool option" where
  "Deallocate p obj =
     (case obj of
        None \<Rightarrow> Some p
      | Some a \<Rightarrow> do {
          i \<leftarrow> Distance (parray p) a;
          (if i \<ge> length (bit_map p) \<or> i \<ge> length (objs p) then None
           else if BUSY_NODE_INDEX \<noteq> bit_map p ! i then Some p
           else do {
             p1 \<leftarrow> SetFreeNode (p\<lparr>deallocate_count := deallocate_count p + 1\<rparr>) i;
             Some (p1\<lparr>objs := (objs p1)[i := obj_destroy (objs p1 ! i)]\<rparr>) }) })"

fun resume_from :: "nat \<Rightarrow> pool \<Rightarrow> pool option" where
  "resume_from 0 p = Some p"
| "resume_from (Suc i) p =
     (if i \<ge> length (bit_map p) then None
      else if BUSY_NODE_INDEX \<noteq> bit_map p ! i
        then do { p' \<leftarrow> SetFreeNode p i; resume_from i p' }
      else resume_from i p)"

definition ResumeNode :: "pool \<Rightarrow> pool option" where
  "ResumeNode p = resume_from (pool_count p) (p\<lparr>free_node := TAIL_OF_LIST\<rparr>)"

text \<open>
  \<open>CreatePool\<close> on the memory at address \<open>self\<close>: \<open>sizeof_pool\<close> is the size of the class, the
  fields of \<open>old\<close> are what the memory holds. \<open>Inl ()\<close> is the exception of a mismatched resume.
\<close>

definition CreatePool ::
  "nat \<Rightarrow> int \<Rightarrow> pool \<Rightarrow> int \<Rightarrow> nat \<Rightarrow> nat \<Rightarrow> bool \<Rightarrow> unit + pool" where
  "CreatePool sizeof_pool self old otyp unit n resume =
     (let off = nat (ALIGN_SIZE (int (sizeof_pool + n * 4)) 8);
          unit' = nat (ALIGN_SIZE (int unit) 8);
          p = old\<lparr>parray := InitArray (self + int off) unit' n\<rparr>
      in if resume
         then if pool_unit p \<noteq> unit' \<or> pool_count p \<noteq> n \<or> obj_type p \<noteq> otyp
              then Inl () else Inr p
         else Inr (p\<lparr>pool_unit := unit', pool_count := n, free_node := TAIL_OF_LIST,
                     max_used_node := 0, allocate_count := 0, deallocate_count := 0,
                     obj_type := otyp mod 2 ^ 8\<rparr>))"

definition TObjPool ::
  "nat \<Rightarrow> int \<Rightarrow> pool \<Rightarrow> int \<Rightarrow> nat \<Rightarrow> nat \<Rightarrow> bool \<Rightarrow> unit + pool option" where
  "TObjPool sizeof_pool self old otyp unit n resume =
     (case CreatePool sizeof_pool self old otyp unit n resume of
        Inl e \<Rightarrow> Inl e
      | Inr p \<Rightarrow> Inr (if resume then ResumeNode p else ConstructFreeList p))"

text \<open>
  \<open>ForeachObj\<close> with a function that takes the address of an object and a state. \<open>max_num\<close> is
  \<open>*max_for_num\<close> when the pointer is given; the result has the number of calls.
\<close>

function foreach_loop ::
  "pool \<Rightarrow> (int \<Rightarrow> 's \<Rightarrow> int \<times> 's) \<Rightarrow> nat option \<Rightarrow> nat \<Rightarrow> nat \<Rightarrow> nat \<Rightarrow> 's \<Rightarrow> nat \<times> 's" where
  "foreach_loop p f max_num first lst num s =
     (if first \<ge> lst then (num, s)
      else if BUSY_NODE_INDEX = bit_map p ! first
        then let (ret, s') = f (slot_addr (parray p) first) s; num' = num + 1
             in if (case max_num of None \<Rightarrow> False | Some m \<Rightarrow> num' \<ge> m) then (num', s')
                else if ret \<le> 0 then (num', s')
                else foreach_loop p f max_num (first + 1) lst num' s'
        else foreach_loop p f max_num (first + 1) lst num s)"
  by pat_completeness auto
termination by (relation "measure (\<lambda>(p, f, m, first, lst, num, s). lst - first)") auto

declare foreach_loop.simps [simp del]

definition ForeachObj ::
  "pool \<Rightarrow> nat \<Rightarrow> nat \<Rightarrow> (int \<Rightarrow> 's \<Rightarrow> int \<times> 's) \<Rightarrow> nat option \<Rightarrow> 's \<Rightarrow> (nat \<times> 's) option" where
  "ForeachObj p first lst f max_num s =
     (if first \<le> lst \<and> lst \<le> MaxSize p
      then let lst' = (if int lst > max_used_node p then nat (max_used_node p) else lst)
           in if first > lst' then None else Some (foreach_loop p f max_num first lst' 0 s)
      else None)"

definition GetBySeq :: "pool \<Rightarrow> nat \<Rightarrow> int option option" where
  "GetBySeq p i =
     (if i \<ge> length (bit_map p) then None
      else Some (if BUSY_NODE_INDEX = bit_map p ! i then Some (slot_addr (parray p) i) else None))"

definition GetNodeSeq :: "pool \<Rightarrow> int \<Rightarrow> nat option" where
  "GetNodeSeq p a = Distance (parray p) a"

end
