(* ===== verification/FreeList.thy ===== *)
theory FreeList
  imports Prelude
begin

text \<open>
  The interface of the two slot allocators of the program, the object pool and the timer queue's nodes. Both hand out
  handles, addresses of objects or ids of timers, each of which names one of \<open>n\<close> slots.

  \<^item> \<open>inv s L\<close> relates a state to its live handles. \<open>serves\<close> says which requests are served at all, \<open>handle\<close> which handles a
    release accepts without a fault, \<open>slot\<close> the slot a handle names, and \<open>arg\<close> which calls are considered: those with arguments
    of the types of the parameters.
  \<^item> \<open>alloc_safe\<close> says what happens along a list of calls: a request is refused exactly when it is not served or all slots are
    in use, otherwise it gets a slot that is not in use; the release of a handle that is not live changes nothing; and a
    value that is no handle is a fault, which ends the run.
\<close>

datatype ('r, 'h) alloc_op = OpAlloc 'r | OpFree 'h

fun alloc_safe ::
  "('s \<Rightarrow> 'r \<Rightarrow> ('h option \<times> 's) option) \<Rightarrow> ('s \<Rightarrow> 'h \<Rightarrow> 's option) \<Rightarrow> ('r \<Rightarrow> bool) \<Rightarrow> ('h \<Rightarrow> bool) \<Rightarrow> ('h \<Rightarrow> 'i) \<Rightarrow> nat \<Rightarrow>
   's \<Rightarrow> 'h set \<Rightarrow> ('r, 'h) alloc_op list \<Rightarrow> bool" where
  "alloc_safe alloc release serves handle slot n s L [] = True"
| "alloc_safe alloc release serves handle slot n s L (OpAlloc r # ops) =
     (case alloc s r of
        None \<Rightarrow> False
      | Some (None, s') \<Rightarrow> (\<not> serves r \<or> card L = n) \<and> s' = s \<and> alloc_safe alloc release serves handle slot n s' L ops
      | Some (Some h, s') \<Rightarrow> serves r \<and> card L < n \<and> handle h \<and> slot h \<notin> slot ` L \<and>
          alloc_safe alloc release serves handle slot n s' (insert h L) ops)"
| "alloc_safe alloc release serves handle slot n s L (OpFree h # ops) =
     (if handle h
      then (case release s h of
          None \<Rightarrow> False
        | Some s' \<Rightarrow> (h \<notin> L \<longrightarrow> s' = s) \<and> alloc_safe alloc release serves handle slot n s' (L - {h}) ops)
      else release s h = None)"

locale slot_alloc =
  fixes alloc :: "'s \<Rightarrow> 'r \<Rightarrow> ('h option \<times> 's) option"
    and release :: "'s \<Rightarrow> 'h \<Rightarrow> 's option"
    and serves :: "'r \<Rightarrow> bool" and handle :: "'h \<Rightarrow> bool" and slot :: "'h \<Rightarrow> 'i" and n :: nat
    and inv :: "'s \<Rightarrow> 'h set \<Rightarrow> bool" and arg :: "('r, 'h) alloc_op \<Rightarrow> bool"
  assumes alloc_law: "inv s L \<Longrightarrow> arg (OpAlloc r) \<Longrightarrow> serves r \<Longrightarrow> card L < n \<Longrightarrow>
      \<exists>h s'. alloc s r = Some (Some h, s') \<and> handle h \<and> slot h \<notin> slot ` L \<and> inv s' (insert h L)"
    and refuse_law: "inv s L \<Longrightarrow> arg (OpAlloc r) \<Longrightarrow> \<not> serves r \<or> card L = n \<Longrightarrow> alloc s r = Some (None, s)"
    and release_law: "inv s L \<Longrightarrow> arg (OpFree h) \<Longrightarrow> handle h \<Longrightarrow> h \<in> L \<Longrightarrow> \<exists>s'. release s h = Some s' \<and> inv s' (L - {h})"
    and stale_law: "inv s L \<Longrightarrow> arg (OpFree h) \<Longrightarrow> handle h \<Longrightarrow> h \<notin> L \<Longrightarrow> release s h = Some s"
    and bad_law: "inv s L \<Longrightarrow> arg (OpFree h) \<Longrightarrow> \<not> handle h \<Longrightarrow> release s h = None"
    and live_law: "inv s L \<Longrightarrow> card L \<le> n"
begin

lemma run_safe: "inv s L \<Longrightarrow> \<forall>c \<in> set ops. arg c \<Longrightarrow> alloc_safe alloc release serves handle slot n s L ops"
proof (induction ops arbitrary: s L)
  case (Cons c ops)
  have args: "arg c" "\<forall>c \<in> set ops. arg c" using Cons.prems(2) by simp_all
  show ?case
  proof (cases c)
    case (OpAlloc r)
    have a: "arg (OpAlloc r)" using args OpAlloc by simp
    show ?thesis
    proof (cases "serves r \<and> card L < n")
      case True
      obtain h s' where "alloc s r = Some (Some h, s')" "handle h" "slot h \<notin> slot ` L" "inv s' (insert h L)"
        using alloc_law [OF Cons.prems(1) a] True by blast
      then show ?thesis using Cons.IH [OF _ args(2)] True OpAlloc by simp
    next
      case False
      then have f: "\<not> serves r \<or> card L = n" using live_law [OF Cons.prems(1)] by linarith
      have "alloc s r = Some (None, s)" by (rule refuse_law [OF Cons.prems(1) a f])
      then show ?thesis using Cons.IH [OF Cons.prems(1) args(2)] f OpAlloc by simp
    qed
  next
    case (OpFree h)
    have a: "arg (OpFree h)" using args OpFree by simp
    show ?thesis
    proof (cases "handle h")
      case True
      show ?thesis
      proof (cases "h \<in> L")
        case live: True
        obtain s' where "release s h = Some s'" "inv s' (L - {h})" using release_law [OF Cons.prems(1) a True live] by blast
        then show ?thesis using Cons.IH [OF _ args(2)] True live OpFree by simp
      next
        case False
        then show ?thesis using stale_law [OF Cons.prems(1) a True False] Cons.IH [OF Cons.prems(1) args(2)] True OpFree by simp
      qed
    next
      case False
      then show ?thesis using bad_law [OF Cons.prems(1) a False] OpFree by simp
    qed
  qed
qed simp

end

end
