(* ===== verification/PoolProofs.thy ===== *)
theory PoolProofs
  imports ObjPool FreeList
begin

text \<open>
  The invariant of the object pool and what each operation does to it. \<open>pool_ok p fs\<close> says that
  \<open>fs\<close> is the free list of \<open>p\<close>, in the order in which the slots will be handed out.
\<close>

fun free_chain :: "int list \<Rightarrow> int \<Rightarrow> nat list \<Rightarrow> bool" where
  "free_chain bm f [] = (f = TAIL_OF_LIST)"
| "free_chain bm f (i # is) =
     (f = int i + 1 \<and> i < length bm \<and> bm ! i \<noteq> BUSY_NODE_INDEX \<and> free_chain bm (bm ! i) is)"

definition shape_ok :: "pool \<Rightarrow> bool" where
  "shape_ok p \<longleftrightarrow> length (bit_map p) = pool_count p \<and> length (objs p) = pool_count p \<and>
     arr_count (parray p) = pool_count p \<and> arr_unit (parray p) \<noteq> 0 \<and>
     pool_count p < MAX_ALLOCATE_COUNT \<and>
     (\<forall>i<pool_count p. bit_map p ! i = BUSY_NODE_INDEX \<longrightarrow> int i < max_used_node p) \<and>
     0 \<le> max_used_node p \<and> max_used_node p \<le> int (pool_count p)"

definition busy :: "pool \<Rightarrow> nat set" where
  "busy p = {i. i < length (bit_map p) \<and> bit_map p ! i = BUSY_NODE_INDEX}"

definition pool_ok :: "pool \<Rightarrow> nat list \<Rightarrow> bool" where
  "pool_ok p fs \<longleftrightarrow> shape_ok p \<and> distinct fs \<and> free_chain (bit_map p) (free_node p) fs \<and>
     set fs = {..<pool_count p} - busy p \<and> deallocate_count p \<le> allocate_count p \<and>
     allocate_count p < MAX_ALLOCATE_COUNT \<and>
     allocate_count p - deallocate_count p = card (busy p)"

lemma free_chain_update [simp]:
  "i \<notin> set is \<Longrightarrow> free_chain (bm[i := x]) f is = free_chain bm f is"
  by (induction "is" arbitrary: f) auto

lemma free_chain_nonzero: "free_chain bm f is \<Longrightarrow> f \<noteq> BUSY_NODE_INDEX"
  by (cases "is") (auto simp: TAIL_OF_LIST_def BUSY_NODE_INDEX_def)

lemma free_chain_unique: "free_chain bm f is \<Longrightarrow> free_chain bm f js \<Longrightarrow> is = js"
proof (induction "is" arbitrary: f js)
  case Nil
  then show ?case by (cases js) (auto simp: TAIL_OF_LIST_def)
next
  case (Cons i "is")
  then show ?case by (cases js) (auto simp: TAIL_OF_LIST_def)
qed

lemma finite_busy [simp]: "finite (busy p)"
  by (simp add: busy_def)

lemma busy_bound: "shape_ok p \<Longrightarrow> busy p \<subseteq> {..<pool_count p}"
  by (auto simp: busy_def shape_ok_def)

lemma card_busy: "shape_ok p \<Longrightarrow> card (busy p) \<le> pool_count p"
  using card_mono [OF _ busy_bound] by fastforce

lemma pool_okD:
  assumes "pool_ok p fs"
  shows "shape_ok p" and "distinct fs" and "free_chain (bit_map p) (free_node p) fs"
    and "set fs = {..<pool_count p} - busy p" and "deallocate_count p \<le> allocate_count p"
    and "allocate_count p < MAX_ALLOCATE_COUNT"
    and "allocate_count p - deallocate_count p = card (busy p)"
  using assms by (simp_all add: pool_ok_def)

subsection \<open>Allocation\<close>

lemma busy_take: "i < length (bit_map p) \<Longrightarrow>
    busy (p\<lparr>bit_map := (bit_map p)[i := BUSY_NODE_INDEX]\<rparr>) = insert i (busy p)"
  by (auto simp: busy_def nth_list_update)

lemma GetFreeNode_empty: "pool_ok p [] \<Longrightarrow> GetFreeNode p = Some (None, p)"
  by (simp add: GetFreeNode_def pool_ok_def)

text \<open>The pool after a successful allocation of slot \<open>i\<close>.\<close>

definition pool_taken :: "pool \<Rightarrow> nat \<Rightarrow> pool" where
  "pool_taken p i =
     (let rebase = allocate_count p + 1 \<ge> MAX_ALLOCATE_COUNT in
      p\<lparr>max_used_node := max (max_used_node p) (int i + 1),
        free_node := bit_map p ! i, bit_map := (bit_map p)[i := BUSY_NODE_INDEX],
        allocate_count := allocate_count p + 1 - (if rebase then deallocate_count p else 0),
        deallocate_count := (if rebase then 0 else deallocate_count p),
        objs := (objs p)[i := SetObjType (obj_type p) (IncSeq (objs p ! i))]\<rparr>)"

lemma Allocate_cons:
  assumes "pool_ok p (i # fs)"
  shows "Allocate p = Some (Some (slot_addr (parray p) i), pool_taken p i)"
proof -
  note ok = pool_okD [OF assms]
  have i: "free_node p = int i + 1" "i < length (bit_map p)" "bit_map p ! i \<noteq> BUSY_NODE_INDEX"
    using ok(3) by simp_all
  have dist: "Distance (parray p) (slot_addr (parray p) i) = Some i"
    using ok(1) i by (intro Distance_slot) (auto simp: shape_ok_def)
  have len: "i < length (objs p)" "i < pool_count p" using ok(1) i by (auto simp: shape_ok_def)
  have get: "GetFreeNode p = Some (Some (slot_addr (parray p) i),
      p\<lparr>max_used_node := max (max_used_node p) (int i + 1), free_node := bit_map p ! i,
        bit_map := (bit_map p)[i := BUSY_NODE_INDEX]\<rparr>)"
    using i by (simp add: GetFreeNode_def TAIL_OF_LIST_def Let_def max_def)
  show ?thesis
    using ok(5) dist len by (simp add: Allocate_def get pool_taken_def Let_def)
qed

lemma shape_taken:
  assumes "shape_ok p" and "i < pool_count p"
  shows "shape_ok (pool_taken p i)"
  using assms by (auto simp: shape_ok_def pool_taken_def Let_def nth_list_update less_max_iff_disj
      split: if_splits)

lemma taken_counts:
  assumes "deallocate_count p \<le> allocate_count p"
  shows "pool_count (pool_taken p i) = pool_count p"
    and "deallocate_count (pool_taken p i) \<le> allocate_count (pool_taken p i)"
    and "allocate_count (pool_taken p i) - deallocate_count (pool_taken p i) =
      allocate_count p + 1 - deallocate_count p"
    and "allocate_count p + 1 - deallocate_count p < MAX_ALLOCATE_COUNT \<Longrightarrow>
      allocate_count (pool_taken p i) < MAX_ALLOCATE_COUNT"
  using assms by (auto simp: pool_taken_def Let_def)

lemma busy_taken: "i < length (bit_map p) \<Longrightarrow> busy (pool_taken p i) = insert i (busy p)"
  by (auto simp: pool_taken_def Let_def busy_def nth_list_update)

lemma pool_ok_taken:
  assumes "pool_ok p (i # fs)"
  shows "pool_ok (pool_taken p i) fs"
proof -
  note ok = pool_okD [OF assms]
  have i: "i < length (bit_map p)" "i < pool_count p" "i \<notin> busy p" "i \<notin> set fs"
    using ok by (auto simp: shape_ok_def)
  have b: "busy (pool_taken p i) = insert i (busy p)" using i by (simp add: busy_taken)
  have c: "allocate_count p + 1 - deallocate_count p = card (busy (pool_taken p i))"
    using ok(5,7) i by (simp add: b)
  note counts = taken_counts [OF ok(5), of i]
  have shape: "shape_ok (pool_taken p i)" using ok(1) i(2) by (rule shape_taken)
  have "card (busy (pool_taken p i)) \<le> pool_count p" using card_busy [OF shape] counts(1) by simp
  then have "card (busy (pool_taken p i)) < MAX_ALLOCATE_COUNT" using ok(1) by (simp add: shape_ok_def)
  then have "allocate_count (pool_taken p i) < MAX_ALLOCATE_COUNT" using counts(4) c by simp
  moreover have "free_chain (bit_map (pool_taken p i)) (free_node (pool_taken p i)) fs"
    using ok(3) i by (simp add: pool_taken_def Let_def)
  moreover have "set fs = {..<pool_count (pool_taken p i)} - busy (pool_taken p i)"
    using ok(2,4) by (auto simp: b counts(1))
  ultimately show ?thesis
    using ok(2) shape c counts(2,3) by (simp add: pool_ok_def)
qed

subsection \<open>Release\<close>

definition pool_released :: "pool \<Rightarrow> nat \<Rightarrow> pool" where
  "pool_released p i = p\<lparr>deallocate_count := deallocate_count p + 1,
     bit_map := (bit_map p)[i := free_node p], free_node := int i + 1,
     objs := (objs p)[i := obj_destroy (objs p ! i)]\<rparr>"

lemma Deallocate_busy:
  assumes "shape_ok p" and "i \<in> busy p"
  shows "Deallocate p (Some (slot_addr (parray p) i)) = Some (pool_released p i)"
  using assms by (simp add: Deallocate_def Distance_slot shape_ok_def busy_def SetFreeNode_def
      pool_released_def)

lemma Deallocate_free:
  assumes "shape_ok p" and "i < pool_count p" and "i \<notin> busy p"
  shows "Deallocate p (Some (slot_addr (parray p) i)) = Some p"
  using assms by (simp add: Deallocate_def Distance_slot shape_ok_def busy_def)

lemma busy_released:
  assumes "free_node p \<noteq> BUSY_NODE_INDEX" and "i < length (bit_map p)"
  shows "busy (pool_released p i) = busy p - {i}"
  using assms by (auto simp: pool_released_def busy_def nth_list_update)

lemma pool_ok_released:
  assumes "pool_ok p fs" and "i \<in> busy p"
  shows "pool_ok (pool_released p i) (i # fs)"
proof -
  note ok = pool_okD [OF assms(1)]
  have nz: "free_node p \<noteq> BUSY_NODE_INDEX" using ok(3) by (rule free_chain_nonzero)
  have i: "i < length (bit_map p)" "i < pool_count p" "i \<notin> set fs"
    using assms(2) ok(1,4) by (auto simp: busy_def shape_ok_def)
  have b: "busy (pool_released p i) = busy p - {i}" using nz i(1) by (rule busy_released)
  have pos: "0 < card (busy p)" using assms(2) by (auto simp: card_gt_0_iff)
  have "shape_ok (pool_released p i)"
    using ok(1) nz i(1) by (auto simp: shape_ok_def pool_released_def nth_list_update)
  moreover have "free_chain (bit_map (pool_released p i)) (free_node (pool_released p i)) (i # fs)"
    using ok(3) i nz by (simp add: pool_released_def)
  moreover have "set (i # fs) = {..<pool_count (pool_released p i)} - busy (pool_released p i)"
  proof -
    have "i \<in> {..<pool_count p}" using i by simp
    moreover have "pool_count (pool_released p i) = pool_count p" by (simp add: pool_released_def)
    ultimately show ?thesis using ok(4) assms(2) by (simp add: b) blast
  qed
  moreover have "card (busy (pool_released p i)) = card (busy p) - 1" using assms(2) by (simp add: b)
  moreover have "deallocate_count (pool_released p i) = deallocate_count p + 1"
    "allocate_count (pool_released p i) = allocate_count p"
    by (simp_all add: pool_released_def)
  moreover have "deallocate_count p + 1 \<le> allocate_count p" using ok(5,7) pos by simp
  ultimately show ?thesis
    using ok(2,6,7) i(3) by (simp add: pool_ok_def)
qed

subsection \<open>The allocator interface\<close>

text \<open>
  Slots as the addresses the code hands out: \<open>as\<close> the free ones, in the order in which they will be handed out, \<open>L\<close> the live
  ones; together they are all slots of the array. The pool gives the laws of \<open>slot_alloc\<close>.
\<close>

definition pool_slots :: "pool \<Rightarrow> int list \<Rightarrow> int set \<Rightarrow> bool" where
  "pool_slots p as L \<longleftrightarrow> (\<exists>fs. pool_ok p fs \<and> as = map (slot_addr (parray p)) fs \<and>
     L = slot_addr (parray p) ` busy p)"

definition slots_of :: "buffer_array \<Rightarrow> int set" where
  "slots_of a = slot_addr a ` {..<arr_count a}"

lemma parray_taken [simp]: "parray (pool_taken p i) = parray p"
  by (simp add: pool_taken_def Let_def)

lemma parray_released [simp]: "parray (pool_released p i) = parray p"
  by (simp add: pool_released_def)

lemma slot_addr_eq: "shape_ok p \<Longrightarrow> slot_addr (parray p) i = slot_addr (parray p) j \<longleftrightarrow> i = j"
  by (simp add: shape_ok_def slot_addr_def)

lemma slot_addr_inj_on: "shape_ok p \<Longrightarrow> inj_on (slot_addr (parray p)) S"
  using slot_addr_eq by (auto simp: inj_on_def)

lemma pool_slots_new: "pool_ok p fs \<Longrightarrow> busy p = {} \<Longrightarrow> pool_slots p (map (slot_addr (parray p)) fs) {}"
  by (auto simp: pool_slots_def)

lemma pool_slots_alloc:
  assumes "pool_slots p (a # as) L"
  shows "\<exists>p'. Allocate p = Some (Some a, p') \<and> parray p' = parray p \<and> pool_slots p' as (insert a L)"
proof -
  obtain i fs where ok: "pool_ok p (i # fs)" and a: "a = slot_addr (parray p) i"
    and r: "as = map (slot_addr (parray p)) fs" "L = slot_addr (parray p) ` busy p"
    using assms by (auto simp: pool_slots_def Cons_eq_map_conv)
  have "i < length (bit_map p)" using pool_okD(3) [OF ok] by simp
  then have "pool_slots (pool_taken p i) as (insert a L)"
    using pool_ok_taken [OF ok] a r by (auto simp: pool_slots_def busy_taken)
  then show ?thesis using Allocate_cons [OF ok] a by auto
qed

lemma pool_slots_full: "pool_slots p [] L \<Longrightarrow> Allocate p = Some (None, p)"
  by (auto simp: pool_slots_def Allocate_def GetFreeNode_empty)

lemma pool_slots_release:
  assumes "pool_slots p as L" and "a \<in> L"
  shows "\<exists>p'. Deallocate p (Some a) = Some p' \<and> parray p' = parray p \<and> pool_slots p' (a # as) (L - {a})"
proof -
  obtain i fs where ok: "pool_ok p fs" and a: "a = slot_addr (parray p) i" "i \<in> busy p"
    and r: "as = map (slot_addr (parray p)) fs" "L = slot_addr (parray p) ` busy p"
    using assms by (auto simp: pool_slots_def)
  note shape = pool_okD(1) [OF ok]
  have "busy (pool_released p i) = busy p - {i}"
    using a(2) free_chain_nonzero [OF pool_okD(3) [OF ok]] by (intro busy_released) (auto simp: busy_def)
  then have "slot_addr (parray p) ` busy (pool_released p i) = L - {a}"
    using a r slot_addr_eq [OF shape] by auto
  then have "pool_slots (pool_released p i) (a # as) (L - {a})"
    using pool_ok_released [OF ok a(2)] a r by (auto simp: pool_slots_def)
  then show ?thesis using Deallocate_busy [OF shape a(2)] a by auto
qed

lemma pool_slots_cover:
  assumes "pool_slots p as L"
  shows "distinct as" "set as \<inter> L = {}" "set as \<union> L = slots_of (parray p)" "finite L"
    "card L + length as = arr_count (parray p)"
proof -
  obtain fs where ok: "pool_ok p fs" and r: "as = map (slot_addr (parray p)) fs" "L = slot_addr (parray p) ` busy p"
    using assms by (auto simp: pool_slots_def)
  note s = pool_okD(1) [OF ok]
  note inj = slot_addr_inj_on [OF s]
  have n: "arr_count (parray p) = pool_count p" using s by (simp add: shape_ok_def)
  have b: "set fs \<union> busy p = {..<pool_count p}" "set fs \<inter> busy p = {}"
    using pool_okD(4) [OF ok] busy_bound [OF s] by auto
  show d: "distinct as" using r pool_okD(2) [OF ok] inj by (simp add: distinct_map)
  show u: "set as \<union> L = slots_of (parray p)" using r b(1) n by (simp add: slots_of_def image_Un [symmetric])
  show i: "set as \<inter> L = {}" using r b(2) slot_addr_eq [OF s] by auto
  show f: "finite L" using r by simp
  have "card (set as) + card L = card (set as \<union> L)" using i f by (simp add: card_Un_disjoint)
  moreover have "card (slots_of (parray p)) = arr_count (parray p)" by (simp add: slots_of_def card_image [OF inj])
  ultimately show "card L + length as = arr_count (parray p)" using u distinct_card [OF d] by simp
qed

lemma pool_slots_stale:
  assumes "pool_slots p as L" and "a \<in> slots_of (parray p)" "a \<notin> L"
  shows "Deallocate p (Some a) = Some p"
proof -
  obtain fs where ok: "pool_ok p fs" and r: "L = slot_addr (parray p) ` busy p" using assms(1) by (auto simp: pool_slots_def)
  note s = pool_okD(1) [OF ok]
  obtain i where "i < pool_count p" "a = slot_addr (parray p) i" using assms(2) s by (auto simp: slots_of_def shape_ok_def)
  then show ?thesis using Deallocate_free [OF s] assms(3) r by blast
qed

lemma not_a_slot: "a \<notin> slots_of (parray p) \<Longrightarrow> Deallocate p (Some a) = None"
proof -
  assume a: "a \<notin> slots_of (parray p)"
  have "Distance (parray p) a = None"
  proof (rule ccontr)
    assume "Distance (parray p) a \<noteq> None"
    then obtain i where i: "Distance (parray p) a = Some i" by blast
    let ?d = "a - arr_start (parray p)" and ?u = "int (arr_unit (parray p))"
    have d: "0 \<le> ?d" "?u \<noteq> 0" "?d mod ?u = 0" "?d div ?u < int (arr_count (parray p))" "i = nat (?d div ?u)"
      using i by (auto simp: Distance_def split: if_splits)
    then have "int i = ?d div ?u" by (simp add: pos_imp_zdiv_nonneg_iff)
    moreover have "?d div ?u * ?u = ?d" using d(3) by (metis add.right_neutral div_mult_mod_eq)
    ultimately have "a = slot_addr (parray p) i" "i < arr_count (parray p)" using d(4) by (simp_all add: slot_addr_def)
    then show False using a by (auto simp: slots_of_def)
  qed
  then show ?thesis by (simp add: Deallocate_def)
qed

definition pool_inv :: "buffer_array \<Rightarrow> pool \<Rightarrow> int set \<Rightarrow> bool" where
  "pool_inv A p L \<longleftrightarrow> parray p = A \<and> (\<exists>as. pool_slots p as L)"

definition pool_alloc :: "pool \<Rightarrow> unit \<Rightarrow> (int option \<times> pool) option" where
  "pool_alloc p u = Allocate p"

definition pool_release :: "pool \<Rightarrow> int \<Rightarrow> pool option" where
  "pool_release p a = Deallocate p (Some a)"

interpretation op: slot_alloc pool_alloc pool_release "\<lambda>_. True" "\<lambda>a. a \<in> slots_of A" "\<lambda>a. a" "arr_count A" "pool_inv A" "\<lambda>_. True"
proof
  fix p L r
  assume i: "pool_inv A p L"
  then obtain as where s: "parray p = A" "pool_slots p as L" by (auto simp: pool_inv_def)
  note c = pool_slots_cover [OF s(2)]
  show "card L \<le> arr_count A" using c(5) s(1) by simp
  { assume "card L < arr_count A"
    then obtain a as' where as: "as = a # as'" using c(5) s(1) by (cases as) auto
    obtain p' where "Allocate p = Some (Some a, p')" "parray p' = A" "pool_slots p' as' (insert a L)"
      using pool_slots_alloc s as by blast
    moreover have "a \<in> slots_of A" "a \<notin> L" using c(2,3) s(1) as by auto
    ultimately show "\<exists>h s'. pool_alloc p r = Some (Some h, s') \<and> h \<in> slots_of A \<and> h \<notin> (\<lambda>a. a) ` L \<and> pool_inv A s' (insert h L)"
      by (auto simp: pool_alloc_def pool_inv_def) }
  { assume "\<not> True \<or> card L = arr_count A"
    then have "as = []" using c(5) s(1) by simp
    then show "pool_alloc p r = Some (None, p)" using pool_slots_full s(2) by (simp add: pool_alloc_def) }
  fix a
  { assume "a \<in> L"
    from pool_slots_release [OF s(2) this] show "\<exists>s'. pool_release p a = Some s' \<and> pool_inv A s' (L - {a})"
      using s(1) by (auto simp: pool_release_def pool_inv_def) }
  { assume "a \<in> slots_of A" "a \<notin> L"
    then show "pool_release p a = Some p" using pool_slots_stale [OF s(2)] s(1) by (simp add: pool_release_def) }
  { assume "a \<notin> slots_of A"
    then show "pool_release p a = None" using not_a_slot s(1) by (simp add: pool_release_def) }
qed

subsection \<open>Building the free list\<close>

lemma free_from_chain:
  assumes "n \<le> length (bit_map p)" and "free_chain (bit_map p) (free_node p) fs"
    and "set fs \<inter> {..<n} = {}"
  shows "\<exists>p'. free_from n p = Some p' \<and> free_chain (bit_map p') (free_node p') ([0..<n] @ fs) \<and>
    p' = p\<lparr>bit_map := bit_map p', free_node := free_node p'\<rparr> \<and> length (bit_map p') = length (bit_map p)"
  using assms
proof (induction n arbitrary: p fs)
  case (Suc n)
  have nf: "n \<notin> set fs" "set fs \<inter> {..<n} = {}" using Suc.prems(3) by (auto simp: lessThan_Suc)
  let ?p = "p\<lparr>bit_map := (bit_map p)[n := free_node p], free_node := int n + 1\<rparr>"
  have "free_chain (bit_map ?p) (free_node ?p) (n # fs)"
    using Suc.prems nf free_chain_nonzero [OF Suc.prems(2)] by auto
  moreover have "set (n # fs) \<inter> {..<n} = {}" using nf by auto
  ultimately obtain p' where "free_from n ?p = Some p'"
    "free_chain (bit_map p') (free_node p') ([0..<n] @ n # fs)"
    "p' = ?p\<lparr>bit_map := bit_map p', free_node := free_node p'\<rparr>"
    "length (bit_map p') = length (bit_map ?p)"
    using Suc.IH [of ?p "n # fs"] Suc.prems(1) by auto
  then show ?case using Suc.prems(1) by (auto simp: SetFreeNode_def)
qed auto

text \<open>\<open>ResumeNode\<close> keeps the busy slots and chains all others in ascending order.\<close>

lemma resume_from_chain:
  assumes "n \<le> length (bit_map p)" and "free_chain (bit_map p) (free_node p) fs"
    and "set fs \<inter> {..<n} = {}"
  shows "\<exists>p'. resume_from n p = Some p' \<and>
    free_chain (bit_map p') (free_node p') (filter (\<lambda>i. bit_map p ! i \<noteq> BUSY_NODE_INDEX) [0..<n] @ fs) \<and>
    p' = p\<lparr>bit_map := bit_map p', free_node := free_node p'\<rparr> \<and> busy p' = busy p \<and>
    length (bit_map p') = length (bit_map p)"
  using assms
proof (induction n arbitrary: p fs)
  case (Suc n)
  have nf: "n \<notin> set fs" "set fs \<inter> {..<n} = {}" using Suc.prems(3) by (auto simp: lessThan_Suc)
  show ?case
  proof (cases "bit_map p ! n = BUSY_NODE_INDEX")
    case True
    then show ?thesis using Suc.IH [of p fs] Suc.prems nf by auto
  next
    case False
    let ?p = "p\<lparr>bit_map := (bit_map p)[n := free_node p], free_node := int n + 1\<rparr>"
    have nz: "free_node p \<noteq> BUSY_NODE_INDEX" using Suc.prems(2) by (rule free_chain_nonzero)
    have chain: "free_chain (bit_map ?p) (free_node ?p) (n # fs)" using Suc.prems nf nz by auto
    have busy: "busy ?p = busy p"
      using False nz Suc.prems(1) by (auto simp: busy_def nth_list_update)
    have flt: "filter (\<lambda>i. bit_map ?p ! i \<noteq> BUSY_NODE_INDEX) [0..<n] =
        filter (\<lambda>i. bit_map p ! i \<noteq> BUSY_NODE_INDEX) [0..<n]"
      by (rule filter_cong) auto
    have "set (n # fs) \<inter> {..<n} = {}" using nf by auto
    with chain obtain p' where p': "resume_from n ?p = Some p'"
      "free_chain (bit_map p') (free_node p')
        (filter (\<lambda>i. bit_map ?p ! i \<noteq> BUSY_NODE_INDEX) [0..<n] @ n # fs)"
      "p' = ?p\<lparr>bit_map := bit_map p', free_node := free_node p'\<rparr>" "busy p' = busy ?p"
      "length (bit_map p') = length (bit_map ?p)"
      using Suc.IH [of ?p "n # fs"] Suc.prems(1) by auto
    have "resume_from (Suc n) p = Some p'" using False Suc.prems(1) p'(1) by (simp add: SetFreeNode_def)
    moreover have "p' = p\<lparr>bit_map := bit_map p', free_node := free_node p'\<rparr>" using p'(3) by simp
    moreover have "free_chain (bit_map p') (free_node p')
        (filter (\<lambda>i. bit_map p ! i \<noteq> BUSY_NODE_INDEX) [0..<Suc n] @ fs)"
      using p'(2) False unfolding flt by simp
    ultimately show ?thesis using p'(4,5) busy by auto
  qed
qed auto

subsection \<open>Creation and resume\<close>

lemma aligned_unit: "0 < u \<Longrightarrow> int u + 8 \<le> 2 ^ 64 \<Longrightarrow> nat (ALIGN_SIZE (int u) 8) \<noteq> 0"
  using ALIGN_SIZE_8(1) [of "int u"] by simp

lemma TObjPool_new:
  assumes "length (bit_map old) = n" and "length (objs old) = n" and "n < MAX_ALLOCATE_COUNT"
    and "0 < u" and "int u + 8 \<le> 2 ^ 64"
  shows "\<exists>p. TObjPool sz self old ty u n False = Inr (Some p) \<and> pool_ok p [0..<n] \<and>
    busy p = {} \<and> obj_type p = ty mod 2 ^ 8 \<and>
    parray p = InitArray (self + int (nat (ALIGN_SIZE (int (sz + n * 4)) 8))) (nat (ALIGN_SIZE (int u) 8)) n"
proof -
  obtain p0 where p0: "CreatePool sz self old ty u n False = Inr p0" by (simp add: CreatePool_def Let_def)
  have f: "bit_map p0 = bit_map old" "objs p0 = objs old" "pool_count p0 = n" "free_node p0 = TAIL_OF_LIST"
    "max_used_node p0 = 0" "allocate_count p0 = 0" "deallocate_count p0 = 0"
    "arr_count (parray p0) = n" "arr_unit (parray p0) = nat (ALIGN_SIZE (int u) 8)"
    "obj_type p0 = ty mod 2 ^ 8"
    "parray p0 = InitArray (self + int (nat (ALIGN_SIZE (int (sz + n * 4)) 8))) (nat (ALIGN_SIZE (int u) 8)) n"
    using p0 by (auto simp: CreatePool_def Let_def InitArray_def)
  obtain p where p: "free_from n p0 = Some p"
    "free_chain (bit_map p) (free_node p) ([0..<n] @ [])"
    "p = p0\<lparr>bit_map := bit_map p, free_node := free_node p\<rparr>" "length (bit_map p) = length (bit_map p0)"
    using free_from_chain [of n p0 "[]"] assms(1) by (auto simp: f)
  have chain_free: "free_chain bm g is \<Longrightarrow> i \<in> set is \<Longrightarrow> bm ! i \<noteq> BUSY_NODE_INDEX" for bm g "is" i
    by (induction "is" arbitrary: g) auto
  have g: "pool_count p = n" "objs p = objs old" "parray p = parray p0" "max_used_node p = 0"
    "allocate_count p = 0" "deallocate_count p = 0" "obj_type p = ty mod 2 ^ 8" "length (bit_map p) = n"
    using p(3,4) f assms(1) by (metis pool.simps pool.select_convs pool.surjective pool.update_convs)+
  have b: "busy p = {}"
    using chain_free [OF p(2)] g(8) by (auto simp: busy_def)
  then have "shape_ok p"
    using g f(8,9) assms aligned_unit [OF assms(4,5)] by (auto simp: shape_ok_def busy_def)
  then have "pool_ok p [0..<n]"
    using b g p(2) by (auto simp: pool_ok_def MAX_ALLOCATE_COUNT_def)
  then show ?thesis using p0 p(1) b g(3,7) f(11) by (auto simp: TObjPool_def ConstructFreeList_def f(3))
qed

text \<open>Where the slots of a new pool lie: behind the header and the bit map, aligned, and with room for an object each.\<close>

lemma new_slots:
  assumes "parray p = InitArray (self + int (nat (ALIGN_SIZE (int (sz + n * 4)) 8))) (nat (ALIGN_SIZE (int u) 8)) n"
    and "int u + 8 \<le> 2 ^ 64" "int (sz + n * 4) + 8 \<le> 2 ^ 64"
  shows "self + int (sz + n * 4) \<le> slot_addr (parray p) i" "8 dvd slot_addr (parray p) i - self"
    "j < i \<Longrightarrow> slot_addr (parray p) j + int u \<le> slot_addr (parray p) i"
proof -
  let ?h = "ALIGN_SIZE (int (sz + n * 4)) 8" and ?u = "ALIGN_SIZE (int u) 8"
  have h: "int (sz + n * 4) \<le> ?h" "8 dvd ?h" "int u \<le> ?u" "8 dvd ?u" using ALIGN_SIZE_8 assms(2,3) by simp_all
  have st: "arr_start (parray p) = self + ?h" "int (arr_unit (parray p)) = ?u" using h(1,3) by (simp_all add: assms(1) InitArray_def)
  have a: "slot_addr (parray p) k = self + ?h + int k * ?u" for k using st by (simp add: slot_addr_def)
  have "0 \<le> int i * ?u" using h(3) by simp
  then show "self + int (sz + n * 4) \<le> slot_addr (parray p) i" using a [of i] h(1) by linarith
  show "8 dvd slot_addr (parray p) i - self" using a [of i] h(2,4) by simp
  assume "j < i"
  then show "slot_addr (parray p) j + int u \<le> slot_addr (parray p) i" using slots_disjoint [of j i "parray p"] st(2) h(3) by linarith
qed

lemma ResumeNode_ok:
  assumes shape: "shape_ok p" and counts: "deallocate_count p \<le> allocate_count p"
    "allocate_count p < MAX_ALLOCATE_COUNT" "allocate_count p - deallocate_count p = card (busy p)"
  shows "\<exists>p'. ResumeNode p = Some p' \<and> busy p' = busy p \<and> objs p' = objs p \<and>
    pool_ok p' (filter (\<lambda>i. i \<notin> busy p) [0..<pool_count p])"
proof -
  let ?p = "p\<lparr>free_node := TAIL_OF_LIST\<rparr>" and ?n = "pool_count p"
  have len: "length (bit_map p) = ?n" using shape by (simp add: shape_ok_def)
  obtain p' where p': "resume_from ?n ?p = Some p'"
    "free_chain (bit_map p') (free_node p')
      (filter (\<lambda>i. bit_map ?p ! i \<noteq> BUSY_NODE_INDEX) [0..<?n] @ [])"
    "p' = ?p\<lparr>bit_map := bit_map p', free_node := free_node p'\<rparr>" "busy p' = busy ?p"
    "length (bit_map p') = length (bit_map ?p)"
    using resume_from_chain [of ?n ?p "[]"] len by auto
  have b: "busy p' = busy p" using p'(4) by (simp add: busy_def)
  have flt: "filter (\<lambda>i. bit_map ?p ! i \<noteq> BUSY_NODE_INDEX) [0..<?n] =
      filter (\<lambda>i. i \<notin> busy p) [0..<?n]"
    by (rule filter_cong) (simp_all add: busy_def len)
  have g: "pool_count p' = ?n" "objs p' = objs p" "parray p' = parray p"
    "max_used_node p' = max_used_node p" "allocate_count p' = allocate_count p"
    "deallocate_count p' = deallocate_count p" "length (bit_map p') = ?n"
    using p'(3,5) len by (metis pool.select_convs pool.surjective pool.update_convs)+
  have "i < ?n \<Longrightarrow> bit_map p' ! i = BUSY_NODE_INDEX \<Longrightarrow> i \<in> busy p" for i
    using g(7) b by (auto simp: busy_def)
  then have "shape_ok p'"
    using shape g by (auto simp: shape_ok_def busy_def)
  then have "pool_ok p' (filter (\<lambda>i. i \<notin> busy p) [0..<?n])"
    using p'(2) flt g counts b by (auto simp: pool_ok_def)
  then show ?thesis using p'(1) b g(2) by (auto simp: ResumeNode_def)
qed

subsection \<open>Visiting the live objects\<close>

definition busy_list :: "pool \<Rightarrow> nat \<Rightarrow> nat \<Rightarrow> nat list" where
  "busy_list p a b = filter (\<lambda>i. bit_map p ! i = BUSY_NODE_INDEX) [a..<b]"

fun visit :: "(int \<Rightarrow> 's \<Rightarrow> int \<times> 's) \<Rightarrow> int list \<Rightarrow> 's \<Rightarrow> 's" where
  "visit f [] s = s"
| "visit f (a # as) s = visit f as (snd (f a s))"

lemma foreach_loop_all:
  assumes pos: "\<And>a s. 0 < fst (f a s)"
  shows "foreach_loop p f None a b num s =
    (num + length (busy_list p a b), visit f (map (slot_addr (parray p)) (busy_list p a b)) s)"
proof (induction "b - a" arbitrary: a num s)
  case 0
  then show ?case by (simp add: foreach_loop.simps [of p f None a] busy_list_def)
next
  case (Suc n)
  then have ab: "a < b" "n = b - Suc a" by auto
  have l: "busy_list p a b =
      (if bit_map p ! a = BUSY_NODE_INDEX then a # busy_list p (Suc a) b else busy_list p (Suc a) b)"
    using ab by (simp add: busy_list_def upt_conv_Cons)
  have "\<not> fst (f (slot_addr (parray p) a) s) \<le> 0" using pos by (simp add: not_le)
  then show ?case
    using ab Suc.hyps(1) [OF ab(2)] l
    by (auto simp: foreach_loop.simps [of p f None a] split_beta)
qed

text \<open>The clipping at \<open>max_used_node\<close> loses no live object.\<close>

lemma busy_list_clip:
  assumes "shape_ok p" and "b \<le> pool_count p"
  shows "busy_list p a (min b (nat (max_used_node p))) = busy_list p a b"
proof (cases "b \<le> nat (max_used_node p)")
  case False
  let ?m = "nat (max_used_node p)"
  have none: "bit_map p ! i \<noteq> BUSY_NODE_INDEX" if "?m \<le> i" "i < b" for i
  proof
    assume "bit_map p ! i = BUSY_NODE_INDEX"
    moreover have "i < pool_count p" using that assms by simp
    ultimately have "int i < max_used_node p" using assms by (auto simp: shape_ok_def busy_def)
    then show False using that by simp
  qed
  show ?thesis
  proof (cases "a \<le> ?m")
    case True
    then have "[a..<b] = [a..<?m] @ [?m..<b]" using False
      by (metis nat_le_linear upt_add_eq_append le_add_diff_inverse)
    moreover have "filter (\<lambda>i. bit_map p ! i = BUSY_NODE_INDEX) [?m..<b] = []"
      using none by (simp add: filter_empty_conv)
    ultimately show ?thesis using False by (simp add: busy_list_def min_def)
  next
    case out: False
    have "filter (\<lambda>i. bit_map p ! i = BUSY_NODE_INDEX) [a..<b] = []"
      using none out by (simp add: filter_empty_conv)
    then show ?thesis using out False by (simp add: busy_list_def min_def)
  qed
qed (simp add: min_def)

lemma ForeachObj_all:
  assumes shape: "shape_ok p" and pos: "\<And>a s. 0 < fst (f a s)"
    and range: "a \<le> b" "b \<le> pool_count p" "a \<le> nat (max_used_node p)"
  shows "ForeachObj p a b f None s = Some (length (busy_list p a b),
    visit f (map (slot_addr (parray p)) (busy_list p a b)) s)"
proof -
  let ?m = "min b (nat (max_used_node p))"
  have "(if int b > max_used_node p then nat (max_used_node p) else b) = ?m"
    using shape by (auto simp: shape_ok_def min_def)
  moreover have "b \<le> MaxSize p" "\<not> a > ?m" using shape range by (simp_all add: MaxSize_def shape_ok_def)
  ultimately show ?thesis
    using range foreach_loop_all [where f = f and p = p and a = a and b = ?m and num = 0 and s = s, OF pos]
    by (simp add: ForeachObj_def Let_def busy_list_clip [OF shape range(2)])
qed

subsection \<open>Stale ids\<close>

text \<open>
  The headers as memory: slot \<open>i\<close> is at the offset of its address from the start of the pool
  memory. An id taken from a live object resolves until the object is released, and not after a
  new object took the slot.
\<close>

definition pool_mem :: "pool \<Rightarrow> int \<Rightarrow> int \<Rightarrow> obj_base option" where
  "pool_mem p base off = (case Distance (parray p) (base + off) of
     None \<Rightarrow> None | Some i \<Rightarrow> if i < length (objs p) then Some (objs p ! i) else None)"

definition slot_id :: "pool \<Rightarrow> int \<Rightarrow> nat \<Rightarrow> obj_id" where
  "slot_id p base i = id_of_obj (slot_addr (parray p) i - base) (objs p ! i)"

lemma pool_mem_slot:
  assumes "shape_ok p" and "i < pool_count p"
  shows "pool_mem p base (slot_addr (parray p) i - base) = Some (objs p ! i)"
  using assms by (simp add: pool_mem_def Distance_slot shape_ok_def)

lemma slot_id_resolves_iff:
  assumes "shape_ok q" and "i < pool_count q"
    and off: "oid x = slot_addr (parray q) i - base" "0 < oid x" "oid x \<le> psz"
  shows "GetObject (pool_mem q base) psz x = Some (if m_type (objs q ! i) \<noteq> 0 \<and>
      otype x = m_type (objs q ! i) \<and> oseq x = m_seq (objs q ! i) then Some (oid x) else None)"
  using assms pool_mem_slot [OF assms(1,2), of base]
  by (auto simp: GetObject_def GetObjType_def GetSeq_def)

end
