(* ===== verification/PoolProps.thy ===== *)
theory PoolProps
  imports PoolProofs
begin

text \<open>
  The properties of the object pool, over the invariant \<open>pool_ok\<close>: creation and resume, allocation
  and release on every branch, visiting the live objects, and the life of an object's id.
\<close>

text \<open>A pool of three slots of 8 bytes at address 64, all free, and one with slot 1 in use.\<close>

definition blank3 :: pool where
  "blank3 = \<lparr>obj_type = 0, parray = BufferArray_new, allocate_count = 0, deallocate_count = 0,
     pool_unit = 0, pool_count = 0, free_node = 0, max_used_node = 0, bit_map = [5, 5, 5],
     objs = replicate 3 \<lparr>m_type = 0, m_seq = 0, m_md5 = 0\<rparr>\<rparr>"

definition free3 :: pool where
  "free3 = \<lparr>obj_type = 7, parray = \<lparr>arr_start = 64, arr_unit = 8, arr_count = 3\<rparr>,
     allocate_count = 0, deallocate_count = 0, pool_unit = 8, pool_count = 3, free_node = 1,
     max_used_node = 0, bit_map = [2, 3, -1],
     objs = replicate 3 \<lparr>m_type = 0, m_seq = 0, m_md5 = 0\<rparr>\<rparr>"

definition full3 :: pool where
  "full3 = free3\<lparr>bit_map := [0, 0, -1], max_used_node := 2, free_node := 3,
     allocate_count := 2\<rparr>"

lemma less3: "i < 3 \<longleftrightarrow> i = 0 \<or> i = 1 \<or> i = (2 :: nat)"
  by auto

lemma free3_fields:
  "pool_count free3 = 3" "parray free3 = \<lparr>arr_start = 64, arr_unit = 8, arr_count = 3\<rparr>"
  "obj_type free3 = 7" "allocate_count free3 = 0" "deallocate_count free3 = 0"
  "free_node free3 = 1" "max_used_node free3 = 0" "bit_map free3 = [2, 3, -1]"
  "objs free3 = replicate 3 \<lparr>m_type = 0, m_seq = 0, m_md5 = 0\<rparr>"
  by (simp_all add: free3_def)

lemma full3_fields:
  "pool_count full3 = 3" "parray full3 = parray free3" "max_used_node full3 = 2"
  "bit_map full3 = [0, 0, -1]" "objs full3 = objs free3"
  by (simp_all add: full3_def free3_def)

lemma busy_free3: "busy free3 = {}"
  using nth_mem [of _ "bit_map free3"] by (fastforce simp: busy_def free3_fields BUSY_NODE_INDEX_def)

lemma busy_full3: "busy full3 = {..<pool_count full3} - {2}"
  by (auto simp: busy_def full3_fields BUSY_NODE_INDEX_def less3)

lemma shape_free3: "shape_ok free3"
  by (auto simp: shape_ok_def free3_fields BUSY_NODE_INDEX_def MAX_ALLOCATE_COUNT_def less3)

lemma shape_full3: "shape_ok full3"
  by (auto simp: shape_ok_def full3_fields free3_fields BUSY_NODE_INDEX_def MAX_ALLOCATE_COUNT_def
      less3)

lemma free3_ok: "pool_ok free3 [0, 1, 2]"
  using shape_free3
  by (auto simp: pool_ok_def busy_free3 free3_fields BUSY_NODE_INDEX_def TAIL_OF_LIST_def
      MAX_ALLOCATE_COUNT_def)

subsection \<open>Allocation and release\<close>



text \<open>C33. \<open>Allocate\<close> on a well-formed pool: with no free slot it returns the null pointer and changes
  nothing; otherwise it returns the slot released last, keeps the invariant, counts one more live
  object, and gives the slot's header the pool's type and the next sequence number.\<close>
theorem Allocate_spec:
  assumes "pool_ok p fs"
  shows "case fs of
      [] \<Rightarrow> Allocate p = Some (None, p) \<and> busy p = {..<pool_count p}
    | i # fs' \<Rightarrow> \<exists>p'. Allocate p = Some (Some (slot_addr (parray p) i), p') \<and> pool_ok p' fs' \<and>
        busy p' = insert i (busy p) \<and> Size p' = Some (card (busy p) + 1) \<and>
        objs p' = (objs p)[i := SetObjType (obj_type p) (IncSeq (objs p ! i))]"
proof (cases fs)
  case Nil
  have "busy p = {..<pool_count p}"
    using pool_okD(4) [OF assms] busy_bound [OF pool_okD(1) [OF assms]] Nil by auto
  then show ?thesis using assms Nil by (simp add: Allocate_def GetFreeNode_empty)
next
  case (Cons i fs')
  have ok: "pool_ok p (i # fs')" using assms Cons by simp
  have ok': "pool_ok (pool_taken p i) fs'" using ok by (rule pool_ok_taken)
  have i: "i < length (bit_map p)" "i \<notin> busy p" using pool_okD(3,4) [OF ok] by auto
  have "Size (pool_taken p i) = Some (card (busy (pool_taken p i)))"
    using pool_okD(5,7) [OF ok'] by (simp add: Size_def)
  then show ?thesis
    using Cons Allocate_cons [OF ok] ok' busy_taken [OF i(1)] i(2)
    by (simp add: pool_taken_def Let_def)
qed

theorem Allocate_spec_witness:
  "\<exists>p'. Allocate free3 = Some (Some 64, p') \<and> pool_ok p' [1, 2] \<and> Size p' = Some 1"
  using Allocate_spec [OF free3_ok] by (auto simp: busy_free3 slot_addr_def free3_fields)

text \<open>C34. \<open>Deallocate\<close> of a slot's address: a live slot becomes the next one to be handed out, its
  header loses its type and the invariant is kept; releasing a free slot a second time, or the null
  pointer, changes nothing.\<close>
theorem Deallocate_spec:
  assumes "pool_ok p fs" and "i < pool_count p"
  shows "Deallocate p None = Some p \<and>
    (if i \<in> busy p
     then \<exists>p'. Deallocate p (Some (slot_addr (parray p) i)) = Some p' \<and> pool_ok p' (i # fs) \<and>
       busy p' = busy p - {i} \<and> objs p' = (objs p)[i := obj_destroy (objs p ! i)]
     else Deallocate p (Some (slot_addr (parray p) i)) = Some p)"
proof -
  note shape = pool_okD(1) [OF assms(1)]
  show ?thesis
  proof (cases "i \<in> busy p")
    case True
    have "busy (pool_released p i) = busy p - {i}"
      using free_chain_nonzero [OF pool_okD(3) [OF assms(1)]] True
      by (intro busy_released) (auto simp: busy_def)
    moreover have "objs (pool_released p i) = (objs p)[i := obj_destroy (objs p ! i)]"
      by (simp add: pool_released_def)
    moreover have "Deallocate p None = Some p" by (simp add: Deallocate_def)
    ultimately show ?thesis
      unfolding if_P [OF True]
      using Deallocate_busy [OF shape True] pool_ok_released [OF assms(1) True] by blast
  next
    case False
    then show ?thesis using Deallocate_free [OF shape assms(2)] by (simp add: Deallocate_def [of p None])
  qed
qed

theorem Deallocate_spec_witness:
  "Deallocate free3 (Some 72) = Some free3"
  using Deallocate_spec [OF free3_ok, of 1] by (simp add: busy_free3 slot_addr_def free3_fields)

text \<open>Resuming from shared memory rebuilds the free list from the bit map alone, whatever head it
  had: the live objects and their contents stay, and the free slots are chained in ascending order.\<close>
theorem ResumeNode_rebuilds:
  assumes "shape_ok p" and "deallocate_count p \<le> allocate_count p"
    and "allocate_count p < MAX_ALLOCATE_COUNT"
    and "allocate_count p - deallocate_count p = card (busy p)"
  shows "\<exists>p'. ResumeNode p = Some p' \<and> busy p' = busy p \<and> objs p' = objs p \<and>
    pool_ok p' (filter (\<lambda>i. i \<notin> busy p) [0..<pool_count p])"
  by (rule ResumeNode_ok [OF assms])

theorem ResumeNode_rebuilds_witness:
  "\<exists>p'. ResumeNode (free3\<lparr>free_node := 99\<rparr>) = Some p' \<and> pool_ok p' [0, 1, 2]"
proof -
  let ?p = "free3\<lparr>free_node := 99\<rparr>"
  have b: "busy ?p = {}" using busy_free3 by (simp add: busy_def)
  have s: "shape_ok ?p" using pool_okD(1) [OF free3_ok] by (simp add: shape_ok_def)
  have "[0..<3] = [0, 1, 2::nat]" by (simp add: upt_rec)
  then show ?thesis
    using ResumeNode_rebuilds [OF s] b by (simp add: free3_fields MAX_ALLOCATE_COUNT_def) blast
qed

subsection \<open>The repair of a damaged free list\<close>

lemma fix_from_busy:
  "\<forall>j<n. bit_map p ! j = BUSY_NODE_INDEX \<Longrightarrow> n \<le> length (bit_map p) \<Longrightarrow> fix_from n p = Some p"
  by (induction n) (simp_all add: fix_from.simps [of 0] fix_from.simps [of "Suc _"])

lemma fix_from_skip:
  "\<forall>j<n. Suc i \<le> j \<longrightarrow> bit_map p ! j = BUSY_NODE_INDEX \<Longrightarrow> i < n \<Longrightarrow> n \<le> length (bit_map p) \<Longrightarrow>
   fix_from n p = fix_from (Suc i) p"
proof (induction n)
  case (Suc n)
  show ?case
  proof (cases "i = n")
    case False
    then show ?thesis using Suc by (simp add: fix_from.simps [of "Suc n"])
  qed simp
qed simp

text \<open>\<open>FixFreeList\<close>, the repair when the head of the free list is in use, decrements its index twice
  per free slot. With a single free slot \<open>i\<close> left it faults for \<open>i = 0\<close>; otherwise it puts slot
  \<open>i - 1\<close>, which holds a live object, at the head of the free list, to be handed out next.\<close>
theorem FixFreeList_frees_live_slot:
  assumes "shape_ok p" and "i < pool_count p" and "busy p = {..<pool_count p} - {i}"
  shows "if i = 0 then FixFreeList p = None
    else \<exists>p'. FixFreeList p = Some p' \<and> i - 1 \<in> busy p \<and> i - 1 \<notin> busy p' \<and> free_node p' = int i"
proof -
  let ?p = "p\<lparr>free_node := TAIL_OF_LIST\<rparr>" and ?n = "pool_count p"
  have len: "length (bit_map p) = ?n" using assms(1) by (simp add: shape_ok_def)
  have bm: "j < ?n \<Longrightarrow> bit_map p ! j = BUSY_NODE_INDEX \<longleftrightarrow> j \<noteq> i" for j
    using assms(3) len by (auto simp: busy_def)
  have f: "FixFreeList p = fix_from (Suc i) ?p"
    using fix_from_skip [of ?n i ?p] bm assms(2) len by (simp add: FixFreeList_def)
  have free: "bit_map p ! i \<noteq> BUSY_NODE_INDEX" "i < length (bit_map p)" using bm assms(2) len by auto
  show ?thesis
  proof (cases i)
    case 0
    then show ?thesis using f free by (simp add: fix_from.simps [of "Suc 0"])
  next
    case (Suc j)
    let ?q = "?p\<lparr>bit_map := (bit_map p)[j := TAIL_OF_LIST], free_node := int j + 1\<rparr>"
    have "fix_from j ?q = Some ?q" using bm Suc assms(2) len by (intro fix_from_busy) auto
    then have "FixFreeList p = Some ?q"
      using f free Suc by (simp add: fix_from.simps [of "Suc (Suc j)"] SetFreeNode_def)
    moreover have "j \<in> busy p" using assms(2,3) Suc by auto
    moreover have "j \<notin> busy ?q" using free Suc by (simp add: busy_def TAIL_OF_LIST_def BUSY_NODE_INDEX_def)
    ultimately show ?thesis using Suc by simp
  qed
qed

theorem FixFreeList_frees_live_slot_witness:
  "\<exists>p'. FixFreeList full3 = Some p' \<and> 1 \<in> busy full3 \<and> 1 \<notin> busy p' \<and> free_node p' = 2"
  using FixFreeList_frees_live_slot [OF shape_full3 _ busy_full3]
  by (auto simp: full3_fields)

subsection \<open>Visiting the live objects\<close>

text \<open>C38. \<open>ForeachObj\<close> without a limit calls the function, as long as it asks to go on, on exactly the
  live objects of the range, once each and in ascending order; slots above \<open>max_used_node\<close> are
  skipped without missing an object. A range that starts above \<open>max_used_node\<close> is not empty but a
  fault: the loop starts beyond its clipped end.\<close>
theorem ForeachObj_visits_live:
  assumes "shape_ok p" and "\<And>a s. 0 < fst (f a s)" and "a \<le> b" "b \<le> pool_count p"
  shows "ForeachObj p a b f None s =
    (if a \<le> nat (max_used_node p)
     then Some (length (busy_list p a b), visit f (map (slot_addr (parray p)) (busy_list p a b)) s)
     else None)"
proof (cases "a \<le> nat (max_used_node p)")
  case True
  then show ?thesis using ForeachObj_all [of p f a b s] assms by simp
next
  case False
  then have "int b > max_used_node p" "b \<le> MaxSize p" using assms by (auto simp: MaxSize_def shape_ok_def)
  then show ?thesis using False assms(3) by (simp add: ForeachObj_def Let_def)
qed

theorem ForeachObj_visits_live_witness:
  "ForeachObj full3 0 3 (\<lambda>a s. (1, a # s)) None [] = Some (2, [72, 64]) \<and>
   ForeachObj free3 1 3 (\<lambda>a s. (1, a # s)) None [] = None"
proof -
  have "busy_list full3 0 3 = [0, 1]"
    by (simp add: busy_list_def full3_fields BUSY_NODE_INDEX_def upt_rec)
  then show ?thesis
    using ForeachObj_visits_live [OF shape_full3, of "\<lambda>a s. (1, a # s)" 0 3 "[]"]
      ForeachObj_visits_live [OF shape_free3, of "\<lambda>a s. (1, a # s)" 1 3 "[]"]
    by (simp add: full3_fields free3_fields slot_addr_def)
qed

subsection \<open>The life of an id\<close>

text \<open>A list of calls, with what each \<open>Allocate\<close> returned; a failed assert ends the run.\<close>

fun pool_run :: "pool \<Rightarrow> (unit, int) alloc_op list \<Rightarrow> (int option list \<times> pool) option" where
  "pool_run p [] = Some ([], p)"
| "pool_run p (OpAlloc u # ops) = (case Allocate p of None \<Rightarrow> None
    | Some (r, p') \<Rightarrow> map_option (\<lambda>(rs, q). (r # rs, q)) (pool_run p' ops))"
| "pool_run p (OpFree a # ops) = (case Deallocate p (Some a) of None \<Rightarrow> None | Some p' \<Rightarrow> pool_run p' ops)"

text \<open>What a slot's header says: the type while the slot is in use, and the sequence number of the \<open>k\<close>-th object since \<open>ob\<close>.\<close>

definition slot_life :: "buffer_array \<Rightarrow> int \<Rightarrow> obj_base \<Rightarrow> nat \<Rightarrow> nat \<Rightarrow> pool \<Rightarrow> bool" where
  "slot_life A ty ob i k q \<longleftrightarrow> (\<exists>fs. pool_ok q fs) \<and> parray q = A \<and> obj_type q = ty \<and>
     m_seq (objs q ! i) = m_seq ((IncSeq ^^ k) ob) \<and> m_type (objs q ! i) = (if i \<in> busy q then ty else 0)"

lemma IncSeq_cong: "m_seq x = m_seq y \<Longrightarrow> m_seq (IncSeq x) = m_seq (IncSeq y)"
  by (simp add: IncSeq_def)

lemma slot_life_Allocate:
  assumes "slot_life A ty ob i k q" and "i < arr_count A" "0 < ty" "ty < 2 ^ 8"
  shows "\<exists>r q'. Allocate q = Some (r, q') \<and> slot_life A ty ob i (k + (if r = Some (slot_addr A i) then 1 else 0)) q'"
proof -
  obtain fs where ok: "pool_ok q fs" using assms(1) by (auto simp: slot_life_def)
  show ?thesis
  proof (cases fs)
    case Nil
    then show ?thesis using ok assms(1) by (simp add: Allocate_def GetFreeNode_empty)
  next
    case (Cons j js)
    have ok': "pool_ok q (j # js)" using ok Cons by simp
    have j: "j < length (bit_map q)" "j < length (objs q)" "obj_type (pool_taken q j) = obj_type q"
      "objs (pool_taken q j) = (objs q)[j := SetObjType (obj_type q) (IncSeq (objs q ! j))]"
      using pool_okD(1,3) [OF ok'] by (auto simp: shape_ok_def pool_taken_def Let_def)
    have "slot_addr A j = slot_addr A i \<longleftrightarrow> j = i" using slot_addr_eq [OF pool_okD(1) [OF ok']] assms(1) by (simp add: slot_life_def)
    then show ?thesis
      using Allocate_cons [OF ok'] pool_ok_taken [OF ok'] assms j IncSeq_cong [of "objs q ! j" "(IncSeq ^^ k) ob"]
      by (auto simp: slot_life_def busy_taken SetObjType_def)
  qed
qed

lemma slot_life_Deallocate:
  assumes "slot_life A ty ob i k q" and "Deallocate q (Some a) = Some q'"
  shows "slot_life A ty ob i k q'"
proof -
  obtain fs where ok: "pool_ok q fs" using assms(1) by (auto simp: slot_life_def)
  note s = pool_okD(1) [OF ok]
  have "a \<in> slots_of (parray q)" using not_a_slot assms(2) by fastforce
  then obtain j where j: "j < pool_count q" "a = slot_addr (parray q) j" using s by (auto simp: slots_of_def shape_ok_def)
  show ?thesis
  proof (cases "j \<in> busy q")
    case True
    have b: "busy (pool_released q j) = busy q - {j}"
      using True free_chain_nonzero [OF pool_okD(3) [OF ok]] by (intro busy_released) (auto simp: busy_def)
    have "objs (pool_released q j) = (objs q)[j := obj_destroy (objs q ! j)]" "obj_type (pool_released q j) = obj_type q"
      by (simp_all add: pool_released_def)
    then show ?thesis using assms j s Deallocate_busy [OF s True] pool_ok_released [OF ok True] b
      by (auto simp: slot_life_def obj_destroy_def nth_list_update shape_ok_def)
  next
    case False
    then show ?thesis using assms j Deallocate_free [OF s] by simp
  qed
qed

lemma slot_life_run:
  "slot_life A ty ob i k q \<Longrightarrow> i < arr_count A \<Longrightarrow> 0 < ty \<Longrightarrow> ty < 2 ^ 8 \<Longrightarrow> pool_run q ops = Some (rs, q') \<Longrightarrow>
   slot_life A ty ob i (k + count_list rs (Some (slot_addr A i))) q'"
proof (induction ops arbitrary: q k rs)
  case (Cons c ops)
  show ?case
  proof (cases c)
    case (OpAlloc u)
    obtain r p where p: "Allocate q = Some (r, p)" "slot_life A ty ob i (k + (if r = Some (slot_addr A i) then 1 else 0)) p"
      using slot_life_Allocate [OF Cons.prems(1-4)] by blast
    then show ?thesis using Cons.prems(5) OpAlloc Cons.IH [OF p(2) Cons.prems(2-4)] by (auto split: if_splits)
  next
    case (OpFree a)
    then show ?thesis using Cons.prems Cons.IH [OF slot_life_Deallocate] by (auto split: option.splits)
  qed
qed simp

text \<open>C19. An id follows its object. Take the id of a live object in slot \<open>i\<close> of a pool with a type from 1 to 255,
  at an offset below \<open>2 ^ 32\<close> in the pool memory, and let \<open>Allocate\<close> and \<open>Deallocate\<close> then be called
  in any order with any arguments that fail no assert. Afterwards the id resolves to the object's offset when the slot is in use and
  was handed out again a multiple of \<open>2 ^ 23\<close> times since (never, for the object itself), and otherwise to the null pointer.\<close>
theorem id_follows_object:
  assumes "pool_ok p fs" and "i \<in> busy p" and "0 < obj_type p" "obj_type p < 2 ^ 8"
    and "m_type (objs p ! i) = obj_type p" and "0 < m_seq (objs p ! i)" "m_seq (objs p ! i) \<le> 2 ^ 23"
    and "off = slot_addr (parray p) i - base" "0 < off" "off \<le> psz" "off < 2 ^ 32"
    and "pool_run p ops = Some (rs, q)"
  shows "GetObject (pool_mem q base) psz (slot_id p base i) =
    Some (if i \<in> busy q \<and> 2 ^ 23 dvd count_list rs (Some (slot_addr (parray p) i)) then Some off else None)"
proof -
  let ?k = "count_list rs (Some (slot_addr (parray p) i))"
  have i: "i < arr_count (parray p)"
    using assms(2) pool_okD(1) [OF assms(1)] busy_bound [OF pool_okD(1) [OF assms(1)]] by (auto simp: shape_ok_def)
  have "slot_life (parray p) (obj_type p) (objs p ! i) i 0 p" using assms(1,2,5) by (auto simp: slot_life_def)
  from slot_life_run [OF this i assms(3,4,12)]
  obtain gs where q: "pool_ok q gs" "parray q = parray p" "m_seq (objs q ! i) = m_seq ((IncSeq ^^ ?k) (objs p ! i))"
    "m_type (objs q ! i) = (if i \<in> busy q then obj_type p else 0)" by (auto simp: slot_life_def)
  note s = pool_okD(1) [OF q(1)]
  have x: "slot_id p base i = \<lparr>oid = off, otype = obj_type p, oseq = m_seq (objs p ! i)\<rparr>"
    using assms(5,8-11) by (simp add: slot_id_def id_of_obj_def GetObjType_def GetSeq_def cint)
  have d: "m_seq ((IncSeq ^^ ?k) (objs p ! i)) = m_seq (objs p ! i) \<longleftrightarrow> 2 ^ 23 dvd ?k"
    using IncSeq_same_seq [OF assms(6,7), of ?k] by (simp add: int_dvd_int_iff [symmetric])
  have c: "i < pool_count q" using i q(2) s by (simp add: shape_ok_def)
  have "GetObject (pool_mem q base) psz (slot_id p base i) = Some (if m_type (objs q ! i) \<noteq> 0 \<and>
      obj_type p = m_type (objs q ! i) \<and> m_seq (objs p ! i) = m_seq (objs q ! i) then Some off else None)"
    using slot_id_resolves_iff [OF s c, of "slot_id p base i" base psz] assms(8-10) q(2) by (simp add: x)
  moreover have "(m_type (objs q ! i) \<noteq> 0 \<and> obj_type p = m_type (objs q ! i)) = (i \<in> busy q)" using assms(3) by (simp add: q(4))
  moreover have "(m_seq (objs p ! i) = m_seq (objs q ! i)) = (2 ^ 23 dvd ?k)" using d unfolding q(3) [symmetric] by (simp only: eq_commute)
  ultimately show ?thesis by (simp only: conj_assoc [symmetric])
qed

theorem id_follows_object_witness:
  "\<exists>p q. Allocate free3 = Some (Some 64, p) \<and> pool_run p [OpFree 64, OpFree 64, OpAlloc ()] = Some ([Some 64], q) \<and>
     GetObject (pool_mem p 0) 4096 (slot_id p 0 0) = Some (Some 64) \<and>
     GetObject (pool_mem q 0) 4096 (slot_id p 0 0) = Some None"
proof -
  let ?p = "pool_taken free3 0"
  let ?q = "pool_taken (pool_released ?p 0) 0"
  have ok: "pool_ok ?p [1, 2]" by (rule pool_ok_taken [OF free3_ok])
  have b: "0 \<in> busy ?p" by (simp add: busy_taken free3_fields)
  have a: "slot_addr (parray ?p) 0 = 64" by (simp add: free3_fields slot_addr_def)
  have ok2: "pool_ok (pool_released ?p 0) (0 # [1, 2])" by (rule pool_ok_released [OF ok b])
  have c2: "pool_count (pool_released ?p 0) = 3" by (simp add: pool_released_def pool_taken_def free3_fields Let_def)
  have b2: "0 \<notin> busy (pool_released ?p 0)" using pool_okD(4) [OF ok2] by fastforce
  have a0: "slot_addr (parray free3) 0 = 64" "slot_addr (parray (pool_released ?p 0)) 0 = 64" using a by simp_all
  have calls: "Allocate free3 = Some (Some 64, ?p)" "Deallocate ?p (Some 64) = Some (pool_released ?p 0)"
    "Deallocate (pool_released ?p 0) (Some 64) = Some (pool_released ?p 0)" "Allocate (pool_released ?p 0) = Some (Some 64, ?q)"
    using Allocate_cons [OF free3_ok] Deallocate_busy [OF pool_okD(1) [OF ok] b] Allocate_cons [OF ok2]
      Deallocate_free [OF pool_okD(1) [OF ok2] _ b2] c2 unfolding a a0 by simp_all
  have r: "pool_run ?p [OpFree 64, OpFree 64, OpAlloc ()] = Some ([Some 64], ?q)" "pool_run ?p [] = Some ([], ?p)"
    using calls by simp_all
  have n: "\<not> (2 :: nat) ^ 23 dvd 1" by simp
  have h: "obj_type ?p = 7" "m_type (objs ?p ! 0) = 7" "m_seq (objs ?p ! 0) = 1"
    by (simp_all add: pool_taken_def free3_fields Let_def SetObjType_def IncSeq_def)
  have t: "GetObject (pool_mem q 0) 4096 (slot_id ?p 0 0) =
      Some (if 0 \<in> busy q \<and> 2 ^ 23 dvd count_list rs (Some 64) then Some 64 else None)" if "pool_run ?p ops = Some (rs, q)" for ops rs q
    using id_follows_object [OF ok b _ _ _ _ _ _ _ _ _ that, of 64 0 4096] a0(1) by (simp add: h)
  have "GetObject (pool_mem ?q 0) 4096 (slot_id ?p 0 0) = Some None" unfolding t [OF r(1)] using n by simp
  moreover have "GetObject (pool_mem ?p 0) 4096 (slot_id ?p 0 0) = Some (Some 64)" unfolding t [OF r(2)] using b by simp
  ultimately show ?thesis using calls(1) r(1) by blast
qed

end
