(* ===== verification/ArrayList.thy ===== *)
theory ArrayList
  imports Prelude
begin

text \<open>
  The intrusive lists of \<open>common/jybase/array_list.h\<close>. A node holds the byte offsets from its own
  address to its neighbours', so a list survives a move of the memory it lies in.

  \<^item> \<open>lmem\<close> is the memory of the links: an address to the \<open>array_list_node_base\<close> there.
  \<^item> \<open>al_init\<close>, \<open>al_push_back\<close>, \<open>al_erase\<close>, \<open>al_pop_back\<close>, \<open>fix_next_link\<close> are the operations of
    \<open>array_list\<close> on the list with its \<open>m_base\<close> at a given address; \<open>incr\<close> and \<open>decr\<close> move an
    iterator, which is an address. A failed assert is \<open>None\<close>.
  \<^item> \<open>stack_reset\<close>, \<open>stack_push_back\<close>, \<open>stack_pop_back\<close>, \<open>is_in_stack\<close> are \<open>stack_array_list\<close>, a stack
    of free nodes in an array, chained through \<open>m_prev\<close> by index.
  \<^item> \<open>dlist l b xs\<close> is the abstraction: the list at \<open>b\<close> consists of the nodes at \<open>xs\<close>, linked both
    ways; \<open>free_stack\<close> is the one of the stack. The lemmas give each operation's effect on its own
    list, and what it leaves alone.
\<close>

record link_node =
  m_next :: int
  m_prev :: int

type_synonym lmem = "int \<Rightarrow> link_node"

subsection \<open>Nodes and iterators\<close>

definition ORPHAN_NODE_DIFF :: int where "ORPHAN_NODE_DIFF = 0x7FFFFFFF"

definition IsOrphanNode :: "link_node \<Rightarrow> bool" where
  "IsOrphanNode nd \<longleftrightarrow> ORPHAN_NODE_DIFF = m_next nd"

definition SetOrphanNode :: "link_node \<Rightarrow> link_node" where
  "SetOrphanNode nd = nd\<lparr>m_next := ORPHAN_NODE_DIFF, m_prev := ORPHAN_NODE_DIFF\<rparr>"

definition AssertOrphanNode :: "link_node \<Rightarrow> bool" where
  "AssertOrphanNode nd \<longleftrightarrow> ORPHAN_NODE_DIFF = m_next nd \<and> ORPHAN_NODE_DIFF = m_prev nd"

definition AssertNonOrphanNode :: "link_node \<Rightarrow> bool" where
  "AssertNonOrphanNode nd \<longleftrightarrow> ORPHAN_NODE_DIFF \<noteq> m_next nd \<and> ORPHAN_NODE_DIFF \<noteq> m_prev nd"

definition offset_node :: "int \<Rightarrow> int \<Rightarrow> int" where
  "offset_node a diff = a + diff"

definition incr :: "lmem \<Rightarrow> int \<Rightarrow> int" where
  "incr l it = offset_node it (m_next (l it))"

definition decr :: "lmem \<Rightarrow> int \<Rightarrow> int" where
  "decr l it = offset_node it (m_prev (l it))"

subsection \<open>The list\<close>

definition link :: "lmem \<Rightarrow> int \<Rightarrow> int \<Rightarrow> lmem" where
  "link l p n =
     (let l1 = l(p := (l p)\<lparr>m_next := n - p\<rparr>)
      in l1(n := (l1 n)\<lparr>m_prev := - m_next (l1 p)\<rparr>))"

definition al_init :: "lmem \<Rightarrow> int \<Rightarrow> lmem" where
  "al_init l b = link l b b"

definition al_begin :: "lmem \<Rightarrow> int \<Rightarrow> int" where
  "al_begin l b = offset_node b (m_next (l b))"

definition al_end :: "int \<Rightarrow> int" where
  "al_end b = b"

definition al_rbegin :: "lmem \<Rightarrow> int \<Rightarrow> int" where
  "al_rbegin l b = offset_node b (m_prev (l b))"

definition al_empty :: "lmem \<Rightarrow> int \<Rightarrow> bool" where
  "al_empty l b \<longleftrightarrow> 0 = m_next (l b)"

definition al_push_back :: "lmem \<Rightarrow> int \<Rightarrow> int \<Rightarrow> lmem" where
  "al_push_back l b n =
     (let tail = offset_node b (m_prev (l b)); l1 = link l tail n in link l1 n b)"

definition al_erase :: "lmem \<Rightarrow> int \<Rightarrow> (int \<times> lmem) option" where
  "al_erase l it =
     (if AssertNonOrphanNode (l it)
      then let prev = offset_node it (m_prev (l it)); nx = offset_node it (m_next (l it));
               l1 = link l prev nx; l2 = l1(it := SetOrphanNode (l1 it))
           in Some (nx, l2)
      else None)"

definition al_pop_back :: "lmem \<Rightarrow> int \<Rightarrow> lmem option" where
  "al_pop_back l b = do { (it, l') \<leftarrow> al_erase l (offset_node b (m_prev (l b))); Some l' }"

definition fix_next_link :: "lmem \<Rightarrow> int \<Rightarrow> int \<Rightarrow> lmem option" where
  "fix_next_link l prev nx =
     (if offset_node nx (m_prev (l nx)) = prev then Some (link l prev nx) else None)"

subsection \<open>The stack of free nodes\<close>

text \<open>\<open>at i\<close> is the address of the array's node \<open>i\<close>; the state is the memory and \<open>m_top\<close>.\<close>

definition C_IDLE_NODE_FLAG :: int where "C_IDLE_NODE_FLAG = 0"
definition C_TAIL_OF_STACK :: int where "C_TAIL_OF_STACK = -1"

fun stack_chain :: "(nat \<Rightarrow> int) \<Rightarrow> nat \<Rightarrow> lmem \<Rightarrow> lmem" where
  "stack_chain at 0 l = l"
| "stack_chain at (Suc i) l =
     (let l' = stack_chain at i l
      in l'(at i := (l' (at i))\<lparr>m_prev := int i + 1, m_next := C_IDLE_NODE_FLAG\<rparr>))"

definition stack_reset :: "(nat \<Rightarrow> int) \<Rightarrow> nat \<Rightarrow> lmem \<Rightarrow> lmem \<times> int" where
  "stack_reset at count l =
     (let l1 = stack_chain at (count - 1) l; z = at (count - 1)
      in (l1(z := (l1 z)\<lparr>m_prev := C_TAIL_OF_STACK, m_next := C_IDLE_NODE_FLAG\<rparr>), 0))"

definition stack_empty :: "int \<Rightarrow> bool" where
  "stack_empty tp \<longleftrightarrow> C_TAIL_OF_STACK = tp"

definition is_in_stack :: "link_node \<Rightarrow> bool" where
  "is_in_stack nd \<longleftrightarrow> C_IDLE_NODE_FLAG = m_next nd"

definition stack_push_back :: "(nat \<Rightarrow> int) \<Rightarrow> lmem \<Rightarrow> int \<Rightarrow> nat \<Rightarrow> (lmem \<times> int) option" where
  "stack_push_back at l tp i =
     (if AssertOrphanNode (l (at i)) \<and> \<not> is_in_stack (l (at i))
      then Some (l(at i := (l (at i))\<lparr>m_prev := tp, m_next := C_IDLE_NODE_FLAG\<rparr>), int i)
      else None)"

definition stack_pop_back :: "(nat \<Rightarrow> int) \<Rightarrow> lmem \<Rightarrow> int \<Rightarrow> int" where
  "stack_pop_back at l tp = m_prev (l (at (nat tp)))"

subsection \<open>Linked both ways\<close>

definition joined :: "lmem \<Rightarrow> int \<Rightarrow> int \<Rightarrow> bool" where
  "joined l a b \<longleftrightarrow> m_next (l a) = b - a \<and> m_prev (l b) = a - b"

fun chain :: "lmem \<Rightarrow> int \<Rightarrow> int list \<Rightarrow> int \<Rightarrow> bool" where
  "chain l a [] b = joined l a b"
| "chain l a (x # xs) b = (joined l a x \<and> chain l x xs b)"

definition dlist :: "lmem \<Rightarrow> int \<Rightarrow> int list \<Rightarrow> bool" where
  "dlist l b xs \<longleftrightarrow> chain l b xs b \<and> distinct (b # xs)"

lemma link_next: "m_next (link l p n a) = (if a = p then n - p else m_next (l a))"
  by (simp add: link_def Let_def)

lemma link_prev: "m_prev (link l p n a) = (if a = n then p - n else m_prev (l a))"
  by (simp add: link_def Let_def)

lemma link_other: "a \<noteq> p \<Longrightarrow> a \<noteq> n \<Longrightarrow> link l p n a = l a"
  by (simp add: link_def Let_def)

lemma chain_append: "chain l a (xs @ x # ys) b \<longleftrightarrow> chain l a xs x \<and> chain l x ys b"
  by (induction xs arbitrary: a) auto

lemma chain_snoc: "chain l a (xs @ [x]) b \<longleftrightarrow> chain l a xs x \<and> joined l x b"
  by (simp add: chain_append)

lemma chain_cong:
  assumes "\<And>x. x \<in> insert a (set xs) \<Longrightarrow> m_next (l' x) = m_next (l x)"
    and "\<And>x. x \<in> insert b (set xs) \<Longrightarrow> m_prev (l' x) = m_prev (l x)"
  shows "chain l' a xs b = chain l a xs b"
  using assms by (induction xs arbitrary: a) (auto simp: joined_def)

lemma chain_last: "chain l a xs b \<Longrightarrow> b + m_prev (l b) = last (a # xs)"
  by (induction xs arbitrary: a) (auto simp: joined_def)

lemma chain_first: "chain l a xs b \<Longrightarrow> a + m_next (l a) = hd (xs @ [b])"
  by (cases xs) (auto simp: joined_def)

lemma dlist_begin: "dlist l b xs \<Longrightarrow> al_begin l b = hd (xs @ [b])"
  using chain_first [of l b xs b] by (simp add: dlist_def al_begin_def offset_node_def)

lemma dlist_rbegin: "dlist l b xs \<Longrightarrow> al_rbegin l b = last (b # xs)"
  using chain_last [of l b xs b] by (simp add: dlist_def al_rbegin_def offset_node_def)

lemma dlist_incr: "dlist l b (xs @ a # ys) \<Longrightarrow> incr l a = hd (ys @ [b])"
  using chain_first [of l a ys b] by (simp add: dlist_def chain_append incr_def offset_node_def)

lemma dlist_decr: "dlist l b (xs @ a # ys) \<Longrightarrow> decr l a = last (b # xs)"
  using chain_last [of l b xs a] by (simp add: dlist_def chain_append decr_def offset_node_def)

lemma dlist_cong:
  assumes "\<And>x. x \<in> insert b (set xs) \<Longrightarrow> l' x = l x"
  shows "dlist l' b xs = dlist l b xs"
  using chain_cong [of b xs l' l b] assms by (simp add: dlist_def)

lemma dlist_init [simp]: "dlist (al_init l b) b []"
  by (simp add: dlist_def al_init_def joined_def link_next link_prev)

lemma al_init_other: "a \<noteq> b \<Longrightarrow> al_init l b a = l a"
  by (simp add: al_init_def link_other)

lemma dlist_empty: "dlist l b xs \<Longrightarrow> al_empty l b \<longleftrightarrow> xs = []"
  by (cases xs) (auto simp: dlist_def al_empty_def joined_def)

subsection \<open>Insertion and removal\<close>

lemma dlist_push_back:
  assumes d: "dlist l b xs" and n: "n \<notin> insert b (set xs)"
  shows "dlist (al_push_back l b n) b (xs @ [n])"
    and "\<And>a. a \<notin> insert n (insert b (set xs)) \<Longrightarrow> al_push_back l b n a = l a"
proof -
  obtain z where z': "z = last (b # xs)" by blast
  have z: "offset_node b (m_prev (l b)) = z" "z \<in> insert b (set xs)"
    using d dlist_rbegin [OF d] z' by (auto simp: al_rbegin_def)
  have eq: "al_push_back l b n = link (link l z n) n b"
    unfolding al_push_back_def z(1) by (simp add: Let_def)
  show "\<And>a. a \<notin> insert n (insert b (set xs)) \<Longrightarrow> al_push_back l b n a = l a"
    unfolding eq using z(2) by (metis insert_iff link_other)
  have zn: "z \<noteq> n" "n \<noteq> b" using n z(2) by auto
  have j: "joined (link (link l z n) n b) z n" "joined (link (link l z n) n b) n b"
    using zn by (simp_all add: joined_def link_next link_prev)
  have "chain (link (link l z n) n b) b xs n"
  proof (cases xs rule: rev_cases)
    case Nil
    then show ?thesis using j z' by simp
  next
    case (snoc ys y)
    have dist: "distinct (b # ys @ [y])" using d snoc by (simp add: dlist_def)
    have c: "chain l b ys y" using d snoc by (simp add: dlist_def chain_append)
    have "chain (link (link l z n) n b) b ys y = chain l b ys y"
      using dist n snoc z' by (intro chain_cong) (auto simp: link_next link_prev)
    then show ?thesis using c j(1) snoc z' by (simp add: chain_snoc)
  qed
  then show "dlist (al_push_back l b n) b (xs @ [n])"
    using d n j(2) by (simp add: dlist_def eq chain_snoc)
qed

definition even_nodes :: "int list \<Rightarrow> bool" where
  "even_nodes xs \<longleftrightarrow> (\<forall>x\<in>set xs. even x)"

lemma even_diff_not_orphan: "even a \<Longrightarrow> even b \<Longrightarrow> b - a \<noteq> ORPHAN_NODE_DIFF"
proof -
  assume "even a" "even b"
  then have "even (b - a)" by simp
  moreover have "odd ORPHAN_NODE_DIFF" by (simp add: ORPHAN_NODE_DIFF_def)
  ultimately show ?thesis by metis
qed

lemma hd_last_in: "hd (ys @ [b]) \<in> insert b (set ys)" "last (b # xs) \<in> insert b (set xs)"
  by (cases ys; simp) (simp add: last_in_set)

lemma dlist_not_orphan:
  assumes d: "dlist l b (xs @ a # ys)" and ev: "even_nodes (b # xs @ a # ys)"
  shows "AssertNonOrphanNode (l a)" and "\<not> IsOrphanNode (l a)" and "\<not> is_in_stack (l a)"
proof -
  have c: "chain l b xs a" "chain l a ys b" using d by (simp_all add: dlist_def chain_append)
  have p: "m_prev (l a) = last (b # xs) - a" "m_next (l a) = hd (ys @ [b]) - a"
    using chain_last [OF c(1)] chain_first [OF c(2)] by simp_all
  have i: "hd (ys @ [b]) \<in> insert b (set ys)" "last (b # xs) \<in> insert b (set xs)" by (rule hd_last_in)+
  then have e: "even (last (b # xs))" "even (hd (ys @ [b]))" "even a"
    using ev unfolding even_nodes_def by auto
  have ne: "m_next (l a) \<noteq> ORPHAN_NODE_DIFF" "m_prev (l a) \<noteq> ORPHAN_NODE_DIFF"
    using p even_diff_not_orphan e by metis+
  then show "AssertNonOrphanNode (l a)" "\<not> IsOrphanNode (l a)"
    by (auto simp: AssertNonOrphanNode_def IsOrphanNode_def)
  have "hd (ys @ [b]) \<noteq> a" using i(1) d by (auto simp: dlist_def)
  then show "\<not> is_in_stack (l a)" using p(2) by (simp add: is_in_stack_def C_IDLE_NODE_FLAG_def)
qed

lemma dlist_erase:
  assumes d: "dlist l b (xs @ a # ys)" and ev: "even_nodes (b # xs @ a # ys)"
  shows "\<exists>l'. al_erase l a = Some (hd (ys @ [b]), l') \<and> dlist l' b (xs @ ys) \<and>
    AssertOrphanNode (l' a) \<and> (\<forall>c. c \<notin> set (b # xs @ a # ys) \<longrightarrow> l' c = l c)"
proof -
  let ?p = "last (b # xs)" and ?n = "hd (ys @ [b])"
  have c: "chain l b xs a" "chain l a ys b" using d by (simp_all add: dlist_def chain_append)
  have pn: "offset_node a (m_prev (l a)) = ?p" "offset_node a (m_next (l a)) = ?n"
    using chain_last [OF c(1)] chain_first [OF c(2)] by (simp_all add: offset_node_def)
  have i: "?n \<in> insert b (set ys)" "?p \<in> insert b (set xs)" by (rule hd_last_in)+
  have dist: "distinct (b # xs @ a # ys)" using d by (simp add: dlist_def)
  define l' where "l' = (link l ?p ?n)(a := SetOrphanNode (link l ?p ?n a))"
  have e: "al_erase l a = Some (?n, l')"
    using dlist_not_orphan(1) [OF d ev] pn by (simp add: al_erase_def l'_def Let_def del: last.simps)
  have nx: "x \<noteq> a \<Longrightarrow> m_next (l' x) = (if x = ?p then ?n - ?p else m_next (l x))" for x
    by (simp add: l'_def link_next)
  have pv: "x \<noteq> a \<Longrightarrow> m_prev (l' x) = (if x = ?n then ?p - ?n else m_prev (l x))" for x
    by (simp add: l'_def link_prev)
  have ab: "a \<noteq> b" "a \<notin> set xs" "a \<notin> set ys" using dist by auto
  have pa: "?p \<noteq> a" "?n \<noteq> a" using i ab by auto
  have j: "joined l' ?p ?n" using nx [OF pa(1)] pv [OF pa(2)] by (simp add: joined_def)
  have head: "chain l' b us (last (b # xs))" if "xs = us @ [x]" for us x
  proof -
    have "chain l' b us x = chain l b us x"
    proof (rule chain_cong)
      fix y assume "y \<in> insert b (set us)"
      then have "y \<noteq> a" "y \<noteq> ?p" using dist that by auto
      then show "m_next (l' y) = m_next (l y)" using nx by simp
    next
      fix y assume "y \<in> insert x (set us)"
      then have "y \<noteq> a" "y \<noteq> ?n" using dist that i(1) by auto
      then show "m_prev (l' y) = m_prev (l y)" using pv by simp
    qed
    then show ?thesis using c(1) that by (simp add: chain_append)
  qed
  have tail: "chain l' y us b" if "ys = y # us" for us y
  proof -
    have "chain l' y us b = chain l y us b"
    proof (rule chain_cong)
      fix x assume "x \<in> insert y (set us)"
      then have "x \<noteq> a" "x \<noteq> ?p" using dist that i(2) by (auto simp del: last.simps)
      then show "m_next (l' x) = m_next (l x)" using nx by simp
    next
      fix x assume "x \<in> insert b (set us)"
      then have "x \<noteq> a" "x \<noteq> ?n" using dist that by auto
      then show "m_prev (l' x) = m_prev (l x)" using pv by simp
    qed
    then show ?thesis using c(2) that by simp
  qed
  have "chain l' b (xs @ ys) b"
    using j head tail by (cases xs rule: rev_cases; cases ys) (auto simp: chain_append)
  then have "dlist l' b (xs @ ys)" using dist by (simp add: dlist_def)
  moreover have "AssertOrphanNode (l' a)"
    by (simp add: l'_def AssertOrphanNode_def SetOrphanNode_def)
  moreover have "\<forall>c. c \<notin> set (b # xs @ a # ys) \<longrightarrow> l' c = l c"
  proof (intro allI impI)
    fix c assume "c \<notin> set (b # xs @ a # ys)"
    then have "c \<noteq> a" "c \<noteq> ?p" "c \<noteq> ?n" using i by (auto simp del: last.simps)
    then show "l' c = l c" by (simp add: l'_def link_other)
  qed
  ultimately show ?thesis using e by blast
qed

subsection \<open>The free stack\<close>

fun free_stack :: "(nat \<Rightarrow> int) \<Rightarrow> lmem \<Rightarrow> int \<Rightarrow> nat list \<Rightarrow> bool" where
  "free_stack at l tp [] = (tp = C_TAIL_OF_STACK)"
| "free_stack at l tp (i # is) =
     (tp = int i \<and> is_in_stack (l (at i)) \<and> free_stack at l (m_prev (l (at i))) is)"

lemma free_stack_cong:
  assumes "\<And>i. i \<in> set is \<Longrightarrow> l' (at i) = l (at i)"
  shows "free_stack at l' tp is = free_stack at l tp is"
  using assms by (induction "is" arbitrary: tp) auto

lemma free_stack_member: "free_stack at l tp is \<Longrightarrow> i \<in> set is \<Longrightarrow> is_in_stack (l (at i))"
  by (induction "is" arbitrary: tp) auto

lemma free_stack_pop: "free_stack at l tp (i # is) \<Longrightarrow> free_stack at l (stack_pop_back at l tp) is"
  by (simp add: stack_pop_back_def)

lemma orphan_not_in_stack: "AssertOrphanNode nd \<Longrightarrow> \<not> is_in_stack nd"
  by (simp add: AssertOrphanNode_def is_in_stack_def ORPHAN_NODE_DIFF_def C_IDLE_NODE_FLAG_def)

lemma free_stack_push:
  assumes "free_stack at l tp is" and "AssertOrphanNode (l (at i))" and "at i \<notin> at ` set is"
  shows "\<exists>l'. stack_push_back at l tp i = Some (l', int i) \<and> free_stack at l' (int i) (i # is) \<and>
    (\<forall>a. a \<noteq> at i \<longrightarrow> l' a = l a)"
proof -
  let ?l = "l(at i := (l (at i))\<lparr>m_prev := tp, m_next := C_IDLE_NODE_FLAG\<rparr>)"
  have "free_stack at ?l tp is = free_stack at l tp is"
    using assms(3) by (intro free_stack_cong) (metis fun_upd_other image_eqI)
  then have "free_stack at ?l (int i) (i # is)" using assms(1) by (simp add: is_in_stack_def)
  then show ?thesis using assms(2) orphan_not_in_stack [OF assms(2)] by (simp add: stack_push_back_def)
qed

lemma stack_chain_at:
  assumes "inj at"
  shows "stack_chain at n l a = (if \<exists>i<n. a = at i
    then \<lparr>m_next = C_IDLE_NODE_FLAG, m_prev = int (THE i. a = at i) + 1, \<dots> = link_node.more (l a)\<rparr> else l a)"
proof (induction n)
  case (Suc n)
  have the: "(THE i. at n = at i) = n" using assms by (auto dest: injD)
  have "\<not> (\<exists>i<n. at n = at i)" using assms by (auto dest: injD)
  then show ?case using Suc the by (auto simp: Let_def less_Suc_eq)
qed simp

lemma stack_reset_ok:
  assumes inj: "inj at" and n: "0 < count"
  shows "free_stack at (fst (stack_reset at count l)) (snd (stack_reset at count l)) [0..<count]"
    and "\<And>a. a \<notin> at ` {..<count} \<Longrightarrow> fst (stack_reset at count l) a = l a"
proof -
  let ?l = "fst (stack_reset at count l)"
  have the: "(THE j. at i = at j) = i" for i using inj by (auto dest: injD)
  have at: "i < count \<Longrightarrow> m_next (?l (at i)) = 0 \<and>
      m_prev (?l (at i)) = (if i = count - 1 then -1 else int i + 1)" for i
    using inj less_Suc_eq [of i "count - 1"] n by (auto simp: stack_reset_def Let_def stack_chain_at [OF inj] the C_IDLE_NODE_FLAG_def
        C_TAIL_OF_STACK_def dest: injD)
  have "k \<le> count \<Longrightarrow> free_stack at ?l (if k = count then -1 else int k) [k..<count]" for k
  proof (induction "count - k" arbitrary: k)
    case 0
    then show ?case by (simp add: C_TAIL_OF_STACK_def)
  next
    case (Suc d)
    then have "k < count" by simp
    then show ?case
      using Suc.hyps(1) [of "Suc k"] Suc.hyps(2) at [of k]
      by (auto simp: upt_conv_Cons is_in_stack_def C_IDLE_NODE_FLAG_def split: if_splits)
  qed
  from this [of 0] show "free_stack at ?l (snd (stack_reset at count l)) [0..<count]"
    using n by (simp add: stack_reset_def Let_def)
  show "\<And>a. a \<notin> at ` {..<count} \<Longrightarrow> ?l a = l a"
    using n by (auto simp: stack_reset_def Let_def stack_chain_at [OF inj])
qed

end
