(* ===== verification/TimerQueue.thy ===== *)
theory TimerQueue
  imports ArrayList RunFlags
begin

text \<open>
  The timer wheel of \<open>common/jybase/timer_queue.{h,cc}\<close>.

  \<^item> \<open>timer_node\<close> is \<open>tagTimerNode\<close>; its list links are in the link memory, at \<open>node_addr\<close>. The task
    data is a value of any type, with \<open>ttype\<close> for the virtual \<open>type()\<close>.
  \<^item> \<open>timer_queue\<close> is \<open>CTimerQueue\<close> at the address \<open>self\<close> with the arrays behind it; the static
    \<open>s_currentTick\<close> of the time functions is a field too. \<open>m_bucket[b]\<close> is at \<open>bucket_addr\<close>.
  \<^item> \<open>Schedule\<close>, \<open>Cancel\<close>, \<open>Tick\<close>, \<open>SkipTick\<close>, \<open>CheckTickArray\<close>, \<open>SkipTickArray\<close>, \<open>DoBadTimeList\<close> and
    \<open>CreateTimerQueue\<close> are the member functions. \<open>None\<close> is a failed assert, an access out of bounds or
    the fuel of the inner loop running out.
  \<^item> A task's \<open>run()\<close> is a parameter: from the node, the queue and an environment it gives the calls
    of \<open>Schedule\<close> and \<open>Cancel\<close> it makes and the new environment. It depends on the whole queue, so
    it may use the ids its calls will return. It does not call \<open>Tick\<close>.
\<close>

subsection \<open>State\<close>

record 'a timer_node =
  m_taskData :: 'a
  m_expire :: int
  m_period :: int
  m_repeatCount :: int
  m_timerType :: int
  m_timerSeq :: int

record 'a timer_queue =
  self :: int
  lmem :: lmem
  tnodes :: "'a timer_node list"
  m_runFlag :: "flags option"
  m_timerCount :: "int list"
  m_count :: nat
  m_tickIterator :: int
  free_top :: int
  m_currentTick :: int
  m_systemStart :: int
  s_currentTick :: int

datatype 'a tq_call = CallSchedule 'a int int int | CallCancel int

type_synonym ('a, 'e) task_run = "nat \<Rightarrow> 'a timer_queue \<Rightarrow> 'e \<Rightarrow> 'a tq_call list \<times> 'e"

definition C_TICK_COUNT_PER_SECOND :: int where "C_TICK_COUNT_PER_SECOND = 20"
definition C_BUCKET_COUNT :: int where "C_BUCKET_COUNT = C_TICK_COUNT_PER_SECOND * 60 * 30 + 1"
definition C_INVALID_TIMER_ID :: int where "C_INVALID_TIMER_ID = 0"
definition MAX_TIMER_NODE_NUM :: int where "MAX_TIMER_NODE_NUM = 1000000"
definition MAX_TIMER_NUM :: nat where "MAX_TIMER_NUM = 200"
definition sizeof_NodeType :: int where "sizeof_NodeType = 96"
definition sizeof_CTimerQueue :: int where "sizeof_CTimerQueue = 576968"

text \<open>The offsets of \<open>m_bucket\<close> and \<open>m_nodeBase\<close> in the class; a bucket is one node base.\<close>

definition bucket_addr :: "'a timer_queue \<Rightarrow> int \<Rightarrow> int" where
  "bucket_addr q b = self q + 816 + 16 * b"

definition node_addr :: "'a timer_queue \<Rightarrow> nat \<Rightarrow> int" where
  "node_addr q i = self q + 576872 + sizeof_NodeType * int i"

definition node_at :: "'a timer_queue \<Rightarrow> int \<Rightarrow> nat option" where
  "node_at q a =
     (let d = a - node_addr q 0
      in if 0 \<le> d \<and> d mod sizeof_NodeType = 0 \<and> d div sizeof_NodeType < int (length (tnodes q))
         then Some (nat (d div sizeof_NodeType)) else None)"

definition HashTick :: "int \<Rightarrow> int" where
  "HashTick totalCount = totalCount mod C_BUCKET_COUNT"

subsection \<open>Timer ids\<close>

definition EncodeTimerId :: "int \<Rightarrow> int \<Rightarrow> int \<Rightarrow> int option" where
  "EncodeTimerId timer_type pos sq =
     (if sq > 0 \<and> sq < 60000 \<and> pos > 0 \<and> pos \<le> MAX_TIMER_NODE_NUM
      then Some (u64 (u64 (u64 (u64 (timer_type * 2 ^ 16) + sq) * 2 ^ 32) + pos)) else None)"

definition DecodeTimerId :: "int \<Rightarrow> (bool \<times> int \<times> int \<times> int) option" where
  "DecodeTimerId timerid =
     (let pos = timerid mod 2 ^ 32; sq = timerid div 2 ^ 32 mod 2 ^ 16;
          timer_type = timerid div 2 ^ 48 mod 2 ^ 16
      in if timerid = pos then None
         else Some (\<not> ((pos \<le> 0 \<or> pos > MAX_TIMER_NODE_NUM) \<or> (sq \<le> 0 \<or> sq \<ge> 60000)),
                    timer_type, pos, sq))"

definition TimerId2Pos :: "int \<Rightarrow> int option" where
  "TimerId2Pos timerid = do { (ok, ty, pos, sq) \<leftarrow> DecodeTimerId timerid; Some pos }"

definition StepUpTimerSeq :: "int \<Rightarrow> int option" where
  "StepUpTimerSeq sq =
     (if sq > 0 \<and> sq < 60000
      then let s' = (sq + 1) mod 2 ^ 16 in Some (if s' \<ge> 60000 \<or> s' \<le> 0 then 1 else s')
      else None)"

subsection \<open>Counters of the timer types\<close>

definition AddTimerCount :: "'a timer_queue \<Rightarrow> int \<Rightarrow> 'a timer_queue option" where
  "AddTimerCount q ty =
     (if 0 \<le> ty \<and> ty < int (length (m_timerCount q))
      then Some (q\<lparr>m_timerCount := (m_timerCount q)[nat ty := i32 (m_timerCount q ! nat ty + 1)]\<rparr>)
      else None)"

definition DecTimerCount :: "'a timer_queue \<Rightarrow> int \<Rightarrow> 'a timer_queue option" where
  "DecTimerCount q ty =
     (if 0 \<le> ty \<and> ty < int (length (m_timerCount q))
      then if 0 \<ge> m_timerCount q ! nat ty then Some q
           else Some (q\<lparr>m_timerCount := (m_timerCount q)[nat ty := m_timerCount q ! nat ty - 1]\<rparr>)
      else None)"

definition InitTimerCount :: "'a timer_queue \<Rightarrow> 'a timer_queue" where
  "InitTimerCount q = q\<lparr>m_timerCount := replicate MAX_TIMER_NUM 0\<rparr>"

definition GetTimerCount :: "'a timer_queue \<Rightarrow> int list" where
  "GetTimerCount q = m_timerCount q"

definition SetGlobalRunFlag :: "'a timer_queue \<Rightarrow> flags option \<Rightarrow> 'a timer_queue" where
  "SetGlobalRunFlag q fl = q\<lparr>m_runFlag := fl\<rparr>"

subsection \<open>Scheduling and cancelling\<close>

definition set_node :: "'a timer_queue \<Rightarrow> nat \<Rightarrow> 'a timer_node \<Rightarrow> 'a timer_queue" where
  "set_node q i nd = q\<lparr>tnodes := (tnodes q)[i := nd]\<rparr>"

definition bucket_push :: "'a timer_queue \<Rightarrow> nat \<Rightarrow> 'a timer_queue" where
  "bucket_push q i = q\<lparr>lmem := al_push_back (lmem q)
     (bucket_addr q (HashTick (m_expire (tnodes q ! i)))) (node_addr q i)\<rparr>"

definition free_push :: "'a timer_queue \<Rightarrow> nat \<Rightarrow> 'a timer_queue option" where
  "free_push q i = do {
     (l, t) \<leftarrow> stack_push_back (node_addr q) (lmem q) (free_top q) i;
     Some (q\<lparr>lmem := l, free_top := t\<rparr>) }"

definition Schedule ::
  "('a \<Rightarrow> int) \<Rightarrow> 'a timer_queue \<Rightarrow> 'a \<Rightarrow> int \<Rightarrow> int \<Rightarrow> int \<Rightarrow> (int \<times> 'a timer_queue) option" where
  "Schedule ttype q task delay period repeat_count =
     (let ty = ttype task
      in if stack_empty (free_top q) then Some (C_INVALID_TIMER_ID, q)
         else if 0 = period \<and> repeat_count > 1 then Some (C_INVALID_TIMER_ID, q)
         else if free_top q < 0 \<or> free_top q \<ge> int (length (tnodes q)) then None
         else do {
           let delay' = (if delay = 0 then 1 else delay);
           let i = nat (free_top q);
           let q1 = q\<lparr>free_top := stack_pop_back (node_addr q) (lmem q) (free_top q)\<rparr>;
           sq \<leftarrow> StepUpTimerSeq (m_timerSeq (tnodes q ! i));
           let q2 = set_node q1 i \<lparr>m_taskData = task, m_expire = u32 (s_currentTick q + delay'),
                      m_period = period, m_repeatCount = repeat_count,
                      m_timerType = ty mod 2 ^ 16, m_timerSeq = sq\<rparr>;
           let q3 = bucket_push q2 i;
           timerid \<leftarrow> EncodeTimerId (ty mod 2 ^ 16) (u32 (int i + 1)) sq;
           q4 \<leftarrow> (if timerid \<noteq> C_INVALID_TIMER_ID then AddTimerCount q3 (i32 ty) else None);
           Some (timerid, q4) })"

definition Schedule3 ::
  "('a \<Rightarrow> int) \<Rightarrow> 'a timer_queue \<Rightarrow> 'a \<Rightarrow> int \<Rightarrow> int \<Rightarrow> (int \<times> 'a timer_queue) option" where
  "Schedule3 ttype q task delay repeat_count = Schedule ttype q task delay delay repeat_count"

definition ScheduleOnce ::
  "('a \<Rightarrow> int) \<Rightarrow> 'a timer_queue \<Rightarrow> 'a \<Rightarrow> int \<Rightarrow> (int \<times> 'a timer_queue) option" where
  "ScheduleOnce ttype q task delay = Schedule3 ttype q task delay 1"

text \<open>The result has the new value of the reference parameter \<open>timerid\<close>.\<close>

definition Cancel :: "'a timer_queue \<Rightarrow> int \<Rightarrow> (int \<times> 'a timer_queue) option" where
  "Cancel q timerid =
     (if C_INVALID_TIMER_ID = timerid then Some (timerid, q)
      else do {
        (ok, ty, pos, sq) \<leftarrow> DecodeTimerId timerid;
        (if \<not> ok then Some (timerid, q)
         else if u32 (pos - 1) \<ge> int (m_count q) then Some (timerid, q)
         else do {
           let i = nat (u32 (pos - 1));
           let nd = tnodes q ! i;
           let a = node_addr q i;
           (if sq \<noteq> m_timerSeq nd \<or> ty \<noteq> m_timerType nd then Some (timerid, q)
            else if IsOrphanNode (lmem q a)
              then Some (C_INVALID_TIMER_ID, set_node q i (nd\<lparr>m_repeatCount := 0\<rparr>))
            else if \<not> is_in_stack (lmem q a)
              then do {
                (nx, l) \<leftarrow> al_erase (lmem q) a;
                let q1 = q\<lparr>lmem := l, m_tickIterator := (if m_tickIterator q = a then nx else m_tickIterator q)\<rparr>;
                q2 \<leftarrow> free_push q1 i;
                q3 \<leftarrow> DecTimerCount q2 ty;
                Some (C_INVALID_TIMER_ID, q3) }
            else Some (timerid, q)) }) })"

subsection \<open>Repair of a damaged bucket\<close>

definition IsValidNodePointer :: "'a timer_queue \<Rightarrow> int \<Rightarrow> bool" where
  "IsValidNodePointer q a =
     (let st = node_addr q 0; en = st + sizeof_NodeType * int (m_count q)
      in if a < st \<or> a > en then False
         else if 0 \<noteq> (a - st) mod sizeof_NodeType then False else True)"

text \<open>The walk back from the last node; the first number is how many nodes are still looked at.\<close>

fun fix_walk :: "nat \<Rightarrow> 'a timer_queue \<Rightarrow> int \<Rightarrow> int \<Rightarrow> int \<Rightarrow> int \<Rightarrow> (bool \<times> int \<times> lmem) option" where
  "fix_walk 0 q b cur itr nx = Some (False, nx, lmem q)"
| "fix_walk (Suc n) q b cur itr nx =
     (if itr = b \<or> \<not> IsValidNodePointer q itr then Some (False, nx, lmem q)
      else if itr = cur then do { l \<leftarrow> fix_next_link (lmem q) cur nx; Some (True, nx, l) }
      else fix_walk n q b cur (decr (lmem q) itr) itr)"

text \<open>
  The first loop of the function only collects nodes for log lines that are commented out; it
  changes nothing and is left out. The result is the returned value with the queue.
\<close>

definition DoBadTimeList :: "'a timer_queue \<Rightarrow> int \<Rightarrow> int \<Rightarrow> bool \<Rightarrow> (int \<times> 'a timer_queue) option" where
  "DoBadTimeList q b cur doFix = do {
     fl \<leftarrow> m_runFlag q;
     (fixed, nx, l) \<leftarrow> (if doFix then fix_walk 10001 q b cur (al_rbegin (lmem q) b) b
                        else Some (False, cur, lmem q));
     let q1 = q\<lparr>lmem := l\<rparr>;
     (if fixed \<and> cur \<noteq> nx then Some (0, q1)
      else if IsFlagSet fl FLAG_QUIT_AFTER_KICK_ALL_USER then Some (-1, q1)
      else Some (-1, q1\<lparr>m_runFlag := Some (SetFlag (SetFlag fl FLAG_QUIT_AFTER_KICK_ALL_USER) FLAG_QUIT_COREDUMP)\<rparr>)) }"

subsection \<open>Running the tasks that are due\<close>

fun do_calls :: "('a \<Rightarrow> int) \<Rightarrow> 'a tq_call list \<Rightarrow> 'a timer_queue \<Rightarrow> 'a timer_queue option" where
  "do_calls ttype [] q = Some q"
| "do_calls ttype (CallSchedule task d p r # cs) q = do {
     (tid, q') \<leftarrow> Schedule ttype q task d p r;
     do_calls ttype cs q' }"
| "do_calls ttype (CallCancel tid # cs) q = do {
     (tid', q') \<leftarrow> Cancel q tid;
     do_calls ttype cs q' }"

definition RunTask ::
  "('a \<Rightarrow> int) \<Rightarrow> ('a, 'e) task_run \<Rightarrow> nat \<Rightarrow> 'a timer_queue \<Rightarrow> 'e \<Rightarrow> ('a timer_queue \<times> 'e) option" where
  "RunTask ttype run i q e =
     (let (cs, e') = run i q e in do { q' \<leftarrow> do_calls ttype cs q; Some (q', e') })"

text \<open>After the task ran: back into a bucket, with a new expiry time, or to the free nodes.\<close>

definition finish_node :: "('a timer_node \<Rightarrow> int) \<Rightarrow> 'a timer_queue \<Rightarrow> nat \<Rightarrow> 'a timer_queue option" where
  "finish_node nexp q i =
     (let nd = tnodes q ! i
      in if 0 \<noteq> m_repeatCount nd
         then Some (bucket_push (set_node q i (nd\<lparr>m_expire := nexp nd\<rparr>)) i)
         else do {
           q1 \<leftarrow> DecTimerCount q (m_timerType nd);
           (if is_in_stack (lmem q1 (node_addr q1 i)) then None else free_push q1 i) })"

definition fire_node ::
  "('a \<Rightarrow> int) \<Rightarrow> ('a, 'e) task_run \<Rightarrow> ('a timer_node \<Rightarrow> int) \<Rightarrow> 'a timer_queue \<Rightarrow> 'e \<Rightarrow> nat \<Rightarrow>
   ('a timer_queue \<times> 'e) option" where
  "fire_node ttype run nexp q e i =
     (if is_in_stack (lmem q (node_addr q i)) then None
      else do {
        let nd = tnodes q ! i;
        let q1 = set_node q i (nd\<lparr>m_repeatCount := u32 (m_repeatCount nd - 1)\<rparr>);
        (nx, l) \<leftarrow> al_erase (lmem q1) (m_tickIterator q1);
        (q2, e') \<leftarrow> RunTask ttype run i (q1\<lparr>lmem := l, m_tickIterator := nx\<rparr>) e;
        q3 \<leftarrow> finish_node nexp q2 i;
        Some (q3, e') })"

text \<open>
  The loop over a bucket. \<open>over\<close> steps over a node that is not due and says whether to go on.
\<close>

fun tick_loop ::
  "('a \<Rightarrow> int) \<Rightarrow> ('a, 'e) task_run \<Rightarrow> ('a timer_node \<Rightarrow> int) \<Rightarrow>
   ('a timer_queue \<Rightarrow> int \<Rightarrow> (bool \<times> 'a timer_queue) option) \<Rightarrow>
   nat \<Rightarrow> 'a timer_queue \<Rightarrow> 'e \<Rightarrow> int \<Rightarrow> int \<Rightarrow> int \<Rightarrow> (int \<times> 'a timer_queue \<times> 'e) option" where
  "tick_loop ttype run nexp over 0 q e tick b cnt = None"
| "tick_loop ttype run nexp over (Suc fuel) q e tick b cnt =
     (if m_tickIterator q = b then Some (cnt, q, e)
      else do {
        i \<leftarrow> node_at q (m_tickIterator q);
        (if tick \<ge> m_expire (tnodes q ! i)
         then do {
           (q', e') \<leftarrow> fire_node ttype run nexp q e i;
           tick_loop ttype run nexp over fuel q' e' tick b (cnt + 1) }
         else do {
           (go_on, q') \<leftarrow> over q b;
           (if go_on then tick_loop ttype run nexp over fuel q' e tick b cnt
            else Some (cnt, q', e)) }) })"

definition check_over :: "'a timer_queue \<Rightarrow> int \<Rightarrow> (bool \<times> 'a timer_queue) option" where
  "check_over q b =
     (let old_it = m_tickIterator q; q1 = q\<lparr>m_tickIterator := incr (lmem q) old_it\<rparr>
      in if old_it = m_tickIterator q1 \<and> b \<noteq> m_tickIterator q1
         then do {
           (r, q2) \<leftarrow> DoBadTimeList q1 b (m_tickIterator q1) True;
           Some (\<not> r < 0, q2) }
         else Some (True, q1))"

definition skip_over :: "'a timer_queue \<Rightarrow> int \<Rightarrow> (bool \<times> 'a timer_queue) option" where
  "skip_over q b = Some (True, q\<lparr>m_tickIterator := incr (lmem q) (m_tickIterator q)\<rparr>)"

definition CheckTickArray ::
  "('a \<Rightarrow> int) \<Rightarrow> ('a, 'e) task_run \<Rightarrow> nat \<Rightarrow> 'a timer_queue \<Rightarrow> 'e \<Rightarrow> int \<Rightarrow> int \<Rightarrow>
   (int \<times> 'a timer_queue \<times> 'e) option" where
  "CheckTickArray ttype run fuel q e tick pos =
     (let b = bucket_addr q pos
      in tick_loop ttype run (\<lambda>nd. u32 (m_expire nd + m_period nd)) check_over fuel
           (q\<lparr>m_tickIterator := al_begin (lmem q) b\<rparr>) e tick b 0)"

definition SkipTickArray ::
  "('a \<Rightarrow> int) \<Rightarrow> ('a, 'e) task_run \<Rightarrow> nat \<Rightarrow> 'a timer_queue \<Rightarrow> 'e \<Rightarrow> int \<Rightarrow> int \<Rightarrow>
   (int \<times> 'a timer_queue \<times> 'e) option" where
  "SkipTickArray ttype run fuel q e tick pos =
     (let b = bucket_addr q pos; currTick = s_currentTick q
      in tick_loop ttype run (\<lambda>nd. u32 (currTick + m_period nd)) skip_over fuel
           (q\<lparr>m_tickIterator := al_begin (lmem q) b\<rparr>) e tick b 0)"

text \<open>The tick of a wall-clock time.\<close>

definition tick_of_time :: "int \<Rightarrow> int \<Rightarrow> int \<Rightarrow> int" where
  "tick_of_time sys_start tv_sec tv_usec =
     u32 ((tv_sec - sys_start) * C_TICK_COUNT_PER_SECOND
       + c_div tv_usec (c_div 1000000 C_TICK_COUNT_PER_SECOND))"

text \<open>
  The loop over the ticks: \<open>n\<close> is the distance from \<open>m_currentTick\<close> to the end, both of which the
  loop body leaves alone.
\<close>

fun tick_from ::
  "('a \<Rightarrow> int) \<Rightarrow> ('a, 'e) task_run \<Rightarrow> nat \<Rightarrow> nat \<Rightarrow> 'a timer_queue \<Rightarrow> 'e \<Rightarrow> int \<Rightarrow>
   (int \<times> 'a timer_queue \<times> 'e) option" where
  "tick_from ttype run fuel 0 q e cnt = Some (cnt, q, e)"
| "tick_from ttype run fuel (Suc n) q e cnt = do {
     let q1 = q\<lparr>s_currentTick := m_currentTick q\<rparr>;
     (c, q2, e2) \<leftarrow> CheckTickArray ttype run fuel q1 e (m_currentTick q1) (HashTick (m_currentTick q1));
     tick_from ttype run fuel n (q2\<lparr>m_currentTick := m_currentTick q2 + 1\<rparr>) e2 (cnt + c) }"

definition Tick ::
  "('a \<Rightarrow> int) \<Rightarrow> ('a, 'e) task_run \<Rightarrow> nat \<Rightarrow> int \<Rightarrow> int \<Rightarrow> 'a timer_queue \<Rightarrow> 'e \<Rightarrow>
   (int \<times> 'a timer_queue \<times> 'e) option" where
  "Tick ttype run fuel tv_sec tv_usec q e =
     (let currTick = tick_of_time (m_systemStart q) tv_sec tv_usec
      in if currTick > m_currentTick q
         then tick_from ttype run fuel (nat (currTick - m_currentTick q)) q e 0
         else Some (0, q, e))"

fun skip_from ::
  "('a \<Rightarrow> int) \<Rightarrow> ('a, 'e) task_run \<Rightarrow> nat \<Rightarrow> nat \<Rightarrow> 'a timer_queue \<Rightarrow> 'e \<Rightarrow> int \<Rightarrow>
   (int \<times> 'a timer_queue \<times> 'e) option" where
  "skip_from ttype run fuel 0 q e cnt = Some (cnt, q, e)"
| "skip_from ttype run fuel (Suc n) q e cnt = do {
     (c, q2, e2) \<leftarrow> SkipTickArray ttype run fuel q e (m_currentTick q) (HashTick (m_currentTick q));
     skip_from ttype run fuel n (q2\<lparr>m_currentTick := m_currentTick q2 + 1\<rparr>) e2 (cnt + c) }"

definition SkipTick ::
  "('a \<Rightarrow> int) \<Rightarrow> ('a, 'e) task_run \<Rightarrow> nat \<Rightarrow> int \<Rightarrow> int \<Rightarrow> 'a timer_queue \<Rightarrow> 'e \<Rightarrow>
   (int \<times> 'a timer_queue \<times> 'e) option" where
  "SkipTick ttype run fuel tv_sec tv_usec q e =
     (let currTick = tick_of_time (m_systemStart q) tv_sec tv_usec;
          q1 = q\<lparr>s_currentTick := currTick\<rparr>
      in if currTick > m_currentTick q1
         then skip_from ttype run fuel (nat (currTick - m_currentTick q1)) q1 e 0
         else Some (0, q1, e))"

subsection \<open>Creation\<close>

fun init_buckets :: "int \<Rightarrow> nat \<Rightarrow> lmem \<Rightarrow> lmem" where
  "init_buckets base 0 l = l"
| "init_buckets base (Suc b) l = al_init (init_buckets base b l) (base + 16 * int b)"

text \<open>
  \<open>old\<close> is what the memory at the address \<open>buffer\<close> holds, with as many nodes as \<open>count\<close>; \<open>resume_task\<close>
  is \<open>ConstructTask\<close> without a source task, which is not in the repository. \<open>None\<close> is a failed
  assert, \<open>Inl\<close> the exception, \<open>Inr\<close> the size used and the queue.
\<close>

definition CreateTimerQueue ::
  "(int \<Rightarrow> 'a \<Rightarrow> 'a) \<Rightarrow> int \<Rightarrow> int \<Rightarrow> 'a timer_queue \<Rightarrow> int \<Rightarrow> nat \<Rightarrow> bool \<Rightarrow>
   (unit + int \<times> 'a timer_queue) option" where
  "CreateTimerQueue resume_task tv_sec buffer old buffer_size count resume =
     (if \<not> (count > 0 \<and> int count < MAX_TIMER_NODE_NUM) then None
      else
        let tq_size = sizeof_CTimerQueue + int count * sizeof_NodeType
        in if tq_size > buffer_size then Some (Inl ())
           else
             let tq = old\<lparr>self := buffer, m_runFlag := None\<rparr>
             in if resume
                then if m_count tq = count
                  then Some (Inr (tq_size, SetGlobalRunFlag (InitTimerCount (tq\<lparr>
                    s_currentTick := m_currentTick tq,
                    tnodes := map (\<lambda>i. if is_in_stack (lmem tq (node_addr tq i)) then tnodes tq ! i
                        else (tnodes tq ! i)\<lparr>m_taskData := resume_task (m_timerType (tnodes tq ! i))
                               (m_taskData (tnodes tq ! i))\<rparr>) [0..<count]\<rparr>)) None))
                  else None
                else
                  let (l, t) = stack_reset (node_addr tq) count (lmem tq)
                  in Some (Inr (tq_size, SetGlobalRunFlag (InitTimerCount (tq\<lparr>
                       tnodes := map (\<lambda>nd. nd\<lparr>m_timerSeq := 1\<rparr>) (take count (tnodes tq)),
                       m_systemStart := tv_sec, m_currentTick := 0, s_currentTick := 0,
                       m_count := count, free_top := t,
                       lmem := init_buckets (bucket_addr tq 0) (nat C_BUCKET_COUNT) l\<rparr>)) None)))"

end
