(* ===== verification/TimerLinks.thy ===== *)
theory TimerLinks
  imports TimerQueue
begin

text \<open>
  The links of the timer queue's nodes. \<open>links_ok\<close> says where every node is: in the free stack
  \<open>F\<close>, in a bucket \<open>b\<close> with content \<open>B b\<close>, taken out while its task runs (\<open>Busy\<close>), or popped and
  not linked yet (\<open>Limbo\<close>). A node is in one place only, and each of the four moves the code makes
  keeps \<open>links_ok\<close> with that one node's place changed.
\<close>

datatype place = Free | InBucket nat | Busy | Limbo

abbreviation NB :: nat where "NB \<equiv> 36001"

definition addr_ok :: "(nat \<Rightarrow> int) \<Rightarrow> (nat \<Rightarrow> int) \<Rightarrow> bool" where
  "addr_ok na ba \<longleftrightarrow> inj na \<and> inj_on ba {..<NB} \<and> (\<forall>b<NB. \<forall>i. ba b \<noteq> na i) \<and>
     (\<forall>i. even (na i)) \<and> (\<forall>b. even (ba b))"

definition links_ok ::
  "lmem \<Rightarrow> (nat \<Rightarrow> int) \<Rightarrow> (nat \<Rightarrow> int) \<Rightarrow> nat \<Rightarrow> int \<Rightarrow> (nat \<Rightarrow> place) \<Rightarrow> (nat \<Rightarrow> nat list) \<Rightarrow>
   nat list \<Rightarrow> bool" where
  "links_ok l na ba n tp w B F \<longleftrightarrow>
     (\<forall>b<NB. dlist l (ba b) (map na (B b)) \<and> set (B b) = {i. i < n \<and> w i = InBucket b}) \<and>
     (\<forall>i<n. \<forall>b. w i = InBucket b \<longrightarrow> b < NB) \<and>
     free_stack na l tp F \<and> distinct F \<and> set F = {i. i < n \<and> w i = Free} \<and>
     (\<forall>i<n. w i = Busy \<longrightarrow> AssertOrphanNode (l (na i)))"

lemma addr_okD:
  assumes "addr_ok na ba"
  shows "na i = na j \<longleftrightarrow> i = j" and "b < NB \<Longrightarrow> ba b \<noteq> na i" and "b < NB \<Longrightarrow> na i \<noteq> ba b"
    and "b < NB \<Longrightarrow> c < NB \<Longrightarrow> ba b = ba c \<longleftrightarrow> b = c" and "even_nodes (ba b # map na is)"
proof -
  show "na i = na j \<longleftrightarrow> i = j" "b < NB \<Longrightarrow> ba b \<noteq> na i" "even_nodes (ba b # map na is)"
    "b < NB \<Longrightarrow> c < NB \<Longrightarrow> ba b = ba c \<longleftrightarrow> b = c"
    using assms by (auto simp: addr_ok_def inj_eq inj_on_eq_iff even_nodes_def)
  then show "b < NB \<Longrightarrow> na i \<noteq> ba b" by metis
qed

lemma links_okD:
  assumes "links_ok l na ba n tp w B F"
  shows "b < NB \<Longrightarrow> dlist l (ba b) (map na (B b))"
    and "b < NB \<Longrightarrow> set (B b) = {i. i < n \<and> w i = InBucket b}"
    and "i < n \<Longrightarrow> w i = InBucket b \<Longrightarrow> b < NB"
    and "free_stack na l tp F" and "distinct F" and "set F = {i. i < n \<and> w i = Free}"
    and "i < n \<Longrightarrow> w i = Busy \<Longrightarrow> AssertOrphanNode (l (na i))"
  using assms by (auto simp: links_ok_def)

text \<open>The place of a node, read off its link word.\<close>

lemma place_of_links:
  assumes a: "addr_ok na ba" and k: "links_ok l na ba n tp w B F" and i: "i < n"
  shows "w i = Free \<Longrightarrow> is_in_stack (l (na i)) \<and> \<not> IsOrphanNode (l (na i))"
    and "w i = InBucket b \<Longrightarrow> \<not> is_in_stack (l (na i)) \<and> \<not> IsOrphanNode (l (na i))"
    and "w i = Busy \<Longrightarrow> \<not> is_in_stack (l (na i)) \<and> IsOrphanNode (l (na i))"
proof -
  show "is_in_stack (l (na i)) \<and> \<not> IsOrphanNode (l (na i))" if "w i = Free"
    using free_stack_member [OF links_okD(4) [OF k]] links_okD(6) [OF k] i that
    by (auto simp: is_in_stack_def IsOrphanNode_def C_IDLE_NODE_FLAG_def ORPHAN_NODE_DIFF_def)
  show "\<not> is_in_stack (l (na i)) \<and> \<not> IsOrphanNode (l (na i))" if b: "w i = InBucket b"
  proof -
    have nb: "b < NB" using links_okD(3) [OF k i b] .
    then have "i \<in> set (B b)" using links_okD(2) [OF k] i b by simp
    then obtain xs ys where s: "B b = xs @ i # ys" by (meson split_list)
    then have "dlist l (ba b) (map na xs @ na i # map na ys)" using links_okD(1) [OF k nb] by simp
    from dlist_not_orphan [OF this] addr_okD(5) [OF a, of b "xs @ i # ys"] show ?thesis by simp
  qed
  show "\<not> is_in_stack (l (na i)) \<and> IsOrphanNode (l (na i))" if "w i = Busy"
    using links_okD(7) [OF k i that]
    by (auto simp: AssertOrphanNode_def IsOrphanNode_def is_in_stack_def ORPHAN_NODE_DIFF_def
        C_IDLE_NODE_FLAG_def)
qed

text \<open>A change confined to one bucket's head and nodes of that bucket leaves the others alone.\<close>

lemma other_bucket:
  assumes a: "addr_ok na ba" and k: "links_ok l na ba n tp w B F" and c: "c < NB" "b < NB" "c \<noteq> b"
    and ch: "\<And>x. x \<notin> insert (ba b) (na ` (insert i (set (B b)))) \<Longrightarrow> l' x = l x" and i: "i \<notin> set (B c)"
  shows "dlist l' (ba c) (map na (B c))"
proof -
  have "set (B c) \<inter> set (B b) = {}" using links_okD(2) [OF k] c by auto
  have "dlist l' (ba c) (map na (B c)) = dlist l (ba c) (map na (B c))"
  proof (rule dlist_cong)
    fix x assume "x \<in> insert (ba c) (set (map na (B c)))"
    then have "x \<notin> insert (ba b) (na ` insert i (set (B b)))"
      using addr_okD(1-4) [OF a] c i \<open>set (B c) \<inter> set (B b) = {}\<close> by (auto simp: image_iff)
    then show "l' x = l x" by (rule ch)
  qed
  then show ?thesis using links_okD(1) [OF k c(1)] by simp
qed

lemma links_pop:
  assumes "links_ok l na ba n tp w B (i # F)"
  shows "tp = int i" and "i < n" and "w i = Free"
    and "links_ok l na ba n (stack_pop_back na l tp) (w(i := Limbo)) B F"
proof -
  note k = links_okD [OF assms]
  have "i \<in> {j. j < n \<and> w j = Free}" unfolding k(6) [symmetric] by simp
  then show i: "tp = int i" "i < n" "w i = Free" using k(4) by simp_all
  have "set F = {j. j < n \<and> w j = Free} - {i}" unfolding k(6) [symmetric] using k(5) by simp
  then have "set F = {j. j < n \<and> (w(i := Limbo)) j = Free}" by auto
  moreover have "{j. j < n \<and> (w(i := Limbo)) j = InBucket b} = {j. j < n \<and> w j = InBucket b}" for b
    using i(3) by auto
  moreover have "\<forall>j<n. (w(i := Limbo)) j = Busy \<longrightarrow> AssertOrphanNode (l (na j))" using k(7) by simp
  moreover have "\<forall>j<n. \<forall>b. (w(i := Limbo)) j = InBucket b \<longrightarrow> b < NB" using k(3) by simp
  ultimately show "links_ok l na ba n (stack_pop_back na l tp) (w(i := Limbo)) B F"
    using free_stack_pop [OF k(4)] k(1,2,5) unfolding links_ok_def by simp
qed

lemma links_push:
  assumes a: "addr_ok na ba" and k: "links_ok l na ba n tp w B F" and i: "i < n"
    and w: "w i = Limbo \<or> w i = Busy" and b: "b < NB"
  shows "links_ok (al_push_back l (ba b) (na i)) na ba n tp (w(i := InBucket b)) (B(b := B b @ [i])) F"
    (is "links_ok ?l _ _ _ _ ?w ?B F")
proof -
  note k' = links_okD [OF k]
  have wn: "w i \<noteq> InBucket c" "w i \<noteq> Free" for c using w by auto
  have ni: "i \<notin> set (B c)" if "c < NB" for c unfolding k'(2) [OF that] using wn by simp
  have new: "na i \<notin> insert (ba b) (set (map na (B b)))" using ni [OF b] addr_okD(3) [OF a b] by (simp add: image_iff addr_okD(1) [OF a])
  note p = dlist_push_back [OF k'(1) [OF b] new]
  have oth: "x \<notin> insert (ba b) (na ` (insert i (set (B b)))) \<Longrightarrow> ?l x = l x" for x using p(2) by auto
  have "dlist ?l (ba c) (map na (?B c))" if "c < NB" for c
  proof (cases "c = b")
    case False
    from other_bucket [OF a k that b False oth ni [OF that]] False show ?thesis by simp
  qed (use p(1) in simp)
  moreover have "set (?B c) = {j. j < n \<and> ?w j = InBucket c}" if "c < NB" for c
  proof -
    have "{j. j < n \<and> ?w j = InBucket c} =
        {j. j < n \<and> w j = InBucket c} \<union> (if c = b then {i} else {})" using i wn by auto
    then show ?thesis using k'(2) [OF that] by (cases "c = b") simp_all
  qed
  moreover have un: "?l (na j) = l (na j)" if "j < n" "w j \<noteq> InBucket b" "j \<noteq> i" for j
    using k'(2) [OF b] addr_okD(1,3) [OF a] b that by (intro oth) auto
  have "free_stack na ?l tp F = free_stack na l tp F"
  proof (rule free_stack_cong)
    fix j assume "j \<in> set F"
    then have "j < n" "w j = Free" using k'(6) by auto
    then show "?l (na j) = l (na j)" using wn(2) by (intro un) auto
  qed
  then have "free_stack na ?l tp F" using k'(4) by simp
  moreover have "\<forall>j<n. ?w j = Busy \<longrightarrow> AssertOrphanNode (?l (na j))" using k'(7) un by simp
  moreover have "{j. j < n \<and> ?w j = Free} = {j. j < n \<and> w j = Free}" using wn by auto
  ultimately show ?thesis
    using k'(3,5,6) b unfolding links_ok_def by simp
qed

lemma links_erase:
  assumes a: "addr_ok na ba" and k: "links_ok l na ba n tp w B F" and b: "b < NB"
    and s: "B b = xs @ i # ys"
  shows "\<exists>l'. al_erase l (na i) = Some (hd (map na ys @ [ba b]), l') \<and>
    links_ok l' na ba n tp (w(i := Busy)) (B(b := xs @ ys)) F"
proof -
  note k' = links_okD [OF k]
  have d: "dlist l (ba b) (map na xs @ na i # map na ys)" using k'(1) [OF b] s by simp
  have ev: "even_nodes (ba b # map na xs @ na i # map na ys)"
    using addr_okD(5) [OF a, of b "xs @ i # ys"] by simp
  obtain l' where e: "al_erase l (na i) = Some (hd (map na ys @ [ba b]), l')"
    and d': "dlist l' (ba b) (map na xs @ map na ys)" and o': "AssertOrphanNode (l' (na i))"
    and oth: "c \<notin> set (ba b # map na xs @ na i # map na ys) \<Longrightarrow> l' c = l c" for c
    using dlist_erase [OF d ev] by blast
  let ?w = "w(i := Busy)" and ?B = "B(b := xs @ ys)"
  have i: "i < n" "w i = InBucket b" using k'(2) [OF b] s by auto
  have dist: "distinct (xs @ i # ys)" using d addr_okD(1) [OF a] by (auto simp: dlist_def distinct_map)
  have oth': "x \<notin> insert (ba b) (na ` (insert i (set (B b)))) \<Longrightarrow> l' x = l x" for x using oth s by auto
  have "dlist l' (ba c) (map na (?B c))" if "c < NB" for c
  proof (cases "c = b")
    case False
    then have "i \<notin> set (B c)" using k'(2) [OF that] i by simp
    from other_bucket [OF a k that b False oth' this] False show ?thesis by simp
  qed (use d' in simp)
  moreover have "c < NB \<Longrightarrow> set (?B c) = {j. j < n \<and> ?w j = InBucket c}" for c
    using k'(2) [of c] s i dist by (cases "c = b") auto
  moreover have "j < n \<Longrightarrow> w j \<noteq> InBucket b \<Longrightarrow> l' (na j) = l (na j)" for j
    using k'(2) [OF b] addr_okD(1,3) [OF a] b i by (intro oth') auto
  then have "free_stack na l' tp F" "j < n \<Longrightarrow> ?w j = Busy \<Longrightarrow> AssertOrphanNode (l' (na j))" for j
    using free_stack_cong [of F l' na l tp] k'(4,6,7) o' by (auto split: if_splits)
  ultimately have "links_ok l' na ba n tp ?w ?B F"
    using k'(3,5,6) i unfolding links_ok_def by (auto split: if_splits)
  with e show ?thesis by blast
qed

lemma links_free:
  assumes a: "addr_ok na ba" and k: "links_ok l na ba n tp w B F" and i: "i < n" "w i = Busy"
  shows "\<exists>l'. stack_push_back na l tp i = Some (l', int i) \<and>
    links_ok l' na ba n (int i) (w(i := Free)) B (i # F)"
proof -
  note k' = links_okD [OF k]
  have "na i \<notin> na ` set F" using k'(6) i addr_okD(1) [OF a] by auto
  from free_stack_push [OF k'(4) k'(7) [OF i] this] obtain l'
    where p: "stack_push_back na l tp i = Some (l', int i)" "free_stack na l' (int i) (i # F)"
      and oth: "x \<noteq> na i \<Longrightarrow> l' x = l x" for x by blast
  have "c < NB \<Longrightarrow> dlist l' (ba c) (map na (B c))" for c
  proof -
    assume c: "c < NB"
    then have "dlist l' (ba c) (map na (B c)) = dlist l (ba c) (map na (B c))"
      using k'(2) [OF c] i addr_okD(1-3) [OF a] c by (intro dlist_cong oth) auto
    then show ?thesis using k'(1) [OF c] by simp
  qed
  moreover have "j < n \<Longrightarrow> (w(i := Free)) j = Busy \<Longrightarrow> AssertOrphanNode (l' (na j))" for j
    using k'(7) oth addr_okD(1) [OF a] by (auto split: if_splits)
  ultimately have "links_ok l' na ba n (int i) (w(i := Free)) B (i # F)"
    using k'(2,3,5,6) p(2) i unfolding links_ok_def by (auto split: if_splits)
  with p(1) show ?thesis by blast
qed

end
