(* ===== verification/TimerProofs.thy ===== *)
theory TimerProofs
  imports TimerLinks
begin

text \<open>
  The invariant of the timer queue and what the operations do to it. \<open>tq_ok q w B F\<close> adds to
  \<open>links_ok\<close> what the nodes hold: a scheduled timer lies in the bucket of its expiry time.
  \<open>loop_inv\<close> is the invariant inside the tick loop, at tick \<open>t\<close> in bucket \<open>b\<close> with the nodes \<open>xs\<close> behind
  the iterator and \<open>ys\<close> ahead; \<open>due\<close> is what is left to run.
\<close>

subsection \<open>Addresses and frame\<close>

lemma C_BUCKET_COUNT_value: "C_BUCKET_COUNT = 36001"
  by (simp add: C_BUCKET_COUNT_def C_TICK_COUNT_PER_SECOND_def)

lemma HashTick_range: "0 \<le> HashTick t" "HashTick t < 36001"
  by (simp_all add: HashTick_def C_BUCKET_COUNT_value)

definition same_frame :: "'a timer_queue \<Rightarrow> 'a timer_queue \<Rightarrow> bool" where
  "same_frame q q' \<longleftrightarrow> self q' = self q \<and> m_count q' = m_count q \<and> m_currentTick q' = m_currentTick q \<and>
     s_currentTick q' = s_currentTick q \<and> m_systemStart q' = m_systemStart q \<and>
     m_runFlag q' = m_runFlag q"

lemma same_frame_refl [simp]: "same_frame q q"
  by (simp add: same_frame_def)

lemma same_frame_trans: "same_frame q q1 \<Longrightarrow> same_frame q1 q2 \<Longrightarrow> same_frame q q2"
  by (simp add: same_frame_def)

lemma same_frame_addr: "same_frame q q' \<Longrightarrow> node_addr q' = node_addr q \<and> bucket_addr q' = bucket_addr q"
  by (simp add: same_frame_def node_addr_def bucket_addr_def fun_eq_iff)

abbreviation bucket_nat :: "'a timer_queue \<Rightarrow> nat \<Rightarrow> int" where
  "bucket_nat q b \<equiv> bucket_addr q (int b)"

lemma addr_ok_queue: "even (self q) \<Longrightarrow> addr_ok (node_addr q) (bucket_nat q)"
  by (auto simp: addr_ok_def node_addr_def bucket_addr_def sizeof_NodeType_def inj_def inj_on_def)

lemma node_at_node_addr: "i < length (tnodes q) \<Longrightarrow> node_at q (node_addr q i) = Some i"
  by (simp add: node_at_def node_addr_def sizeof_NodeType_def)

lemma addr_updates [simp]:
  "node_addr (q\<lparr>lmem := l\<rparr>) = node_addr q" "bucket_addr (q\<lparr>lmem := l\<rparr>) = bucket_addr q"
  "node_addr (q\<lparr>tnodes := ns\<rparr>) = node_addr q" "bucket_addr (q\<lparr>tnodes := ns\<rparr>) = bucket_addr q"
  "node_addr (q\<lparr>free_top := t\<rparr>) = node_addr q" "bucket_addr (q\<lparr>free_top := t\<rparr>) = bucket_addr q"
  "node_addr (q\<lparr>m_tickIterator := x\<rparr>) = node_addr q" "bucket_addr (q\<lparr>m_tickIterator := x\<rparr>) = bucket_addr q"
  "node_addr (q\<lparr>m_timerCount := c\<rparr>) = node_addr q" "bucket_addr (q\<lparr>m_timerCount := c\<rparr>) = bucket_addr q"
  "node_addr (q\<lparr>m_currentTick := t'\<rparr>) = node_addr q" "bucket_addr (q\<lparr>m_currentTick := t'\<rparr>) = bucket_addr q"
  "node_addr (q\<lparr>s_currentTick := t'\<rparr>) = node_addr q" "bucket_addr (q\<lparr>s_currentTick := t'\<rparr>) = bucket_addr q"
  by (simp_all add: node_addr_def bucket_addr_def fun_eq_iff)

subsection \<open>The invariant\<close>

definition base_ok :: "'a timer_node \<Rightarrow> bool" where
  "base_ok nd \<longleftrightarrow> 0 \<le> m_timerType nd \<and> m_timerType nd < 200 \<and> 0 \<le> m_expire nd \<and> m_expire nd < 2 ^ 32 \<and>
     0 \<le> m_period nd \<and> m_period nd < 2 ^ 31 \<and> 0 \<le> m_repeatCount nd \<and> m_repeatCount nd < 2 ^ 32"

definition timer_ok :: "'a timer_node \<Rightarrow> bool" where
  "timer_ok nd \<longleftrightarrow> base_ok nd \<and> (1 \<le> m_period nd \<or> m_repeatCount nd = 1)"

definition busy_ok :: "'a timer_node \<Rightarrow> bool" where
  "busy_ok nd \<longleftrightarrow> base_ok nd \<and> (1 \<le> m_period nd \<or> m_repeatCount nd = 0)"

definition seq_ok :: "'a timer_node \<Rightarrow> bool" where
  "seq_ok nd \<longleftrightarrow> 0 < m_timerSeq nd \<and> m_timerSeq nd < 60000"

definition place_ok :: "'a timer_node \<Rightarrow> place \<Rightarrow> bool" where
  "place_ok nd p = (case p of
     InBucket b \<Rightarrow> timer_ok nd \<and> HashTick (m_expire nd) = int b
   | Busy \<Rightarrow> busy_ok nd | Free \<Rightarrow> True | Limbo \<Rightarrow> True)"

definition tq_layout :: "'a timer_queue \<Rightarrow> bool" where
  "tq_layout q \<longleftrightarrow> length (tnodes q) = m_count q \<and> 0 < m_count q \<and> int (m_count q) < MAX_TIMER_NODE_NUM \<and>
     even (self q) \<and> length (m_timerCount q) = MAX_TIMER_NUM"

definition tq_ok :: "'a timer_queue \<Rightarrow> (nat \<Rightarrow> place) \<Rightarrow> (nat \<Rightarrow> nat list) \<Rightarrow> nat list \<Rightarrow> bool" where
  "tq_ok q w B F \<longleftrightarrow> tq_layout q \<and>
     links_ok (lmem q) (node_addr q) (bucket_nat q) (m_count q) (free_top q) w B F \<and>
     (\<forall>i<m_count q. seq_ok (tnodes q ! i) \<and> place_ok (tnodes q ! i) (w i))"

lemma tq_okD:
  assumes "tq_ok q w B F"
  shows "tq_layout q" and "addr_ok (node_addr q) (bucket_nat q)"
    and "links_ok (lmem q) (node_addr q) (bucket_nat q) (m_count q) (free_top q) w B F"
    and "i < m_count q \<Longrightarrow> seq_ok (tnodes q ! i)"
    and "i < m_count q \<Longrightarrow> place_ok (tnodes q ! i) (w i)"
    and "length (tnodes q) = m_count q"
  using assms addr_ok_queue [of q] by (auto simp: tq_ok_def tq_layout_def)

lemma tq_ok_itr [simp]: "tq_ok (q\<lparr>m_tickIterator := x\<rparr>) w B F = tq_ok q w B F"
  and tq_ok_cur [simp]: "tq_ok (q\<lparr>m_currentTick := t\<rparr>) w B F = tq_ok q w B F"
  and tq_ok_fw [simp]: "tq_ok (q\<lparr>s_currentTick := t\<rparr>) w B F = tq_ok q w B F"
  by (simp_all add: tq_ok_def tq_layout_def)

lemma tq_ok_count: "length c = MAX_TIMER_NUM \<Longrightarrow> tq_ok q w B F \<Longrightarrow> tq_ok (q\<lparr>m_timerCount := c\<rparr>) w B F"
  by (simp add: tq_ok_def tq_layout_def)

lemma tq_ok_set_node:
  assumes "tq_ok q w B F" and "i < m_count q" and "seq_ok nd" and "place_ok nd (w i)"
  shows "tq_ok (set_node q i nd) w B F"
  using assms by (auto simp: tq_ok_def tq_layout_def set_node_def nth_list_update)

lemma set_node_simps [simp]:
  "lmem (set_node q i nd) = lmem q" "self (set_node q i nd) = self q" "m_count (set_node q i nd) = m_count q"
  "free_top (set_node q i nd) = free_top q" "m_tickIterator (set_node q i nd) = m_tickIterator q"
  "m_timerCount (set_node q i nd) = m_timerCount q" "s_currentTick (set_node q i nd) = s_currentTick q"
  "node_addr (set_node q i nd) = node_addr q" "bucket_addr (set_node q i nd) = bucket_addr q"
  "tnodes (set_node q i nd) = (tnodes q)[i := nd]"
  by (simp_all add: set_node_def)

lemma same_frame_set_node [simp]: "same_frame q (set_node q i nd)"
  by (simp add: same_frame_def set_node_def)

subsection \<open>The four moves on the queue\<close>

lemma tq_pop:
  assumes "tq_ok q w B (i # F)"
  shows "free_top q = int i" and "i < m_count q" and "w i = Free"
    and "tq_ok (q\<lparr>free_top := stack_pop_back (node_addr q) (lmem q) (free_top q)\<rparr>) (w(i := Limbo)) B F"
proof -
  note p = links_pop [OF tq_okD(3) [OF assms]]
  show "free_top q = int i" "i < m_count q" "w i = Free" using p(1-3) by simp_all
  show "tq_ok (q\<lparr>free_top := stack_pop_back (node_addr q) (lmem q) (free_top q)\<rparr>) (w(i := Limbo)) B F"
    using assms p(4) by (auto simp: tq_ok_def tq_layout_def place_ok_def)
qed

lemma tq_push:
  assumes ok: "tq_ok q w B F" and i: "i < m_count q" and w: "w i = Limbo \<or> w i = Busy"
    and nd: "timer_ok (tnodes q ! i)" and b: "b = nat (HashTick (m_expire (tnodes q ! i)))"
  shows "tq_ok (bucket_push q i) (w(i := InBucket b)) (B(b := B b @ [i])) F"
    and "bucket_push q i = q\<lparr>lmem := lmem (bucket_push q i)\<rparr>" and "b < NB"
proof -
  have b': "b < NB" "int b = HashTick (m_expire (tnodes q ! i))" using b HashTick_range [of "m_expire (tnodes q ! i)"] by (simp_all add: nat_less_iff)
  show "b < NB" using b'(1) .
  show "bucket_push q i = q\<lparr>lmem := lmem (bucket_push q i)\<rparr>" by (simp add: bucket_push_def)
  have "links_ok (lmem (bucket_push q i)) (node_addr q) (bucket_nat q) (m_count q) (free_top q)
      (w(i := InBucket b)) (B(b := B b @ [i])) F"
    using links_push [OF tq_okD(2,3) [OF ok] i w b'(1)] by (simp add: bucket_push_def b'(2))
  then show "tq_ok (bucket_push q i) (w(i := InBucket b)) (B(b := B b @ [i])) F"
    using ok nd b'(2) by (auto simp: tq_ok_def tq_layout_def place_ok_def bucket_push_def)
qed

lemma tq_erase:
  assumes ok: "tq_ok q w B F" and b: "b < NB" and s: "B b = xs @ i # ys" and nd: "busy_ok (tnodes q ! i)"
  shows "\<exists>l. al_erase (lmem q) (node_addr q i) = Some (hd (map (node_addr q) ys @ [bucket_nat q b]), l) \<and>
    tq_ok (q\<lparr>lmem := l\<rparr>) (w(i := Busy)) (B(b := xs @ ys)) F"
proof -
  obtain l where e: "al_erase (lmem q) (node_addr q i) = Some (hd (map (node_addr q) ys @ [bucket_nat q b]), l)"
    and k: "links_ok l (node_addr q) (bucket_nat q) (m_count q) (free_top q) (w(i := Busy)) (B(b := xs @ ys)) F"
    using links_erase [OF tq_okD(2,3) [OF ok] b, where xs = xs and i = i and ys = ys] s by blast
  have "tq_ok (q\<lparr>lmem := l\<rparr>) (w(i := Busy)) (B(b := xs @ ys)) F"
    using ok k nd by (auto simp: tq_ok_def tq_layout_def place_ok_def)
  with e show ?thesis by blast
qed

lemma tq_free:
  assumes ok: "tq_ok q w B F" and i: "i < m_count q" "w i = Busy"
  shows "\<exists>l. free_push q i = Some (q\<lparr>lmem := l, free_top := int i\<rparr>) \<and>
    tq_ok (q\<lparr>lmem := l, free_top := int i\<rparr>) (w(i := Free)) B (i # F)"
proof -
  obtain l where p: "stack_push_back (node_addr q) (lmem q) (free_top q) i = Some (l, int i)"
    and k: "links_ok l (node_addr q) (bucket_nat q) (m_count q) (int i) (w(i := Free)) B (i # F)"
    using links_free [OF tq_okD(2,3) [OF ok] i] by blast
  have "tq_ok (q\<lparr>lmem := l, free_top := int i\<rparr>) (w(i := Free)) B (i # F)"
    using ok k by (auto simp: tq_ok_def tq_layout_def place_ok_def)
  with p show ?thesis by (intro exI [of _ l]) (simp add: free_push_def)
qed

text \<open>The counters.\<close>

lemma AddTimerCount_ok:
  assumes "tq_ok q w B F" and "0 \<le> ty" "ty < 200"
  shows "\<exists>c. AddTimerCount q ty = Some (q\<lparr>m_timerCount := c\<rparr>) \<and> tq_ok (q\<lparr>m_timerCount := c\<rparr>) w B F"
  using assms tq_okD(1) [OF assms(1)]
  by (auto simp: AddTimerCount_def tq_layout_def MAX_TIMER_NUM_def intro!: tq_ok_count)

lemma DecTimerCount_ok:
  assumes "tq_ok q w B F" and "0 \<le> ty" "ty < 200"
  shows "\<exists>c. DecTimerCount q ty = Some (q\<lparr>m_timerCount := c\<rparr>) \<and> tq_ok (q\<lparr>m_timerCount := c\<rparr>) w B F"
proof (cases "0 \<ge> m_timerCount q ! nat ty")
  case True
  then have "DecTimerCount q ty = Some (q\<lparr>m_timerCount := m_timerCount q\<rparr>)"
    using assms tq_okD(1) [OF assms(1)] by (simp add: DecTimerCount_def tq_layout_def MAX_TIMER_NUM_def)
  then show ?thesis using assms(1) by (intro exI [of _ "m_timerCount q"]) simp
next
  case False
  then show ?thesis
    using assms tq_okD(1) [OF assms(1)]
    by (auto simp: DecTimerCount_def tq_layout_def MAX_TIMER_NUM_def intro!: tq_ok_count)
qed

subsection \<open>Ids\<close>

definition timer_id :: "int \<Rightarrow> nat \<Rightarrow> int \<Rightarrow> int" where
  "timer_id ty i sq = (ty * 2 ^ 16 + sq) * 2 ^ 32 + (int i + 1)"

lemma EncodeTimerId_value:
  assumes "0 \<le> ty" "ty < 2 ^ 16" "0 < sq" "sq < 60000" "int i < MAX_TIMER_NODE_NUM"
  shows "EncodeTimerId ty (u32 (int i + 1)) sq = Some (timer_id ty i sq)"
proof -
  have "u64 (ty * 2 ^ 16) = ty * 2 ^ 16" using assms by (intro u64_id) auto
  moreover have "u64 (ty * 2 ^ 16 + sq) = ty * 2 ^ 16 + sq" using assms by (intro u64_id) auto
  moreover have "u64 ((ty * 2 ^ 16 + sq) * 2 ^ 32) = (ty * 2 ^ 16 + sq) * 2 ^ 32"
    using assms by (intro u64_id) auto
  moreover have "u32 (int i + 1) = int i + 1" using assms by (intro u32_id) (auto simp: MAX_TIMER_NODE_NUM_def)
  moreover have "u64 (timer_id ty i sq) = timer_id ty i sq"
    using assms by (intro u64_id) (auto simp: timer_id_def MAX_TIMER_NODE_NUM_def)
  ultimately show ?thesis
    using assms unfolding EncodeTimerId_def timer_id_def by (simp only: if_True simp_thms) simp
qed

lemma timer_id_parts:
  assumes "0 \<le> ty" "ty < 2 ^ 16" "0 < sq" "sq < 60000" "int i < MAX_TIMER_NODE_NUM"
  shows "DecodeTimerId (timer_id ty i sq) = Some (True, ty, int i + 1, sq)"
    and "2 ^ 32 \<le> timer_id ty i sq"
proof -
  obtain h where h: "h = ty * 2 ^ 16 + sq" by blast
  let ?h = h and ?p = "int i + 1"
  have p: "0 \<le> ?p" "?p < 2 ^ 32" using assms by (auto simp: MAX_TIMER_NODE_NUM_def)
  have "timer_id ty i sq mod 2 ^ 32 = ?p" unfolding timer_id_def h [symmetric] using p by simp
  moreover have d: "timer_id ty i sq div 2 ^ 32 = ?h" unfolding timer_id_def h [symmetric] using p by simp
  moreover have "?h mod 2 ^ 16 = sq" using assms h by simp
  moreover have "timer_id ty i sq div 2 ^ 48 mod 2 ^ 16 = ty"
  proof -
    have "timer_id ty i sq div 2 ^ 48 = timer_id ty i sq div (2 ^ 32 * 2 ^ 16)" by simp
    also have "\<dots> = ?h div 2 ^ 16" using d by (subst zdiv_zmult2_eq) simp_all
    also have "\<dots> = ty" using assms h by simp
    finally show ?thesis using assms by simp
  qed
  moreover show "2 ^ 32 \<le> timer_id ty i sq" using assms by (simp add: timer_id_def)
  ultimately show "DecodeTimerId (timer_id ty i sq) = Some (True, ty, int i + 1, sq)"
    using assms p by (simp add: DecodeTimerId_def Let_def MAX_TIMER_NODE_NUM_def)
qed

lemma StepUpTimerSeq_ok:
  assumes "0 < sq" "sq < 60000"
  shows "StepUpTimerSeq sq = Some (if sq = 59999 then 1 else sq + 1)"
proof -
  have "(sq + 1) mod 2 ^ 16 = sq + 1" using assms by (intro mod_pos_pos_trivial) auto
  then show ?thesis using assms by (simp add: StepUpTimerSeq_def Let_def)
qed

end
