(* ===== verification/TimerCalls.thy ===== *)
theory TimerCalls
  imports TimerProofs
begin

text \<open>
  \<open>Schedule\<close> and \<open>Cancel\<close> on every branch, over the invariant \<open>tq_ok\<close>, and what a list of such calls
  can do to the bucket that the tick loop is walking through.
\<close>

subsection \<open>Schedule\<close>

definition sched_args :: "('a \<Rightarrow> int) \<Rightarrow> 'a \<Rightarrow> int \<Rightarrow> int \<Rightarrow> int \<Rightarrow> bool" where
  "sched_args ttype task d p r \<longleftrightarrow> 0 \<le> ttype task \<and> ttype task < 200 \<and> 0 \<le> d \<and> d < 2 ^ 31 \<and>
     0 \<le> p \<and> p < 2 ^ 31 \<and> 0 \<le> r \<and> r < 2 ^ 32 \<and> (p = 0 \<longrightarrow> r \<noteq> 0)"

definition first_delay :: "int \<Rightarrow> int" where
  "first_delay d = (if d = 0 then 1 else d)"

definition next_seq :: "int \<Rightarrow> int" where
  "next_seq sq = (if sq = 59999 then 1 else sq + 1)"

lemma next_seq_range: "0 < sq \<Longrightarrow> sq < 60000 \<Longrightarrow> 0 < next_seq sq \<and> next_seq sq < 60000"
  by (auto simp: next_seq_def)

definition scheduled_node ::
  "('a \<Rightarrow> int) \<Rightarrow> 'a timer_queue \<Rightarrow> nat \<Rightarrow> 'a \<Rightarrow> int \<Rightarrow> int \<Rightarrow> int \<Rightarrow> 'a timer_node" where
  "scheduled_node ttype q i task d p r =
     \<lparr>m_taskData = task, m_expire = s_currentTick q + first_delay d, m_period = p, m_repeatCount = r,
      m_timerType = ttype task, m_timerSeq = next_seq (m_timerSeq (tnodes q ! i))\<rparr>"

lemma Schedule_refused:
  assumes "tq_ok q w B F" and "F = [] \<or> p = 0 \<and> r > 1"
  shows "Schedule ttype q task d p r = Some (C_INVALID_TIMER_ID, q)"
proof -
  have "F = [] \<Longrightarrow> stack_empty (free_top q)"
    using links_okD(4) [OF tq_okD(3) [OF assms(1)]] by (simp add: stack_empty_def)
  then show ?thesis using assms(2) by (auto simp: Schedule_def Let_def)
qed

lemma Schedule_accepted:
  assumes ok: "tq_ok q w B (i # F)" and args: "sched_args ttype task d p r" and np: "\<not> (p = 0 \<and> r > 1)"
    and now: "0 \<le> s_currentTick q" "s_currentTick q < 2 ^ 31"
  defines "nd \<equiv> scheduled_node ttype q i task d p r"
  defines "b \<equiv> nat (HashTick (m_expire nd))"
  shows "\<exists>q'. Schedule ttype q task d p r = Some (timer_id (ttype task) i (m_timerSeq nd), q') \<and>
    tq_ok q' (w(i := InBucket b)) (B(b := B b @ [i])) F \<and> same_frame q q' \<and>
    m_tickIterator q' = m_tickIterator q \<and> tnodes q' = (tnodes q)[i := nd] \<and>
    m_timerCount q' = (m_timerCount q)[nat (ttype task) := i32 (m_timerCount q ! nat (ttype task) + 1)]"
proof -
  note pop = tq_pop [OF ok]
  let ?q1 = "q\<lparr>free_top := stack_pop_back (node_addr q) (lmem q) (free_top q)\<rparr>"
  have len: "i < length (tnodes q)" using tq_okD(6) [OF ok] pop(2) by simp
  have sq: "0 < m_timerSeq (tnodes q ! i)" "m_timerSeq (tnodes q ! i) < 60000"
    using tq_okD(4) [OF ok pop(2)] by (simp_all add: seq_ok_def)
  have nd: "timer_ok nd" "seq_ok nd"
    using args np now next_seq_range [OF sq]
    by (auto simp: nd_def scheduled_node_def timer_ok_def base_ok_def seq_ok_def sched_args_def first_delay_def)
  let ?q2 = "set_node ?q1 i nd" and ?w = "w(i := Limbo)"
  have ok2: "tq_ok ?q2 ?w B F" using pop(2,4) nd(2) by (intro tq_ok_set_node) (simp_all add: place_ok_def)
  have n2: "tnodes ?q2 ! i = nd" using len by simp
  have ok3: "tq_ok (bucket_push ?q2 i) (w(i := InBucket b)) (B(b := B b @ [i])) F"
    "bucket_push ?q2 i = ?q2\<lparr>lmem := lmem (bucket_push ?q2 i)\<rparr>"
    using tq_push [OF ok2, of i b] pop(2) nd(1) n2 by (simp_all add: b_def)
  have ty: "0 \<le> ttype task" "ttype task < 200" using args by (auto simp: sched_args_def)
  obtain c where c: "AddTimerCount (bucket_push ?q2 i) (ttype task) = Some ((bucket_push ?q2 i)\<lparr>m_timerCount := c\<rparr>)"
    "tq_ok ((bucket_push ?q2 i)\<lparr>m_timerCount := c\<rparr>) (w(i := InBucket b)) (B(b := B b @ [i])) F"
    using AddTimerCount_ok [OF ok3(1) ty] by blast
  have tyc: "ttype task mod 2 ^ 16 = ttype task" "i32 (ttype task) = ttype task"
    using ty by (simp_all add: i32_id)
  have ns: "0 < m_timerSeq nd" "m_timerSeq nd < 60000" "m_timerSeq nd = next_seq (m_timerSeq (tnodes q ! i))"
    using nd(2) by (simp_all add: seq_ok_def nd_def scheduled_node_def)
  have cnt: "int i < MAX_TIMER_NODE_NUM" using tq_okD(1) [OF ok] pop(2) by (simp add: tq_layout_def)
  have enc: "EncodeTimerId (ttype task) (u32 (int i + 1)) (m_timerSeq nd) = Some (timer_id (ttype task) i (m_timerSeq nd))"
    using ty ns cnt by (intro EncodeTimerId_value) auto
  have nz: "timer_id (ttype task) i (m_timerSeq nd) \<noteq> C_INVALID_TIMER_ID"
    using timer_id_parts(2) [of "ttype task" "m_timerSeq nd" i] ty ns cnt by (simp add: C_INVALID_TIMER_ID_def)
  have x: "u32 (s_currentTick q + first_delay d) = s_currentTick q + first_delay d"
    using args now by (intro u32_id) (auto simp: sched_args_def first_delay_def)
  have node: "\<lparr>m_taskData = task, m_expire = u32 (s_currentTick q + first_delay d),
      m_period = p, m_repeatCount = r, m_timerType = ttype task mod 2 ^ 16,
      m_timerSeq = next_seq (m_timerSeq (tnodes q ! i))\<rparr> = nd"
    using x tyc(1) by (simp add: nd_def scheduled_node_def)
  have step: "StepUpTimerSeq (m_timerSeq (tnodes q ! i)) = Some (next_seq (m_timerSeq (tnodes q ! i)))"
    using StepUpTimerSeq_ok [OF sq] by (simp add: next_seq_def)
  have top: "\<not> stack_empty (free_top q)" "\<not> (free_top q < 0 \<or> free_top q \<ge> int (length (tnodes q)))"
    "nat (free_top q) = i" "\<not> (0 = p \<and> r > 1)"
    using pop(1) len np by (auto simp: stack_empty_def C_TAIL_OF_STACK_def)
  have "Schedule ttype q task d p r =
      Some (timer_id (ttype task) i (m_timerSeq nd), (bucket_push ?q2 i)\<lparr>m_timerCount := c\<rparr>)"
    unfolding Schedule_def Let_def first_delay_def [symmetric] if_not_P [OF top(1)] if_not_P [OF top(4)]
      if_not_P [OF top(2)] top(3) step Option.bind.simps(2) tyc enc [unfolded ns(3)]
      node [unfolded tyc(1)]
    by (simp add: nz [unfolded ns(3)] c(1) ns(3))
  moreover have "same_frame q ((bucket_push ?q2 i)\<lparr>m_timerCount := c\<rparr>)"
    "m_tickIterator ((bucket_push ?q2 i)\<lparr>m_timerCount := c\<rparr>) = m_tickIterator q"
    "tnodes ((bucket_push ?q2 i)\<lparr>m_timerCount := c\<rparr>) = (tnodes q)[i := nd]"
    by (simp_all add: bucket_push_def set_node_def same_frame_def)
  moreover have "c = (m_timerCount q)[nat (ttype task) := i32 (m_timerCount q ! nat (ttype task) + 1)]"
    using c(1) by (auto simp: AddTimerCount_def bucket_push_def set_node_def split: if_splits dest: arg_cong [of _ _ m_timerCount])
  ultimately show ?thesis using c(2) by (intro exI [of _ "(bucket_push ?q2 i)\<lparr>m_timerCount := c\<rparr>"]) simp
qed

text \<open>A timer with period 0 that is to be repeated 0 times is accepted: what is stored differs from a timer that runs once in
  the repeat count only.\<close>

lemma Schedule_no_repeat:
  assumes "Schedule ttype q task d 0 1 = Some (tid, q')" and "tid \<noteq> C_INVALID_TIMER_ID" and "free_top q = int i"
  shows "Schedule ttype q task d 0 0 = Some (tid, set_node q' i ((tnodes q' ! i)\<lparr>m_repeatCount := 0\<rparr>))"
  using assms
  by (auto simp: Schedule_def Let_def set_node_def bucket_push_def AddTimerCount_def bucket_addr_def node_addr_def fun_eq_iff
      split: if_splits Option.bind_splits)

subsection \<open>Cancel\<close>

definition no_limbo :: "'a timer_queue \<Rightarrow> (nat \<Rightarrow> place) \<Rightarrow> bool" where
  "no_limbo q w \<longleftrightarrow> (\<forall>i<m_count q. w i \<noteq> Limbo)"

text \<open>The node that an id names, if the id is not stale.\<close>

definition named :: "'a timer_queue \<Rightarrow> int \<Rightarrow> nat option" where
  "named q tid = (case DecodeTimerId tid of
     Some (True, ty, pos, sq) \<Rightarrow>
       if u32 (pos - 1) < int (m_count q) \<and> sq = m_timerSeq (tnodes q ! nat (u32 (pos - 1))) \<and>
          ty = m_timerType (tnodes q ! nat (u32 (pos - 1)))
       then Some (nat (u32 (pos - 1))) else None
   | _ \<Rightarrow> None)"

lemma named_bound: "named q tid = Some i \<Longrightarrow> i < m_count q"
  by (auto simp: named_def u32_def split: option.splits bool.splits if_splits)

lemma named_own:
  assumes "tq_ok q w B F" and "i < m_count q" and "0 \<le> m_timerType (tnodes q ! i)"
    and "m_timerType (tnodes q ! i) < 2 ^ 16"
  shows "named q (timer_id (m_timerType (tnodes q ! i)) i (m_timerSeq (tnodes q ! i))) = Some i"
proof -
  have "int i < MAX_TIMER_NODE_NUM" using tq_okD(1) [OF assms(1)] assms(2) by (simp add: tq_layout_def)
  moreover have "u32 (int i) = int i"
    using \<open>int i < MAX_TIMER_NODE_NUM\<close> by (intro u32_id) (auto simp: MAX_TIMER_NODE_NUM_def)
  moreover have "seq_ok (tnodes q ! i)" using tq_okD(4) [OF assms(1,2)] .
  ultimately show ?thesis
    using assms timer_id_parts(1) [of "m_timerType (tnodes q ! i)" "m_timerSeq (tnodes q ! i)" i]
    by (simp add: named_def seq_ok_def)
qed

definition cancel_arg :: "int \<Rightarrow> bool" where
  "cancel_arg tid \<longleftrightarrow> tid = C_INVALID_TIMER_ID \<or> 2 ^ 32 \<le> tid"

lemma decode_defined: "2 ^ 32 \<le> tid \<Longrightarrow> DecodeTimerId tid \<noteq> None"
proof -
  assume "2 ^ 32 \<le> tid"
  moreover have "tid mod 2 ^ 32 < 2 ^ 32" by simp
  ultimately have "tid \<noteq> tid mod 2 ^ 32" by linarith
  then show ?thesis by (simp add: DecodeTimerId_def Let_def)
qed

lemma named_None_free:
  assumes "tq_ok q w B F" and "cancel_arg tid" and "\<forall>i. named q tid = Some i \<longrightarrow> w i = Free"
    and "tid \<noteq> C_INVALID_TIMER_ID"
  shows "Cancel q tid = Some (tid, q)"
proof -
  from decode_defined [of tid] assms(2,4) obtain ok ty pos sq
    where d: "DecodeTimerId tid = Some (ok, ty, pos, sq)" by (auto simp: cancel_arg_def)
  let ?i = "nat (u32 (pos - 1))"
  show ?thesis
  proof (cases "ok \<and> u32 (pos - 1) < int (m_count q) \<and> sq = m_timerSeq (tnodes q ! ?i) \<and> ty = m_timerType (tnodes q ! ?i)")
    case True
    then have n: "named q tid = Some ?i" using d by (simp add: named_def)
    then have f: "w ?i = Free" "?i < m_count q" using assms(3) named_bound by blast+
    then show ?thesis
      using place_of_links(1) [OF tq_okD(2,3) [OF assms(1)] f(2,1)] d True assms(4)
      by (simp add: Cancel_def Let_def)
  next
    case False
    then show ?thesis using d assms(4) by (auto simp: Cancel_def Let_def)
  qed
qed

lemma Cancel_named:
  assumes "tid \<noteq> C_INVALID_TIMER_ID" and "named q tid = Some i"
  shows "Cancel q tid =
    (if IsOrphanNode (lmem q (node_addr q i))
     then Some (C_INVALID_TIMER_ID, set_node q i ((tnodes q ! i)\<lparr>m_repeatCount := 0\<rparr>))
     else if \<not> is_in_stack (lmem q (node_addr q i))
     then do {
       (nx, l) \<leftarrow> al_erase (lmem q) (node_addr q i);
       let q1 = q\<lparr>lmem := l,
         m_tickIterator := (if m_tickIterator q = node_addr q i then nx else m_tickIterator q)\<rparr>;
       q2 \<leftarrow> free_push q1 i;
       q3 \<leftarrow> DecTimerCount q2 (m_timerType (tnodes q ! i));
       Some (C_INVALID_TIMER_ID, q3) }
     else Some (tid, q))"
  using assms by (auto simp: named_def Cancel_def Let_def split: option.splits bool.splits if_splits)

lemma Cancel_busy:
  assumes ok: "tq_ok q w B F" and n: "tid \<noteq> C_INVALID_TIMER_ID" "named q tid = Some i" and w: "w i = Busy"
  shows "Cancel q tid = Some (C_INVALID_TIMER_ID, set_node q i ((tnodes q ! i)\<lparr>m_repeatCount := 0\<rparr>))"
    and "tq_ok (set_node q i ((tnodes q ! i)\<lparr>m_repeatCount := 0\<rparr>)) w B F"
proof -
  have i: "i < m_count q" using n(2) by (rule named_bound)
  show "Cancel q tid = Some (C_INVALID_TIMER_ID, set_node q i ((tnodes q ! i)\<lparr>m_repeatCount := 0\<rparr>))"
    using Cancel_named [OF n] place_of_links(3) [OF tq_okD(2,3) [OF ok] i w] by simp
  show "tq_ok (set_node q i ((tnodes q ! i)\<lparr>m_repeatCount := 0\<rparr>)) w B F"
    using tq_okD(4,5) [OF ok i] w
    by (intro tq_ok_set_node [OF ok i]) (auto simp: seq_ok_def place_ok_def busy_ok_def base_ok_def)
qed

lemma Cancel_waiting:
  assumes ok: "tq_ok q w B F" and n: "tid \<noteq> C_INVALID_TIMER_ID" "named q tid = Some i"
    and w: "w i = InBucket b" and s: "B b = xs @ i # ys"
  shows "\<exists>q'. Cancel q tid = Some (C_INVALID_TIMER_ID, q') \<and>
    tq_ok q' (w(i := Free)) (B(b := xs @ ys)) (i # F) \<and> same_frame q q' \<and> tnodes q' = tnodes q \<and>
    m_tickIterator q' = (if m_tickIterator q = node_addr q i
      then hd (map (node_addr q) ys @ [bucket_nat q b]) else m_tickIterator q)"
proof -
  have i: "i < m_count q" using n(2) by (rule named_bound)
  have b: "b < NB" using links_okD(3) [OF tq_okD(3) [OF ok] i w] .
  have p: "timer_ok (tnodes q ! i)" using tq_okD(5) [OF ok i] w by (simp add: place_ok_def)
  obtain it where it: "it = (if m_tickIterator q = node_addr q i
      then hd (map (node_addr q) ys @ [bucket_nat q b]) else m_tickIterator q)" by blast
  let ?nd = "(tnodes q ! i)\<lparr>m_repeatCount := 0\<rparr>"
  obtain l where e: "al_erase (lmem q) (node_addr q i) = Some (hd (map (node_addr q) ys @ [bucket_nat q b]), l)"
    and k: "links_ok l (node_addr q) (bucket_nat q) (m_count q) (free_top q) (w(i := Busy)) (B(b := xs @ ys)) F"
    using links_erase [OF tq_okD(2,3) [OF ok] b, where xs = xs and i = i and ys = ys] s by blast
  obtain l2 where f: "stack_push_back (node_addr q) l (free_top q) i = Some (l2, int i)"
    and k2: "links_ok l2 (node_addr q) (bucket_nat q) (m_count q) (int i) (w(i := Free)) (B(b := xs @ ys)) (i # F)"
    using links_free [OF tq_okD(2) [OF ok] k i] by auto
  let ?q2 = "q\<lparr>m_tickIterator := it, lmem := l2, free_top := int i\<rparr>"
  have ok2: "tq_ok ?q2 (w(i := Free)) (B(b := xs @ ys)) (i # F)"
    using ok k2 by (auto simp: tq_ok_def tq_layout_def place_ok_def)
  have ty: "0 \<le> m_timerType (tnodes q ! i)" "m_timerType (tnodes q ! i) < 200"
    using p by (auto simp: timer_ok_def base_ok_def)
  obtain c where c: "DecTimerCount ?q2 (m_timerType (tnodes q ! i)) = Some (?q2\<lparr>m_timerCount := c\<rparr>)"
    "tq_ok (?q2\<lparr>m_timerCount := c\<rparr>) (w(i := Free)) (B(b := xs @ ys)) (i # F)"
    using DecTimerCount_ok [OF ok2 ty] by blast
  have pl: "\<not> is_in_stack (lmem q (node_addr q i)) \<and> \<not> IsOrphanNode (lmem q (node_addr q i))"
    using place_of_links(2) [OF tq_okD(2,3) [OF ok] i w] .
  have "Cancel q tid = do {
      q2 \<leftarrow> free_push (q\<lparr>lmem := l, m_tickIterator := it\<rparr>) i;
      q3 \<leftarrow> DecTimerCount q2 (m_timerType (tnodes q ! i));
      Some (C_INVALID_TIMER_ID, q3) }"
    using Cancel_named [OF n] pl e by (simp add: Let_def it)
  also have "\<dots> = Some (C_INVALID_TIMER_ID, ?q2\<lparr>m_timerCount := c\<rparr>)"
    using f c(1) by (simp add: free_push_def)
  finally show ?thesis
    using c(2) by (intro exI [of _ "?q2\<lparr>m_timerCount := c\<rparr>"]) (simp add: same_frame_def it)
qed

end
