(* ===== verification/TimerLoop.thy ===== *)
theory TimerLoop
  imports TimerCalls
begin

text \<open>
  The tick loop. At tick \<open>t\<close> it walks through one bucket while the tasks it runs schedule and cancel
  timers, in this bucket too. \<open>loop_inv\<close> holds at every turn of the loop; \<open>due\<close>, what is left to
  run, only shrinks, so the loop ends within the fuel \<open>tick_fuel\<close>.
\<close>

definition loop_core ::
  "'a timer_queue \<Rightarrow> int \<Rightarrow> nat \<Rightarrow> (nat \<Rightarrow> place) \<Rightarrow> (nat \<Rightarrow> nat list) \<Rightarrow> nat list \<Rightarrow>
   nat list \<Rightarrow> nat list \<Rightarrow> bool" where
  "loop_core q t b w B F xs ys \<longleftrightarrow> tq_ok q w B F \<and> b < NB \<and> B b = xs @ ys \<and>
     m_tickIterator q = hd (map (node_addr q) ys @ [bucket_nat q b]) \<and>
     (\<forall>i\<in>set xs. t < m_expire (tnodes q ! i)) \<and>
     (\<forall>i<m_count q. \<forall>c. w i = InBucket c \<longrightarrow> t \<le> m_expire (tnodes q ! i)) \<and>
     t \<le> s_currentTick q \<and> 0 \<le> s_currentTick q \<and> s_currentTick q < 2 ^ 31"

definition loop_inv ::
  "'a timer_queue \<Rightarrow> int \<Rightarrow> nat \<Rightarrow> (nat \<Rightarrow> place) \<Rightarrow> (nat \<Rightarrow> nat list) \<Rightarrow> nat list \<Rightarrow>
   nat list \<Rightarrow> nat list \<Rightarrow> bool" where
  "loop_inv q t b w B F xs ys \<longleftrightarrow> loop_core q t b w B F xs ys \<and> no_limbo q w"

definition due :: "'a timer_queue \<Rightarrow> int \<Rightarrow> nat list \<Rightarrow> nat set" where
  "due q t ys = {i \<in> set ys. m_expire (tnodes q ! i) \<le> t}"

definition busy_kept :: "'a timer_queue \<Rightarrow> (nat \<Rightarrow> place) \<Rightarrow> 'a timer_queue \<Rightarrow> (nat \<Rightarrow> place) \<Rightarrow> bool" where
  "busy_kept q w q' w' \<longleftrightarrow> (\<forall>i<m_count q. (w' i = Busy \<longleftrightarrow> w i = Busy) \<and>
     (w i = Busy \<longrightarrow> (\<exists>r. tnodes q' ! i = (tnodes q ! i)\<lparr>m_repeatCount := r\<rparr>)))"

definition effect ::
  "int \<Rightarrow> 'a timer_queue \<Rightarrow> (nat \<Rightarrow> place) \<Rightarrow> nat list \<Rightarrow> 'a timer_queue \<Rightarrow> (nat \<Rightarrow> place) \<Rightarrow>
   nat list \<Rightarrow> bool" where
  "effect t q w ys q' w' ys' \<longleftrightarrow>
     same_frame q q' \<and> busy_kept q w q' w' \<and> due q' t ys' \<subseteq> due q t ys"

lemma repeat_kept [simp]: "\<exists>r. nd = nd\<lparr>m_repeatCount := r\<rparr>"
  by (rule exI [of _ "m_repeatCount nd"]) simp

lemma effect_refl [simp]: "effect t q w ys q w ys"
  by (simp add: effect_def busy_kept_def)

lemma effect_trans:
  assumes a: "effect t q w ys q1 w1 ys1" and b: "effect t q1 w1 ys1 q2 w2 ys2"
  shows "effect t q w ys q2 w2 ys2"
proof -
  have n: "m_count q1 = m_count q" using a by (simp add: effect_def same_frame_def)
  have "busy_kept q w q2 w2"
    unfolding busy_kept_def
  proof (intro allI impI conjI)
    fix i assume i: "i < m_count q"
    show "w2 i = Busy \<longleftrightarrow> w i = Busy" using a b n i by (auto simp: effect_def busy_kept_def)
    assume "w i = Busy"
    then obtain r where 1: "w1 i = Busy" "tnodes q1 ! i = (tnodes q ! i)\<lparr>m_repeatCount := r\<rparr>"
      using a i by (auto simp: effect_def busy_kept_def)
    then obtain r' where 2: "tnodes q2 ! i = (tnodes q1 ! i)\<lparr>m_repeatCount := r'\<rparr>"
      using b n i by (auto simp: effect_def busy_kept_def)
    have "tnodes q2 ! i = (tnodes q ! i)\<lparr>m_repeatCount := r'\<rparr>" using 1 2 by simp
    then show "\<exists>r. tnodes q2 ! i = (tnodes q ! i)\<lparr>m_repeatCount := r\<rparr>" by blast
  qed
  then show ?thesis using a b same_frame_trans by (auto simp: effect_def)
qed

lemma loop_coreD:
  assumes "loop_core q t b w B F xs ys"
  shows "tq_ok q w B F" and "b < NB" and "B b = xs @ ys"
    and "m_tickIterator q = hd (map (node_addr q) ys @ [bucket_nat q b])"
    and "i \<in> set xs \<Longrightarrow> t < m_expire (tnodes q ! i)"
    and "i < m_count q \<Longrightarrow> w i = InBucket c \<Longrightarrow> t \<le> m_expire (tnodes q ! i)"
    and "t \<le> s_currentTick q" "0 \<le> s_currentTick q" "s_currentTick q < 2 ^ 31"
    and "i \<in> set xs \<union> set ys \<Longrightarrow> i < m_count q \<and> w i = InBucket b"
    and "distinct (xs @ ys)"
proof -
  show *: "tq_ok q w B F" "b < NB" "B b = xs @ ys"
    "m_tickIterator q = hd (map (node_addr q) ys @ [bucket_nat q b])"
    "i \<in> set xs \<Longrightarrow> t < m_expire (tnodes q ! i)"
    "i < m_count q \<Longrightarrow> w i = InBucket c \<Longrightarrow> t \<le> m_expire (tnodes q ! i)"
    "t \<le> s_currentTick q" "0 \<le> s_currentTick q" "s_currentTick q < 2 ^ 31"
    using assms by (auto simp: loop_core_def)
  show "i \<in> set xs \<union> set ys \<Longrightarrow> i < m_count q \<and> w i = InBucket b"
    using links_okD(2) [OF tq_okD(3) [OF *(1)] *(2)] *(3) by auto
  have "distinct (map (node_addr q) (xs @ ys))"
    using links_okD(1) [OF tq_okD(3) [OF *(1)] *(2)] *(3) by (simp add: dlist_def)
  then show "distinct (xs @ ys)" by (simp only: distinct_map)
qed

text \<open>
  Adding a node that is not due, at the end of a bucket: \<open>q'\<close> is any queue that agrees with \<open>q\<close> on
  the other nodes of the buckets.
\<close>

lemma loop_added:
  assumes core: "loop_core q t b w B F xs ys" and ok: "tq_ok q' (w(i := InBucket c)) (B(c := B c @ [i])) F'"
    and frame: "same_frame q q'" "m_tickIterator q' = m_tickIterator q"
    and nodes: "\<And>j. j \<noteq> i \<Longrightarrow> tnodes q' ! j = tnodes q ! j"
    and late: "t < m_expire (tnodes q' ! i)" and w: "w i \<noteq> InBucket b" and i: "i < m_count q"
  shows "\<exists>xs' ys'. loop_core q' t b (w(i := InBucket c)) (B(c := B c @ [i])) F' xs' ys' \<and>
    due q' t ys' \<subseteq> due q t ys"
proof -
  note d = loop_coreD [OF core]
  have ad: "node_addr q' = node_addr q" "bucket_addr q' = bucket_addr q" "m_count q' = m_count q"
    "s_currentTick q' = s_currentTick q"
    using frame(1) same_frame_addr [OF frame(1)] by (simp_all add: same_frame_def)
  have ni: "i \<notin> set xs" "i \<notin> set ys" using d(10) w by blast+
  let ?xs = "if c = b \<and> ys = [] then xs @ [i] else xs"
  let ?ys = "if c = b \<and> ys \<noteq> [] then ys @ [i] else ys"
  have "(B(c := B c @ [i])) b = ?xs @ ?ys" using d(3) by auto
  moreover have "m_tickIterator q' = hd (map (node_addr q') ?ys @ [bucket_nat q' b])"
    using d(4) frame(2) ad by (cases ys) auto
  moreover have "\<forall>j\<in>set ?xs. t < m_expire (tnodes q' ! j)" 
  proof
    fix j assume "j \<in> set ?xs"
    then consider "j = i" | "j \<in> set xs" "j \<noteq> i" using ni by (auto split: if_splits)
    then show "t < m_expire (tnodes q' ! j)" using d(5) late nodes by cases auto
  qed
  moreover have "\<forall>j<m_count q'. \<forall>e. (w(i := InBucket c)) j = InBucket e \<longrightarrow> t \<le> m_expire (tnodes q' ! j)"
    using d(6) late nodes ad(3) by (auto split: if_splits)
  ultimately have "loop_core q' t b (w(i := InBucket c)) (B(c := B c @ [i])) F' ?xs ?ys"
    using ok d(2,7-9) ad unfolding loop_core_def by simp
  moreover have "due q' t ?ys \<subseteq> due q t ys" 
  proof
    fix j assume "j \<in> due q' t ?ys"
    then have j: "j \<in> set ?ys" "m_expire (tnodes q' ! j) \<le> t" by (auto simp: due_def)
    then have "j \<noteq> i" using late by auto
    then show "j \<in> due q t ys" using j nodes by (auto simp: due_def split: if_splits)
  qed
  ultimately show ?thesis by blast
qed

subsection \<open>What the calls of a task do\<close>

fun call_ok :: "('a \<Rightarrow> int) \<Rightarrow> 'a tq_call \<Rightarrow> bool" where
  "call_ok ttype (CallSchedule task d p r) = sched_args ttype task d p r"
| "call_ok ttype (CallCancel tid) = cancel_arg tid"

lemma schedule_loop:
  assumes inv: "loop_inv q t b w B F xs ys" and args: "sched_args ttype task d p r"
  shows "\<exists>tid q' w' B' F' xs' ys'. Schedule ttype q task d p r = Some (tid, q') \<and>
    loop_inv q' t b w' B' F' xs' ys' \<and> effect t q w ys q' w' ys'"
proof (cases "F = [] \<or> p = 0 \<and> r > 1")
  case True
  have "tq_ok q w B F" using inv by (simp add: loop_inv_def loop_core_def)
  from Schedule_refused [OF this True] inv effect_refl show ?thesis by blast
next
  case False
  then obtain i F' where F: "F = i # F'" and np: "\<not> (p = 0 \<and> r > 1)" by (cases F) auto
  have core: "loop_core q t b w B F xs ys" and nl: "no_limbo q w" using inv by (auto simp: loop_inv_def)
  note d = loop_coreD [OF core]
  have ok: "tq_ok q w B (i # F')" using d(1) F by simp
  note pop = tq_pop [OF ok]
  let ?nd = "scheduled_node ttype q i task d p r"
  let ?c = "nat (HashTick (m_expire ?nd))"
  from Schedule_accepted [OF ok args np d(8,9)] obtain q' tid
    where s: "Schedule ttype q task d p r = Some (tid, q')"
      and k: "tq_ok q' (w(i := InBucket ?c)) (B(?c := B ?c @ [i])) F'" "same_frame q q'"
        "m_tickIterator q' = m_tickIterator q" "tnodes q' = (tnodes q)[i := ?nd]" by blast
  have len: "i < length (tnodes q)" using tq_okD(6) [OF ok] pop(2) by simp
  have late: "t < m_expire (tnodes q' ! i)"
    using k(4) len d(7) args by (auto simp: scheduled_node_def first_delay_def sched_args_def)
  obtain xs' ys' where c: "loop_core q' t b (w(i := InBucket ?c)) (B(?c := B ?c @ [i])) F' xs' ys'"
    "due q' t ys' \<subseteq> due q t ys"
    using loop_added [OF core k(1-3) _ late] k(4) pop(2,3) by auto
  have "no_limbo q' (w(i := InBucket ?c))" using nl k(2) by (auto simp: no_limbo_def same_frame_def)
  moreover have "busy_kept q w q' (w(i := InBucket ?c))"
    using pop(3) k(4) by (auto simp: busy_kept_def)
  ultimately have "loop_inv q' t b (w(i := InBucket ?c)) (B(?c := B ?c @ [i])) F' xs' ys'"
    "effect t q w ys q' (w(i := InBucket ?c)) ys'"
    using c k(2) by (simp_all only: loop_inv_def effect_def simp_thms)
  then show ?thesis using s by blast
qed

lemma loop_removed:
  assumes core: "loop_core q t b w B F xs ys" and ok: "tq_ok q' (w(i := p)) (B(c := us @ vs)) F'"
    and split: "B c = us @ i # vs" and p: "\<And>e. p \<noteq> InBucket e"
    and frame: "same_frame q q'" "tnodes q' = tnodes q" and c: "c < NB"
    and it: "m_tickIterator q' = (if m_tickIterator q = node_addr q i
      then hd (map (node_addr q) vs @ [bucket_nat q c]) else m_tickIterator q)"
  shows "\<exists>xs' ys'. loop_core q' t b (w(i := p)) (B(c := us @ vs)) F' xs' ys' \<and>
    set xs' \<subseteq> set xs \<and> set ys' = set ys - {i}"
proof -
  note d = loop_coreD [OF core]
  note a = addr_okD [OF tq_okD(2) [OF d(1)]]
  have ad: "node_addr q' = node_addr q" "bucket_addr q' = bucket_addr q" "m_count q' = m_count q"
    "s_currentTick q' = s_currentTick q"
    using frame(1) same_frame_addr [OF frame(1)] by (simp_all add: same_frame_def)
  have wi: "w i = InBucket c" using links_okD(2) [OF tq_okD(3) [OF d(1)] c] split by auto
  let ?xs = "removeAll i xs" and ?ys = "removeAll i ys"
  have "(B(c := us @ vs)) b = ?xs @ ?ys \<and> m_tickIterator q' = hd (map (node_addr q) ?ys @ [bucket_nat q b])"
  proof (cases "c = b")
    case False
    then have "i \<notin> set (xs @ ys)" using d(10) wi by auto
    moreover have "m_tickIterator q \<noteq> node_addr q i"
      using d(2,4) calculation a(1,2) by (cases ys) auto
    ultimately show ?thesis using False d(3,4) it by simp
  next
    case True
    then have B: "us @ i # vs = xs @ ys" using d(3) split by simp
    then have dist: "distinct (us @ i # vs)" using d(11) by simp
    from B have e: "removeAll i (us @ i # vs) = removeAll i (xs @ ys)" by simp
    then have r: "us @ vs = ?xs @ ?ys" using dist by simp
    moreover have "m_tickIterator q' = hd (map (node_addr q) ?ys @ [bucket_nat q b])"
    proof (cases "\<exists>zs. ys = i # zs")
      case here: True
      then obtain zs where z: "ys = i # zs" ..
      then have "i \<notin> set xs" "i \<notin> set zs" using d(11) by auto
      then have "us = xs" "vs = zs" using B z dist by (auto simp: append_eq_append_conv2 append_eq_Cons_conv Cons_eq_append_conv)
      then show ?thesis using it d(4) z True dist by simp
    next
      case False
      then have ne: "m_tickIterator q \<noteq> node_addr q i" using d(2,4) a(1,2) by (cases ys) auto
      have "hd (map (node_addr q) ?ys @ [bucket_nat q b]) = hd (map (node_addr q) ys @ [bucket_nat q b])"
        using False by (cases ys) auto
      then show ?thesis using it d(4) ne by simp
    qed
    ultimately show ?thesis using True by simp
  qed
  moreover have "\<forall>j<m_count q'. \<forall>e. (w(i := p)) j = InBucket e \<longrightarrow> t \<le> m_expire (tnodes q' ! j)"
    using d(6) frame(2) ad(3) p by (auto split: if_splits)
  ultimately have "loop_core q' t b (w(i := p)) (B(c := us @ vs)) F' ?xs ?ys"
    using ok d(2,5,7-9) ad frame(2) unfolding loop_core_def by simp
  then show ?thesis by (intro exI [of _ ?xs] exI [of _ ?ys]) auto
qed

lemma cancel_loop:
  assumes inv: "loop_inv q t b w B F xs ys" and arg: "cancel_arg tid"
  shows "\<exists>tid' q' w' B' F' xs' ys'. Cancel q tid = Some (tid', q') \<and>
    loop_inv q' t b w' B' F' xs' ys' \<and> effect t q w ys q' w' ys'"
proof -
  have core: "loop_core q t b w B F xs ys" and nl: "no_limbo q w" using inv by (auto simp: loop_inv_def)
  note d = loop_coreD [OF core]
  consider (none) "tid = C_INVALID_TIMER_ID \<or> (\<forall>i. named q tid = Some i \<longrightarrow> w i = Free)"
    | (busy) i where "tid \<noteq> C_INVALID_TIMER_ID" "named q tid = Some i" "w i = Busy"
    | (wait) i c where "tid \<noteq> C_INVALID_TIMER_ID" "named q tid = Some i" "w i = InBucket c"
  proof (cases "tid = C_INVALID_TIMER_ID \<or> (\<forall>i. named q tid = Some i \<longrightarrow> w i = Free)")
    case False
    then obtain i where i: "tid \<noteq> C_INVALID_TIMER_ID" "named q tid = Some i" "w i \<noteq> Free" by auto
    then have "w i \<noteq> Limbo" using nl named_bound by (auto simp: no_limbo_def)
    with i that show ?thesis by (cases "w i") auto
  qed auto
  then show ?thesis
  proof cases
    case none
    then have "Cancel q tid = Some (tid, q)"
      using named_None_free [OF d(1) arg] by (cases "tid = C_INVALID_TIMER_ID") (auto simp: Cancel_def)
    with inv effect_refl show ?thesis by blast
  next
    case busy
    let ?q = "set_node q i ((tnodes q ! i)\<lparr>m_repeatCount := 0\<rparr>)"
    note c = Cancel_busy [OF d(1) busy]
    have "i < length (tnodes q)" using named_bound [OF busy(2)] tq_okD(6) [OF d(1)] by simp
    then have "m_expire (tnodes ?q ! j) = m_expire (tnodes q ! j)" for j
      by (simp add: nth_list_update)
    then have "loop_inv ?q t b w B F xs ys" "due ?q t ys = due q t ys"
      using inv c(2) by (auto simp: loop_inv_def loop_core_def no_limbo_def due_def)
    moreover have "busy_kept q w ?q w"
      using \<open>i < length (tnodes q)\<close> by (auto simp: busy_kept_def nth_list_update)
    ultimately have "loop_inv ?q t b w B F xs ys" "effect t q w ys ?q w ys"
      by (simp_all add: effect_def)
    then show ?thesis using c(1) by blast
  next
    case wait
    have i: "i < m_count q" using wait(2) by (rule named_bound)
    have cb: "c < NB" using links_okD(3) [OF tq_okD(3) [OF d(1)] i wait(3)] .
    have "i \<in> set (B c)" using links_okD(2) [OF tq_okD(3) [OF d(1)] cb] i wait(3) by simp
    then obtain us vs where s: "B c = us @ i # vs" by (meson split_list)
    from Cancel_waiting [OF d(1) wait s] obtain q' where c: "Cancel q tid = Some (C_INVALID_TIMER_ID, q')"
      "tq_ok q' (w(i := Free)) (B(c := us @ vs)) (i # F)" "same_frame q q'" "tnodes q' = tnodes q"
      "m_tickIterator q' = (if m_tickIterator q = node_addr q i
        then hd (map (node_addr q) vs @ [bucket_nat q c]) else m_tickIterator q)" by blast
    obtain xs' ys' where l: "loop_core q' t b (w(i := Free)) (B(c := us @ vs)) (i # F) xs' ys'"
      "set ys' = set ys - {i}"
      using loop_removed [OF core c(2) s _ c(3,4) cb c(5)] by blast
    have "no_limbo q' (w(i := Free))" using nl c(3) by (auto simp: no_limbo_def same_frame_def)
    moreover have "busy_kept q w q' (w(i := Free))"
      using wait(3) c(4) by (auto simp: busy_kept_def)
    moreover have "due q' t ys' \<subseteq> due q t ys" using l(2) c(4) by (auto simp: due_def)
    ultimately have "loop_inv q' t b (w(i := Free)) (B(c := us @ vs)) (i # F) xs' ys'"
      "effect t q w ys q' (w(i := Free)) ys'"
      using c(3) l(1) by (simp_all only: loop_inv_def effect_def simp_thms)
    then show ?thesis using c(1) by blast
  qed
qed

lemma do_calls_loop:
  assumes "loop_inv q t b w B F xs ys" and "\<forall>c\<in>set cs. call_ok ttype c"
  shows "\<exists>q' w' B' F' xs' ys'. do_calls ttype cs q = Some q' \<and> loop_inv q' t b w' B' F' xs' ys' \<and>
    effect t q w ys q' w' ys'"
  using assms
proof (induction cs arbitrary: q w B F xs ys)
  case Nil
  then show ?case using effect_refl by fastforce
next
  case (Cons c cs)
  have "\<exists>r q1 w1 B1 F1 xs1 ys1. (case c of CallSchedule task d p r \<Rightarrow> Schedule ttype q task d p r
      | CallCancel tid \<Rightarrow> Cancel q tid) = Some (r, q1) \<and> loop_inv q1 t b w1 B1 F1 xs1 ys1 \<and>
      effect t q w ys q1 w1 ys1"
    using Cons.prems schedule_loop [OF Cons.prems(1)] cancel_loop [OF Cons.prems(1)] by (cases c) auto
  then obtain r q1 w1 B1 F1 xs1 ys1 where 1: "(case c of CallSchedule task d p r \<Rightarrow> Schedule ttype q task d p r
      | CallCancel tid \<Rightarrow> Cancel q tid) = Some (r, q1)" "loop_inv q1 t b w1 B1 F1 xs1 ys1"
      "effect t q w ys q1 w1 ys1" by blast
  from Cons.IH [OF 1(2)] Cons.prems obtain q2 w2 B2 F2 xs2 ys2
    where 2: "do_calls ttype cs q1 = Some q2" "loop_inv q2 t b w2 B2 F2 xs2 ys2"
      "effect t q1 w1 ys1 q2 w2 ys2" by auto
  have "do_calls ttype (c # cs) q = Some q2" using 1(1) 2(1) by (cases c) simp_all
  then show ?case using 2(2) effect_trans [OF 1(3) 2(3)] by blast
qed

end
