(* ===== verification/TimerTick.thy ===== *)
theory TimerTick
  imports TimerLoop
begin

text \<open>
  Running the timers that are due. \<open>tasks_ok\<close> is what is asked of the tasks: their calls have
  arguments in range. \<open>wheel_ok\<close> is the invariant between ticks; \<open>tick_loop_inv\<close> carries it through a
  bucket, together with any property \<open>P\<close> of the environment that each task keeps when it runs at
  its expiry time.
\<close>

definition tasks_ok :: "('a \<Rightarrow> int) \<Rightarrow> ('a, 'e) task_run \<Rightarrow> bool" where
  "tasks_ok ttype run \<longleftrightarrow> (\<forall>i q e. \<forall>c\<in>set (fst (run i q e)). call_ok ttype c)"

definition requeue_ok :: "int \<Rightarrow> ('a timer_node \<Rightarrow> int) \<Rightarrow> bool" where
  "requeue_ok t nexp \<longleftrightarrow> (\<forall>nd. busy_ok nd \<longrightarrow> m_repeatCount nd \<noteq> 0 \<longrightarrow> m_expire nd = t \<longrightarrow>
     t < nexp nd \<and> nexp nd < 2 ^ 32)"

definition keeps ::
  "('e \<Rightarrow> bool) \<Rightarrow> ('a, 'e) task_run \<Rightarrow> int \<Rightarrow> int \<Rightarrow> int \<Rightarrow> bool" where
  "keeps P run t fw cur \<longleftrightarrow> (\<forall>i q e. P e \<longrightarrow> m_expire (tnodes q ! i) = t \<longrightarrow> s_currentTick q = fw \<longrightarrow>
     m_currentTick q = cur \<longrightarrow> P (snd (run i q e)))"

definition same_busy :: "'a timer_queue \<Rightarrow> (nat \<Rightarrow> place) \<Rightarrow> (nat \<Rightarrow> place) \<Rightarrow> bool" where
  "same_busy q w w' \<longleftrightarrow> (\<forall>i<m_count q. w' i = Busy \<longleftrightarrow> w i = Busy)"

subsection \<open>One timer\<close>

text \<open>Taking the node out of its bucket, with the repeat count already decremented.\<close>

lemma take_out:
  assumes inv: "loop_inv q t b w B F xs (i # ys)"
  defines "nd \<equiv> (tnodes q ! i)\<lparr>m_repeatCount := u32 (m_repeatCount (tnodes q ! i) - 1)\<rparr>"
  shows "\<exists>nx l. al_erase (lmem q) (m_tickIterator q) = Some (nx, l) \<and>
    loop_inv ((set_node q i nd)\<lparr>lmem := l, m_tickIterator := nx\<rparr>) t b (w(i := Busy)) (B(b := xs @ ys)) F xs ys"
proof -
  have core: "loop_core q t b w B F xs (i # ys)" and nl: "no_limbo q w" using inv by (auto simp: loop_inv_def)
  note d = loop_coreD [OF core]
  have i: "i < m_count q" "w i = InBucket b" using d(10) by auto
  have p: "timer_ok (tnodes q ! i)" "seq_ok (tnodes q ! i)"
    using tq_okD(4,5) [OF d(1) i(1)] i(2) by (simp_all add: place_ok_def)
  have r: "0 \<le> u32 x \<and> u32 x < 2 ^ 32" for x by (simp add: u32_def)
  have nd: "busy_ok nd" "seq_ok nd"
    using p r [of "m_repeatCount (tnodes q ! i) - 1"]
    by (auto simp: nd_def timer_ok_def busy_ok_def base_ok_def seq_ok_def u32_def)
  obtain l where e: "al_erase (lmem q) (node_addr q i) = Some (hd (map (node_addr q) ys @ [bucket_nat q b]), l)"
    and k: "links_ok l (node_addr q) (bucket_nat q) (m_count q) (free_top q) (w(i := Busy)) (B(b := xs @ ys)) F"
    using links_erase [OF tq_okD(2,3) [OF d(1)] d(2,3)] by blast
  let ?nx = "hd (map (node_addr q) ys @ [bucket_nat q b])"
  let ?q = "(set_node q i nd)\<lparr>lmem := l, m_tickIterator := ?nx\<rparr>"
  have len: "i < length (tnodes q)" using tq_okD(6) [OF d(1)] i(1) by simp
  have "seq_ok ((tnodes q)[i := nd] ! j) \<and> place_ok ((tnodes q)[i := nd] ! j) ((w(i := Busy)) j)"
    if "j < m_count q" for j
    using tq_okD(4,5) [OF d(1) that] nd len by (cases "j = i") (simp_all add: place_ok_def)
  then have "tq_ok ?q (w(i := Busy)) (B(b := xs @ ys)) F"
    using tq_okD(1) [OF d(1)] k by (simp add: tq_ok_def tq_layout_def)
  moreover have "\<forall>j\<in>set xs. t < m_expire (tnodes ?q ! j)"
  proof (intro ballI)
    fix j assume "j \<in> set xs"
    then have "j \<noteq> i" "t < m_expire (tnodes q ! j)" using d(5,11) by auto
    then show "t < m_expire (tnodes ?q ! j)" by simp
  qed
  moreover have "\<forall>j<m_count ?q. \<forall>c. (w(i := Busy)) j = InBucket c \<longrightarrow> t \<le> m_expire (tnodes ?q ! j)"
    using d(6) by (auto split: if_splits)
  ultimately have "loop_core ?q t b (w(i := Busy)) (B(b := xs @ ys)) F xs ys"
    using d(2,7-9) unfolding loop_core_def by simp
  moreover have "no_limbo ?q (w(i := Busy))" using nl by (auto simp: no_limbo_def)
  moreover have "m_tickIterator q = node_addr q i" using d(4) by simp
  ultimately show ?thesis using e by (auto simp: loop_inv_def)
qed

lemma put_back:
  assumes inv: "loop_inv q t b w B F xs ys" and i: "i < m_count q" "w i = Busy"
    and exp: "m_expire (tnodes q ! i) = t" and re: "requeue_ok t nexp"
  shows "\<exists>q' p B' F' xs' ys'. finish_node nexp q i = Some q' \<and> p \<noteq> Busy \<and>
    loop_inv q' t b (w(i := p)) B' F' xs' ys' \<and> same_frame q q' \<and> due q' t ys' \<subseteq> due q t ys \<and>
    (m_repeatCount (tnodes q ! i) \<noteq> 0 \<longrightarrow> (\<exists>c. p = InBucket c) \<and> tnodes q' ! i = (tnodes q ! i)\<lparr>m_expire := nexp (tnodes q ! i)\<rparr>)"
proof -
  have core: "loop_core q t b w B F xs ys" and nl: "no_limbo q w" using inv by (auto simp: loop_inv_def)
  note d = loop_coreD [OF core]
  let ?nd = "tnodes q ! i"
  have nd: "busy_ok ?nd" "seq_ok ?nd" using tq_okD(4,5) [OF d(1) i(1)] i(2) by (simp_all add: place_ok_def)
  have len: "i < length (tnodes q)" using tq_okD(6) [OF d(1)] i(1) by simp
  show ?thesis
  proof (cases "m_repeatCount ?nd = 0")
    case False
    let ?n = "?nd\<lparr>m_expire := nexp ?nd\<rparr>"
    let ?q1 = "set_node q i ?n" and ?c = "nat (HashTick (nexp ?nd))"
    have nx: "t < nexp ?nd" "nexp ?nd < 2 ^ 32" using re nd(1) False exp by (auto simp: requeue_ok_def)
    have "0 \<le> t" using nd(1) exp by (auto simp: busy_ok_def base_ok_def)
    then have n: "timer_ok ?n" "busy_ok ?n" "seq_ok ?n"
      using nd False nx by (auto simp: timer_ok_def busy_ok_def base_ok_def seq_ok_def)
    have "tq_ok ?q1 w B F" using i n(2,3) by (intro tq_ok_set_node [OF d(1)]) (simp_all add: place_ok_def)
    from tq_push [OF this, of i ?c] i n(1) len
    have push: "tq_ok (bucket_push ?q1 i) (w(i := InBucket ?c)) (B(?c := B ?c @ [i])) F" by simp
    have fr: "same_frame q (bucket_push ?q1 i)" "m_tickIterator (bucket_push ?q1 i) = m_tickIterator q"
      "tnodes (bucket_push ?q1 i) = (tnodes q)[i := ?n]"
      by (simp_all add: bucket_push_def same_frame_def set_node_def)
    obtain xs' ys' where l: "loop_core (bucket_push ?q1 i) t b (w(i := InBucket ?c)) (B(?c := B ?c @ [i])) F xs' ys'"
      "due (bucket_push ?q1 i) t ys' \<subseteq> due q t ys"
      using loop_added [OF core push fr(1,2)] fr(3) len nx(1) i by auto
    have "no_limbo (bucket_push ?q1 i) (w(i := InBucket ?c))"
      using nl fr(1) by (auto simp: no_limbo_def same_frame_def)
    with l(1) have li: "loop_inv (bucket_push ?q1 i) t b (w(i := InBucket ?c)) (B(?c := B ?c @ [i])) F xs' ys'"
      by (simp add: loop_inv_def)
    have "finish_node nexp q i = Some (bucket_push ?q1 i)" using False by (simp add: finish_node_def Let_def)
    moreover have "InBucket ?c \<noteq> Busy" "tnodes (bucket_push ?q1 i) ! i = ?n" using fr(3) len by simp_all
    ultimately show ?thesis using li l(2) fr(1) by blast
  next
    case True
    have ty: "0 \<le> m_timerType ?nd" "m_timerType ?nd < 200" using nd(1) by (auto simp: busy_ok_def base_ok_def)
    obtain c where c: "DecTimerCount q (m_timerType ?nd) = Some (q\<lparr>m_timerCount := c\<rparr>)"
      "tq_ok (q\<lparr>m_timerCount := c\<rparr>) w B F" using DecTimerCount_ok [OF d(1) ty] by blast
    let ?q1 = "q\<lparr>m_timerCount := c\<rparr>"
    obtain l where f: "free_push ?q1 i = Some (?q1\<lparr>lmem := l, free_top := int i\<rparr>)"
      "tq_ok (?q1\<lparr>lmem := l, free_top := int i\<rparr>) (w(i := Free)) B (i # F)"
      using tq_free [OF c(2), of i] i by auto
    let ?q2 = "?q1\<lparr>lmem := l, free_top := int i\<rparr>"
    have "\<not> is_in_stack (lmem q (node_addr q i))"
      using place_of_links(3) [OF tq_okD(2,3) [OF d(1)] i(1,2)] by simp
    then have fin: "finish_node nexp q i = Some ?q2"
      using True c(1) f(1) by (simp add: finish_node_def Let_def)
    have "loop_core ?q2 t b (w(i := Free)) B (i # F) xs ys"
      using f(2) d(2-9) unfolding loop_core_def by (auto split: if_splits)
    moreover have "no_limbo ?q2 (w(i := Free))" using nl by (auto simp: no_limbo_def)
    ultimately have "loop_inv ?q2 t b (w(i := Free)) B (i # F) xs ys" by (simp add: loop_inv_def)
    moreover have "same_frame q ?q2" "due ?q2 t ys \<subseteq> due q t ys" by (simp_all add: same_frame_def due_def)
    moreover have "Free \<noteq> Busy" by simp
    ultimately show ?thesis using fin True by blast
  qed
qed

text \<open>
  What \<open>fire_node\<close> does with the node at the iterator, step by step: \<open>q1\<close> is the queue that the task sees, \<open>q2\<close> the one
  after its calls, \<open>q3\<close> the one after its node went back.
\<close>

lemma fire_steps:
  assumes inv: "loop_inv q t b w B F xs (i # ys)" and exp: "m_expire (tnodes q ! i) \<le> t"
    and tasks: "tasks_ok ttype run" and re: "requeue_ok t nexp"
  obtains q1 cs e' q2 w2 B2 F2 xs2 ys2 q3 p B3 F3 xs3 ys3 where
    "tnodes q1 = (tnodes q)[i := (tnodes q ! i)\<lparr>m_repeatCount := u32 (m_repeatCount (tnodes q ! i) - 1)\<rparr>]"
    "same_frame q q1" "m_expire (tnodes q1 ! i) = t" "loop_inv q1 t b (w(i := Busy)) (B(b := xs @ ys)) F xs ys"
    "run i q1 e = (cs, e')" "\<forall>c\<in>set cs. call_ok ttype c" "do_calls ttype cs q1 = Some q2"
    "loop_inv q2 t b w2 B2 F2 xs2 ys2" "finish_node nexp q2 i = Some q3" "p \<noteq> Busy"
    "loop_inv q3 t b (w2(i := p)) B3 F3 xs3 ys3" "fire_node ttype run nexp q e i = Some (q3, e')" "same_frame q q3"
    "same_busy q w (w2(i := p))" "due q3 t ys3 \<subseteq> due q t (i # ys) - {i}"
    "m_repeatCount (tnodes q2 ! i) \<noteq> 0 \<longrightarrow> (\<exists>c. p = InBucket c) \<and> tnodes q3 ! i = (tnodes q2 ! i)\<lparr>m_expire := nexp (tnodes q2 ! i)\<rparr>"
proof -
  have core: "loop_core q t b w B F xs (i # ys)" using inv by (simp add: loop_inv_def)
  note d = loop_coreD [OF core]
  have i: "i < m_count q" "w i = InBucket b" "i \<notin> set xs" "i \<notin> set ys" using d(10,11) by auto
  have t: "m_expire (tnodes q ! i) = t" using exp d(6) [OF i(1,2)] by simp
  let ?nd = "(tnodes q ! i)\<lparr>m_repeatCount := u32 (m_repeatCount (tnodes q ! i) - 1)\<rparr>"
  from take_out [OF inv] obtain nx l where e: "al_erase (lmem q) (m_tickIterator q) = Some (nx, l)"
    and inv1: "loop_inv ((set_node q i ?nd)\<lparr>lmem := l, m_tickIterator := nx\<rparr>) t b (w(i := Busy)) (B(b := xs @ ys)) F xs ys"
    by blast
  let ?q1 = "(set_node q i ?nd)\<lparr>lmem := l, m_tickIterator := nx\<rparr>"
  have len: "i < length (tnodes q)" using tq_okD(6) [OF d(1)] i(1) by simp
  obtain cs e' where run: "run i ?q1 e = (cs, e')" by fastforce
  have cs: "\<forall>c\<in>set cs. call_ok ttype c" using tasks run unfolding tasks_ok_def by (metis fst_conv)
  from do_calls_loop [OF inv1 cs] obtain q2 w2 B2 F2 xs2 ys2 where
    2: "do_calls ttype cs ?q1 = Some q2" "loop_inv q2 t b w2 B2 F2 xs2 ys2"
      "effect t ?q1 (w(i := Busy)) ys q2 w2 ys2" by blast
  have c1: "m_count ?q1 = m_count q" "same_frame q ?q1" "tnodes ?q1 = (tnodes q)[i := ?nd]" "m_expire (tnodes ?q1 ! i) = t"
    using t len by (simp_all add: set_node_def same_frame_def)
  have fr2: "same_frame ?q1 q2" and bk: "busy_kept ?q1 (w(i := Busy)) q2 w2"
    and due2: "due q2 t ys2 \<subseteq> due ?q1 t ys" using 2(3) by (simp_all add: effect_def)
  have n2: "w2 i = Busy" "m_expire (tnodes q2 ! i) = t" "i < m_count q2"
    using bk i(1) c1(1,4) fr2 by (auto simp: busy_kept_def same_frame_def)
  from put_back [OF 2(2) n2(3,1,2) re] obtain q3 p B3 F3 xs3 ys3 where
    3: "finish_node nexp q2 i = Some q3" "p \<noteq> Busy" "loop_inv q3 t b (w2(i := p)) B3 F3 xs3 ys3"
      "same_frame q2 q3" "due q3 t ys3 \<subseteq> due q2 t ys2" "m_repeatCount (tnodes q2 ! i) \<noteq> 0 \<longrightarrow>
        (\<exists>c. p = InBucket c) \<and> tnodes q3 ! i = (tnodes q2 ! i)\<lparr>m_expire := nexp (tnodes q2 ! i)\<rparr>" by blast
  have "\<not> is_in_stack (lmem q (node_addr q i))"
    using place_of_links(2) [OF tq_okD(2,3) [OF d(1)] i(1,2)] by simp
  then have "fire_node ttype run nexp q e i = Some (q3, e')"
    using e 2(1) 3(1) run by (simp add: fire_node_def RunTask_def Let_def)
  moreover have "same_frame q q3" using c1(2) fr2 3(4) same_frame_trans by blast
  moreover have "same_busy q w (w2(i := p))"
    using bk c1(1) 3(2) i(2) by (auto simp: same_busy_def busy_kept_def split: if_splits)
  moreover have "due ?q1 t ys \<subseteq> due q t (i # ys) - {i}"
  proof
    fix x assume "x \<in> due ?q1 t ys"
    then have x: "x \<in> set ys" "m_expire (tnodes ?q1 ! x) \<le> t" by (simp_all add: due_def)
    then have "x \<noteq> i" using i(4) by auto
    then show "x \<in> due q t (i # ys) - {i}" using x by (simp add: due_def)
  qed
  then have "due q3 t ys3 \<subseteq> due q t (i # ys) - {i}" using 3(5) due2 by blast
  ultimately show thesis using that [OF c1(3,2,4) inv1 run cs 2(1,2) 3(1,2,3)] 3(6) by blast
qed

lemma fire_loop:
  assumes inv: "loop_inv q t b w B F xs (i # ys)" and exp: "m_expire (tnodes q ! i) \<le> t"
    and tasks: "tasks_ok ttype run" and re: "requeue_ok t nexp"
    and P: "P e" "keeps P run t (s_currentTick q) (m_currentTick q)"
  shows "\<exists>q' e' w' B' F' xs' ys'. fire_node ttype run nexp q e i = Some (q', e') \<and>
    loop_inv q' t b w' B' F' xs' ys' \<and> same_frame q q' \<and> same_busy q w w' \<and>
    due q' t ys' \<subseteq> due q t (i # ys) - {i} \<and> P e'"
proof (rule fire_steps [OF inv exp tasks re, of e])
  fix q1 cs e' q3 w2 p B3 F3 xs3 ys3
  assume 1: "same_frame q q1" "m_expire (tnodes q1 ! i) = t" "run i q1 e = (cs, e')"
    and 3: "fire_node ttype run nexp q e i = Some (q3, e')" "loop_inv q3 t b (w2(i := p)) B3 F3 xs3 ys3" "same_frame q q3"
      "same_busy q w (w2(i := p))" "due q3 t ys3 \<subseteq> due q t (i # ys) - {i}"
  have "P (snd (run i q1 e))"
    using P(2) [unfolded keeps_def, rule_format, of e q1 i] P(1) 1(1,2) by (simp add: same_frame_def)
  then have "P e'" using 1(3) by simp
  with 3 show ?thesis by blast
qed

subsection \<open>The loop\<close>

definition over_ok ::
  "('a timer_queue \<Rightarrow> int \<Rightarrow> (bool \<times> 'a timer_queue) option) \<Rightarrow> bool" where
  "over_ok over \<longleftrightarrow> (\<forall>q t b w B F xs i ys. loop_inv q t b w B F xs (i # ys) \<longrightarrow>
     over q (bucket_nat q b) = Some (True, q\<lparr>m_tickIterator := incr (lmem q) (m_tickIterator q)\<rparr>))"

lemma loop_next:
  assumes "loop_inv q t b w B F xs (i # ys)"
  shows "m_tickIterator q = node_addr q i" and "m_tickIterator q \<noteq> bucket_nat q b"
    and "incr (lmem q) (m_tickIterator q) = hd (map (node_addr q) ys @ [bucket_nat q b])"
    and "incr (lmem q) (m_tickIterator q) \<noteq> m_tickIterator q"
proof -
  have core: "loop_core q t b w B F xs (i # ys)" using assms by (simp add: loop_inv_def)
  note d = loop_coreD [OF core]
  note a = addr_okD [OF tq_okD(2) [OF d(1)]]
  show it: "m_tickIterator q = node_addr q i" using d(4) by simp
  show "m_tickIterator q \<noteq> bucket_nat q b" using it a(3) [OF d(2)] by simp
  have "dlist (lmem q) (bucket_nat q b) (map (node_addr q) xs @ node_addr q i # map (node_addr q) ys)"
    using links_okD(1) [OF tq_okD(3) [OF d(1)] d(2)] d(3) by simp
  from dlist_incr [OF this]
  show nx: "incr (lmem q) (m_tickIterator q) = hd (map (node_addr q) ys @ [bucket_nat q b])" using it by simp
  have "i \<notin> set ys" using d(11) by simp
  then have "hd (map (node_addr q) ys @ [bucket_nat q b]) \<noteq> node_addr q i"
    using a(1) a(2) [OF d(2), of i] by (cases ys) auto
  then show "incr (lmem q) (m_tickIterator q) \<noteq> m_tickIterator q"
    using nx it by simp
qed

lemma skip_over_ok: "over_ok skip_over"
  by (simp add: over_ok_def skip_over_def)

lemma check_over_ok: "over_ok check_over"
  unfolding over_ok_def
proof (intro allI impI)
  fix q :: "'a timer_queue" and t b w B F xs i ys
  assume "loop_inv q t b w B F xs (i # ys)"
  from loop_next(4) [OF this]
  show "check_over q (bucket_nat q b) = Some (True, q\<lparr>m_tickIterator := incr (lmem q) (m_tickIterator q)\<rparr>)"
    by (auto simp: check_over_def Let_def)
qed

lemma due_finite [simp]: "finite (due q t ys)"
  by (simp add: due_def)

lemma loop_length: "loop_inv q t b w B F xs ys \<Longrightarrow> length ys \<le> m_count q"
proof -
  assume "loop_inv q t b w B F xs ys"
  then have core: "loop_core q t b w B F xs ys" by (simp add: loop_inv_def)
  note d = loop_coreD [OF core]
  have "set ys \<subseteq> {..<m_count q}" using d(10) by auto
  then have "card (set ys) \<le> card {..<m_count q}" by (rule card_mono [OF finite_lessThan])
  then show ?thesis using d(11) by (simp add: distinct_card)
qed

lemma tick_loop_inv:
  assumes tasks: "tasks_ok ttype run" and re: "requeue_ok t nexp" and over: "over_ok over"
  shows "loop_inv q t b w B F xs ys \<Longrightarrow> card (due q t ys) * (m_count q + 1) + length ys < fuel \<Longrightarrow>
    P e \<Longrightarrow> keeps P run t (s_currentTick q) (m_currentTick q) \<Longrightarrow>
    \<exists>cnt' q' e' w' B' F'. tick_loop ttype run nexp over fuel q e t (bucket_nat q b) cnt = Some (cnt', q', e') \<and>
      loop_inv q' t b w' B' F' (B' b) [] \<and> same_frame q q' \<and> same_busy q w w' \<and> P e'"
proof (induction fuel arbitrary: q e w B F xs ys cnt)
  case (Suc fuel)
  have core: "loop_core q t b w B F xs ys" using Suc.prems(1) by (simp add: loop_inv_def)
  note d = loop_coreD [OF core]
  show ?case
  proof (cases ys)
    case Nil
    then show ?thesis using Suc.prems(1,3) d(3,4) by (auto simp: same_busy_def)
  next
    case (Cons i ys')
    have inv: "loop_inv q t b w B F xs (i # ys')" using Suc.prems(1) Cons by simp
    note n = loop_next [OF inv]
    have i: "i < length (tnodes q)" using d(10) tq_okD(6) [OF d(1)] Cons by simp
    have at: "node_at q (m_tickIterator q) = Some i" using n(1) node_at_node_addr [OF i] by simp
    show ?thesis
    proof (cases "m_expire (tnodes q ! i) \<le> t")
      case True
      from fire_loop [where P = P, OF inv True tasks re Suc.prems(3,4)] obtain q1 e1 w1 B1 F1 xs1 ys1 where
        f: "fire_node ttype run nexp q e i = Some (q1, e1)" "loop_inv q1 t b w1 B1 F1 xs1 ys1"
          "same_frame q q1" "same_busy q w w1" "due q1 t ys1 \<subseteq> due q t (i # ys') - {i}" "P e1" by blast
      have fr: "m_count q1 = m_count q" "s_currentTick q1 = s_currentTick q" "m_currentTick q1 = m_currentTick q"
        "bucket_addr q1 = bucket_addr q"
        using f(3) same_frame_addr [OF f(3)] by (simp_all add: same_frame_def)
      have "i \<in> due q t (i # ys')" using True by (simp add: due_def)
      then have "card (due q1 t ys1) < card (due q t ys)"
        using f(5) Cons by (intro psubset_card_mono) auto
      then have "card (due q1 t ys1) * (m_count q + 1) + (m_count q + 1) \<le> card (due q t ys) * (m_count q + 1)"
        by (metis Suc_leI add.commute mult_Suc mult_le_mono1)
      moreover have "length ys1 \<le> m_count q" using loop_length [OF f(2)] fr(1) by simp
      ultimately have "card (due q1 t ys1) * (m_count q1 + 1) + length ys1 < fuel"
        using Suc.prems(2) unfolding fr(1) by linarith
      from Suc.IH [OF f(2) this f(6), of "cnt + 1"] Suc.prems(4) fr obtain cnt' q2 e2 w2 B2 F2 where
        r: "tick_loop ttype run nexp over fuel q1 e1 t (bucket_nat q b) (cnt + 1) = Some (cnt', q2, e2)"
          "loop_inv q2 t b w2 B2 F2 (B2 b) []" "same_frame q1 q2" "same_busy q1 w1 w2" "P e2" by auto
      have "tick_loop ttype run nexp over (Suc fuel) q e t (bucket_nat q b) cnt = Some (cnt', q2, e2)"
        using n(2) at True f(1) r(1) by simp
      moreover have "same_busy q w w2" using f(4) r(4) fr(1) by (simp add: same_busy_def)
      ultimately show ?thesis using r(2,5) same_frame_trans [OF f(3) r(3)] by blast
    next
      case False
      let ?q = "q\<lparr>m_tickIterator := incr (lmem q) (m_tickIterator q)\<rparr>"
      have "over q (bucket_nat q b) = Some (True, ?q)" using over inv unfolding over_ok_def by blast
      then have step: "tick_loop ttype run nexp over (Suc fuel) q e t (bucket_nat q b) cnt =
          tick_loop ttype run nexp over fuel ?q e t (bucket_nat ?q b) cnt"
        using n(2) at False by simp
      have "loop_inv ?q t b w B F (xs @ [i]) ys'"
        using inv False n(3) by (auto simp: loop_inv_def loop_core_def no_limbo_def)
      moreover have "due ?q t ys' = due q t ys" using Cons False by (auto simp: due_def)
      ultimately obtain cnt' q2 e2 w2 B2 F2 where
        r: "tick_loop ttype run nexp over fuel ?q e t (bucket_nat ?q b) cnt = Some (cnt', q2, e2)"
          "loop_inv q2 t b w2 B2 F2 (B2 b) []" "same_frame ?q q2" "same_busy ?q w w2" "P e2"
        using Suc.IH [of ?q w B F "xs @ [i]" ys' e cnt] Suc.prems Cons by auto
      have "same_frame q q2" "same_busy q w w2" using r(3,4) by (simp_all add: same_frame_def same_busy_def)
      then show ?thesis using step r(1,2,5) by auto
    qed
  qed
qed simp

end
