(* ===== verification/TimerWheel.thy ===== *)
theory TimerWheel
  imports TimerTick FreeList
begin

text \<open>
  The timer queue between ticks. \<open>wheel_ok\<close> says that no node is being processed and no waiting timer
  is overdue; creation establishes it, \<open>Schedule\<close>, \<open>Cancel\<close>, \<open>Tick\<close> and \<open>SkipTick\<close> keep it. The fuel
  \<open>tick_fuel\<close> of the inner loop is the square of the number of nodes plus one: a run through a bucket
  runs each node at most once, and between two of them passes each node at most once.
\<close>

definition tick_fuel :: "'a timer_queue \<Rightarrow> nat" where
  "tick_fuel q = (m_count q + 1) * (m_count q + 1)"

definition wheel_ok :: "'a timer_queue \<Rightarrow> (nat \<Rightarrow> place) \<Rightarrow> (nat \<Rightarrow> nat list) \<Rightarrow> nat list \<Rightarrow> bool" where
  "wheel_ok q w B F \<longleftrightarrow> tq_ok q w B F \<and> (\<forall>i<m_count q. w i \<noteq> Busy \<and> w i \<noteq> Limbo) \<and>
     (\<forall>i<m_count q. \<forall>c. w i = InBucket c \<longrightarrow> m_currentTick q \<le> m_expire (tnodes q ! i)) \<and>
     0 \<le> m_currentTick q \<and> m_currentTick q \<le> s_currentTick q + 1 \<and> 0 \<le> s_currentTick q \<and>
     s_currentTick q < 2 ^ 31"

definition wheel :: "'a timer_queue \<Rightarrow> bool" where
  "wheel q \<longleftrightarrow> (\<exists>w B F. wheel_ok q w B F)"

lemma wheelI: "wheel_ok q w B F \<Longrightarrow> wheel q"
  by (auto simp: wheel_def)

lemma wheel_times:
  assumes "wheel q"
  shows "0 \<le> m_currentTick q" "m_currentTick q \<le> s_currentTick q + 1" "0 \<le> s_currentTick q"
    "s_currentTick q < 2 ^ 31"
  using assms by (auto simp: wheel_def wheel_ok_def)

lemma wheel_set_fw:
  "wheel q \<Longrightarrow> m_currentTick q \<le> t + 1 \<Longrightarrow> 0 \<le> t \<Longrightarrow> t < 2 ^ 31 \<Longrightarrow> wheel (q\<lparr>s_currentTick := t\<rparr>)"
  unfolding wheel_def by (elim exE, rename_tac w B F, rule_tac x = w in exI, rule_tac x = B in exI,
      rule_tac x = F in exI) (simp add: wheel_ok_def)

lemma wheel_okD:
  assumes "wheel_ok q w B F"
  shows "tq_ok q w B F" and "i < m_count q \<Longrightarrow> w i \<noteq> Busy" and "i < m_count q \<Longrightarrow> w i \<noteq> Limbo"
    and "i < m_count q \<Longrightarrow> w i = InBucket c \<Longrightarrow> m_currentTick q \<le> m_expire (tnodes q ! i)"
    and "0 \<le> m_currentTick q" "m_currentTick q \<le> s_currentTick q + 1" "0 \<le> s_currentTick q"
    and "s_currentTick q < 2 ^ 31"
  using assms by (auto simp: wheel_ok_def)

subsection \<open>A whole bucket\<close>

lemma enter_bucket:
  assumes ok: "wheel_ok q w B F" and t: "m_currentTick q = t" "t \<le> s_currentTick q"
  defines "b \<equiv> nat (HashTick t)"
  shows "loop_inv (q\<lparr>m_tickIterator := al_begin (lmem q) (bucket_nat q b)\<rparr>) t b w B F [] (B b)"
    and "bucket_addr q (HashTick t) = bucket_nat q b"
proof -
  note d = wheel_okD [OF ok]
  have b: "b < NB" "int b = HashTick t" using HashTick_range [of t] by (simp_all add: b_def nat_less_iff)
  show "bucket_addr q (HashTick t) = bucket_nat q b" using b by simp
  have "al_begin (lmem q) (bucket_nat q b) = hd (map (node_addr q) (B b) @ [bucket_nat q b])"
    using dlist_begin [OF links_okD(1) [OF tq_okD(3) [OF d(1)] b(1)]] .
  then show "loop_inv (q\<lparr>m_tickIterator := al_begin (lmem q) (bucket_nat q b)\<rparr>) t b w B F [] (B b)"
    using d b(1) t by (auto simp: loop_inv_def loop_core_def no_limbo_def)
qed

lemma leave_bucket:
  assumes inv: "loop_inv q t b w B F (B b) []" and b: "int b = HashTick t"
    and nb: "\<forall>i<m_count q. w i \<noteq> Busy" and t: "m_currentTick q = t" "0 \<le> t"
  shows "wheel_ok (q\<lparr>m_currentTick := t + 1\<rparr>) w B F"
proof -
  have core: "loop_core q t b w B F (B b) []" and nl: "no_limbo q w" using inv by (auto simp: loop_inv_def)
  note d = loop_coreD [OF core]
  have "t + 1 \<le> m_expire (tnodes q ! i)" if i: "i < m_count q" "w i = InBucket c" for i c
  proof (cases "c = b")
    case True
    have "i \<in> set (B b)" using links_okD(2) [OF tq_okD(3) [OF d(1)] d(2)] i True by simp
    then show ?thesis using d(5) by force
  next
    case False
    have "HashTick (m_expire (tnodes q ! i)) = int c"
      using tq_okD(5) [OF d(1) i(1)] i(2) by (simp add: place_ok_def)
    then have "m_expire (tnodes q ! i) \<noteq> t" using b False by auto
    then show ?thesis using d(6) [OF i] by simp
  qed
  then show ?thesis
    using d(1,7-9) nb nl t by (auto simp: wheel_ok_def no_limbo_def)
qed

lemma due_card: "card (due q t ys) \<le> length ys"
proof -
  have "card (due q t ys) \<le> card (set ys)" by (rule card_mono) (auto simp: due_def)
  then show ?thesis using card_length [of ys] by linarith
qed

text \<open>Both walks through a bucket, at the current tick.\<close>

lemma walk_bucket:
  assumes wh: "wheel q" and t: "m_currentTick q = t" "t \<le> s_currentTick q"
    and tasks: "tasks_ok ttype run" and re: "requeue_ok t nexp" and over: "over_ok over"
    and fuel: "tick_fuel q \<le> fuel" and P: "P e" "keeps P run t (s_currentTick q) t"
  shows "\<exists>c q' e'. tick_loop ttype run nexp over fuel
      (q\<lparr>m_tickIterator := al_begin (lmem q) (bucket_addr q (HashTick t))\<rparr>) e t (bucket_addr q (HashTick t)) 0 =
        Some (c, q', e') \<and> wheel (q'\<lparr>m_currentTick := t + 1\<rparr>) \<and> same_frame q q' \<and> P e'"
proof -
  obtain w B F where ok: "wheel_ok q w B F" using wh by (auto simp: wheel_def)
  let ?b = "nat (HashTick t)" and ?q = "q\<lparr>m_tickIterator := al_begin (lmem q) (bucket_addr q (HashTick t))\<rparr>"
  note en = enter_bucket [OF ok t]
  have b: "int ?b = HashTick t" using HashTick_range by simp
  have inv: "loop_inv ?q t ?b w B F [] (B ?b)" using en by simp
  have "length (B ?b) \<le> m_count q" using loop_length [OF inv] by simp
  then have "card (due ?q t (B ?b)) * (m_count q + 1) + length (B ?b) \<le> m_count q * (m_count q + 1) + m_count q"
    using due_card [of ?q t "B ?b"] by (intro add_mono mult_le_mono1) auto
  also have "\<dots> < fuel" using fuel by (simp add: tick_fuel_def)
  finally have f: "card (due ?q t (B ?b)) * (m_count ?q + 1) + length (B ?b) < fuel" by simp
  have P2: "keeps P run t (s_currentTick ?q) (m_currentTick ?q)" using P(2) t(1) by simp
  have ba: "bucket_nat ?q ?b = bucket_addr q (HashTick t)" using en(2) by simp
  from tick_loop_inv [where P = P, OF tasks re over inv f P(1) P2, of 0, unfolded ba] obtain c q' e' w' B' F' where
    r: "tick_loop ttype run nexp over fuel ?q e t (bucket_addr q (HashTick t)) 0 = Some (c, q', e')"
      "loop_inv q' t ?b w' B' F' (B' ?b) []" "same_frame ?q q'" "same_busy ?q w w'" "P e'" by blast
  have "\<forall>i<m_count q'. w' i \<noteq> Busy"
    using r(3,4) wheel_okD(2) [OF ok] by (auto simp: same_frame_def same_busy_def)
  moreover have "m_currentTick q' = t" "0 \<le> t" using r(3) t(1) wheel_okD(5) [OF ok] by (auto simp: same_frame_def)
  ultimately have "wheel (q'\<lparr>m_currentTick := t + 1\<rparr>)" using leave_bucket [OF r(2) b] by (auto intro: wheelI)
  moreover have "same_frame q q'" using r(3) by (simp add: same_frame_def)
  ultimately show ?thesis using r(1,5) by blast
qed

lemma requeue_check:
  assumes "t < 2 ^ 31"
  shows "requeue_ok t (\<lambda>nd. u32 (m_expire nd + m_period nd))"
  using assms by (auto simp: requeue_ok_def busy_ok_def base_ok_def u32_id)

lemma requeue_skip:
  assumes "t \<le> T" "0 \<le> T" "T < 2 ^ 31"
  shows "requeue_ok t (\<lambda>nd. u32 (T + m_period nd))"
  using assms by (auto simp: requeue_ok_def busy_ok_def base_ok_def u32_id)

subsection \<open>Tick\<close>

lemma tick_from_ok:
  assumes tasks: "tasks_ok ttype run"
  shows "wheel q \<Longrightarrow> m_currentTick q + int n \<le> 2 ^ 31 \<Longrightarrow> tick_fuel q \<le> fuel \<Longrightarrow> P e \<Longrightarrow>
    (\<And>t. m_currentTick q \<le> t \<Longrightarrow> t < m_currentTick q + int n \<Longrightarrow> keeps P run t t t) \<Longrightarrow>
    \<exists>c q' e'. tick_from ttype run fuel n q e cnt = Some (c, q', e') \<and> wheel q' \<and>
      m_currentTick q' = m_currentTick q + int n \<and> P e'"
proof (induction n arbitrary: q e cnt)
  case 0
  then show ?case by auto
next
  case (Suc n)
  let ?t = "m_currentTick q" and ?q1 = "q\<lparr>s_currentTick := m_currentTick q\<rparr>"
  have ok1: "wheel ?q1" using Suc.prems(1,2) wheel_times [OF Suc.prems(1)] by (intro wheel_set_fw) auto
  have fuel: "tick_fuel ?q1 \<le> fuel" using Suc.prems(3) by (simp add: tick_fuel_def)
  have kp: "keeps P run ?t (s_currentTick ?q1) ?t" using Suc.prems(5) [of ?t] by simp
  have re: "requeue_ok ?t (\<lambda>nd :: 'a timer_node. u32 (m_expire nd + m_period nd))"
    using Suc.prems(2) by (intro requeue_check) simp
  have t1: "m_currentTick ?q1 = ?t" "?t \<le> s_currentTick ?q1" by simp_all
  from walk_bucket [where P = P, OF ok1 t1 tasks re check_over_ok fuel Suc.prems(4) kp]
  obtain c q2 e2 where
    w: "CheckTickArray ttype run fuel ?q1 e ?t (HashTick ?t) = Some (c, q2, e2)"
      "wheel (q2\<lparr>m_currentTick := ?t + 1\<rparr>)" "same_frame ?q1 q2" "P e2"
    unfolding CheckTickArray_def Let_def by blast
  let ?q3 = "q2\<lparr>m_currentTick := ?t + 1\<rparr>"
  have fr: "m_currentTick q2 = ?t" "m_count ?q3 = m_count q" using w(3) by (simp_all add: same_frame_def)
  have "\<exists>c' q' e'. tick_from ttype run fuel n ?q3 e2 (cnt + c) = Some (c', q', e') \<and>
      wheel q' \<and> m_currentTick q' = m_currentTick ?q3 + int n \<and> P e'"
  proof (rule Suc.IH [OF w(2) _ _ w(4)])
    show "m_currentTick ?q3 + int n \<le> 2 ^ 31" "tick_fuel ?q3 \<le> fuel"
      using Suc.prems(2,3) fr(2) by (simp_all add: tick_fuel_def)
    show "keeps P run t t t" if "m_currentTick ?q3 \<le> t" "t < m_currentTick ?q3 + int n" for t
      using that by (intro Suc.prems(5)) auto
  qed
  then show ?case using w(1) fr by (auto simp: Let_def)
qed

lemma Tick_ok:
  assumes tasks: "tasks_ok ttype run" and ok: "wheel q"
    and now: "now = tick_of_time (m_systemStart q) tv_sec tv_usec" "now \<le> 2 ^ 31"
    and fuel: "tick_fuel q \<le> fuel" and P: "P e"
      "\<And>t. m_currentTick q \<le> t \<Longrightarrow> t < now \<Longrightarrow> keeps P run t t t"
  shows "\<exists>c q' e'. Tick ttype run fuel tv_sec tv_usec q e = Some (c, q', e') \<and> wheel q' \<and>
    m_currentTick q' = max (m_currentTick q) now \<and> P e'"
proof (cases "now > m_currentTick q")
  case True
  have n: "m_currentTick q + int (nat (now - m_currentTick q)) = now" using True by simp
  have "\<exists>c q' e'. tick_from ttype run fuel (nat (now - m_currentTick q)) q e 0 = Some (c, q', e') \<and>
      wheel q' \<and> m_currentTick q' = m_currentTick q + int (nat (now - m_currentTick q)) \<and> P e'"
    using n now(2) P(2) by (intro tick_from_ok [where P = P, OF tasks ok _ fuel P(1)]) auto
  then show ?thesis using n True by (simp add: Tick_def Let_def now(1) [symmetric] max_def)
next
  case False
  then show ?thesis using ok P(1) by (simp add: Tick_def Let_def now(1) [symmetric] max_def)
qed

lemma skip_from_ok:
  assumes tasks: "tasks_ok ttype run"
  shows "wheel q \<Longrightarrow> m_currentTick q + int n \<le> s_currentTick q \<Longrightarrow> tick_fuel q \<le> fuel \<Longrightarrow>
    \<exists>c q' e'. skip_from ttype run fuel n q e cnt = Some (c, q', e') \<and> wheel q' \<and>
      m_currentTick q' = m_currentTick q + int n \<and> s_currentTick q' = s_currentTick q"
proof (induction n arbitrary: q e cnt)
  case 0
  then show ?case by auto
next
  case (Suc n)
  let ?t = "m_currentTick q" and ?T = "s_currentTick q"
  have le: "?t \<le> ?T" using Suc.prems(2) by simp
  have re: "requeue_ok ?t (\<lambda>nd :: 'a timer_node. u32 (?T + m_period nd))"
    using le wheel_times [OF Suc.prems(1)] by (intro requeue_skip) auto
  have kp: "keeps (\<lambda>_. True) run ?t ?T ?t" by (simp add: keeps_def)
  from walk_bucket [where P = "\<lambda>_. True" and e = e, OF Suc.prems(1) refl le tasks re skip_over_ok Suc.prems(3) TrueI kp]
  obtain c q2 e2 where
    w: "SkipTickArray ttype run fuel q e ?t (HashTick ?t) = Some (c, q2, e2)"
      "wheel (q2\<lparr>m_currentTick := ?t + 1\<rparr>)" "same_frame q q2"
    unfolding SkipTickArray_def Let_def by blast
  let ?q3 = "q2\<lparr>m_currentTick := ?t + 1\<rparr>"
  have fr: "m_currentTick q2 = ?t" "m_count ?q3 = m_count q" "s_currentTick ?q3 = ?T"
    using w(3) by (simp_all add: same_frame_def)
  have "\<exists>c' q' e'. skip_from ttype run fuel n ?q3 e2 (cnt + c) = Some (c', q', e') \<and>
      wheel q' \<and> m_currentTick q' = m_currentTick ?q3 + int n \<and> s_currentTick q' = s_currentTick ?q3"
    using Suc.prems fr by (intro Suc.IH [OF w(2)]) (auto simp: tick_fuel_def)
  then show ?case using w(1) fr by (auto simp: Let_def)
qed

subsection \<open>Schedule and Cancel between ticks\<close>

lemma wheel_Schedule:
  assumes ok: "wheel_ok q w B (i # F)" and args: "sched_args ttype task d p r" and np: "\<not> (p = 0 \<and> r > 1)"
  defines "nd \<equiv> scheduled_node ttype q i task d p r"
  defines "b \<equiv> nat (HashTick (m_expire nd))"
  shows "\<exists>q'. Schedule ttype q task d p r = Some (timer_id (ttype task) i (m_timerSeq nd), q') \<and>
    wheel_ok q' (w(i := InBucket b)) (B(b := B b @ [i])) F \<and> tnodes q' = (tnodes q)[i := nd] \<and>
    same_frame q q' \<and> m_timerCount q' = (m_timerCount q)[nat (ttype task) := i32 (m_timerCount q ! nat (ttype task) + 1)]"
proof -
  note d = wheel_okD [OF ok]
  note pop = tq_pop [OF d(1)]
  from Schedule_accepted [OF d(1) args np d(7,8)] obtain q' where
    s: "Schedule ttype q task d p r = Some (timer_id (ttype task) i (m_timerSeq nd), q')"
      "tq_ok q' (w(i := InBucket b)) (B(b := B b @ [i])) F" "same_frame q q'" "tnodes q' = (tnodes q)[i := nd]"
    "m_timerCount q' = (m_timerCount q)[nat (ttype task) := i32 (m_timerCount q ! nat (ttype task) + 1)]"
    unfolding nd_def b_def by blast
  have len: "i < length (tnodes q)" using tq_okD(6) [OF d(1)] pop(2) by simp
  have "m_currentTick q \<le> m_expire nd"
    using d(6) args by (auto simp: nd_def scheduled_node_def first_delay_def sched_args_def)
  then have "m_currentTick q' \<le> m_expire (tnodes q' ! j)" if "j < m_count q'" "(w(i := InBucket b)) j = InBucket c" for j c
    using that d(4) s(3,4) len by (cases "j = i") (auto simp: same_frame_def)
  moreover have "\<forall>j<m_count q'. (w(i := InBucket b)) j \<noteq> Busy \<and> (w(i := InBucket b)) j \<noteq> Limbo"
    using d(2,3) s(3) by (auto simp: same_frame_def)
  ultimately have "wheel_ok q' (w(i := InBucket b)) (B(b := B b @ [i])) F"
    using s(2,3) d(5-8) by (simp add: wheel_ok_def same_frame_def)
  then show ?thesis using s by blast
qed

lemma wheel_Cancel:
  assumes ok: "wheel_ok q w B F" and n: "tid \<noteq> C_INVALID_TIMER_ID" "named q tid = Some i" and w: "w i = InBucket b"
  shows "\<exists>q'. Cancel q tid = Some (C_INVALID_TIMER_ID, q') \<and>
    wheel_ok q' (w(i := Free)) (B(b := remove1 i (B b))) (i # F) \<and> tnodes q' = tnodes q \<and> same_frame q q'"
proof -
  note d = wheel_okD [OF ok]
  have i: "i < m_count q" using n(2) by (rule named_bound)
  have b: "b < NB" using links_okD(3) [OF tq_okD(3) [OF d(1)] i w] .
  then have "i \<in> set (B b)" using links_okD(2) [OF tq_okD(3) [OF d(1)]] i w by simp
  then obtain xs ys where s: "B b = xs @ i # ys" by (meson split_list)
  from Cancel_waiting [OF d(1) n w s] obtain q' where
    c: "Cancel q tid = Some (C_INVALID_TIMER_ID, q')" "tq_ok q' (w(i := Free)) (B(b := xs @ ys)) (i # F)"
      "same_frame q q'" "tnodes q' = tnodes q" by blast
  have "wheel_ok q' (w(i := Free)) (B(b := xs @ ys)) (i # F)"
    using c(2-4) d(2-8) unfolding wheel_ok_def same_frame_def by (auto split: if_splits)
  moreover have "distinct (B b)" using links_okD(1) [OF tq_okD(3) [OF d(1)] b] by (simp add: dlist_def distinct_map)
  then have "remove1 i (B b) = xs @ ys" by (simp add: s remove1_append)
  ultimately show ?thesis using c by auto
qed

lemma waiting_id:
  assumes ok: "wheel_ok q w B F" and i: "i < m_count q" "w i = InBucket b"
  defines "tid \<equiv> timer_id (m_timerType (tnodes q ! i)) i (m_timerSeq (tnodes q ! i))"
  shows "named q tid = Some i" and "tid \<noteq> C_INVALID_TIMER_ID"
proof -
  note d = wheel_okD [OF ok]
  have p: "timer_ok (tnodes q ! i)" "seq_ok (tnodes q ! i)"
    using tq_okD(4,5) [OF d(1) i(1)] i(2) by (simp_all add: place_ok_def)
  have r: "0 \<le> m_timerType (tnodes q ! i)" "m_timerType (tnodes q ! i) < 2 ^ 16"
    using p(1) by (auto simp: timer_ok_def base_ok_def)
  show "named q tid = Some i" unfolding tid_def by (rule named_own [OF d(1) i(1) r])
  have "int i < MAX_TIMER_NODE_NUM" using tq_okD(1) [OF d(1)] i(1) by (simp add: tq_layout_def)
  then show "tid \<noteq> C_INVALID_TIMER_ID"
    using timer_id_parts(2) [of "m_timerType (tnodes q ! i)" "m_timerSeq (tnodes q ! i)" i] r p(2)
    by (simp add: tid_def seq_ok_def C_INVALID_TIMER_ID_def)
qed

subsection \<open>The timers as an allocator\<close>

text \<open>
  \<open>Schedule\<close> hands out ids of timers, each of which names one of the nodes, and \<open>Cancel\<close> takes them back: the timer queue gives the
  laws of \<open>slot_alloc\<close>, as the object pool does. A request is a task with delay, period and repeat count. \<open>timer_ids\<close> are the ids of
  the waiting timers.
\<close>

type_synonym 'a timer_req = "'a \<times> int \<times> int \<times> int"

definition timer_alloc ::
  "('a \<Rightarrow> int) \<Rightarrow> 'a timer_queue \<Rightarrow> 'a timer_req \<Rightarrow> (int option \<times> 'a timer_queue) option" where
  "timer_alloc ttype q req = (case req of (task, d, p, r) \<Rightarrow>
     map_option (\<lambda>(tid, q'). (if tid = C_INVALID_TIMER_ID then None else Some tid, q')) (Schedule ttype q task d p r))"

definition timer_release :: "'a timer_queue \<Rightarrow> int \<Rightarrow> 'a timer_queue option" where
  "timer_release q tid = map_option snd (Cancel q tid)"

definition timer_serves :: "'a timer_req \<Rightarrow> bool" where
  "timer_serves req = (case req of (task, d, p, r) \<Rightarrow> \<not> (p = 0 \<and> r > 1))"

fun timer_arg :: "('a \<Rightarrow> int) \<Rightarrow> ('a timer_req, int) alloc_op \<Rightarrow> bool" where
  "timer_arg ttype (OpAlloc (task, d, p, r)) = sched_args ttype task d p r"
| "timer_arg ttype (OpFree tid) = (0 \<le> tid \<and> tid < 2 ^ 64)"

definition own_id :: "'a timer_queue \<Rightarrow> nat \<Rightarrow> int" where
  "own_id q i = timer_id (m_timerType (tnodes q ! i)) i (m_timerSeq (tnodes q ! i))"

definition waiting_nodes :: "'a timer_queue \<Rightarrow> (nat \<Rightarrow> place) \<Rightarrow> nat set" where
  "waiting_nodes q w = {i. i < m_count q \<and> (\<exists>b. w i = InBucket b)}"

definition timer_ids :: "'a timer_queue \<Rightarrow> (nat \<Rightarrow> place) \<Rightarrow> int set" where
  "timer_ids q w = own_id q ` waiting_nodes q w"

lemma own_id_parts:
  assumes ok: "wheel_ok q w B F" and i: "i \<in> waiting_nodes q w"
  shows "TimerId2Pos (own_id q i) = Some (int i + 1)" "cancel_arg (own_id q i)" "own_id q i \<noteq> C_INVALID_TIMER_ID"
    "named q (own_id q i) = Some i"
proof -
  obtain b where b: "i < m_count q" "w i = InBucket b" using i by (auto simp: waiting_nodes_def)
  note d = wheel_okD [OF ok]
  have p: "timer_ok (tnodes q ! i)" "seq_ok (tnodes q ! i)"
    using tq_okD(4,5) [OF d(1) b(1)] b(2) by (simp_all add: place_ok_def)
  have "int i < MAX_TIMER_NODE_NUM" using tq_okD(1) [OF d(1)] b(1) by (simp add: tq_layout_def)
  then have t: "DecodeTimerId (own_id q i) = Some (True, m_timerType (tnodes q ! i), int i + 1, m_timerSeq (tnodes q ! i))"
    "2 ^ 32 \<le> own_id q i"
    using timer_id_parts [of "m_timerType (tnodes q ! i)" "m_timerSeq (tnodes q ! i)" i] p
    by (simp_all add: own_id_def timer_ok_def base_ok_def seq_ok_def)
  show "TimerId2Pos (own_id q i) = Some (int i + 1)" "cancel_arg (own_id q i)"
    using t by (simp_all add: TimerId2Pos_def cancel_arg_def)
  show "named q (own_id q i) = Some i" "own_id q i \<noteq> C_INVALID_TIMER_ID" using waiting_id [OF ok b] by (simp_all add: own_id_def)
qed

lemma own_id_inj: "wheel_ok q w B F \<Longrightarrow> inj_on (own_id q) (waiting_nodes q w)"
  by (rule inj_onI) (metis own_id_parts(4) option.inject)

text \<open>An id that is not stale is the one its node gives out.\<close>

lemma named_own_id:
  assumes "named q tid = Some i" and "0 \<le> tid" "tid < 2 ^ 64"
  shows "tid = own_id q i"
proof -
  obtain pos sq ty where p: "pos = tid mod 2 ^ 32" "sq = tid div 2 ^ 32 mod 2 ^ 16" "ty = tid div 2 ^ 48 mod 2 ^ 16" by blast
  have "DecodeTimerId tid = Some (True, ty, pos, sq)" and n: "i = nat (u32 (pos - 1))" "sq = m_timerSeq (tnodes q ! i)"
    "ty = m_timerType (tnodes q ! i)"
    using assms(1) unfolding named_def DecodeTimerId_def Let_def p [symmetric] by (auto split: if_splits bool.splits)
  then have "0 < pos" by (simp add: DecodeTimerId_def Let_def p [symmetric] split: if_splits)
  have "pos < 2 ^ 32" by (simp add: p(1))
  then have i: "int i + 1 = pos" using \<open>0 < pos\<close> n(1) by (simp add: u32_id)
  have "tid div 2 ^ 48 = tid div (2 ^ 32 * 2 ^ 16)" by simp
  also have "\<dots> = tid div 2 ^ 32 div 2 ^ 16" by (rule zdiv_zmult2_eq) simp
  finally have d: "tid div 2 ^ 48 = tid div 2 ^ 32 div 2 ^ 16" .
  have "tid div 2 ^ 48 \<le> (2 ^ 64 - 1) div 2 ^ 48" using assms(3) by (intro zdiv_mono1) simp_all
  moreover have "0 \<le> tid div 2 ^ 48" using assms(2) by (simp add: pos_imp_zdiv_nonneg_iff)
  ultimately have "ty = tid div 2 ^ 48" unfolding p(3) by (intro mod_pos_pos_trivial) simp_all
  then have "ty * 2 ^ 16 + sq = tid div 2 ^ 32" unfolding d p(2) by (simp only: div_mult_mod_eq)
  then have "(ty * 2 ^ 16 + sq) * 2 ^ 32 + pos = tid" unfolding p(1) by (simp only: div_mult_mod_eq)
  then show ?thesis using n(2,3) i by (simp add: own_id_def timer_id_def)
qed

lemma waiting_or_free:
  assumes ok: "wheel_ok q w B F"
  shows "card (timer_ids q w) + length F = m_count q"
proof -
  note k = links_okD(5,6) [OF tq_okD(3) [OF wheel_okD(1) [OF ok]]]
  have "w i = Free \<or> (\<exists>b. w i = InBucket b)" if "i < m_count q" for i
    using wheel_okD(2,3) [OF ok that] by (cases "w i") auto
  then have "waiting_nodes q w \<union> set F = {..<m_count q}" "waiting_nodes q w \<inter> set F = {}"
    unfolding k(2) by (auto simp: waiting_nodes_def)
  moreover have "finite (waiting_nodes q w)" by (simp add: waiting_nodes_def)
  ultimately have "card (waiting_nodes q w) + card (set F) = m_count q"
    by (metis List.finite_set card_Un_disjoint card_lessThan)
  then show ?thesis using distinct_card [OF k(1)] card_image [OF own_id_inj [OF ok]] by (simp add: timer_ids_def)
qed

definition timers_inv :: "nat \<Rightarrow> 'a timer_queue \<Rightarrow> int set \<Rightarrow> bool" where
  "timers_inv n q L \<longleftrightarrow> (\<exists>w B F. wheel_ok q w B F \<and> m_count q = n \<and> L = timer_ids q w)"

lemma timers_alloc:
  assumes ok: "wheel_ok q w B (i # F)" and args: "sched_args ttype task d p r" and np: "\<not> (p = 0 \<and> r > 1)"
  shows "\<exists>tid q'. timer_alloc ttype q (task, d, p, r) = Some (Some tid, q') \<and> cancel_arg tid \<and>
    TimerId2Pos tid \<notin> TimerId2Pos ` timer_ids q w \<and> timers_inv (m_count q) q' (insert tid (timer_ids q w))"
proof -
  let ?nd = "scheduled_node ttype q i task d p r"
  let ?tid = "timer_id (ttype task) i (m_timerSeq ?nd)"
  from wheel_Schedule [OF ok args np] obtain q' b B' where
    s: "Schedule ttype q task d p r = Some (?tid, q')" "wheel_ok q' (w(i := InBucket b)) B' F"
      "tnodes q' = (tnodes q)[i := ?nd]" "same_frame q q'" by blast
  have i: "i < m_count q" "w i = Free" using tq_pop [OF wheel_okD(1) [OF ok]] by blast+
  have len: "length (tnodes q) = m_count q" "m_count q' = m_count q"
    using tq_okD(6) [OF wheel_okD(1) [OF ok]] s(4) by (simp_all add: same_frame_def)
  have own: "own_id q' i = ?tid" "\<And>j. j \<noteq> i \<Longrightarrow> own_id q' j = own_id q j"
    using i(1) len(1) by (simp_all add: own_id_def s(3) scheduled_node_def)
  have wt: "waiting_nodes q' (w(i := InBucket b)) = insert i (waiting_nodes q w)" "i \<notin> waiting_nodes q w"
    using i len(2) by (auto simp: waiting_nodes_def)
  then have "timer_ids q' (w(i := InBucket b)) = insert ?tid (timer_ids q w)"
    unfolding timer_ids_def wt(1) image_insert own(1) using own(2) by (metis (no_types, lifting) image_cong)
  moreover have "i \<in> waiting_nodes q' (w(i := InBucket b))" unfolding wt(1) by simp
  note o = own_id_parts [OF s(2) this, unfolded own(1)]
  have "TimerId2Pos ?tid \<notin> TimerId2Pos ` timer_ids q w"
    using own_id_parts(1) [OF ok] o(1) wt(2) by (auto simp: timer_ids_def)
  ultimately show ?thesis using s(1,2) o(2,3) len(2) unfolding timers_inv_def
    by (intro exI [of _ ?tid] exI [of _ q']) (auto simp: timer_alloc_def)
qed

lemma timers_release:
  assumes ok: "wheel_ok q w B F" and tid: "tid \<in> timer_ids q w"
  shows "\<exists>q'. timer_release q tid = Some q' \<and> timers_inv (m_count q) q' (timer_ids q w - {tid})"
proof -
  obtain i where i: "i \<in> waiting_nodes q w" "tid = own_id q i" using tid by (auto simp: timer_ids_def)
  note o = own_id_parts [OF ok i(1), folded i(2)]
  obtain b where b: "w i = InBucket b" using i(1) by (auto simp: waiting_nodes_def)
  from wheel_Cancel [OF ok o(3,4) b] obtain q' where
    c: "Cancel q tid = Some (C_INVALID_TIMER_ID, q')" "wheel_ok q' (w(i := Free)) (B(b := remove1 i (B b))) (i # F)"
      "tnodes q' = tnodes q" "same_frame q q'" by blast
  have "waiting_nodes q' (w(i := Free)) = waiting_nodes q w - {i}" using c(4) by (auto simp: waiting_nodes_def same_frame_def)
  moreover have "own_id q' = own_id q" by (simp add: own_id_def fun_eq_iff c(3))
  ultimately have "timer_ids q' (w(i := Free)) = timer_ids q w - {tid}"
    using inj_on_image_set_diff [OF own_id_inj [OF ok], of "waiting_nodes q w" "{i}"] i by (simp add: timer_ids_def)
  moreover have "m_count q' = m_count q" using c(4) by (simp add: same_frame_def)
  ultimately show ?thesis using c(1,2) unfolding timers_inv_def
    by (intro exI [of _ q']) (auto simp: timer_release_def)
qed

lemma Cancel_stale:
  assumes ok: "wheel_ok q w B F" and tid: "0 \<le> tid" "tid < 2 ^ 64" "cancel_arg tid" "tid \<notin> timer_ids q w"
  shows "Cancel q tid = Some (tid, q)"
proof (cases "tid = C_INVALID_TIMER_ID")
  case False
  have "w i = Free" if "named q tid = Some i" for i
  proof -
    have i: "i < m_count q" using that by (rule named_bound)
    have "i \<notin> waiting_nodes q w" using tid(4) named_own_id [OF that tid(1,2)] by (auto simp: timer_ids_def)
    then show ?thesis using wheel_okD(2,3) [OF ok i] i by (cases "w i") (auto simp: waiting_nodes_def)
  qed
  then show ?thesis using named_None_free [OF wheel_okD(1) [OF ok] tid(3)] False by blast
qed (simp add: Cancel_def)

lemma Cancel_bad_id: "0 \<le> tid \<Longrightarrow> \<not> cancel_arg tid \<Longrightarrow> Cancel q tid = None"
  by (simp add: cancel_arg_def Cancel_def DecodeTimerId_def)

interpretation tq: slot_alloc "timer_alloc ttype" timer_release timer_serves cancel_arg TimerId2Pos n "timers_inv n" "timer_arg ttype"
proof
  fix q :: "'a timer_queue" and L and req :: "'a timer_req"
  assume inv: "timers_inv n q L" and arg: "timer_arg ttype (OpAlloc req)"
  obtain task d p r where req: "req = (task, d, p, r)" by (cases req)
  obtain w B F where ok: "wheel_ok q w B F" and q: "m_count q = n" "L = timer_ids q w" using inv by (auto simp: timers_inv_def)
  note c = waiting_or_free [OF ok]
  show "\<exists>h s'. timer_alloc ttype q req = Some (Some h, s') \<and> cancel_arg h \<and> TimerId2Pos h \<notin> TimerId2Pos ` L \<and>
      timers_inv n s' (insert h L)" if "timer_serves req" "card L < n"
  proof (cases F)
    case (Cons i F')
    then show ?thesis using timers_alloc [of q w B i F' ttype task d p r] ok arg that(1) q by (simp add: req timer_serves_def)
  qed (use c q that in simp)
  show "timer_alloc ttype q req = Some (None, q)" if "\<not> timer_serves req \<or> card L = n"
    using Schedule_refused [OF wheel_okD(1) [OF ok], of p r] that c q by (auto simp: req timer_alloc_def timer_serves_def)
next
  fix q :: "'a timer_queue" and L and tid :: int
  assume inv: "timers_inv n q L" and "timer_arg ttype (OpFree tid)"
  then have t: "0 \<le> tid" "tid < 2 ^ 64" by simp_all
  obtain w B F where ok: "wheel_ok q w B F" and q: "m_count q = n" "L = timer_ids q w" using inv by (auto simp: timers_inv_def)
  show "\<exists>s'. timer_release q tid = Some s' \<and> timers_inv n s' (L - {tid})" if "tid \<in> L"
    using timers_release [OF ok] that q by simp
  show "timer_release q tid = Some q" if "cancel_arg tid" "tid \<notin> L"
    using Cancel_stale [OF ok t] that q by (simp add: timer_release_def)
  show "timer_release q tid = None" if "\<not> cancel_arg tid" using Cancel_bad_id [OF t(1) that] by (simp add: timer_release_def)
next
  fix q :: "'a timer_queue" and L
  assume "timers_inv n q L"
  then show "card L \<le> n" using waiting_or_free by (fastforce simp: timers_inv_def)
qed

subsection \<open>Creation\<close>

lemma init_buckets_other: "(\<And>b. b < n \<Longrightarrow> a \<noteq> base + 16 * int b) \<Longrightarrow> init_buckets base n l a = l a"
  by (induction n) (simp_all add: al_init_other)

lemma init_buckets_at: "b < n \<Longrightarrow> dlist (init_buckets base n l) (base + 16 * int b) []"
proof (induction n)
  case (Suc n)
  show ?case
  proof (cases "b = n")
    case False
    then have "dlist (init_buckets base n l) (base + 16 * int b) []" using Suc by simp
    moreover have "init_buckets base (Suc n) l (base + 16 * int b) = init_buckets base n l (base + 16 * int b)"
      using False by (simp add: al_init_other)
    ultimately show ?thesis
      using dlist_cong [of "base + 16 * int b" "[]" "init_buckets base (Suc n) l" "init_buckets base n l"] by simp
  qed simp
qed simp

lemma CreateTimerQueue_new:
  assumes "0 < count" "int count < MAX_TIMER_NODE_NUM" and "even buffer" and "count \<le> length (tnodes old)"
    and "sizeof_CTimerQueue + int count * sizeof_NodeType \<le> buffer_size"
  shows "\<exists>q. CreateTimerQueue rt tv_sec buffer old buffer_size count False =
      Some (Inr (sizeof_CTimerQueue + int count * sizeof_NodeType, q)) \<and>
    wheel_ok q (\<lambda>_. Free) (\<lambda>_. []) [0..<count] \<and> m_count q = count \<and> m_currentTick q = 0 \<and>
    m_systemStart q = tv_sec \<and> self q = buffer \<and> s_currentTick q = 0"
proof -
  let ?tq = "old\<lparr>self := buffer, m_runFlag := None\<rparr>"
  let ?na = "node_addr ?tq"
  obtain l t where lt: "stack_reset ?na count (lmem ?tq) = (l, t)" by fastforce
  let ?l = "init_buckets (bucket_addr ?tq 0) (nat C_BUCKET_COUNT) l"
  let ?q = "SetGlobalRunFlag (InitTimerCount (?tq\<lparr>tnodes := map (\<lambda>nd. nd\<lparr>m_timerSeq := 1\<rparr>) (take count (tnodes ?tq)),
      m_systemStart := tv_sec, m_currentTick := 0, s_currentTick := 0, m_count := count, free_top := t, lmem := ?l\<rparr>)) None"
  have q: "CreateTimerQueue rt tv_sec buffer old buffer_size count False =
      Some (Inr (sizeof_CTimerQueue + int count * sizeof_NodeType, ?q))"
    using assms lt by (simp add: CreateTimerQueue_def Let_def)
  obtain p where p: "p = ?q" by blast
  have f: "lmem p = ?l" "tnodes p = map (\<lambda>nd. nd\<lparr>m_timerSeq := 1\<rparr>) (take count (tnodes old))"
    "m_count p = count" "free_top p = t" "self p = buffer" "m_currentTick p = 0" "s_currentTick p = 0"
    "m_systemStart p = tv_sec" "m_timerCount p = replicate MAX_TIMER_NUM 0"
    by (simp_all add: p SetGlobalRunFlag_def InitTimerCount_def)
  have ad: "node_addr p = ?na" "bucket_addr p = bucket_addr ?tq" 
    unfolding node_addr_def bucket_addr_def f(5) by simp_all
  have a: "addr_ok (node_addr p) (bucket_nat p)" using assms(3) f(5) by (intro addr_ok_queue) simp
  have inj: "inj ?na" using a ad(1) by (simp add: addr_ok_def)
  have ba: "bucket_nat p b = bucket_addr ?tq 0 + 16 * int b" for b by (simp add: ad(2)) (simp add: bucket_addr_def)
  have un: "?l (?na i) = l (?na i)" for i
    using addr_okD(3) [OF a, of _ i] ba ad(1) by (intro init_buckets_other) (simp add: C_BUCKET_COUNT_value)
  have "free_stack ?na ?l t [0..<count] = free_stack ?na l t [0..<count]" by (rule free_stack_cong) (rule un)
  then have stack: "free_stack ?na ?l t [0..<count]" using stack_reset_ok(1) [OF inj assms(1), of "lmem ?tq"] lt by simp
  have dl: "dlist ?l (bucket_nat p b) []" if "b < NB" for b
    unfolding ba using init_buckets_at that by (simp add: C_BUCKET_COUNT_value)
  have set: "set [0..<count] = {i. i < count}" by auto
  have "links_ok ?l (node_addr p) (bucket_nat p) count t (\<lambda>_. Free) (\<lambda>_. []) [0..<count]"
    
    unfolding links_ok_def ad(1) using stack dl set by simp
  then have "tq_ok p (\<lambda>_. Free) (\<lambda>_. []) [0..<count]"
    using assms(1-4) by (simp add: tq_ok_def tq_layout_def f place_ok_def seq_ok_def)
  then have "wheel_ok p (\<lambda>_. Free) (\<lambda>_. []) [0..<count]" by (simp add: wheel_ok_def f)
  then show ?thesis
    using q [folded p] f(3,5-8) by (intro exI [of _ p]) simp
qed

end
