(* ===== verification/TimerProps.thy ===== *)
theory TimerProps
  imports TimerWheel
begin

text \<open>
  The properties of the timer queue, over the invariant \<open>wheel_ok\<close>, and the position independence of
  a queue in shared memory.
\<close>

text \<open>Memory that a new queue of four nodes is made in.\<close>

definition junk4 :: "'a \<Rightarrow> 'a timer_queue" where
  "junk4 x = \<lparr>self = 0, lmem = (\<lambda>a. \<lparr>m_next = 77, m_prev = 78\<rparr>),
     tnodes = replicate 4 \<lparr>m_taskData = x, m_expire = 9, m_period = 9, m_repeatCount = 9,
       m_timerType = 9, m_timerSeq = 9\<rparr>, m_runFlag = None, m_timerCount = [], m_count = 0,
     m_tickIterator = 5, free_top = 5, m_currentTick = 5, m_systemStart = 5, s_currentTick = 5\<rparr>"

lemma wheel4: "\<exists>q :: 'a timer_queue. wheel_ok q (\<lambda>_. Free) (\<lambda>_. []) [0, 1, 2, 3] \<and> m_count q = 4 \<and>
    m_currentTick q = 0 \<and> m_systemStart q = 1000 \<and> self q = 4096 \<and> s_currentTick q = 0"
proof -
  have "[0..<4] = [0, 1, 2, 3 :: nat]" by (simp add: upt_rec)
  then show ?thesis
    using CreateTimerQueue_new [of 4 4096 "junk4 (undefined :: 'a)" 600000 "\<lambda>_ x. x" 1000]
    by (auto simp: junk4_def MAX_TIMER_NODE_NUM_def sizeof_CTimerQueue_def sizeof_NodeType_def)
qed

text \<open>A new timer queue is well-formed: whatever the memory held, all nodes are on the free stack
  in ascending order, every one of the 36001 buckets is an empty list, and the clock starts at 0. Memory
  that is too small is refused with an exception, a count out of range by an assert.\<close>
theorem CreateTimerQueue_gives_wheel:
  assumes "even buffer" and "count \<le> length (tnodes old)"
  shows "if \<not> (0 < count \<and> int count < MAX_TIMER_NODE_NUM)
    then CreateTimerQueue rt tv_sec buffer old buffer_size count False = None
    else if sizeof_CTimerQueue + int count * sizeof_NodeType > buffer_size
    then CreateTimerQueue rt tv_sec buffer old buffer_size count False = Some (Inl ())
    else \<exists>q. CreateTimerQueue rt tv_sec buffer old buffer_size count False =
        Some (Inr (sizeof_CTimerQueue + int count * sizeof_NodeType, q)) \<and>
      wheel_ok q (\<lambda>_. Free) (\<lambda>_. []) [0..<count] \<and> m_count q = count \<and> m_currentTick q = 0"
  using CreateTimerQueue_new [of count buffer old buffer_size rt tv_sec] assms
  by (auto simp: CreateTimerQueue_def Let_def)

theorem CreateTimerQueue_gives_wheel_witness:
  "\<exists>q. CreateTimerQueue (\<lambda>_ x. x) 1000 4096 (junk4 (0 :: nat)) 600000 4 False = Some (Inr (577352, q)) \<and> m_count q = 4"
  using CreateTimerQueue_gives_wheel [of 4096 4 "junk4 (0 :: nat)" "\<lambda>_ x. x" 1000 600000]
  by (auto simp: junk4_def MAX_TIMER_NODE_NUM_def sizeof_CTimerQueue_def sizeof_NodeType_def)

text \<open>C26. \<open>Schedule\<close> on every branch, for task types below 200 and delays and periods below \<open>2 ^ 31\<close>. Without a free node, or
  for a timer without a period that is to run more than once, the id 0 is returned and nothing changes. Otherwise the node on top of the free
  stack holds the task, its type, period and repeat count, the expiry tick - at least one ahead - and the next sequence number, and
  is last in the bucket of that tick; all other nodes are as they were and the type is counted. The returned id names that node, and no
  id that named it before does so any longer. The exception is a repeat count of 0 without a period: the result differs from that
  of a timer that runs once in the stored count only, with which the queue is not well-formed.\<close>
theorem Schedule_spec:
  assumes "wheel_ok q w B F" and "0 \<le> ttype task" "ttype task < 200" and "0 \<le> d" "d < 2 ^ 31"
    and "0 \<le> p" "p < 2 ^ 31" and "0 \<le> r" "r < 2 ^ 32"
  shows "if F = [] \<or> p = 0 \<and> r > 1 then Schedule ttype q task d p r = Some (C_INVALID_TIMER_ID, q)
    else let i = hd F; x = s_currentTick q + max 1 d; b = nat (HashTick x);
        sq = (if m_timerSeq (tnodes q ! i) = 59999 then 1 else m_timerSeq (tnodes q ! i) + 1);
        r' = (if p = 0 then 1 else r)
      in \<exists>q'. Schedule ttype q task d p r' = Some (timer_id (ttype task) i sq, q') \<and>
        wheel_ok q' (w(i := InBucket b)) (B(b := B b @ [i])) (tl F) \<and>
        tnodes q' = (tnodes q)[i := \<lparr>m_taskData = task, m_expire = x, m_period = p, m_repeatCount = r',
          m_timerType = ttype task, m_timerSeq = sq\<rparr>] \<and>
        m_timerCount q' = (m_timerCount q)[nat (ttype task) := i32 (m_timerCount q ! nat (ttype task) + 1)] \<and>
        timer_id (ttype task) i sq \<noteq> C_INVALID_TIMER_ID \<and> named q' (timer_id (ttype task) i sq) = Some i \<and>
        (\<forall>t. named q t = Some i \<longrightarrow> named q' t \<noteq> Some i) \<and>
        (p = 0 \<and> r = 0 \<longrightarrow> Schedule ttype q task d p r =
          Some (timer_id (ttype task) i sq, set_node q' i ((tnodes q' ! i)\<lparr>m_repeatCount := 0\<rparr>)))"
proof (cases "F = [] \<or> p = 0 \<and> r > 1")
  case True
  then show ?thesis using Schedule_refused [OF wheel_okD(1) [OF assms(1)] True] by simp
next
  case False
  then obtain i F' where F: "F = i # F'" by (cases F) auto
  have ok: "wheel_ok q w B (i # F')" using assms(1) F by simp
  define r' where "r' = (if p = 0 then 1 else r)"
  have args: "sched_args ttype task d p r'" "\<not> (p = 0 \<and> r' > 1)" using assms(2-9) by (simp_all add: sched_args_def r'_def)
  let ?nd = "scheduled_node ttype q i task d p r'" and ?b = "nat (HashTick (s_currentTick q + max 1 d))"
  have nd: "?nd = \<lparr>m_taskData = task, m_expire = s_currentTick q + max 1 d, m_period = p, m_repeatCount = r',
      m_timerType = ttype task, m_timerSeq = next_seq (m_timerSeq (tnodes q ! i))\<rparr>"
    using assms(4) by (simp add: scheduled_node_def first_delay_def)
  let ?tid = "timer_id (ttype task) i (next_seq (m_timerSeq (tnodes q ! i)))"
  obtain q' where s: "Schedule ttype q task d p r' = Some (?tid, q')"
    "wheel_ok q' (w(i := InBucket ?b)) (B(?b := B ?b @ [i])) F'" "tnodes q' = (tnodes q)[i := ?nd]" "same_frame q q'"
    "m_timerCount q' = (m_timerCount q)[nat (ttype task) := i32 (m_timerCount q ! nat (ttype task) + 1)]"
    using wheel_Schedule [OF ok args] unfolding nd by auto
  note pop = tq_pop(1,2) [OF wheel_okD(1) [OF ok]]
  have i: "i < length (tnodes q)" using pop(2) tq_okD(6) [OF wheel_okD(1) [OF ok]] by simp
  have n: "tnodes q' ! i = ?nd" "i < m_count q'" using i pop(2) s(3,4) by (simp_all add: same_frame_def)
  have own: "named q' ?tid = Some i" "?tid \<noteq> C_INVALID_TIMER_ID"
    using waiting_id [OF s(2) n(2)] n(1) by (simp_all add: nd)
  have "m_timerSeq ?nd \<noteq> m_timerSeq (tnodes q ! i)" by (simp add: nd next_seq_def)
  then have stale: "named q t = Some i \<Longrightarrow> named q' t \<noteq> Some i" for t
    using n(1) by (auto simp: named_def split: option.splits bool.splits if_splits)
  have none: "p = 0 \<and> r = 0 \<Longrightarrow> Schedule ttype q task d p r = Some (?tid, set_node q' i ((tnodes q' ! i)\<lparr>m_repeatCount := 0\<rparr>))"
    using Schedule_no_repeat [OF _ own(2) pop(1)] s(1) by (simp add: r'_def)
  have nf: "\<not> (i # F' = [] \<or> p = 0 \<and> r > 1)" using False by simp
  show ?thesis
    unfolding F if_not_P [OF nf] list.sel Let_def r'_def [symmetric] next_seq_def [symmetric]
    using s(1-3,5) own stale none unfolding nd by (intro exI [of _ q']) simp
qed

theorem Schedule_spec_witness:
  "\<exists>q q' :: nat timer_queue. \<exists>tid. Schedule (\<lambda>_. 7) q 42 0 5 3 = Some (tid, q') \<and>
     m_expire (tnodes q' ! 0) = s_currentTick q + 1 \<and> m_period (tnodes q' ! 0) = 5 \<and> named q' tid = Some 0"
proof -
  obtain q :: "nat timer_queue" where q: "wheel_ok q (\<lambda>_. Free) (\<lambda>_. []) [0, 1, 2, 3]" "m_count q = 4"
    using wheel4 by blast
  have "0 < length (tnodes q)" using tq_okD(6) [OF wheel_okD(1) [OF q(1)]] q(2) by simp
  then show ?thesis using Schedule_spec [OF q(1), of "\<lambda>_. 7" 42 0 5 3] by (fastforce simp: Let_def)
qed

text \<open>C27. \<open>Cancel\<close> outside the tick loop, for every id. The id 0 is ignored. An id that names a waiting timer takes
  exactly that timer out of its bucket, puts its node on top of the free stack and becomes 0. Any other id from \<open>2 ^ 32\<close> on, stale or never
  given out, changes nothing and is left in the caller's variable. The ids between, whose upper half is 0, fail an assert.\<close>
theorem Cancel_spec:
  assumes "wheel_ok q w B F" and "0 \<le> tid"
  shows "if tid = 0 then Cancel q tid = Some (tid, q)
    else if tid < 2 ^ 32 then Cancel q tid = None
    else case named q tid of
      Some i \<Rightarrow> (case w i of
          InBucket b \<Rightarrow> \<exists>q'. Cancel q tid = Some (C_INVALID_TIMER_ID, q') \<and>
            wheel_ok q' (w(i := Free)) (B(b := remove1 i (B b))) (i # F) \<and> tnodes q' = tnodes q
        | _ \<Rightarrow> w i = Free \<and> Cancel q tid = Some (tid, q))
    | None \<Rightarrow> Cancel q tid = Some (tid, q)"
proof -
  note d = wheel_okD [OF assms(1)]
  consider "tid = 0" | "0 < tid" "tid < 2 ^ 32" | "2 ^ 32 \<le> tid" using assms(2) by linarith
  then show ?thesis
  proof cases
    case 1
    then show ?thesis by (simp add: Cancel_def C_INVALID_TIMER_ID_def)
  next
    case 2
    then show ?thesis using Cancel_bad_id [of tid q] by (simp add: cancel_arg_def C_INVALID_TIMER_ID_def)
  next
    case 3
    then have nz: "tid \<noteq> C_INVALID_TIMER_ID" "cancel_arg tid" and g: "tid \<noteq> 0" "\<not> tid < 2 ^ 32"
      by (auto simp: C_INVALID_TIMER_ID_def cancel_arg_def)
    show ?thesis
    proof (cases "named q tid")
      case None
      then show ?thesis using named_None_free [OF d(1) nz(2) _ nz(1)] g by simp
    next
      case (Some i)
      show ?thesis
      proof (cases "w i")
        case Free
        then show ?thesis using named_None_free [OF d(1) nz(2) _ nz(1)] Some g by simp
      next
        case (InBucket b)
        then show ?thesis using wheel_Cancel [OF assms(1) nz(1) Some InBucket] Some g by auto
      qed (use d(2,3) named_bound [OF Some] in auto)
    qed
  qed
qed

theorem Cancel_spec_witness:
  "\<exists>q :: nat timer_queue. Cancel q (timer_id 7 3 1) = Some (timer_id 7 3 1, q) \<and> Cancel q 0 = Some (0, q) \<and> Cancel q 5 = None"
proof -
  obtain q :: "nat timer_queue" where q: "wheel_ok q (\<lambda>_. Free) (\<lambda>_. []) [0, 1, 2, 3]" using wheel4 by blast
  from Cancel_spec [OF q, of "timer_id 7 3 1"] have "Cancel q (timer_id 7 3 1) = Some (timer_id 7 3 1, q)"
    by (simp add: timer_id_def split: option.splits)
  then show ?thesis using Cancel_spec [OF q, of 0] Cancel_spec [OF q, of 5] by auto
qed

text \<open>The ids. For a type, a node position and a sequence number in range the encoding succeeds, the
  id is not the invalid one, and decoding gives the three parts back; two different timers never share
  an id.\<close>
theorem timer_id_roundtrip:
  assumes "0 \<le> ty" "ty < 2 ^ 16" "0 < pos" "pos \<le> MAX_TIMER_NODE_NUM" "0 < sq" "sq < 60000"
  shows "\<exists>tid. EncodeTimerId ty pos sq = Some tid \<and> DecodeTimerId tid = Some (True, ty, pos, sq) \<and>
    TimerId2Pos tid = Some pos \<and> tid \<noteq> C_INVALID_TIMER_ID"
proof -
  let ?i = "nat (pos - 1)"
  have i: "int ?i + 1 = pos" "int ?i < MAX_TIMER_NODE_NUM" using assms by simp_all
  have "u32 pos = pos" using assms by (intro u32_id) (auto simp: MAX_TIMER_NODE_NUM_def)
  then have "EncodeTimerId ty pos sq = Some (timer_id ty ?i sq)"
    using EncodeTimerId_value [OF assms(1,2,5,6) i(2)] i(1) by simp
  then show ?thesis
    using timer_id_parts [OF assms(1,2,5,6) i(2)] i(1)
    by (auto simp: TimerId2Pos_def C_INVALID_TIMER_ID_def)
qed

theorem timer_id_roundtrip_witness:
  "\<exists>tid. EncodeTimerId 7 1000 59999 = Some tid \<and> DecodeTimerId tid = Some (True, 7, 1000, 59999)"
  using timer_id_roundtrip [of 7 1000 59999] by (auto simp: MAX_TIMER_NODE_NUM_def)

text \<open>C9. The nodes are handed out safely. From any well-formed queue, along every list of calls of \<open>Schedule\<close> - any tasks
  with types below 200, delays and periods below \<open>2 ^ 31\<close>, any repeat counts, but not the count 0 without a period - and of \<open>Cancel\<close>, with
  any 64-bit ids: \<open>Schedule\<close> returns 0 and changes nothing exactly when all nodes hold waiting timers or the timer is to run more than once
  without a period, and otherwise the id of a timer in a node that holds no waiting timer; \<open>Cancel\<close> with the id of a waiting
  timer frees its node, with any other id, such as one that was cancelled, it changes nothing (an id comes back after 59999 timers in
  its node); only an id from 1 to \<open>2 ^ 32 - 1\<close>
  fails an assert.\<close>
theorem timer_nodes_safe:
  assumes "wheel_ok q w B F" and "\<forall>c \<in> set ops. timer_arg ttype c"
  shows "alloc_safe (timer_alloc ttype) timer_release timer_serves (\<lambda>tid. tid = 0 \<or> 2 ^ 32 \<le> tid) TimerId2Pos (m_count q) q
    (timer_ids q w) ops"
proof -
  have "timers_inv (m_count q) q (timer_ids q w)" using assms(1) by (auto simp: timers_inv_def)
  moreover have "cancel_arg = (\<lambda>tid. tid = 0 \<or> 2 ^ 32 \<le> tid)" by (simp add: fun_eq_iff cancel_arg_def C_INVALID_TIMER_ID_def)
  ultimately show ?thesis using tq.run_safe [OF _ assms(2)] by metis
qed

theorem timer_nodes_safe_witness:
  "\<exists>q :: nat timer_queue. alloc_safe (timer_alloc (\<lambda>_. 7)) timer_release timer_serves (\<lambda>tid. tid = 0 \<or> 2 ^ 32 \<le> tid) TimerId2Pos 4 q {}
     [OpAlloc (5, 0, 3, 2), OpFree (timer_id 7 0 2), OpFree (timer_id 7 0 2), OpAlloc (6, 1, 0, 1), OpAlloc (6, 1, 0, 2), OpFree 9]"
proof -
  obtain q :: "nat timer_queue" where q: "wheel_ok q (\<lambda>_. Free) (\<lambda>_. []) [0, 1, 2, 3]" "m_count q = 4" using wheel4 by blast
  have "timer_ids q (\<lambda>_. Free) = {}" by (simp add: timer_ids_def waiting_nodes_def)
  then show ?thesis
    using timer_nodes_safe [OF q(1), of "[OpAlloc (5, 0, 3, 2), OpFree (timer_id 7 0 2), OpFree (timer_id 7 0 2), OpAlloc (6, 1, 0, 1),
        OpAlloc (6, 1, 0, 2), OpFree 9]" "\<lambda>_. 7"] q(2)
    by (intro exI [of _ q]) (simp add: sched_args_def timer_id_def del: alloc_safe.simps)
qed

subsection \<open>The tick\<close>

text \<open>C12. \<open>Tick\<close> terminates and keeps the queue well-formed, when the tasks keep to \<open>tasks_ok\<close>: they may schedule
  and cancel any timers, their own and the next one in the bucket included, with task types below 200, delays and periods below \<open>2 ^ 31\<close>
  and ids that are 0 or at least \<open>2 ^ 32\<close>; but none may schedule a timer that is repeated 0 times without a period, which \<open>Schedule\<close>
  accepts and which then runs forever in one tick. The time is at most tick \<open>2 ^ 31\<close>, which is three years after the start. Afterwards the clock stands at
  the wall-clock tick (it never goes back) and no waiting timer is overdue.\<close>
theorem Tick_terminates:
  fixes q :: "'a timer_queue" and run :: "('a, 'e) task_run"
  assumes "wheel q" and "tasks_ok ttype run"
    and "tick_of_time (m_systemStart q) tv_sec tv_usec \<le> 2 ^ 31" and "tick_fuel q \<le> fuel"
  shows "\<exists>c q' e' w B F. Tick ttype run fuel tv_sec tv_usec q e = Some (c, q', e') \<and> wheel_ok q' w B F \<and>
    m_currentTick q' = max (m_currentTick q) (tick_of_time (m_systemStart q) tv_sec tv_usec) \<and>
    (\<forall>i<m_count q'. \<forall>b. w i = InBucket b \<longrightarrow> m_currentTick q' \<le> m_expire (tnodes q' ! i))"
proof -
  have k: "keeps (\<lambda>_. True) run t f c" for t f c by (simp add: keeps_def)
  from Tick_ok [where P = "\<lambda>_. True" and e = e, OF assms(2,1) refl assms(3,4) TrueI k]
  obtain c q' e' where r: "Tick ttype run fuel tv_sec tv_usec q e = Some (c, q', e')" "wheel q'"
    "m_currentTick q' = max (m_currentTick q) (tick_of_time (m_systemStart q) tv_sec tv_usec)" by blast
  from r(2) obtain w B F where "wheel_ok q' w B F" by (auto simp: wheel_def)
  then show ?thesis using r(1,3) wheel_okD(4) by blast
qed

definition rearm :: "(nat, unit) task_run" where
  "rearm i q e = ([CallSchedule 1 0 5 2, CallCancel (timer_id 7 1 2)], ())"

lemma rearm_ok: "tasks_ok (\<lambda>_. 7) rearm"
  by (simp add: tasks_ok_def rearm_def sched_args_def cancel_arg_def timer_id_def)

theorem Tick_terminates_witness:
  "\<exists>q :: nat timer_queue. \<exists>c q'. Tick (\<lambda>_. 7) rearm 25 1003 500000 q () = Some (c, q', ()) \<and> m_currentTick q' = 70"
proof -
  obtain q :: "nat timer_queue" where q: "wheel_ok q (\<lambda>_. Free) (\<lambda>_. []) [0, 1, 2, 3]" "m_count q = 4"
    "m_currentTick q = 0" "m_systemStart q = 1000" using wheel4 by blast
  have t: "tick_of_time 1000 1003 500000 = 70"
    by (simp add: tick_of_time_def C_TICK_COUNT_PER_SECOND_def c_div_nonneg u32_def)
  show ?thesis
    using Tick_terminates [OF wheelI [OF q(1)] rearm_ok, of 1003 500000 25 "()"] q t
    by (auto simp: tick_fuel_def)
qed

text \<open>A task runner that notes, for each task it runs, the clock and the expiry time of its timer.\<close>

definition noting :: "('a, 'e) task_run \<Rightarrow> ('a, 'e \<times> (int \<times> int \<times> int) list) task_run" where
  "noting run i q el = (let (cs, e') = run i q (fst el)
     in (cs, (e', snd el @ [(m_expire (tnodes q ! i), m_currentTick q, s_currentTick q)])))"

definition on_time :: "int \<Rightarrow> int \<Rightarrow> 'e \<times> (int \<times> int \<times> int) list \<Rightarrow> bool" where
  "on_time a b el \<longleftrightarrow> (\<forall>(x, c, f)\<in>set (snd el). c = x \<and> f = x \<and> a \<le> x \<and> x < b)"

lemma noting_tasks: "tasks_ok ttype run \<Longrightarrow> tasks_ok ttype (noting run)"
  by (auto simp: tasks_ok_def noting_def split_beta Let_def)

lemma noting_keeps: "a \<le> t \<Longrightarrow> t < b \<Longrightarrow> keeps (on_time a b) (noting run) t t t"
  by (auto simp: keeps_def noting_def on_time_def split_beta Let_def)

text \<open>C11. No task runs early or late: during a \<open>Tick\<close> every task that runs does so when both clocks,
  the queue's and the one the task reads, show exactly the expiry time of its timer, even when the
  call has to catch up on many ticks.\<close>
theorem Tick_on_time:
  assumes "wheel q" and "tasks_ok ttype run" and "tick_of_time (m_systemStart q) tv_sec tv_usec \<le> 2 ^ 31"
    and "tick_fuel q \<le> fuel"
  shows "\<exists>c q' e' notes. Tick ttype (noting run) fuel tv_sec tv_usec q (e, []) = Some (c, q', (e', notes)) \<and>
    (\<forall>(x, c, f)\<in>set notes. c = x \<and> f = x \<and> m_currentTick q \<le> x \<and>
       x < tick_of_time (m_systemStart q) tv_sec tv_usec)"
proof -
  let ?P = "on_time (m_currentTick q) (tick_of_time (m_systemStart q) tv_sec tv_usec)"
  have p0: "?P (e, [])" by (simp add: on_time_def)
  from Tick_ok [where P = ?P, OF noting_tasks [OF assms(2)] assms(1) refl assms(3,4) p0 noting_keeps]
  obtain c q' el where "Tick ttype (noting run) fuel tv_sec tv_usec q (e, []) = Some (c, q', el)" "?P el" by blast
  then show ?thesis by (cases el) (auto simp: on_time_def)
qed

theorem Tick_on_time_witness:
  "\<exists>q :: nat timer_queue. \<exists>c q' notes. Tick (\<lambda>_. 7) (noting rearm) 25 1003 500000 q ((), []) = Some (c, q', ((), notes)) \<and>
     (\<forall>(x, c, f)\<in>set notes. c = x \<and> f = x \<and> x < 70)"
proof -
  obtain q :: "nat timer_queue" where q: "wheel_ok q (\<lambda>_. Free) (\<lambda>_. []) [0, 1, 2, 3]" "m_count q = 4"
    "m_currentTick q = 0" "m_systemStart q = 1000" using wheel4 by blast
  have t: "tick_of_time 1000 1003 500000 = 70"
    by (simp add: tick_of_time_def C_TICK_COUNT_PER_SECOND_def c_div_nonneg u32_def)
  show ?thesis
    using Tick_on_time [OF wheelI [OF q(1)] rearm_ok, of 1003 500000 25 "()"] q t
    by (fastforce simp: tick_fuel_def)
qed

text \<open>\<open>SkipTick\<close>, after the clock was set forward, terminates as well, keeps the queue well-formed
  and leaves both clocks at the new time.\<close>
theorem SkipTick_terminates:
  fixes q :: "'a timer_queue" and run :: "('a, 'e) task_run"
  assumes "wheel q" and "tasks_ok ttype run" and "now = tick_of_time (m_systemStart q) tv_sec tv_usec"
    and "m_currentTick q < now" "now < 2 ^ 31" and "tick_fuel q \<le> fuel"
  shows "\<exists>c q' e'. SkipTick ttype run fuel tv_sec tv_usec q e = Some (c, q', e') \<and> wheel q' \<and>
    m_currentTick q' = now \<and> s_currentTick q' = now"
proof -
  let ?q = "q\<lparr>s_currentTick := now\<rparr>"
  have w: "wheel ?q" using assms wheel_times [OF assms(1)] by (intro wheel_set_fw) auto
  have n: "m_currentTick q + int (nat (now - m_currentTick q)) = now" using assms(4) by simp
  have "\<exists>c q' e'. skip_from ttype run fuel (nat (now - m_currentTick q)) ?q e 0 = Some (c, q', e') \<and> wheel q' \<and>
      m_currentTick q' = m_currentTick ?q + int (nat (now - m_currentTick q)) \<and> s_currentTick q' = s_currentTick ?q"
    using n assms(6) by (intro skip_from_ok [OF assms(2) w]) (auto simp: tick_fuel_def)
  then show ?thesis using n assms(4) by (simp add: SkipTick_def Let_def assms(3) [symmetric])
qed

theorem SkipTick_terminates_witness:
  "\<exists>q :: nat timer_queue. \<exists>c q'. SkipTick (\<lambda>_. 7) rearm 25 1003 500000 q () = Some (c, q', ()) \<and> s_currentTick q' = 70"
proof -
  obtain q :: "nat timer_queue" where q: "wheel_ok q (\<lambda>_. Free) (\<lambda>_. []) [0, 1, 2, 3]" "m_count q = 4"
    "m_currentTick q = 0" "m_systemStart q = 1000" using wheel4 by blast
  have t: "70 = tick_of_time (m_systemStart q) 1003 500000"
    by (simp add: q(4) tick_of_time_def C_TICK_COUNT_PER_SECOND_def c_div_nonneg u32_def)
  show ?thesis
    using SkipTick_terminates [OF wheelI [OF q(1)] rearm_ok t, of 25 "()"] q
    by (auto simp: tick_fuel_def)
qed

subsection \<open>Shared memory at another address\<close>

text \<open>The queue as it is found when its memory is mapped \<open>d\<close> bytes higher.\<close>

definition moved :: "int \<Rightarrow> 'a timer_queue \<Rightarrow> 'a timer_queue" where
  "moved d q = q\<lparr>self := self q + d, lmem := (\<lambda>a. lmem q (a - d))\<rparr>"

lemma chain_moved: "chain (\<lambda>a. l (a - d)) (a + d) (map (\<lambda>x. x + d) xs) (b + d) = chain l a xs b"
  by (induction xs arbitrary: a) (simp_all add: joined_def)

lemma dlist_moved: "dlist (\<lambda>a. l (a - d)) (b + d) (map (\<lambda>x. x + d) xs) = dlist l b xs"
proof -
  have "distinct (map (\<lambda>x. x + d) (b # xs)) = distinct (b # xs)"
    by (simp only: distinct_map) (simp add: inj_on_def)
  then show ?thesis using chain_moved [of l d b xs b] unfolding dlist_def list.map(2) by simp
qed

lemma free_stack_moved: "free_stack (\<lambda>i. na i + d) (\<lambda>a. l (a - d)) tp xs = free_stack na l tp xs"
  by (induction xs arbitrary: tp) simp_all

lemma links_moved:
  "links_ok (\<lambda>a. l (a - d)) (\<lambda>i. na i + d) (\<lambda>b. ba b + d) n tp w B F = links_ok l na ba n tp w B F"
proof -
  have "map (\<lambda>i. na i + d) xs = map (\<lambda>x. x + d) (map na xs)" for xs by simp
  then show ?thesis unfolding links_ok_def by (simp only: dlist_moved free_stack_moved) simp
qed

lemma moved_addr: "node_addr (moved d q) = (\<lambda>i. node_addr q i + d)" "bucket_addr (moved d q) = (\<lambda>b. bucket_addr q b + d)"
  by (simp_all add: moved_def node_addr_def bucket_addr_def fun_eq_iff)

lemma wheel_moved:
  assumes "wheel_ok q w B F" and "even d"
  shows "wheel_ok (moved d q) w B F"
proof -
  have f: "tnodes (moved d q) = tnodes q" "m_count (moved d q) = m_count q" "free_top (moved d q) = free_top q"
    "m_currentTick (moved d q) = m_currentTick q" "s_currentTick (moved d q) = s_currentTick q"
    "lmem (moved d q) = (\<lambda>a. lmem q (a - d))" "self (moved d q) = self q + d"
    "m_timerCount (moved d q) = m_timerCount q"
    by (simp_all add: moved_def)
  show ?thesis
    using assms links_moved [of "lmem q" d "node_addr q" "bucket_nat q"]
    by (simp add: wheel_ok_def tq_ok_def tq_layout_def f moved_addr)
qed

lemma wheel_ok_cong:
  assumes "wheel_ok q w B F" and "self q' = self q" "lmem q' = lmem q" "m_count q' = m_count q"
    "free_top q' = free_top q" "m_currentTick q' = m_currentTick q" "s_currentTick q' = m_currentTick q"
    and "m_currentTick q < 2 ^ 31" "length (m_timerCount q') = MAX_TIMER_NUM"
    and nodes: "length (tnodes q') = m_count q"
      "\<And>i. i < m_count q \<Longrightarrow> \<exists>x. tnodes q' ! i = (tnodes q ! i)\<lparr>m_taskData := x\<rparr>"
  shows "wheel_ok q' w B F"
proof -
  note d = wheel_okD [OF assms(1)]
  have ad: "node_addr q' = node_addr q" "bucket_addr q' = bucket_addr q"
    using assms(2) by (simp_all add: node_addr_def bucket_addr_def fun_eq_iff)
  have n: "seq_ok (tnodes q' ! i) = seq_ok (tnodes q ! i) \<and> place_ok (tnodes q' ! i) p = place_ok (tnodes q ! i) p \<and>
      m_expire (tnodes q' ! i) = m_expire (tnodes q ! i)" if i: "i < m_count q" for i p
  proof -
    obtain x where x: "tnodes q' ! i = (tnodes q ! i)\<lparr>m_taskData := x\<rparr>" using nodes(2) [OF i] by blast
    show ?thesis by (simp add: x seq_ok_def place_ok_def timer_ok_def busy_ok_def base_ok_def split: place.split)
  qed
  have "tq_ok q' w B F"
    using assms(2-5,9) nodes(1) tq_okD(1,3-5) [OF d(1)] n by (simp add: tq_ok_def tq_layout_def ad)
  then show ?thesis using assms(4,6-8) d(2-5) n by (simp add: wheel_ok_def)
qed

lemma resume_queue:
  assumes "wheel_ok q w B F" and "even d" and "m_currentTick q < 2 ^ 31"
    and "sizeof_CTimerQueue + int (m_count q) * sizeof_NodeType \<le> buffer_size"
  obtains q' where "CreateTimerQueue rt tv_sec (self q + d) (moved d q) buffer_size (m_count q) True =
      Some (Inr (sizeof_CTimerQueue + int (m_count q) * sizeof_NodeType, q'))"
    "wheel_ok q' w B F" "m_currentTick q' = m_currentTick q" "m_systemStart q' = m_systemStart q" "m_count q' = m_count q"
    "m_timerCount q' = replicate MAX_TIMER_NUM 0" "\<And>i. i < m_count q \<Longrightarrow> \<exists>x. tnodes q' ! i = (tnodes q ! i)\<lparr>m_taskData := x\<rparr>"
    "\<And>i b. i < m_count q \<Longrightarrow> w i = InBucket b \<Longrightarrow>
      tnodes q' ! i = (tnodes q ! i)\<lparr>m_taskData := rt (m_timerType (tnodes q ! i)) (m_taskData (tnodes q ! i))\<rparr>"
proof -
  have lay: "0 < m_count q" "int (m_count q) < MAX_TIMER_NODE_NUM" "length (tnodes q) = m_count q"
    using tq_okD(1) [OF wheel_okD(1) [OF assms(1)]] by (simp_all add: tq_layout_def)
  let ?m = "(moved d q)\<lparr>self := self q + d, m_runFlag := None\<rparr>"
  let ?f = "\<lambda>i. if is_in_stack (lmem ?m (node_addr ?m i)) then tnodes ?m ! i
      else (tnodes ?m ! i)\<lparr>m_taskData := rt (m_timerType (tnodes ?m ! i)) (m_taskData (tnodes ?m ! i))\<rparr>"
  let ?q = "SetGlobalRunFlag (InitTimerCount (?m\<lparr>s_currentTick := m_currentTick ?m,
      tnodes := map ?f [0..<m_count q]\<rparr>)) None"
  have mc: "m_count (moved d q) = m_count q" by (simp add: moved_def)
  obtain q' where p: "q' = ?q" by blast
  have q': "CreateTimerQueue rt tv_sec (self q + d) (moved d q) buffer_size (m_count q) True =
      Some (Inr (sizeof_CTimerQueue + int (m_count q) * sizeof_NodeType, q'))"
    unfolding p using lay assms(4) mc by (simp add: CreateTimerQueue_def Let_def)
  have f: "self q' = self (moved d q)" "lmem q' = lmem (moved d q)" "m_count q' = m_count (moved d q)"
    "free_top q' = free_top (moved d q)" "m_currentTick q' = m_currentTick (moved d q)"
    "s_currentTick q' = m_currentTick (moved d q)" "m_timerCount q' = replicate MAX_TIMER_NUM 0"
    "tnodes q' = map ?f [0..<m_count q]" "m_systemStart q' = m_systemStart q"
    by (simp_all add: p moved_def SetGlobalRunFlag_def InitTimerCount_def)
  have same: "\<exists>x. nd = nd\<lparr>m_taskData := x\<rparr>" for nd :: "'a timer_node"
    by (rule exI [of _ "m_taskData nd"]) simp
  have n: "\<exists>x. tnodes q' ! i = (tnodes q ! i)\<lparr>m_taskData := x\<rparr>" if "i < m_count q" for i
    using that same [of "tnodes q ! i"] by (auto simp: f(8) moved_def)
  have ok: "wheel_ok q' w B F"
  proof (rule wheel_ok_cong [OF wheel_moved [OF assms(1,2)] f(1-6)])
    show "m_currentTick (moved d q) < 2 ^ 31" "length (m_timerCount q') = MAX_TIMER_NUM"
      "length (tnodes q') = m_count (moved d q)"
      using assms(3) f(7,8) by (simp_all add: moved_def)
    show "\<exists>x. tnodes q' ! i = (tnodes (moved d q) ! i)\<lparr>m_taskData := x\<rparr>" if "i < m_count (moved d q)" for i
      using n [of i] that by (simp add: moved_def)
  qed
  have "tnodes q' ! i = (tnodes q ! i)\<lparr>m_taskData := rt (m_timerType (tnodes q ! i)) (m_taskData (tnodes q ! i))\<rparr>"
    if "i < m_count q" "w i = InBucket b" for i b
  proof -
    have "\<not> is_in_stack (lmem q (node_addr q i))"
      using place_of_links(2) [OF tq_okD(2,3) [OF wheel_okD(1) [OF assms(1)]] that] by simp
    then have "\<not> is_in_stack (lmem ?m (node_addr ?m i))" by (simp add: moved_def node_addr_def algebra_simps)
    then show ?thesis using that(1) by (simp add: f(8) moved_def)
  qed
  then show thesis using that q' ok f(3,5,7,9) n by (simp add: moved_def)
qed

text \<open>A timer queue survives a restart: when its memory is mapped again, at any address an even
  number of bytes away, \<open>CreateTimerQueue\<close> with \<open>resume\<close> finds every timer in its bucket and every free
  node on the stack, because lists and stack hold offsets and indices only. Node contents other than
  the task data are kept; the type counters start from zero.\<close>
theorem resume_at_other_address:
  assumes "wheel_ok q w B F" and "even d" and "m_currentTick q < 2 ^ 31"
    and "sizeof_CTimerQueue + int (m_count q) * sizeof_NodeType \<le> buffer_size"
  shows "\<exists>q'. CreateTimerQueue rt tv_sec (self q + d) (moved d q) buffer_size (m_count q) True =
      Some (Inr (sizeof_CTimerQueue + int (m_count q) * sizeof_NodeType, q')) \<and>
    wheel_ok q' w B F \<and> m_currentTick q' = m_currentTick q \<and> m_timerCount q' = replicate MAX_TIMER_NUM 0 \<and>
    (\<forall>i<m_count q. \<exists>x. tnodes q' ! i = (tnodes q ! i)\<lparr>m_taskData := x\<rparr>)"
proof -
  obtain q' where "CreateTimerQueue rt tv_sec (self q + d) (moved d q) buffer_size (m_count q) True =
      Some (Inr (sizeof_CTimerQueue + int (m_count q) * sizeof_NodeType, q'))"
    "wheel_ok q' w B F" "m_currentTick q' = m_currentTick q" "m_timerCount q' = replicate MAX_TIMER_NUM 0"
    "\<And>i. i < m_count q \<Longrightarrow> \<exists>x. tnodes q' ! i = (tnodes q ! i)\<lparr>m_taskData := x\<rparr>"
    by (rule resume_queue [OF assms, of rt tv_sec]) blast
  then show ?thesis by blast
qed

theorem resume_at_other_address_witness:
  "\<exists>q q' :: nat timer_queue. CreateTimerQueue (\<lambda>_ x. x) 2000 (self q + 65536) (moved 65536 q) 600000 (m_count q) True =
     Some (Inr (577352, q')) \<and> wheel q'"
proof -
  obtain q :: "nat timer_queue" where q: "wheel_ok q (\<lambda>_. Free) (\<lambda>_. []) [0, 1, 2, 3]" "m_count q = 4"
    "m_currentTick q = 0" using wheel4 by blast
  have sz: "sizeof_CTimerQueue + int (m_count q) * sizeof_NodeType = 577352"
    by (simp add: q(2) sizeof_CTimerQueue_def sizeof_NodeType_def)
  obtain q' where r: "CreateTimerQueue (\<lambda>_ x. x) 2000 (self q + 65536) (moved 65536 q) 600000 (m_count q) True =
      Some (Inr (577352, q'))" "wheel_ok q' (\<lambda>_. Free) (\<lambda>_. []) [0, 1, 2, 3]"
    using resume_at_other_address [OF q(1), of 65536 600000 "\<lambda>_ x. x" 2000] sz q(3) by auto
  show ?thesis using r(1) wheelI [OF r(2)] by blast
qed

end
