(* ===== verification/Bump.thy ===== *)
theory Bump
  imports Prelude
begin

text \<open>
  The interface of the program's allocators that never grab a single block back: the object pool
  manager carves pools and objects out of one buffer, the configuration parser's memory pool hands
  out strings until it is emptied as a whole. A request that fails leaves the state as it was.
  \<open>used s\<close> is a set of addresses that contains those handed out and those skipped for alignment.
\<close>

type_synonym block = "int \<times> int"

definition addrs :: "block \<Rightarrow> int set" where
  "addrs b = {fst b..<fst b + snd b}"

fun bump_run :: "('s \<Rightarrow> 'r \<Rightarrow> (block \<times> 's) option) \<Rightarrow> 's \<Rightarrow> 'r list \<Rightarrow> block list \<times> 's" where
  "bump_run grab s [] = ([], s)"
| "bump_run grab s (r # rs) = (case grab s r of
     None \<Rightarrow> bump_run grab s rs
   | Some (b, s1) \<Rightarrow> let (bs, s2) = bump_run grab s1 rs in (b # bs, s2))"

fun apart :: "block list \<Rightarrow> bool" where
  "apart [] = True"
| "apart (b # bs) = ((\<forall>c\<in>set bs. addrs b \<inter> addrs c = {}) \<and> apart bs)"

locale bump =
  fixes grab :: "'s \<Rightarrow> 'r \<Rightarrow> (block \<times> 's) option"
    and inv :: "'s \<Rightarrow> bool"
    and used :: "'s \<Rightarrow> int set"
    and space :: "'s \<Rightarrow> int set"
  assumes grab_law: "inv s \<Longrightarrow> grab s r = Some (b, s') \<Longrightarrow>
      inv s' \<and> used s \<union> addrs b \<subseteq> used s' \<and> used s \<inter> addrs b = {}"
    and space_law: "inv s \<Longrightarrow> used s \<subseteq> space s"
begin

lemma run_apart:
  "inv s \<Longrightarrow> bump_run grab s rs = (bs, s') \<Longrightarrow>
   inv s' \<and> apart bs \<and> used s \<union> (\<Union>b\<in>set bs. addrs b) \<subseteq> used s' \<and> (\<forall>b\<in>set bs. used s \<inter> addrs b = {})"
proof (induction rs arbitrary: s bs)
  case (Cons r rs)
  show ?case
  proof (cases "grab s r")
    case None
    with Cons show ?thesis by simp
  next
    case (Some p)
    obtain b s1 where p: "p = (b, s1)" by fastforce
    obtain cs s2 where run: "bump_run grab s1 rs = (cs, s2)" by fastforce
    have bs: "bs = b # cs" "s' = s2" using Cons.prems(2) Some p run by simp_all
    have "grab s r = Some (b, s1)" using Some p by simp
    note t = grab_law [OF Cons.prems(1) this]
    note i = Cons.IH [OF conjunct1 [OF t] run [folded bs(2)]]
    have "\<forall>c\<in>set cs. addrs b \<inter> addrs c = {} \<and> used s \<inter> addrs c = {}" using t i by blast
    then show ?thesis using t i bs by auto
  qed
qed simp

lemma run_inside: "inv s \<Longrightarrow> bump_run grab s rs = (bs, s') \<Longrightarrow> b \<in> set bs \<Longrightarrow> addrs b \<subseteq> space s'"
  using run_apart space_law by blast

end

end
