(* ===== verification/PoolMgr.thy ===== *)
theory PoolMgr
  imports Align Bump
begin

text \<open>
  The object pool manager \<open>CObjPoolMgr\<close> of \<open>common/jybase/obj_pool.{h,cc}\<close>: it carves pools, single
  objects and buffers out of one piece of memory, from \<open>m_nextPoolBuffer\<close> upwards.

  \<^item> \<open>PoolSize\<close>, \<open>InsertPool\<close> and \<open>FindPool\<close> are declared without a body in the repository: the size
    function and the registry operation are parameters.
  \<^item> \<open>Inl ()\<close> is the exception for insufficient memory, \<open>None\<close> a failed assert.
  \<^item> \<open>CreatePool\<close> and \<open>CreateObj\<close> construct an object and return 0; their models also give the address at which it is
    constructed.
\<close>

record 'g pool_mgr =
  m_nextPoolBuffer :: int
  m_capacity :: int
  m_tq :: "int option"
  m_resume :: bool
  m_ResumeFix :: int
  registry :: 'g

text \<open>\<open>word\<close> is the pointer that an earlier run stored at the start of the buffer.\<close>

definition CObjPoolMgr :: "int \<Rightarrow> int \<Rightarrow> bool \<Rightarrow> int \<Rightarrow> 'g \<Rightarrow> 'g pool_mgr" where
  "CObjPoolMgr buffer capacity resume word g =
     \<lparr>m_nextPoolBuffer = buffer + ALIGN_SIZE 8 8, m_capacity = capacity, m_tq = None, m_resume = resume,
      m_ResumeFix = (if resume then buffer - word else 0), registry = g\<rparr>"

definition carve :: "int \<Rightarrow> 'g pool_mgr \<Rightarrow> 'g pool_mgr" where
  "carve n m = m\<lparr>m_capacity := m_capacity m - n, m_nextPoolBuffer := m_nextPoolBuffer m + n\<rparr>"

definition mgr_CreatePool ::
  "(int \<Rightarrow> int \<Rightarrow> int) \<Rightarrow> (int \<Rightarrow> int \<Rightarrow> 'g \<Rightarrow> 'g) \<Rightarrow> 'g pool_mgr \<Rightarrow> int \<Rightarrow> int \<Rightarrow> int \<Rightarrow>
   unit + int \<times> int \<times> 'g pool_mgr" where
  "mgr_CreatePool PoolSize InsertPool m otyp unit_size count =
     (let need = PoolSize unit_size count; pool = m_nextPoolBuffer m
      in if m_capacity m < need then Inl ()
         else Inr (0, pool, carve need (m\<lparr>registry := InsertPool otyp pool (registry m)\<rparr>)))"

definition CreateObj :: "'g pool_mgr \<Rightarrow> int \<Rightarrow> unit + int \<times> int \<times> 'g pool_mgr" where
  "CreateObj m unit_size =
     (let n = ALIGN_SIZE unit_size 4
      in if m_capacity m < n then Inl () else Inr (0, m_nextPoolBuffer m, carve n m))"

definition CreateBuffer :: "'g pool_mgr \<Rightarrow> int \<Rightarrow> unit + int \<times> 'g pool_mgr" where
  "CreateBuffer m unit_size =
     (let n = ALIGN_SIZE unit_size 4
      in if m_capacity m < n then Inl () else Inr (m_nextPoolBuffer m, carve n m))"

definition mgr_Allocate :: "'g pool_mgr \<Rightarrow> int \<Rightarrow> (int \<times> 'g pool_mgr) option" where
  "mgr_Allocate m n = (if n \<le> m_capacity m then Some (m_nextPoolBuffer m, carve n m) else None)"

text \<open>
  \<open>create\<close> is \<open>CTimerQueue::CreateTimerQueue\<close> at the next address with the capacity: the exception,
  the null pointer, or the bytes it took.
\<close>

definition mgr_CreateTimerQueue ::
  "(int \<Rightarrow> int \<Rightarrow> int \<Rightarrow> bool \<Rightarrow> unit + int option) \<Rightarrow> 'g pool_mgr \<Rightarrow> int \<Rightarrow>
   (unit + int option \<times> 'g pool_mgr) option" where
  "mgr_CreateTimerQueue create m count =
     (if m_tq m \<noteq> None then None
      else Some (case create (m_nextPoolBuffer m) (m_capacity m) count (m_resume m) of
          Inl e \<Rightarrow> Inl e
        | Inr None \<Rightarrow> Inr (None, m)
        | Inr (Some used) \<Rightarrow> Inr (Some (m_nextPoolBuffer m),
            carve used (m\<lparr>m_tq := Some (m_nextPoolBuffer m)\<rparr>))))"

text \<open>
  \<open>CreateTimerQueue4MProtect\<close> creates the queue, does not keep a pointer to it, and protects the whole pages in
  its memory. The result is the range given to \<open>mprotect\<close>, if there is one, and the state; the function itself
  always returns a null pointer. \<open>page\<close> is the page size.
\<close>

function protect_loop :: "int \<Rightarrow> int \<Rightarrow> int \<Rightarrow> int \<Rightarrow> int" where
  "protect_loop page nx addr2 len =
     (if 0 < page \<and> addr2 < nx then protect_loop page nx (addr2 + page) (i32 (len + page)) else len)"
  by pat_completeness auto

termination by (relation "measure (\<lambda>(page, nx, addr2, len). nat (nx - addr2))") auto

declare protect_loop.simps [simp del]

definition CreateTimerQueue4MProtect ::
  "(int \<Rightarrow> int \<Rightarrow> int \<Rightarrow> bool \<Rightarrow> unit + int option) \<Rightarrow> int \<Rightarrow> 'g pool_mgr \<Rightarrow> int \<Rightarrow>
   unit + (int \<times> int) option \<times> 'g pool_mgr" where
  "CreateTimerQueue4MProtect create page m count =
     (case create (m_nextPoolBuffer m) (m_capacity m) count (m_resume m) of
        Inl e \<Rightarrow> Inl e
      | Inr r \<Rightarrow>
          let m1 = carve (case r of None \<Rightarrow> m_capacity m | Some used \<Rightarrow> used) m;
              addr1 = (m_nextPoolBuffer m + page - 1) div page * page;
              len = protect_loop page (m_nextPoolBuffer m1) (addr1 + page) 0
          in Inr (if len = 0 then None else Some (addr1, len), m1))"

lemma protect_loop_pages:
  assumes "0 < page" and "0 \<le> len" and "len + (nx - addr2) + page < 2 ^ 31" and "len + page < 2 ^ 31"
  shows "\<exists>k \<ge> 0. protect_loop page nx addr2 len = len + k * page \<and> nx \<le> addr2 + k * page \<and>
    (k = 0 \<or> addr2 + (k - 1) * page < nx)"
  using assms
proof (induction page nx addr2 len rule: protect_loop.induct)
  case (1 page nx addr2 len)
  show ?case
  proof (cases "addr2 < nx")
    case True
    then have w: "i32 (len + page) = len + page" using 1(2, 3, 5) by (intro i32_id) simp_all
    have "\<exists>k \<ge> 0. protect_loop page nx (addr2 + page) (len + page) = len + page + k * page \<and> nx \<le> addr2 + page + k * page \<and>
        (k = 0 \<or> addr2 + page + (k - 1) * page < nx)"
    proof (cases "addr2 + page < nx")
      case more: True
      then show ?thesis using 1(1) [unfolded w] True 1(2-5) by simp
    next
      case False
      then have "protect_loop page nx (addr2 + page) (len + page) = len + page" by (simp add: protect_loop.simps)
      then show ?thesis using False by (intro exI [of _ 0]) simp
    qed
    then obtain k where k: "0 \<le> k" "protect_loop page nx (addr2 + page) (len + page) = len + page + k * page"
      "nx \<le> addr2 + page + k * page" "k = 0 \<or> addr2 + page + (k - 1) * page < nx" by blast
    have "protect_loop page nx addr2 len = len + (k + 1) * page"
      using k(2) True 1(2) w by (subst protect_loop.simps) (simp add: distrib_right)
    moreover have "addr2 + (k + 1 - 1) * page < nx" using k(4) True by (auto simp: left_diff_distrib)
    ultimately show ?thesis using k(1, 3) by (intro exI [of _ "k + 1"]) (simp add: distrib_right)
  next
    case False
    then have "protect_loop page nx addr2 len = len" by (subst protect_loop.simps) simp
    then show ?thesis using False by (intro exI [of _ 0]) simp
  qed
qed

text \<open>The protected range is made of whole pages of the queue's memory, and what is left behind it is at most a page -
  a whole one exactly when the memory ends at the end of a page.\<close>
theorem protect_inside:
  assumes "0 < page" "page < 2 ^ 30" and "0 \<le> n" "n < 2 ^ 30"
    and "create (m_nextPoolBuffer m) (m_capacity m) count (m_resume m) = Inr (Some n)"
    and "CreateTimerQueue4MProtect create page m count = Inr (Some (a, len), m')"
  shows "m_nextPoolBuffer m \<le> a \<and> a + len < m_nextPoolBuffer m' \<and> m_nextPoolBuffer m' \<le> a + len + page \<and>
    page dvd a \<and> page dvd len \<and> 0 < len"
proof -
  let ?b = "m_nextPoolBuffer m"
  let ?a = "(?b + page - 1) div page * page"
  have m': "m_nextPoolBuffer m' = ?b + n" and a: "a = ?a"
    and len: "len = protect_loop page (?b + n) (?a + page) 0" "len \<noteq> 0"
    using assms(5, 6) by (auto simp: CreateTimerQueue4MProtect_def carve_def Let_def split: if_splits)
  have "(?b + page - 1) div page * page + (?b + page - 1) mod page = ?b + page - 1" by simp
  moreover have "0 \<le> (?b + page - 1) mod page" "(?b + page - 1) mod page < page" using assms(1) by simp_all
  ultimately have low: "?b \<le> ?a" by linarith
  then have "0 + (?b + n - (?a + page)) + page < 2 ^ 31" "0 + page < 2 ^ 31" using assms(2, 4) by simp_all
  from protect_loop_pages [OF assms(1) order_refl this] obtain k where k: "0 \<le> k" "len = k * page"
    "?b + n \<le> ?a + page + k * page" "k = 0 \<or> ?a + page + (k - 1) * page < ?b + n"
    unfolding len(1) by auto
  then have "0 < k" using len(2) by (cases "k = 0") auto
  then have "0 < len" "a + len < ?b + n" "?b + n \<le> a + len + page"
    using k assms(1) by (auto simp: a left_diff_distrib)
  then show ?thesis using low k(2) by (simp add: m' a)
qed

lemma protect_inside_witness:
  "\<exists>m'. CreateTimerQueue4MProtect (\<lambda>b c n r. Inr (Some 10000)) 4096 (CObjPoolMgr 5000 90000 False 0 ()) 9 = Inr (Some (8192, 4096), m') \<and>
     8192 + 4096 < m_nextPoolBuffer m'"
proof -
  have "protect_loop 4096 15008 12288 0 = 4096" by code_simp
  moreover have "ALIGN_SIZE 8 8 = 8" by code_simp
  ultimately obtain m' where "CreateTimerQueue4MProtect (\<lambda>b c n r. Inr (Some 10000)) 4096 (CObjPoolMgr 5000 90000 False 0 ()) 9 = Inr (Some (8192, 4096), m')"
    by (simp add: CreateTimerQueue4MProtect_def CObjPoolMgr_def carve_def)
  with protect_inside [OF _ _ _ _ _ this, of 10000] show ?thesis by auto
qed

subsection \<open>The blocks it hands out\<close>

datatype mgr_req = ReqPool int int int | ReqObj int | ReqBuffer int | ReqRaw int

definition req_ok :: "(int \<Rightarrow> int \<Rightarrow> int) \<Rightarrow> mgr_req \<Rightarrow> bool" where
  "req_ok PoolSize r = (case r of
     ReqPool ty u n \<Rightarrow> 0 \<le> PoolSize u n
   | ReqObj n \<Rightarrow> 0 \<le> n \<and> n + 4 \<le> 2 ^ 64 | ReqBuffer n \<Rightarrow> 0 \<le> n \<and> n + 4 \<le> 2 ^ 64 | ReqRaw n \<Rightarrow> 0 \<le> n)"

text \<open>The block a successful call gives: the address that is returned, or at which the object is constructed, and the size
  that was asked for. The size function is part of the state.\<close>

type_synonym 'g mgr_state = "(int \<Rightarrow> int \<Rightarrow> int) \<times> (int \<Rightarrow> int \<Rightarrow> 'g \<Rightarrow> 'g) \<times> 'g pool_mgr"

definition mgr_take :: "'g mgr_state \<Rightarrow> mgr_req \<Rightarrow> (block \<times> 'g mgr_state) option" where
  "mgr_take s r = (case s of (ps, ins, m) \<Rightarrow>
     if \<not> req_ok ps r then None
     else case r of
         ReqPool ty u n \<Rightarrow> (case mgr_CreatePool ps ins m ty u n of Inl _ \<Rightarrow> None | Inr (_, a, m') \<Rightarrow> Some ((a, ps u n), ps, ins, m'))
       | ReqObj n \<Rightarrow> (case CreateObj m n of Inl _ \<Rightarrow> None | Inr (_, a, m') \<Rightarrow> Some ((a, n), ps, ins, m'))
       | ReqBuffer n \<Rightarrow> (case CreateBuffer m n of Inl _ \<Rightarrow> None | Inr (a, m') \<Rightarrow> Some ((a, n), ps, ins, m'))
       | ReqRaw n \<Rightarrow> (case mgr_Allocate m n of None \<Rightarrow> None | Some (a, m') \<Rightarrow> Some ((a, n), ps, ins, m')))"

lemma mgr_take_carve:
  assumes "mgr_take (ps, ins, m) r = Some (b, s')"
  shows "\<exists>n m'. 0 \<le> snd b \<and> snd b \<le> n \<and> n \<le> m_capacity m \<and> fst b = m_nextPoolBuffer m \<and> s' = (ps, ins, m') \<and>
    m_nextPoolBuffer m' = m_nextPoolBuffer m + n \<and> m_capacity m' = m_capacity m - n"
proof (cases r)
  case (ReqPool ty u n)
  then show ?thesis
    using assms by (auto simp: mgr_take_def mgr_CreatePool_def Let_def carve_def req_ok_def split: if_splits)
next
  case (ReqObj n)
  then show ?thesis
    using assms ALIGN_SIZE_4(1) [of n]
    by (auto simp: mgr_take_def CreateObj_def Let_def carve_def req_ok_def split: if_splits)
next
  case (ReqBuffer n)
  then show ?thesis
    using assms ALIGN_SIZE_4(1) [of n]
    by (auto simp: mgr_take_def CreateBuffer_def Let_def carve_def req_ok_def split: if_splits)
next
  case (ReqRaw n)
  then show ?thesis
    using assms by (auto simp: mgr_take_def mgr_Allocate_def carve_def req_ok_def split: if_splits)
qed

text \<open>The start address and the total are what the invariant fixes.\<close>

definition mgr_inv :: "int \<times> int \<Rightarrow> 'g mgr_state \<Rightarrow> bool" where
  "mgr_inv k s = (case s of (ps, ins, m) \<Rightarrow>
     fst k \<le> m_nextPoolBuffer m \<and> 0 \<le> m_capacity m \<and> m_nextPoolBuffer m + m_capacity m = snd k)"

definition mgr_used :: "int \<times> int \<Rightarrow> 'g mgr_state \<Rightarrow> int set" where
  "mgr_used k s = (case s of (ps, ins, m) \<Rightarrow> {fst k..<m_nextPoolBuffer m})"

interpretation mgr: bump mgr_take "mgr_inv k" "mgr_used k" "\<lambda>s. {fst k..<snd k}"
proof
  fix s s' :: "'a mgr_state" and r b
  assume inv: "mgr_inv k s" and grab: "mgr_take s r = Some (b, s')"
  obtain ps ins m where s: "s = (ps, ins, m)" by (cases s) auto
  from grab s mgr_take_carve [of ps ins m r b s'] obtain n m' where
    c: "0 \<le> snd b" "snd b \<le> n" "n \<le> m_capacity m" "fst b = m_nextPoolBuffer m" "s' = (ps, ins, m')"
      "m_nextPoolBuffer m' = m_nextPoolBuffer m + n" "m_capacity m' = m_capacity m - n" by auto
  show "mgr_inv k s' \<and> mgr_used k s \<union> addrs b \<subseteq> mgr_used k s' \<and> mgr_used k s \<inter> addrs b = {}"
    using inv s c by (auto simp: mgr_inv_def mgr_used_def addrs_def)
next
  fix s :: "'a mgr_state"
  assume "mgr_inv k s"
  then show "mgr_used k s \<subseteq> {fst k..<snd k}" by (auto simp: mgr_inv_def mgr_used_def)
qed

lemma mgr_run_bounds:
  "mgr_inv k s \<Longrightarrow> bump_run mgr_take s rs = (bs, s') \<Longrightarrow> b \<in> set bs \<Longrightarrow>
   fst k \<le> fst b \<and> fst b + snd b \<le> snd k \<and> 0 \<le> snd b"
proof (induction rs arbitrary: s bs)
  case (Cons r rs)
  show ?case
  proof (cases "mgr_take s r")
    case None
    with Cons show ?thesis by simp
  next
    case (Some t)
    obtain b1 s1 where t: "mgr_take s r = Some (b1, s1)" using Some by (cases t) auto
    obtain cs s2 where run: "bump_run mgr_take s1 rs = (cs, s2)" by (cases "bump_run mgr_take s1 rs")
    have bs: "bs = b1 # cs" "s' = s2" using Cons.prems(2) t run by simp_all
    obtain ps ins m where s: "s = (ps, ins, m)" by (cases s) auto
    have "fst k \<le> fst b1 \<and> fst b1 + snd b1 \<le> snd k \<and> 0 \<le> snd b1"
      using mgr_take_carve [OF t [unfolded s]] Cons.prems(1) s by (auto simp: mgr_inv_def)
    moreover have "mgr_inv k s1" using mgr.grab_law [OF Cons.prems(1) t] by blast
    ultimately show ?thesis using Cons.IH [of s1 cs] run bs Cons.prems(3) by auto
  qed
qed simp

text \<open>C31. Whatever pools, objects, buffers and raw blocks are taken from a new object pool manager, in
  any order and with failed requests in between, no two of them overlap - each from the address where the pool or object is
  constructed, or that is returned, over the size that was asked for, which with its rounding must fit a \<open>size_t\<close> - and all lie between the word
  at the start of the buffer and eight bytes after its end. The bound is reached: the constructor steps
  over the word without taking it off the capacity, so a request for all the capacity succeeds and ends
  eight bytes past the buffer.\<close>
theorem mgr_blocks_apart:
  assumes "0 \<le> capacity"
    and "bump_run mgr_take (ps, ins, CObjPoolMgr buffer capacity resume word g) rs = (bs, s')"
  shows "apart bs \<and> (\<forall>b\<in>set bs. buffer + 8 \<le> fst b \<and> fst b + snd b \<le> buffer + 8 + capacity) \<and>
    fst (the (mgr_take (ps, ins, CObjPoolMgr buffer capacity resume word g) (ReqRaw capacity))) = (buffer + 8, capacity)"
proof -
  have eight: "ALIGN_SIZE 8 8 = 8" by code_simp
  let ?s = "(ps, ins, CObjPoolMgr buffer capacity resume word g)"
  have inv: "mgr_inv (buffer + 8, buffer + 8 + capacity) ?s"
    using assms(1) by (simp add: mgr_inv_def CObjPoolMgr_def eight)
  have "buffer + 8 \<le> fst b \<and> fst b + snd b \<le> buffer + 8 + capacity" if "b \<in> set bs" for b
    using mgr_run_bounds [OF inv assms(2) that] by simp
  moreover have "fst (the (mgr_take ?s (ReqRaw capacity))) = (buffer + 8, capacity)"
    using assms(1) by (simp add: mgr_take_def req_ok_def mgr_Allocate_def CObjPoolMgr_def carve_def eight)
  ultimately show ?thesis using mgr.run_apart [OF inv assms(2)] by blast
qed

theorem mgr_blocks_apart_witness:
  "fst (bump_run mgr_take ((\<lambda>u n. 64 + u * n), (\<lambda>ty a g. g), CObjPoolMgr 1000 300 False 0 ())
     [ReqPool 1 16 4, ReqObj 10, ReqBuffer 400, ReqRaw 160]) = [(1008, 128), (1136, 10), (1148, 160)] \<and>
   apart [(1008, 128), (1136, 10), (1148, 160)]"
proof -
  have r: "fst (bump_run mgr_take ((\<lambda>u n. 64 + u * n), (\<lambda>ty a g. g), CObjPoolMgr 1000 300 False 0 ())
     [ReqPool 1 16 4, ReqObj 10, ReqBuffer 400, ReqRaw 160]) = [(1008, 128), (1136, 10), (1148, 160)]"
    by code_simp
  then obtain s' where "bump_run mgr_take ((\<lambda>u n. 64 + u * n), (\<lambda>ty a g. g), CObjPoolMgr 1000 300 False 0 ())
     [ReqPool 1 16 4, ReqObj 10, ReqBuffer 400, ReqRaw 160] = ([(1008, 128), (1136, 10), (1148, 160)], s')"
    by (metis prod.collapse)
  from mgr_blocks_apart [OF _ this] r show ?thesis by simp
qed

end
