(* ===== verification/MemPool.thy ===== *)
theory MemPool
  imports Bump
begin

text \<open>
  The memory pool of the configuration parser, \<open>common/config/async_mempool.{h,cc}\<close>. \<open>malloc\<close> is a
  parameter: from the chunks in use and a size it gives the address of a new chunk; what is relied on
  is that it does not overlap a chunk in use. The code does not test for a null pointer.
\<close>

record chunk =
  ch_pool :: int
  ch_pos :: nat
  ch_size :: nat

record mem_pool =
  chunks :: "chunk list"
  defaultSize :: nat
  poolUsage :: nat
  poolUsageCounter :: nat

type_synonym mallocf = "chunk list \<Rightarrow> nat \<Rightarrow> int"

definition PoolChunk :: "mallocf \<Rightarrow> chunk list \<Rightarrow> nat \<Rightarrow> chunk" where
  "PoolChunk malloc cs n = \<lparr>ch_pool = malloc cs n, ch_pos = 0, ch_size = n\<rparr>"

definition AsyncMemPool :: "nat \<Rightarrow> mem_pool" where
  "AsyncMemPool n = \<lparr>chunks = [], defaultSize = n, poolUsage = 0, poolUsageCounter = 0\<rparr>"

definition mp_initialize :: "mallocf \<Rightarrow> mem_pool \<Rightarrow> int \<times> mem_pool" where
  "mp_initialize malloc p = (0, p\<lparr>chunks := [PoolChunk malloc [] (defaultSize p)]\<rparr>)"

definition addNewChunk :: "mallocf \<Rightarrow> mem_pool \<Rightarrow> nat \<Rightarrow> mem_pool" where
  "addNewChunk malloc p n =
     p\<lparr>chunks := chunks p @ [PoolChunk malloc (chunks p) (if n \<le> defaultSize p then defaultSize p else n)]\<rparr>"

fun chunk_take :: "nat \<Rightarrow> chunk list \<Rightarrow> (int \<times> chunk list) option" where
  "chunk_take n [] = None"
| "chunk_take n (c # cs) =
     (if ch_size c - ch_pos c \<ge> n
      then Some (ch_pool c + int (ch_pos c + n) - int n, c\<lparr>ch_pos := ch_pos c + n\<rparr> # cs)
      else do { (a, cs') \<leftarrow> chunk_take n cs; Some (a, c # cs') })"

definition mp_alloc :: "mallocf \<Rightarrow> mem_pool \<Rightarrow> nat \<Rightarrow> int \<times> mem_pool" where
  "mp_alloc malloc p n =
     (case chunk_take n (chunks p) of
        Some (a, cs) \<Rightarrow> (a, p\<lparr>chunks := cs\<rparr>)
      | None \<Rightarrow> let p' = addNewChunk malloc p n; c = last (chunks p')
          in (ch_pool c, p'\<lparr>chunks := butlast (chunks p') @ [c\<lparr>ch_pos := n\<rparr>]\<rparr>))"

definition mp_free :: "mem_pool \<Rightarrow> mem_pool" where
  "mp_free p =
     (let cs = chunks p; pu = sum_list (map ch_pos cs); psz = sum_list (map ch_size cs);
          ctr = poolUsageCounter p + 1; usage = (if poolUsage p > pu then poolUsage p else pu);
          cs0 = map (\<lambda>c. c\<lparr>ch_pos := 0\<rparr>) cs
      in if ctr \<ge> 10 \<and> length cs > 1
         then p\<lparr>chunks := (if usage < psz - ch_size (last cs) then butlast cs0 else cs0),
                poolUsage := 0, poolUsageCounter := 0\<rparr>
         else p\<lparr>chunks := cs0, poolUsage := usage, poolUsageCounter := ctr\<rparr>)"

subsection \<open>The blocks it hands out\<close>

definition chunk_area :: "chunk \<Rightarrow> int set" where
  "chunk_area c = {ch_pool c..<ch_pool c + int (ch_size c)}"

definition chunk_used :: "chunk \<Rightarrow> int set" where
  "chunk_used c = {ch_pool c..<ch_pool c + int (ch_pos c)}"

definition malloc_ok :: "mallocf \<Rightarrow> bool" where
  "malloc_ok malloc \<longleftrightarrow> (\<forall>cs n. \<forall>c\<in>set cs. {malloc cs n..<malloc cs n + int n} \<inter> chunk_area c = {})"

fun chunks_apart :: "chunk list \<Rightarrow> bool" where
  "chunks_apart [] = True"
| "chunks_apart (c # cs) = (ch_pos c \<le> ch_size c \<and>
     (\<forall>d\<in>set cs. chunk_area c \<inter> chunk_area d = {}) \<and> chunks_apart cs)"

definition mp_inv :: "mallocf \<times> mem_pool \<Rightarrow> bool" where
  "mp_inv s \<longleftrightarrow> malloc_ok (fst s) \<and> chunks_apart (chunks (snd s))"

definition mp_used :: "mallocf \<times> mem_pool \<Rightarrow> int set" where
  "mp_used s = (\<Union>c\<in>set (chunks (snd s)). chunk_used c)"

definition mp_space :: "mallocf \<times> mem_pool \<Rightarrow> int set" where
  "mp_space s = (\<Union>c\<in>set (chunks (snd s)). chunk_area c)"

definition mp_take :: "mallocf \<times> mem_pool \<Rightarrow> nat \<Rightarrow> (block \<times> mallocf \<times> mem_pool) option" where
  "mp_take s n = (let (a, p) = mp_alloc (fst s) (snd s) n in Some ((a, int n), fst s, p))"

lemma chunk_used_area: "ch_pos c \<le> ch_size c \<Longrightarrow> chunk_used c \<subseteq> chunk_area c"
  by (auto simp: chunk_used_def chunk_area_def)

lemma chunks_apart_pos: "chunks_apart cs \<Longrightarrow> c \<in> set cs \<Longrightarrow> ch_pos c \<le> ch_size c"
  by (induction cs) auto

lemma chunks_apart_snoc:
  "chunks_apart (cs @ [d]) \<longleftrightarrow> chunks_apart cs \<and> ch_pos d \<le> ch_size d \<and>
     (\<forall>c\<in>set cs. chunk_area c \<inter> chunk_area d = {})"
  by (induction cs) auto

lemma chunk_take_spec:
  "chunks_apart cs \<Longrightarrow> chunk_take n cs = Some (a, cs') \<Longrightarrow>
   chunks_apart cs' \<and> map chunk_area cs' = map chunk_area cs \<and>
   (\<Union>c\<in>set cs'. chunk_used c) = (\<Union>c\<in>set cs. chunk_used c) \<union> addrs (a, int n) \<and>
   (\<Union>c\<in>set cs. chunk_used c) \<inter> addrs (a, int n) = {} \<and> addrs (a, int n) \<subseteq> (\<Union>c\<in>set cs. chunk_area c)"
proof (induction cs arbitrary: a cs')
  case (Cons c cs)
  note ap = Cons.prems(1)
  have sub: "(\<Union>d\<in>set cs. chunk_used d) \<subseteq> (\<Union>d\<in>set cs. chunk_area d)"
    using ap chunk_used_area chunks_apart_pos [of cs] by auto
  show ?case
  proof (cases "ch_size c - ch_pos c \<ge> n")
    case True
    let ?c = "c\<lparr>ch_pos := ch_pos c + n\<rparr>"
    have r: "a = ch_pool c + int (ch_pos c)" "cs' = ?c # cs" using Cons.prems(2) True by auto
    have ar: "chunk_area ?c = chunk_area c" by (simp add: chunk_area_def)
    have us: "chunk_used ?c = chunk_used c \<union> addrs (a, int n)" "chunk_used c \<inter> addrs (a, int n) = {}"
      "addrs (a, int n) \<subseteq> chunk_area c"
      using True ap by (auto simp: chunk_used_def addrs_def chunk_area_def r(1))
    have "(\<Union>d\<in>set cs. chunk_used d) \<inter> addrs (a, int n) = {}"
      using sub us(3) ap by auto
    then show ?thesis using ap True us ar by (auto simp: r(2))
  next
    case False
    then obtain cs1 where r: "chunk_take n cs = Some (a, cs1)" "cs' = c # cs1"
      using Cons.prems(2) by (auto split: Option.bind_splits)
    have ih: "chunks_apart cs1 \<and> map chunk_area cs1 = map chunk_area cs \<and>
        (\<Union>c\<in>set cs1. chunk_used c) = (\<Union>c\<in>set cs. chunk_used c) \<union> addrs (a, int n) \<and>
        (\<Union>c\<in>set cs. chunk_used c) \<inter> addrs (a, int n) = {} \<and> addrs (a, int n) \<subseteq> (\<Union>c\<in>set cs. chunk_area c)"
      using Cons.IH [OF _ r(1)] ap by simp
    then have areas: "chunk_area ` set cs1 = chunk_area ` set cs" by (metis list.set_map)
    have pc: "ch_pos c \<le> ch_size c" "\<forall>d\<in>set cs. chunk_area c \<inter> chunk_area d = {}" using ap by simp_all
    have d: "\<forall>d\<in>set cs1. chunk_area c \<inter> chunk_area d = {}"
      using pc(2) areas by (metis (no_types, lifting) image_iff)
    have i1: "(\<Union>c\<in>set cs1. chunk_used c) = (\<Union>c\<in>set cs. chunk_used c) \<union> addrs (a, int n)"
      and i2: "(\<Union>c\<in>set cs. chunk_used c) \<inter> addrs (a, int n) = {}"
      and i3: "addrs (a, int n) \<subseteq> (\<Union>c\<in>set cs. chunk_area c)"
      and i4: "chunks_apart cs1" "map chunk_area cs1 = map chunk_area cs" using ih by blast+
    have "chunk_area c \<inter> (\<Union>c\<in>set cs. chunk_area c) = {}" using pc(2) by (simp add: Int_UN_distrib)
    then have u: "chunk_used c \<inter> addrs (a, int n) = {}" using chunk_used_area [OF pc(1)] i3 by blast
    show ?thesis
    proof (intro conjI)
      show "chunks_apart cs'" using i4 pc(1) d by (simp add: r(2))
      show "map chunk_area cs' = map chunk_area (c # cs)" using i4 by (simp add: r(2))
      show "(\<Union>c\<in>set cs'. chunk_used c) = (\<Union>c\<in>set (c # cs). chunk_used c) \<union> addrs (a, int n)"
        unfolding r(2) list.set UN_insert i1 by (rule Un_assoc [symmetric])
      show "(\<Union>c\<in>set (c # cs). chunk_used c) \<inter> addrs (a, int n) = {}"
        unfolding list.set UN_insert Int_Un_distrib2 u i2 by simp
      show "addrs (a, int n) \<subseteq> (\<Union>c\<in>set (c # cs). chunk_area c)" using i3 by (simp add: le_supI2)
    qed
  qed
qed simp

lemma mp_new_chunk:
  assumes "chunk_take n (chunks p) = None"
  shows "mp_alloc malloc p n = (let k = (if n \<le> defaultSize p then defaultSize p else n); a = malloc (chunks p) k
    in (a, p\<lparr>chunks := chunks p @ [\<lparr>ch_pool = a, ch_pos = n, ch_size = k\<rparr>]\<rparr>))"
  using assms by (simp add: mp_alloc_def addNewChunk_def PoolChunk_def Let_def)

interpretation mp: bump mp_take mp_inv mp_used mp_space
proof
  fix s s' and n :: nat and b
  assume inv: "mp_inv s" and grab: "mp_take s n = Some (b, s')"
  obtain malloc p where s: "s = (malloc, p)" by (cases s) auto
  have ap: "chunks_apart (chunks p)" and mo: "malloc_ok malloc" using inv s by (auto simp: mp_inv_def)
  have "mp_inv s' \<and> mp_used s' = mp_used s \<union> addrs b \<and> mp_used s \<inter> addrs b = {}"
  proof (cases "chunk_take n (chunks p)")
    case (Some r)
    obtain a cs where r: "r = (a, cs)" by fastforce
    have "b = (a, int n)" "s' = (malloc, p\<lparr>chunks := cs\<rparr>)"
      using grab s Some r by (auto simp: mp_take_def mp_alloc_def)
    then show ?thesis
      using chunk_take_spec [OF ap, of n a cs] Some r mo s by (auto simp: mp_inv_def mp_used_def)
  next
    case None
    let ?k = "if n \<le> defaultSize p then defaultSize p else n"
    let ?a = "malloc (chunks p) ?k"
    let ?c = "\<lparr>ch_pool = ?a, ch_pos = n, ch_size = ?k\<rparr>"
    have e: "b = (?a, int n)" "s' = (malloc, p\<lparr>chunks := chunks p @ [?c]\<rparr>)"
      using grab s mp_new_chunk [OF None, of malloc] by (auto simp: mp_take_def Let_def)
    have d: "\<forall>c\<in>set (chunks p). chunk_area c \<inter> chunk_area ?c = {}"
      using mo unfolding malloc_ok_def by (fastforce simp: chunk_area_def [of ?c])
    have u: "chunk_used ?c = addrs b" "chunk_used ?c \<subseteq> chunk_area ?c"
      by (auto simp: chunk_used_def chunk_area_def addrs_def e(1))
    have "chunk_used c \<inter> addrs b = {}" if "c \<in> set (chunks p)" for c
      using d u that chunk_used_area [OF chunks_apart_pos [OF ap that]] by blast
    then have "(\<Union>c\<in>set (chunks p). chunk_used c) \<inter> addrs b = {}" by blast
    moreover have "chunks_apart (chunks p @ [?c])" using ap d by (simp add: chunks_apart_snoc)
    ultimately show ?thesis using mo u(1) s e(2) by (simp add: mp_inv_def mp_used_def Un_commute)
  qed
  then show "mp_inv s' \<and> mp_used s \<union> addrs b \<subseteq> mp_used s' \<and> mp_used s \<inter> addrs b = {}" by simp
next
  fix s assume "mp_inv s"
  then show "mp_used s \<subseteq> mp_space s"
    using chunk_used_area chunks_apart_pos by (fastforce simp: mp_inv_def mp_used_def mp_space_def)
qed

lemma mp_free_apart: "chunks_apart cs \<Longrightarrow> chunks_apart (map (\<lambda>c. c\<lparr>ch_pos := 0\<rparr>) cs)"
  by (induction cs) (auto simp: chunk_area_def)

lemma chunks_apart_butlast: "chunks_apart cs \<Longrightarrow> chunks_apart (butlast cs)"
  by (cases cs rule: rev_cases) (simp_all add: chunks_apart_snoc)

lemma mp_free_ok: "mp_inv (malloc, p) \<Longrightarrow> mp_inv (malloc, mp_free p) \<and> mp_used (malloc, mp_free p) = {}"
proof -
  assume "mp_inv (malloc, p)"
  then have a: "malloc_ok malloc" "chunks_apart (map (\<lambda>c. c\<lparr>ch_pos := 0\<rparr>) (chunks p))"
    using mp_free_apart by (auto simp: mp_inv_def)
  have z: "c \<in> set (map (\<lambda>c. c\<lparr>ch_pos := 0\<rparr>) (chunks p)) \<Longrightarrow> chunk_used c = {}" for c
    by (auto simp: chunk_used_def)
  then have "c \<in> set (butlast (map (\<lambda>c. c\<lparr>ch_pos := 0\<rparr>) (chunks p))) \<Longrightarrow> chunk_used c = {}" for c
    by (meson in_set_butlastD)
  then show ?thesis
    using a z chunks_apart_butlast [OF a(2)] by (auto simp: mp_inv_def mp_used_def mp_free_def Let_def)
qed

subsection \<open>Zeroed blocks and copied strings\<close>

definition mp_calloc :: "mallocf \<Rightarrow> mem_pool \<times> (int \<Rightarrow> char) \<Rightarrow> nat \<Rightarrow> int \<times> mem_pool \<times> (int \<Rightarrow> char)" where
  "mp_calloc malloc s n =
     (let (a, p) = mp_alloc malloc (fst s) n
      in (a, p, \<lambda>x. if x \<in> {a..<a + int n} then CHR 0x00 else snd s x))"

definition mp_strdup :: "mallocf \<Rightarrow> mem_pool \<times> (int \<Rightarrow> char) \<Rightarrow> string \<Rightarrow> int \<times> mem_pool \<times> (int \<Rightarrow> char)" where
  "mp_strdup malloc s str =
     (let (a, p) = mp_alloc malloc (fst s) (length str + 1)
      in (a, p, \<lambda>x. if x \<in> {a..<a + int (length str + 1)} then (str @ [CHR 0x00]) ! nat (x - a) else snd s x))"

text \<open>The string at an address, and a run of copies.\<close>

definition cstr :: "(int \<Rightarrow> char) \<Rightarrow> int \<Rightarrow> string \<Rightarrow> bool" where
  "cstr mem a str \<longleftrightarrow> (\<forall>i\<le>length str. mem (a + int i) = (str @ [CHR 0x00]) ! i)"

fun strdup_run :: "mallocf \<Rightarrow> mem_pool \<times> (int \<Rightarrow> char) \<Rightarrow> string list \<Rightarrow> (int \<times> string) list \<times> mem_pool \<times> (int \<Rightarrow> char)" where
  "strdup_run malloc s [] = ([], s)"
| "strdup_run malloc s (str # strs) =
     (let (a, s1) = mp_strdup malloc s str; (as, s2) = strdup_run malloc s1 strs in ((a, str) # as, s2))"

lemma mp_strdup_cstr: "mp_strdup malloc s str = (a, s') \<Longrightarrow> cstr (snd s') a str"
  by (auto simp: mp_strdup_def cstr_def Let_def split: prod.splits)

lemma mp_strdup_alloc:
  assumes "mp_inv (malloc, p)" "mp_strdup malloc (p, mem) str = (a, p', mem')"
  shows "mp_inv (malloc, p') \<and> mp_used (malloc, p) \<union> addrs (a, int (length str + 1)) \<subseteq> mp_used (malloc, p') \<and>
    (\<forall>x\<in>mp_used (malloc, p). mem' x = mem x)"
proof -
  have t: "mp_take (malloc, p) (length str + 1) = Some ((a, int (length str + 1)), (malloc, p'))"
    using assms(2) by (auto simp: mp_take_def mp_strdup_def Let_def split: prod.splits)
  note l = mp.grab_law [OF assms(1) t]
  have "mem' x = mem x" if "x \<in> mp_used (malloc, p)" for x
  proof -
    have "x \<notin> addrs (a, int (length str + 1))" using that l by blast
    then show ?thesis using assms(2) by (auto simp: mp_strdup_def addrs_def Let_def split: prod.splits)
  qed
  then show ?thesis using l by blast
qed

lemma strdup_run_keeps:
  "mp_inv (malloc, p) \<Longrightarrow> strdup_run malloc (p, mem) strs = (as, p', mem') \<Longrightarrow>
   mp_inv (malloc, p') \<and> map snd as = strs \<and> (\<forall>(a, str)\<in>set as. cstr mem' a str) \<and>
   (\<forall>x\<in>mp_used (malloc, p). mem' x = mem x)"
proof (induction strs arbitrary: p mem as)
  case (Cons str strs)
  obtain a p1 mem1 where d: "mp_strdup malloc (p, mem) str = (a, p1, mem1)" by (metis prod_cases3)
  obtain bs p2 mem2 where r: "strdup_run malloc (p1, mem1) strs = (bs, p2, mem2)" by (metis prod_cases3)
  have e: "as = (a, str) # bs" "p2 = p'" "mem2 = mem'" using Cons.prems(2) d r by simp_all
  note l = mp_strdup_alloc [OF Cons.prems(1) d]
  note ih = Cons.IH [OF conjunct1 [OF l] r [unfolded e]]
  have c: "cstr mem1 a str" using mp_strdup_cstr [OF d] by simp
  have "a + int i \<in> mp_used (malloc, p1)" if "i \<le> length str" for i
    using subsetD [OF conjunct1 [OF conjunct2 [OF l]], of "a + int i"] that by (simp add: addrs_def)
  then have "cstr mem' a str" using c ih by (simp add: cstr_def)
  then show ?case using ih l e by auto
qed simp

text \<open>Rounds of copies, each closed by \<open>free\<close>.\<close>

fun mp_rounds :: "mallocf \<Rightarrow> mem_pool \<times> (int \<Rightarrow> char) \<Rightarrow> string list list \<Rightarrow> mem_pool \<times> (int \<Rightarrow> char)" where
  "mp_rounds malloc s [] = s"
| "mp_rounds malloc s (strs # rs) =
     (let (as, p, mem) = strdup_run malloc s strs in mp_rounds malloc (mp_free p, mem) rs)"

lemma mp_rounds_inv: "mp_inv (malloc, fst s) \<Longrightarrow> mp_inv (malloc, fst (mp_rounds malloc s rs))"
proof (induction rs arbitrary: s)
  case (Cons strs rs)
  obtain as p mem where r: "strdup_run malloc s strs = (as, p, mem)" by (metis prod_cases3)
  have "mp_inv (malloc, p)"
    using strdup_run_keeps [of malloc "fst s" "snd s" strs as p mem] Cons.prems r by simp
  then show ?case using Cons.IH [of "(mp_free p, mem)"] mp_free_ok r by simp
qed simp

lemma mp_initialize_inv: "malloc_ok malloc \<Longrightarrow> mp_inv (malloc, snd (mp_initialize malloc (AsyncMemPool d)))"
  by (simp add: mp_inv_def mp_initialize_def AsyncMemPool_def PoolChunk_def)

text \<open>The strings the configuration parser copies into its memory pool stay what they are: after any
  number of rounds of copies each closed by \<open>free\<close>, the strings copied since the last one can all be
  read back unchanged at the addresses that \<open>strdup\<close> returned, and the state stays well-formed (no
  two chunks overlap, none is filled beyond its size), provided \<open>malloc\<close> gives memory apart from the
  chunks in use.\<close>
theorem strdup_strings_stay:
  assumes "malloc_ok malloc"
    and "mp_rounds malloc (snd (mp_initialize malloc (AsyncMemPool d)), mem) rs = (p, mem1)"
    and "strdup_run malloc (p, mem1) strs = (as, p', mem')"
  shows "map snd as = strs \<and> (\<forall>(a, str)\<in>set as. cstr mem' a str) \<and> mp_inv (malloc, p')"
proof -
  have "mp_inv (malloc, p)"
    using mp_rounds_inv [of malloc "(snd (mp_initialize malloc (AsyncMemPool d)), mem)" rs]
      mp_initialize_inv [OF assms(1), of d] assms(2) by simp
  then show ?thesis using strdup_run_keeps assms(3) by blast
qed

definition fresh_malloc :: mallocf where
  "fresh_malloc cs n = sum_list (map (\<lambda>c. \<bar>ch_pool c\<bar> + int (ch_size c)) cs)"

lemma fresh_malloc_ok: "malloc_ok fresh_malloc"
proof -
  have "ch_pool c + int (ch_size c) \<le> fresh_malloc cs n" if "c \<in> set cs" for cs n c
  proof -
    have "\<bar>ch_pool c\<bar> + int (ch_size c) \<le> fresh_malloc cs n"
      unfolding fresh_malloc_def using that by (intro member_le_sum_list) auto
    then show ?thesis by simp
  qed
  then have "{fresh_malloc cs n..<fresh_malloc cs n + int n} \<inter> chunk_area c = {}" if "c \<in> set cs" for cs n c
    using that unfolding chunk_area_def by (meson disjoint_iff atLeastLessThan_iff le_less_trans not_le order.strict_trans2)
  then show ?thesis unfolding malloc_ok_def by blast
qed

theorem strdup_strings_stay_witness:
  "\<exists>as p' mem'. strdup_run fresh_malloc
      (mp_rounds fresh_malloc (snd (mp_initialize fresh_malloc (AsyncMemPool 4)), \<lambda>x. CHR ''x'') [[''ab'', ''c'', ''d'']])
      [''port'', ''1''] = (as, p', mem') \<and> map snd as = [''port'', ''1''] \<and>
    (\<forall>(a, str)\<in>set as. cstr mem' a str) \<and> mp_inv (fresh_malloc, p')"
proof -
  obtain p mem1 where r: "mp_rounds fresh_malloc (snd (mp_initialize fresh_malloc (AsyncMemPool 4)), \<lambda>x. CHR ''x'')
      [[''ab'', ''c'', ''d'']] = (p, mem1)" by fastforce
  obtain as p' mem' where s: "strdup_run fresh_malloc (p, mem1) [''port'', ''1''] = (as, p', mem')"
    by (metis prod_cases3)
  show ?thesis using strdup_strings_stay [OF fresh_malloc_ok r s] r s by simp
qed

end
