(* ===== verification/SysTime.thy ===== *)
theory SysTime
  imports Prelude TimerQueue
begin

text \<open>
  Clock values: the conversions and the \<open>timeval\<close> operators of \<open>common/jybase/sys_time.h\<close> and the time
  functions of \<open>common/jybase/timer_queue.cc\<close>. \<open>timeval\<close> has two 64-bit fields; differences of the
  values the program sees do not wrap. The static variables of the time functions are the record
  \<open>sys_clock\<close>, and \<open>gettimeofday\<close> is the argument \<open>now\<close>.
\<close>

record timeval =
  tv_sec :: int
  tv_usec :: int

definition TickToMs :: "int \<Rightarrow> int" where
  "TickToMs tick = i32 (tick * c_div 1000 C_TICK_COUNT_PER_SECOND)"

definition MsToTick :: "int \<Rightarrow> int" where
  "MsToTick ms = c_div ms (c_div 1000 C_TICK_COUNT_PER_SECOND)"

definition TickToSec :: "int \<Rightarrow> int" where
  "TickToSec tick = c_div tick C_TICK_COUNT_PER_SECOND"

definition SecToTick :: "int \<Rightarrow> int" where
  "SecToTick sec = i32 (sec * C_TICK_COUNT_PER_SECOND)"

definition CompareTimeVal :: "timeval \<Rightarrow> timeval \<Rightarrow> int" where
  "CompareTimeVal t1 t2 = i32 ((tv_sec t2 - tv_sec t1) * 1000 + c_div (tv_usec t2 - tv_usec t1) 1000)"

definition GetDiffTimeUs :: "timeval \<Rightarrow> timeval \<Rightarrow> int" where
  "GetDiffTimeUs t1 t2 = i32 (if tv_sec t2 = tv_sec t1 then tv_usec t2 - tv_usec t1
     else (tv_sec t2 - tv_sec t1) * 1000000 + (tv_usec t2 - tv_usec t1))"

definition tv_minus :: "timeval \<Rightarrow> timeval \<Rightarrow> int" where
  "tv_minus left right =
     (let secs = tv_sec left - tv_sec right
      in if secs > c_div (2 ^ 31 - 1) 1000000 then 2 ^ 31 - 1
         else secs * 1000000 + (tv_usec left - tv_usec right))"

definition tv_eq :: "timeval \<Rightarrow> timeval \<Rightarrow> bool" where
  "tv_eq left right \<longleftrightarrow> tv_sec left = tv_sec right \<and> tv_usec left = tv_usec right"

definition tv_less :: "timeval \<Rightarrow> timeval \<Rightarrow> bool" where
  "tv_less left right \<longleftrightarrow> tv_sec left < tv_sec right \<or> (tv_sec left = tv_sec right \<and> tv_usec left < tv_usec right)"

definition tv_less_eq :: "timeval \<Rightarrow> timeval \<Rightarrow> bool" where
  "tv_less_eq left right \<longleftrightarrow> tv_less left right \<or> tv_eq left right"

definition tv_greater :: "timeval \<Rightarrow> timeval \<Rightarrow> bool" where
  "tv_greater left right \<longleftrightarrow> tv_less right left"

definition tv_greater_eq :: "timeval \<Rightarrow> timeval \<Rightarrow> bool" where
  "tv_greater_eq left right \<longleftrightarrow> tv_less right left \<or> tv_eq left right"

subsection \<open>The clock of the process\<close>

record sys_clock =
  clk_tick :: int
  clk_now :: timeval
  clk_increment :: int
  clk_start :: int

definition GetSystemStartTime :: "sys_clock \<Rightarrow> int" where
  "GetSystemStartTime c = clk_start c"

definition GetCurrentTick :: "sys_clock \<Rightarrow> int" where
  "GetCurrentTick c = clk_tick c"

definition GetCurrentMs :: "sys_clock \<Rightarrow> int" where
  "GetCurrentMs c = i32 ((tv_sec (clk_now c) - clk_start c) * 1000 + c_div (tv_usec (clk_now c)) 1000)"

text \<open>The first result is the returned value, the second what is stored when a pointer is given.\<close>

definition GetCurrentTimeVal :: "sys_clock \<Rightarrow> int \<times> timeval" where
  "GetCurrentTimeVal c = (tv_sec (clk_now c), clk_now c)"

definition GetCurrentTime :: "sys_clock \<Rightarrow> int" where
  "GetCurrentTime c = tv_sec (clk_now c)"

definition GetCurrentTimeUsec :: "sys_clock \<Rightarrow> int \<times> timeval" where
  "GetCurrentTimeUsec c = (tv_usec (clk_now c), clk_now c)"

definition UpdateCurrTime :: "timeval \<Rightarrow> sys_clock \<Rightarrow> sys_clock" where
  "UpdateCurrTime now c = c\<lparr>clk_now := now\<lparr>tv_sec := tv_sec now + clk_increment c\<rparr>\<rparr>"

definition TickCurrentTimeVal :: "timeval \<Rightarrow> sys_clock \<Rightarrow> (int \<times> timeval) \<times> sys_clock" where
  "TickCurrentTimeVal now c = (let c' = UpdateCurrTime now c in (GetCurrentTimeVal c', c'))"

definition SetTimeIncrement :: "int \<Rightarrow> sys_clock \<Rightarrow> sys_clock" where
  "SetTimeIncrement n c = c\<lparr>clk_increment := n\<rparr>"

definition GetTimeIncrement :: "sys_clock \<Rightarrow> int" where
  "GetTimeIncrement c = clk_increment c"

definition normal_tv :: "timeval \<Rightarrow> bool" where
  "normal_tv t \<longleftrightarrow> 0 \<le> tv_usec t \<and> tv_usec t < 1000000"

subsection \<open>Properties\<close>

lemma tv_diff_sign:
  fixes s u v :: int
  assumes "0 \<le> u" "u < 1000000" "0 \<le> v" "v < 1000000"
  shows "0 < s * 1000000 + (u - v) \<longleftrightarrow> 0 < s \<or> (s = 0 \<and> v < u)"
    "s * 1000000 + (u - v) = 0 \<longleftrightarrow> s = 0 \<and> u = v"
  using assms by (cases s "0 :: int" rule: linorder_cases; linarith)+

lemma two_k: "c_div 2147483647 1000000 = 2147" by code_simp

text \<open>The comparison operators of clock values are one linear order, and on values whose microseconds
  are below a million they agree with the sign of the difference. The difference is exact up to 2147
  seconds and saturates above; it is not monotone there: a difference of 2147.9 seconds is reported as
  more than one of 2148 seconds.\<close>
theorem timeval_order:
  "(tv_less a b \<or> tv_eq a b \<or> tv_greater a b) \<and>
   tv_less_eq a b = (\<not> tv_greater a b) \<and> tv_greater_eq a b = (\<not> tv_less a b) \<and>
   (tv_less_eq a b \<and> tv_less_eq b c \<longrightarrow> tv_less_eq a c) \<and>
   (tv_less_eq a b \<and> tv_less_eq b a \<longrightarrow> a = (b :: timeval)) \<and>
   (normal_tv a \<and> normal_tv b \<longrightarrow>
      (0 < tv_minus a b) = tv_greater a b \<and> (tv_minus a b = 0) = tv_eq a b \<and>
      (tv_sec a - tv_sec b \<le> 2147 \<longrightarrow>
         tv_minus a b = (tv_sec a * 1000000 + tv_usec a) - (tv_sec b * 1000000 + tv_usec b)) \<and>
      (tv_sec a - tv_sec b > 2147 \<longrightarrow> tv_minus a b = 2147483647)) \<and>
   tv_minus \<lparr>tv_sec = 2147, tv_usec = 900000\<rparr> \<lparr>tv_sec = 0, tv_usec = 0\<rparr> >
     tv_minus \<lparr>tv_sec = 2148, tv_usec = 0\<rparr> \<lparr>tv_sec = 0, tv_usec = 0\<rparr>"
proof -
  have order: "(tv_less a b \<or> tv_eq a b \<or> tv_greater a b) \<and>
     tv_less_eq a b = (\<not> tv_greater a b) \<and> tv_greater_eq a b = (\<not> tv_less a b) \<and>
     (tv_less_eq a b \<and> tv_less_eq b c \<longrightarrow> tv_less_eq a c) \<and> (tv_less_eq a b \<and> tv_less_eq b a \<longrightarrow> a = b)"
    by (auto simp: tv_less_def tv_eq_def tv_greater_def tv_less_eq_def tv_greater_eq_def intro: timeval.equality)
  have sign: "(0 < tv_minus a b) = tv_greater a b \<and> (tv_minus a b = 0) = tv_eq a b"
    if "normal_tv a" "normal_tv b"
    using that tv_diff_sign [of "tv_usec a" "tv_usec b" "tv_sec a - tv_sec b"]
    by (auto simp: tv_minus_def normal_tv_def two_k Let_def tv_greater_def tv_less_def tv_eq_def)
  have exact: "(tv_sec a - tv_sec b \<le> 2147 \<longrightarrow>
       tv_minus a b = (tv_sec a * 1000000 + tv_usec a) - (tv_sec b * 1000000 + tv_usec b)) \<and>
     (tv_sec a - tv_sec b > 2147 \<longrightarrow> tv_minus a b = 2147483647)"
    by (auto simp: tv_minus_def two_k Let_def algebra_simps)
  show ?thesis using order sign exact by (simp add: tv_minus_def two_k)
qed

theorem timeval_order_witness:
  "tv_less_eq \<lparr>tv_sec = 1, tv_usec = 9\<rparr> \<lparr>tv_sec = 2, tv_usec = 3\<rparr> \<and>
   \<not> 0 < tv_minus \<lparr>tv_sec = 1, tv_usec = 9\<rparr> \<lparr>tv_sec = 2, tv_usec = 3\<rparr>"
  using timeval_order [of "\<lparr>tv_sec = 1, tv_usec = 9\<rparr>" "\<lparr>tv_sec = 2, tv_usec = 3\<rparr>" "\<lparr>tv_sec = 4, tv_usec = 3\<rparr>"]
  by (simp add: normal_tv_def tv_less_def tv_greater_def)

end
