(* ===== verification/DotConf.thy ===== *)
theory DotConf
  imports Prelude
begin

text \<open>
  The parser of configuration files, \<open>common/config/dotconfpp.{h,cc}\<close>.

  \<^item> \<open>conf_node\<close> is \<open>DOTCONFDocumentNode\<close>, \<open>document\<close> is \<open>DOTCONFDocument\<close>. The nodes live in \<open>nodeTree\<close> and
    are never removed, so a pointer to one is its position there. Strings are values; that the strings
    in the memory pool stay what they are until it is emptied is the property of \<open>MemPool\<close>.
    \<open>dangling\<close> says that the pool was emptied while \<open>words\<close> still pointed into it.
  \<^item> \<open>conf_host\<close> is what the code asks of the operating system: the real path of a name, the content
    of a file that can be opened, whether it is readable, and the environment.
  \<^item> \<open>None\<close> is a fault: an access through a null or dangling pointer or outside an array.
\<close>

subsection \<open>State\<close>

record conf_node =
  previousNode :: "nat option"
  nextNode :: "nat option"
  parentNode :: "nat option"
  childNode :: "nat option"
  nd_values :: "string list"
  nd_name :: string
  lineNum :: int
  nd_file :: string
  closed :: bool

record document =
  curParent :: "nat option"
  curPrev :: "nat option"
  curLine :: int
  quoted :: bool
  nodeTree :: "conf_node list"
  requiredOptions :: "string list"
  processedFiles :: "string list"
  docFile :: "string option"
  words :: "string list"
  ignorecase :: bool
  dangling :: bool

record conf_host =
  realpath :: "string \<Rightarrow> string option"
  openread :: "string \<Rightarrow> string option"
  access :: "string \<Rightarrow> bool"
  getenv :: "string \<Rightarrow> string option"

definition newline :: char where "newline = CHR 0x0A"

definition isspace :: "char \<Rightarrow> bool" where
  "isspace c \<longleftrightarrow> c \<in> {CHR 0x20, CHR 0x09, CHR 0x0A, CHR 0x0B, CHR 0x0C, CHR 0x0D}"

definition tolower :: "char \<Rightarrow> char" where
  "tolower c = (let n = of_char c :: nat in if 65 \<le> n \<and> n \<le> 90 then char_of (n + 32) else c)"

definition cmp_func :: "document \<Rightarrow> string \<Rightarrow> string \<Rightarrow> bool" where
  "cmp_func d a b = (if ignorecase d then map tolower a = map tolower b else a = b)"

definition DOTCONFDocument :: "bool \<Rightarrow> document" where
  "DOTCONFDocument ic = \<lparr>curParent = None, curPrev = None, curLine = 0, quoted = False, nodeTree = [],
     requiredOptions = [], processedFiles = [], docFile = None, words = [], ignorecase = ic, dangling = False\<rparr>"

definition pushValue :: "conf_node \<Rightarrow> string \<Rightarrow> conf_node" where
  "pushValue nd v = nd\<lparr>nd_values := nd_values nd @ [v]\<rparr>"

definition getConfigurationFileName :: "conf_node \<Rightarrow> string" where "getConfigurationFileName nd = nd_file nd"
definition getConfigurationLineNumber :: "conf_node \<Rightarrow> int" where "getConfigurationLineNumber nd = lineNum nd"
definition getNextNode :: "conf_node \<Rightarrow> nat option" where "getNextNode nd = nextNode nd"
definition getPreviuosNode :: "conf_node \<Rightarrow> nat option" where "getPreviuosNode nd = previousNode nd"
definition getParentNode :: "conf_node \<Rightarrow> nat option" where "getParentNode nd = parentNode nd"
definition getChildNode :: "conf_node \<Rightarrow> nat option" where "getChildNode nd = childNode nd"
definition getName :: "conf_node \<Rightarrow> string" where "getName nd = nd_name nd"

definition getValue :: "conf_node \<Rightarrow> nat \<Rightarrow> string option" where
  "getValue nd i = (if i \<ge> length (nd_values nd) then None else Some (nd_values nd ! i))"

subsection \<open>Splitting a line into words\<close>

text \<open>
  \<open>cur\<close> is the text between \<open>start\<close> and \<open>bg\<close>. The word that ends is joined to the last one while
  \<open>join\<close>, which is \<open>concat\<close> of the code, is set. An equals sign outside quotes is overwritten with a
  blank and looked at again, so it acts as one.
\<close>

definition end_word :: "string \<Rightarrow> bool \<Rightarrow> string list \<Rightarrow> bool \<times> string list" where
  "end_word cur join ws =
     (if cur = [] then (join, ws)
      else if join then (False, butlast ws @ [last ws @ cur]) else (join, ws @ [cur]))"

text \<open>What the loop does with a character, given the next one.\<close>

datatype clean_action = Comment | Escape char | Continue | Quote | Blank | Copy

definition clean_act :: "char \<Rightarrow> char \<Rightarrow> bool \<Rightarrow> clean_action" where
  "clean_act c nx q =
     (if (c = CHR ''#'' \<or> c = CHR '';'') \<and> \<not> q then Comment
      else if c = CHR ''='' \<and> \<not> q then Blank
      else if c = CHR 0x5C \<and> nx = CHR 0x27 then Escape nx
      else if c = CHR 0x5C \<and> nx = CHR ''n'' then Escape newline
      else if c = CHR 0x5C \<and> nx = CHR ''r'' then Escape (CHR 0x0D)
      else if c = CHR 0x5C \<and> (nx = newline \<or> nx = CHR 0x0D) then Continue
      else if c = CHR 0x22 \<or> c = CHR 0x27 then Quote
      else if isspace c \<and> \<not> q then Blank
      else Copy)"

function clean_loop :: "string \<Rightarrow> string \<Rightarrow> bool \<Rightarrow> string list \<Rightarrow> bool \<Rightarrow> bool \<times> string list \<times> bool" where
  "clean_loop [] cur join ws q = (False, ws, q)"
| "clean_loop (c # cs) cur join ws q =
     (case clean_act c (case cs of [] \<Rightarrow> CHR 0x00 | d # ds \<Rightarrow> d) q of
        Comment \<Rightarrow> (False, snd (end_word cur join ws), q)
      | Escape e \<Rightarrow> clean_loop (tl cs) (cur @ [e]) join ws q
      | Continue \<Rightarrow> (True, snd (end_word cur join ws), q)
      | Quote \<Rightarrow> clean_loop cs cur join ws (\<not> q)
      | Blank \<Rightarrow> clean_loop (dropWhile isspace cs) [] (fst (end_word cur join ws)) (snd (end_word cur join ws)) q
      | Copy \<Rightarrow> clean_loop cs (cur @ [c]) join ws q)"
  by pat_completeness auto

termination
  by (relation "measure (\<lambda>(s, cur, j, ws, q). length s)") (auto simp: le_imp_less_Suc length_dropWhile_le)

definition cleanupLine :: "document \<Rightarrow> string \<Rightarrow> int \<times> document" where
  "cleanupLine d line =
     (let join = (words d \<noteq> [] \<and> quoted d);
          (multiline, ws, q) = clean_loop line [] join (words d) (quoted d);
          d' = d\<lparr>words := ws, quoted := q\<rparr>
      in if q \<and> \<not> multiline then (-1, d') else (if multiline then 1 else 0, d'))"

subsection \<open>Building the tree\<close>

definition set_nd :: "document \<Rightarrow> nat \<Rightarrow> (conf_node \<Rightarrow> conf_node) \<Rightarrow> document" where
  "set_nd d i f = d\<lparr>nodeTree := (nodeTree d)[i := f (nodeTree d ! i)]\<rparr>"

definition add_node :: "document \<Rightarrow> string \<Rightarrow> bool \<Rightarrow> document option" where
  "add_node d nm cl =
     (if processedFiles d = [] then None
      else
        let i = length (nodeTree d);
            tag = \<lparr>previousNode = None, nextNode = None, parentNode = None, childNode = None, nd_values = [],
              nd_name = nm, lineNum = curLine d, nd_file = last (processedFiles d), closed = cl\<rparr>
        in if i = 0 then Some (d\<lparr>nodeTree := [tag], curPrev := Some 0\<rparr>)
           else if closed (nodeTree d ! (i - 1))
             then do {
               p \<leftarrow> curPrev d;
               Some (d\<lparr>nodeTree := (nodeTree d)[p := (nodeTree d ! p)\<lparr>nextNode := Some i\<rparr>]
                        @ [tag\<lparr>previousNode := Some p, parentNode := curParent d\<rparr>],
                     curPrev := Some i\<rparr>) }
           else Some (d\<lparr>curParent := Some (i - 1), curPrev := Some i,
                  nodeTree := (nodeTree d)[i - 1 := (nodeTree d ! (i - 1))\<lparr>childNode := Some i\<rparr>]
                    @ [tag\<lparr>parentNode := Some (i - 1)\<rparr>]\<rparr>))"

text \<open>The last open node of a name; \<open>n\<close> is how many nodes are still to be looked at.\<close>

fun find_open :: "document \<Rightarrow> string \<Rightarrow> nat \<Rightarrow> nat option" where
  "find_open d nm 0 = None"
| "find_open d nm (Suc n) =
     (if cmp_func d nm (nd_name (nodeTree d ! n)) \<and> \<not> closed (nodeTree d ! n) then Some n else find_open d nm n)"

definition close_node :: "document \<Rightarrow> nat \<Rightarrow> document" where
  "close_node d i =
     (set_nd d i (\<lambda>nd. nd\<lparr>closed := True\<rparr>))\<lparr>curParent := parentNode (nodeTree d ! i), curPrev := Some i\<rparr>"

fun parse_words :: "string list \<Rightarrow> bool \<Rightarrow> bool \<Rightarrow> nat option \<Rightarrow> document \<Rightarrow> (int \<times> document) option" where
  "parse_words [] newNode named tag d = Some (0, d)"
| "parse_words (w # ws) newNode named tag d =
     (if w = [] then None
      else
        let fresh = newNode \<or> hd w = CHR ''<'';
            named1 = (if fresh then False else named);
            gt = (last w = CHR ''>'');
            w1 = (if gt then butlast w else w)
        in if \<not> named1 then
             if w1 \<noteq> [] \<and> hd w1 = CHR ''<'' then
               if tl w1 \<noteq> [] \<and> hd (tl w1) = CHR ''/''
               then (case find_open d (tl (tl w1)) (length (nodeTree d)) of
                   None \<Rightarrow> Some (-1, d)
                 | Some i \<Rightarrow> parse_words ws gt True tag (close_node d i))
               else do { d' \<leftarrow> add_node d (tl w1) False;
                         parse_words ws gt True (Some (length (nodeTree d))) d' }
             else do { d' \<leftarrow> add_node d w1 True;
                       parse_words ws gt True (Some (length (nodeTree d))) d' }
           else do { i \<leftarrow> tag; parse_words ws gt True tag (set_nd d i (\<lambda>nd. pushValue nd w1)) })"

definition parseLine :: "document \<Rightarrow> (int \<times> document) option" where
  "parseLine d = (if dangling d then None else parse_words (words d) False False None d)"

subsection \<open>Reading a file\<close>

fun read_line :: "nat \<Rightarrow> string \<Rightarrow> string \<times> string" where
  "read_line 0 s = ([], s)"
| "read_line (Suc n) [] = ([], [])"
| "read_line (Suc n) (c # cs) =
     (if c = newline then ([c], cs) else let (l, r) = read_line n cs in (c # l, r))"

lemma read_line_length: "read_line n s = (l, r) \<Longrightarrow> length l + length r = length s"
  by (induction n s arbitrary: l r rule: read_line.induct) (auto split: if_splits prod.splits)

lemma read_line_nonempty: "read_line (Suc n) (c # cs) = (l, r) \<Longrightarrow> l \<noteq> []"
  by (auto split: if_splits prod.splits)

lemma read_line_shorter: "(l, r) = read_line n s \<Longrightarrow> 0 < n \<Longrightarrow> s \<noteq> [] \<Longrightarrow> length r < length s"
proof -
  assume a: "(l, r) = read_line n s" "0 < n" "s \<noteq> []"
  then have "l \<noteq> []" using read_line_nonempty [of "n - 1" "hd s" "tl s" l r] by simp
  then show ?thesis using read_line_length [of n s l r] a(1) by (cases l) auto
qed

function parse_lines :: "string \<Rightarrow> int \<Rightarrow> document \<Rightarrow> (int \<times> document) option" where
  "parse_lines s ret d =
     (if s = [] then Some (ret, d)
      else
        let (raw, rest) = read_line 510 s;
            d1 = d\<lparr>curLine := curLine d + 1\<rparr>;
            str = takeWhile (\<lambda>c. c \<noteq> CHR 0x00) raw
        in if str = [] then None
           else
             let str' = (if last str \<noteq> newline then str @ [newline] else str);
                 (r, d2) = cleanupLine d1 str'
             in if r = -1 then Some (-1, d2)
                else if r = 0 \<and> words d2 \<noteq> []
                  then (case parseLine d2 of
                      None \<Rightarrow> None
                    | Some (r', d3) \<Rightarrow> let d4 = d3\<lparr>words := [], dangling := False\<rparr>
                        in if r' = -1 then Some (-1, d4) else parse_lines rest r' d4)
                else parse_lines rest r d2)"
  by pat_completeness auto

termination
  by (relation "measure (\<lambda>(s, r, d). length s)") (auto dest: read_line_shorter)

declare parse_lines.simps [simp del]

definition parseFile :: "document \<Rightarrow> string \<Rightarrow> nat option \<Rightarrow> (int \<times> document) option" where
  "parseFile d content parent = parse_lines content 0 (d\<lparr>curLine := 0, curParent := parent, quoted := False\<rparr>)"

end
