(* ===== verification/ConfDoc.thy ===== *)
theory ConfDoc
  imports DotConf
begin

text \<open>
  The rest of \<open>DOTCONFDocument\<close>: macro substitution, the checks after parsing, included files, required
  options and the search for a node.
\<close>

subsection \<open>Macros\<close>

definition set_value :: "document \<Rightarrow> nat \<Rightarrow> nat \<Rightarrow> string \<Rightarrow> document" where
  "set_value d i vi v = set_nd d i (\<lambda>nd. nd\<lparr>nd_values := (nd_values nd)[vi := v]\<rparr>)"

text \<open>
  The text of a macro up to its closing brace; the variable name and the default value in it.
  \<open>Inr\<close> is the text after the colon.
\<close>

definition macro_body :: "string \<Rightarrow> string" where
  "macro_body m = takeWhile (\<lambda>c. c \<noteq> CHR ''}'') m"

definition macro_var :: "string \<Rightarrow> string" where
  "macro_var m = takeWhile (\<lambda>c. c \<noteq> CHR '':'') (drop 2 (macro_body m))"

definition macro_rest :: "string \<Rightarrow> string" where
  "macro_rest m = dropWhile (\<lambda>c. c \<noteq> CHR '':'') (drop 2 (macro_body m))"

text \<open>\<open>None\<close> is wrong syntax, \<open>Some None\<close> no default value.\<close>

definition macro_default :: "string \<Rightarrow> string option option" where
  "macro_default m =
     (case macro_rest m of
        [] \<Rightarrow> Some None
      | colon # v \<Rightarrow>
          if v = [] \<or> hd v \<noteq> CHR ''-'' then None
          else let dv = tl v
            in if dv \<noteq> [] \<and> (hd dv = CHR 0x22 \<or> hd dv = CHR 0x27) then Some (Some (butlast (tl dv)))
               else Some (Some dv))"

fun first_value :: "document \<Rightarrow> conf_node list \<Rightarrow> string \<Rightarrow> string option" where
  "first_value d [] nm = None"
| "first_value d (nd # nds) nm =
     (if cmp_func d (nd_name nd) nm \<and> nd_values nd \<noteq> [] then Some (hd (nd_values nd)) else first_value d nds nm)"

definition getSubstitution :: "conf_host \<Rightarrow> document \<Rightarrow> string \<Rightarrow> string option" where
  "getSubstitution h d macro =
     (if CHR ''}'' \<notin> set macro then None
      else case macro_default macro of
        None \<Rightarrow> None
      | Some dv \<Rightarrow>
          (case getenv h (macro_var macro) of
             Some s \<Rightarrow> Some s
           | None \<Rightarrow> (case first_value d (nodeTree d) (macro_var macro) of
                 Some s \<Rightarrow> Some s
               | None \<Rightarrow> dv)))"

text \<open>
  The loop of \<open>macroSubstitute\<close>. \<open>getSubstitution\<close> writes zero bytes over the colon and the brace of the
  macro, in place: from the first macro on (\<open>seen\<close>), anyone who reads the value sees it end there.
\<close>

function subst_walk ::
  "conf_host \<Rightarrow> nat \<Rightarrow> nat \<Rightarrow> string \<Rightarrow> string \<Rightarrow> bool \<Rightarrow> document \<Rightarrow> int \<times> string \<times> document" where
  "subst_walk h i vi macro acc seen d =
     (if macro = [] then (0, acc, d)
      else if take 2 macro = ''${''
        then let d1 = (if seen then d else set_value d i vi (acc @ ''${'' @ macro_var macro))
          in (case getSubstitution h d1 macro of
             None \<Rightarrow> (-1, acc, d1)
           | Some subs \<Rightarrow> subst_walk h i vi (drop (length (macro_body macro) + 1) macro) (acc @ subs) True d1)
      else subst_walk h i vi (tl macro) (acc @ [hd macro]) seen d)"
  by pat_completeness auto

termination
  by (relation "measure (\<lambda>(h, i, vi, m, acc, seen, d). length m)") auto

declare subst_walk.simps [simp del]

definition macroSubstitute :: "conf_host \<Rightarrow> document \<Rightarrow> nat \<Rightarrow> nat \<Rightarrow> int \<times> document" where
  "macroSubstitute h d i vi =
     (let (ret, v, d') = subst_walk h i vi (nd_values (nodeTree d ! i) ! vi) [] False d
      in (ret, set_value d' i vi v))"

subsection \<open>The checks after parsing\<close>

fun has_macro :: "string \<Rightarrow> bool" where
  "has_macro (a # b # s) = ((a = CHR ''$'' \<and> b = CHR ''{'') \<or> has_macro (b # s))"
| "has_macro s = False"

text \<open>The loop over the values of a node; the number is how many are left.\<close>

fun check_values :: "conf_host \<Rightarrow> nat \<Rightarrow> nat \<Rightarrow> int \<Rightarrow> document \<Rightarrow> int \<times> document" where
  "check_values h i 0 ret d = (ret, d)"
| "check_values h i (Suc n) ret d =
     (let vs = nd_values (nodeTree d ! i); vi = length vs - Suc n
      in if has_macro (vs ! vi) \<and> CHR ''}'' \<in> set (vs ! vi)
         then let (r, d1) = macroSubstitute h d i vi;
                  d2 = d1\<lparr>dangling := dangling d1 \<or> words d1 \<noteq> []\<rparr>
           in if r = -1 then (r, d2) else check_values h i n r d2
         else check_values h i n ret d)"

fun check_nodes :: "conf_host \<Rightarrow> nat list \<Rightarrow> int \<Rightarrow> document \<Rightarrow> int \<times> document" where
  "check_nodes h [] ret d = (ret, d)"
| "check_nodes h (i # js) ret d =
     (if \<not> closed (nodeTree d ! i) then (-1, d)
      else let (r, d1) = check_values h i (length (nd_values (nodeTree d ! i))) ret d
        in if r = -1 then (r, d1) else check_nodes h js r d1)"

definition checkConfig :: "conf_host \<Rightarrow> document \<Rightarrow> nat \<Rightarrow> int \<times> document" where
  "checkConfig h d from = check_nodes h [from..<length (nodeTree d)] 0 d"

definition checkRequiredOptions :: "document \<Rightarrow> int" where
  "checkRequiredOptions d =
     (if list_all (\<lambda>nm. list_ex (\<lambda>nd. cmp_func d (nd_name nd) nm) (nodeTree d)) (requiredOptions d) then 0 else -1)"

subsection \<open>Loading a file and the files it includes\<close>

text \<open>The loop over the values of an include directive.\<close>

fun include_values :: "conf_host \<Rightarrow> string list \<Rightarrow> int \<Rightarrow> document \<Rightarrow> (int \<times> document) option" where
  "include_values h [] ret d = Some (ret, d)"
| "include_values h (v # vs) ret d =
     (if \<not> access h v then Some (-1, d)
      else case realpath h v of
        None \<Rightarrow> Some (-1, d)
      | Some rp \<Rightarrow>
          if rp \<in> set (processedFiles d) then Some (ret, d)
          else let d1 = d\<lparr>processedFiles := processedFiles d @ [rp]\<rparr>
            in (case openread h v of
               None \<Rightarrow> Some (-1, d1)
             | Some text \<Rightarrow> (case parseFile (d1\<lparr>docFile := Some rp\<rparr>) text None of
                   None \<Rightarrow> None
                 | Some (r, d3) \<Rightarrow>
                     if r = -1 then Some (-1, d3)
                     else let (c, d4) = checkConfig h d3 (length (nodeTree d))
                       in if c = -1 then Some (-1, d4) else include_values h vs r d4)))"

definition include_name :: string where "include_name = ''DOTCONFPPIncludeFile''"

text \<open>
  The loop over the nodes, which grows the tree it runs over. The outer \<open>None\<close> is that the fuel ran
  out, the inner one a fault.
\<close>

fun include_nodes :: "nat \<Rightarrow> conf_host \<Rightarrow> nat \<Rightarrow> int \<Rightarrow> document \<Rightarrow> (int \<times> document) option option" where
  "include_nodes 0 h i ret d = None"
| "include_nodes (Suc fuel) h i ret d =
     (if i \<ge> length (nodeTree d) then Some (Some (ret, d))
      else if cmp_func d include_name (nd_name (nodeTree d ! i))
        then (case include_values h (nd_values (nodeTree d ! i)) ret d of
            None \<Rightarrow> Some None
          | Some (r, d') \<Rightarrow> if r = -1 then Some (Some (r, d')) else include_nodes fuel h (Suc i) r d')
      else include_nodes fuel h (Suc i) ret d)"

definition setContent :: "nat \<Rightarrow> conf_host \<Rightarrow> document \<Rightarrow> string \<Rightarrow> (int \<times> document) option option" where
  "setContent fuel h d fname =
     (case realpath h fname of
        None \<Rightarrow> Some (Some (-1, d))
      | Some rp \<Rightarrow>
          let d1 = d\<lparr>docFile := Some rp, processedFiles := processedFiles d @ [rp]\<rparr>
          in (case openread h rp of
             None \<Rightarrow> Some (Some (-1, d1))
           | Some text \<Rightarrow> (case parseFile d1 text None of
                 None \<Rightarrow> Some None
               | Some (r, d2) \<Rightarrow>
                   if r \<noteq> 0 then Some (Some (r, d2))
                   else let (c, d3) = checkConfig h d2 0
                     in if c = -1 then Some (Some (-1, d3))
                        else (case include_nodes fuel h 0 c d3 of
                            None \<Rightarrow> None
                          | Some None \<Rightarrow> Some None
                          | Some (Some (r', d4)) \<Rightarrow>
                              if r' = -1 then Some (Some (-1, d4))
                              else Some (Some (if requiredOptions d4 \<noteq> [] then checkRequiredOptions d4 else r', d4))))))"

definition setRequiredOptionNames :: "document \<Rightarrow> string list \<Rightarrow> document" where
  "setRequiredOptionNames d names = d\<lparr>requiredOptions := requiredOptions d @ names\<rparr>"

subsection \<open>Searching\<close>

definition getFirstNode :: "document \<Rightarrow> nat option" where
  "getFirstNode d = (if nodeTree d \<noteq> [] then Some 0 else None)"

fun find_from :: "document \<Rightarrow> string \<Rightarrow> nat option \<Rightarrow> nat list \<Rightarrow> nat option" where
  "find_from d nm parent [] = None"
| "find_from d nm parent (i # js) =
     (if parentNode (nodeTree d ! i) \<noteq> parent then find_from d nm parent js
      else if cmp_func d nm (nd_name (nodeTree d ! i)) then Some i
      else find_from d nm parent js)"

definition findNode :: "document \<Rightarrow> string \<Rightarrow> nat option \<Rightarrow> nat option \<Rightarrow> nat option" where
  "findNode d nm parent start =
     (let st = (case start of None \<Rightarrow> parent | Some s \<Rightarrow> Some s)
      in find_from d nm parent
           (case st of None \<Rightarrow> [0..<length (nodeTree d)] | Some s \<Rightarrow> [Suc s..<length (nodeTree d)]))"

end
