(* ===== verification/ConfTree.thy ===== *)
theory ConfTree
  imports ConfDoc
begin

text \<open>
  What every step of the parser keeps: the links of the node tree, and the list of processed files; with
  these, that loading a file ends.
\<close>

named_theorems conf "simplification of the steps of the parser"

subsection \<open>The links\<close>

definition node_ok :: "document \<Rightarrow> nat \<Rightarrow> bool" where
  "node_ok d i =
     (let T = nodeTree d; nd = T ! i
      in (\<forall>p. parentNode nd = Some p \<longrightarrow> p < i) \<and>
         (\<forall>c. childNode nd = Some c \<longrightarrow> i < c \<and> c < length T \<and> parentNode (T ! c) = Some i) \<and>
         (\<forall>j. nextNode nd = Some j \<longrightarrow> i < j \<and> j < length T \<and> previousNode (T ! j) = Some i) \<and>
         (\<forall>j. previousNode nd = Some j \<longrightarrow> j < i \<and> nextNode (T ! j) = Some i) \<and>
         (\<not> closed nd \<longrightarrow> nextNode nd = None) \<and> (childNode nd \<noteq> None \<longrightarrow> i + 1 < length T))"

definition tree_ok :: "document \<Rightarrow> bool" where
  "tree_ok d \<longleftrightarrow>
     (\<forall>i < length (nodeTree d). node_ok d i) \<and>
     (nodeTree d = [] \<longrightarrow> curPrev d = None \<and> curParent d = None) \<and>
     (\<forall>p. curParent d = Some p \<longrightarrow> p < length (nodeTree d)) \<and>
     (nodeTree d \<noteq> [] \<longrightarrow> (\<exists>p < length (nodeTree d). curPrev d = Some p \<and> nextNode (nodeTree d ! p) = None \<and>
        (closed (nodeTree d ! p) \<or> p + 1 = length (nodeTree d))))"

lemma tree_ok_cong:
  "nodeTree d' = nodeTree d \<Longrightarrow> curPrev d' = curPrev d \<Longrightarrow> curParent d' = curParent d \<Longrightarrow> tree_ok d' = tree_ok d"
  by (simp add: tree_ok_def node_ok_def)

lemma tree_ok_update [conf]:
  "tree_ok (d\<lparr>words := ws\<rparr>) = tree_ok d" "tree_ok (d\<lparr>quoted := q\<rparr>) = tree_ok d"
  "tree_ok (d\<lparr>curLine := n\<rparr>) = tree_ok d" "tree_ok (d\<lparr>dangling := b\<rparr>) = tree_ok d"
  "tree_ok (d\<lparr>processedFiles := fs\<rparr>) = tree_ok d" "tree_ok (d\<lparr>docFile := f\<rparr>) = tree_ok d"
  by (simp_all add: tree_ok_def node_ok_def)

lemma tree_ok_no_parent: "tree_ok d \<Longrightarrow> tree_ok (d\<lparr>curParent := None\<rparr>)"
  by (simp add: tree_ok_def node_ok_def)

text \<open>Changes of a node that leave its links alone.\<close>

definition keeps_links :: "(conf_node \<Rightarrow> conf_node) \<Rightarrow> bool" where
  "keeps_links f \<longleftrightarrow> (\<forall>nd. previousNode (f nd) = previousNode nd \<and> nextNode (f nd) = nextNode nd \<and>
     parentNode (f nd) = parentNode nd \<and> childNode (f nd) = childNode nd \<and> (closed nd \<longrightarrow> closed (f nd)))"

lemma length_set_nd [simp]: "length (nodeTree (set_nd d i f)) = length (nodeTree d)"
  by (simp add: set_nd_def)

lemma set_nd_same [simp]:
  "curPrev (set_nd d i f) = curPrev d" "curParent (set_nd d i f) = curParent d"
  "processedFiles (set_nd d i f) = processedFiles d" "words (set_nd d i f) = words d"
  "ignorecase (set_nd d i f) = ignorecase d"
  by (simp_all add: set_nd_def)

lemma nth_set_nd:
  "j < length (nodeTree d) \<Longrightarrow> nodeTree (set_nd d i f) ! j = (if j = i then f (nodeTree d ! j) else nodeTree d ! j)"
  by (auto simp: set_nd_def nth_list_update)

lemma node_ok_set_nd:
  assumes "keeps_links f" "node_ok d j" "j < length (nodeTree d)"
  shows "node_ok (set_nd d i f) j"
proof -
  let ?T = "nodeTree d" and ?S = "nodeTree (set_nd d i f)"
  have L: "previousNode (?S ! k) = previousNode (?T ! k)" "nextNode (?S ! k) = nextNode (?T ! k)"
      "parentNode (?S ! k) = parentNode (?T ! k)" "childNode (?S ! k) = childNode (?T ! k)"
      "closed (?T ! k) \<Longrightarrow> closed (?S ! k)" if "k < length ?T" for k
    using assms(1) that by (auto simp: nth_set_nd keeps_links_def)
  note Lj = L [OF assms(3)]
  show ?thesis
    unfolding node_ok_def Let_def length_set_nd Lj(1-4)
    using assms(2, 3) Lj(5) L(1-3) by (auto simp: node_ok_def Let_def)
qed

lemma tree_ok_set_nd:
  assumes "keeps_links f" "tree_ok d"
  shows "tree_ok (set_nd d i f)"
proof -
  have "nextNode (nodeTree (set_nd d i f) ! p) = nextNode (nodeTree d ! p)"
    "closed (nodeTree d ! p) \<longrightarrow> closed (nodeTree (set_nd d i f) ! p)" if "p < length (nodeTree d)" for p
    using that assms(1) by (auto simp: nth_set_nd keeps_links_def)
  moreover have "(nodeTree (set_nd d i f) = []) = (nodeTree d = [])" by (simp add: set_nd_def)
  ultimately show ?thesis
    using assms(2) node_ok_set_nd [OF assms(1)] unfolding tree_ok_def length_set_nd set_nd_same by metis
qed

lemma keeps_links_pushValue: "keeps_links (\<lambda>nd. pushValue nd v)"
  by (simp add: keeps_links_def pushValue_def)

lemma keeps_links_values: "keeps_links (\<lambda>nd. nd\<lparr>nd_values := f nd\<rparr>)"
  by (simp add: keeps_links_def)

lemma tree_ok_close_node:
  assumes "tree_ok d" "i < length (nodeTree d)" "\<not> closed (nodeTree d ! i)"
  shows "tree_ok (close_node d i)"
proof -
  let ?d = "set_nd d i (\<lambda>nd. nd\<lparr>closed := True\<rparr>)"
  have t: "tree_ok ?d" by (rule tree_ok_set_nd) (simp_all add: keeps_links_def assms(1))
  have n: "node_ok d i" using assms(1, 2) by (simp add: tree_ok_def)
  then have "nextNode (nodeTree d ! i) = None" "\<And>p. parentNode (nodeTree d ! i) = Some p \<Longrightarrow> p < i"
    using assms(3) by (auto simp: node_ok_def Let_def)
  moreover have "nodeTree d \<noteq> []" "nodeTree ?d \<noteq> []" using assms(2) by (auto simp: set_nd_def)
  moreover have "nextNode (nodeTree ?d ! i) = nextNode (nodeTree d ! i)" "closed (nodeTree ?d ! i)"
    using assms(2) by (simp_all add: nth_set_nd)
  moreover have "node_ok (close_node d i) j = node_ok ?d j" for j by (simp add: close_node_def node_ok_def)
  ultimately show ?thesis
    using t assms(2) unfolding tree_ok_def by (auto simp: close_node_def intro: less_trans)
qed

lemma find_open_some:
  "find_open d nm n = Some i \<Longrightarrow> i < n \<and> \<not> closed (nodeTree d ! i) \<and> cmp_func d nm (nd_name (nodeTree d ! i))"
  by (induction n) (auto split: if_splits simp: less_Suc_eq)

text \<open>A new node, as the next of a closed one or as the child of the open last one.\<close>

lemma tree_ok_next:
  assumes t: "tree_ok d" and p: "curPrev d = Some p" and ne: "nodeTree d \<noteq> []"
    and cl: "closed (nodeTree d ! (length (nodeTree d) - 1))" and n: "n = length (nodeTree d)"
    and len: "length (nodeTree e) = Suc n"
    and old: "\<And>j. j < n \<Longrightarrow>
      nodeTree e ! j = (if j = p then (nodeTree d ! p)\<lparr>nextNode := Some n\<rparr> else nodeTree d ! j)"
    and new: "previousNode (nodeTree e ! n) = Some p" "parentNode (nodeTree e ! n) = curParent d"
      "nextNode (nodeTree e ! n) = None" "childNode (nodeTree e ! n) = None"
    and cur: "curPrev e = Some n" "curParent e = curParent d"
  shows "tree_ok e"
proof -
  let ?T = "nodeTree d"
  have "p + 1 = n \<Longrightarrow> closed (?T ! p)" using cl unfolding n [symmetric] by (metis add_diff_cancel_right')
  then have pn: "p < n" "nextNode (?T ! p) = None" "closed (?T ! p)"
    using t p ne by (auto simp: tree_ok_def n)
  have par: "curParent d = Some k \<Longrightarrow> k < n" for k using t by (simp add: tree_ok_def n)
  have "node_ok e j" if j: "j < n" for j
  proof -
    have k: "node_ok d j" using t j by (simp add: tree_ok_def n)
    show ?thesis
      using k j pn unfolding node_ok_def Let_def len old [OF j] n [symmetric]
      by (cases "j = p") (auto simp: old new)
  qed
  moreover have "node_ok e n"
    unfolding node_ok_def Let_def len new using pn par by (auto simp: old)
  ultimately have "\<forall>j < length (nodeTree e). node_ok e j" unfolding len by (auto simp: less_Suc_eq)
  then show ?thesis unfolding tree_ok_def using par new cur len by (auto simp: less_Suc_eq)
qed

lemma tree_ok_child:
  assumes t: "tree_ok d" and n: "Suc m = length (nodeTree d)" and op: "\<not> closed (nodeTree d ! m)"
    and len: "length (nodeTree e) = Suc (Suc m)"
    and old: "\<And>j. j < Suc m \<Longrightarrow>
      nodeTree e ! j = (if j = m then (nodeTree d ! m)\<lparr>childNode := Some (Suc m)\<rparr> else nodeTree d ! j)"
    and new: "previousNode (nodeTree e ! Suc m) = None" "parentNode (nodeTree e ! Suc m) = Some m"
      "nextNode (nodeTree e ! Suc m) = None" "childNode (nodeTree e ! Suc m) = None"
    and cur: "curPrev e = Some (Suc m)" "curParent e = Some m"
  shows "tree_ok e"
proof -
  have m: "m < Suc m" "m < Suc (Suc m)" by simp_all
  have "node_ok e j" if j: "j < Suc m" for j
  proof -
    have k: "node_ok d j" using t j n by (simp add: tree_ok_def)
    show ?thesis
      using k j unfolding node_ok_def Let_def len old [OF j] n [symmetric]
      by (cases "j = m") (auto simp: old new)
  qed
  moreover have "node_ok e (Suc m)"
    unfolding node_ok_def Let_def len new by auto
  ultimately have "\<forall>j < length (nodeTree e). node_ok e j" unfolding len by (auto simp: less_Suc_eq)
  then show ?thesis unfolding tree_ok_def using new cur len by (auto simp: less_Suc_eq)
qed

lemma add_node_ok:
  assumes t: "tree_ok d" and a: "add_node d nm cl = Some e"
  shows "tree_ok e \<and> length (nodeTree e) = Suc (length (nodeTree d)) \<and> processedFiles e = processedFiles d \<and>
    words e = words d \<and> ignorecase e = ignorecase d"
proof (cases "length (nodeTree d)")
  case 0
  then show ?thesis using a t by (auto simp: add_node_def tree_ok_def node_ok_def Let_def split: if_splits)
next
  case (Suc m)
  then have ne: "nodeTree d \<noteq> []" by auto
  show ?thesis
  proof (cases "closed (nodeTree d ! m)")
    case True
    obtain p where p: "curPrev d = Some p" "p < length (nodeTree d)" using t ne by (auto simp: tree_ok_def)
    have cl: "closed (nodeTree d ! (length (nodeTree d) - 1))" using True Suc by simp
    have "tree_ok e"
      by (rule tree_ok_next [OF t p(1) ne cl refl])
        (use a Suc True p in \<open>auto simp: add_node_def nth_append nth_list_update Let_def split: if_splits\<close>)
    then show ?thesis using a Suc True p by (auto simp: add_node_def Let_def split: if_splits)
  next
    case False
    have "tree_ok e"
      by (rule tree_ok_child [OF t Suc [symmetric] False])
        (use a Suc False in \<open>auto simp: add_node_def nth_append nth_list_update Let_def split: if_splits\<close>)
    then show ?thesis using a Suc False by (auto simp: add_node_def Let_def split: if_splits)
  qed
qed

subsection \<open>Every step keeps the links and the processed files\<close>

definition kept :: "document \<Rightarrow> document \<Rightarrow> bool" where
  "kept d e \<longleftrightarrow> (tree_ok d \<longrightarrow> tree_ok e) \<and> processedFiles e = processedFiles d"

lemma kept_refl [simp, intro]: "kept d d"
  by (simp add: kept_def)

lemma kept_trans [trans]: "kept c d \<Longrightarrow> kept d e \<Longrightarrow> kept c e"
  by (simp add: kept_def)

lemma kept_set_nd: "keeps_links f \<Longrightarrow> kept d (set_nd d i f)"
  by (simp add: kept_def tree_ok_set_nd)

lemma kept_fields [conf]:
  "kept d (d\<lparr>words := ws\<rparr>)" "kept d (d\<lparr>words := ws, quoted := q\<rparr>)" "kept d (d\<lparr>words := ws, dangling := b\<rparr>)"
  "kept d (d\<lparr>dangling := b\<rparr>)" "kept d (d\<lparr>curLine := n\<rparr>)" "kept d (d\<lparr>docFile := f\<rparr>)"
  by (simp_all add: kept_def conf)

lemma kept_parse_words:
  "tree_ok d \<Longrightarrow> parse_words ws nn nm tag d = Some (r, e) \<Longrightarrow> kept d e"
proof (induction ws nn nm tag d arbitrary: r e rule: parse_words.induct)
  case (1 nn nm tag d)
  then show ?case by simp
next
  case (2 w ws nn nm tag d)
  let ?w = "if last w = CHR ''>'' then butlast w else w"
  let ?gt = "last w = CHR ''>''"
  have ne: "w \<noteq> []" using 2(6) by (auto split: if_splits)
  note IH = 2(1-4) [OF ne refl refl refl refl]
  show ?case
  proof (cases "\<not> (if nn \<or> hd w = CHR ''<'' then False else nm)")
    case named: True
    show ?thesis
    proof (cases "?w \<noteq> [] \<and> hd ?w = CHR ''<''")
      case lt: True
      show ?thesis
      proof (cases "tl ?w \<noteq> [] \<and> hd (tl ?w) = CHR ''/''")
        case True
        show ?thesis
        proof (cases "find_open d (tl (tl ?w)) (length (nodeTree d))")
          case None
          then show ?thesis using 2(6) ne named lt True by (simp add: Let_def)
        next
          case (Some i)
          have c: "tree_ok (close_node d i)" using tree_ok_close_node [OF 2(5)] find_open_some [OF Some] by blast
          have "kept (close_node d i) e"
            using IH(1) [OF named lt True Some c] 2(6) ne named lt True Some by (simp add: Let_def)
          then show ?thesis using c by (simp add: kept_def close_node_def)
        qed
      next
        case False
        obtain d' where a: "add_node d (tl ?w) False = Some d'"
          and p: "parse_words ws ?gt True (Some (length (nodeTree d))) d' = Some (r, e)"
          using 2(6) ne named lt False by (auto simp: Let_def split: Option.bind_splits)
        show ?thesis using IH(2) [OF named lt False a _ p] add_node_ok [OF 2(5) a] by (auto simp: kept_def)
      qed
    next
      case lt: False
      obtain d' where a: "add_node d ?w True = Some d'"
        and p: "parse_words ws ?gt True (Some (length (nodeTree d))) d' = Some (r, e)"
        using 2(6) ne named lt by (auto simp: Let_def split: Option.bind_splits)
      show ?thesis using IH(3) [OF named lt a _ p] add_node_ok [OF 2(5) a] by (auto simp: kept_def)
    qed
  next
    case named: False
    obtain i where i: "tag = Some i"
      and p: "parse_words ws ?gt True tag (set_nd d i (\<lambda>nd. pushValue nd ?w)) = Some (r, e)"
      using 2(6) ne named by (auto simp: Let_def split: Option.bind_splits)
    have k: "kept d (set_nd d i (\<lambda>nd. pushValue nd ?w))"
      by (rule kept_set_nd) (simp add: keeps_links_pushValue)
    then have "tree_ok (set_nd d i (\<lambda>nd. pushValue nd ?w))" using 2(5) by (simp add: kept_def)
    then show ?thesis using IH(4) [OF named i _ p] k by (blast intro: kept_trans)
  qed
qed

lemma kept_parseLine: "tree_ok d \<Longrightarrow> parseLine d = Some (r, e) \<Longrightarrow> kept d e"
  using kept_parse_words by (auto simp: parseLine_def split: if_splits)

lemma kept_cleanupLine: "cleanupLine d line = (r, e) \<Longrightarrow> kept d e"
  by (auto simp: cleanupLine_def Let_def conf split: prod.splits if_splits)

text \<open>One line, so that the loop is a single case distinction.\<close>

definition line_step :: "document \<Rightarrow> string \<Rightarrow> (bool \<times> int \<times> document) option" where
  "line_step d raw =
     (let str = takeWhile (\<lambda>c. c \<noteq> CHR 0x00) raw; d1 = d\<lparr>curLine := curLine d + 1\<rparr>
      in if str = [] then None
         else let (r, d2) = cleanupLine d1 (if last str \<noteq> newline then str @ [newline] else str)
           in if r = -1 then Some (False, -1, d2)
              else if r = 0 \<and> words d2 \<noteq> []
                then (case parseLine d2 of
                    None \<Rightarrow> None
                  | Some (r', d3) \<Rightarrow> Some (r' \<noteq> -1, r', d3\<lparr>words := [], dangling := False\<rparr>))
              else Some (True, r, d2))"

lemma parse_lines_step:
  "parse_lines s ret d =
     (if s = [] then Some (ret, d)
      else case line_step d (fst (read_line 510 s)) of
        None \<Rightarrow> None
      | Some (go, r, d') \<Rightarrow> if go then parse_lines (snd (read_line 510 s)) r d' else Some (r, d'))"
proof (cases "s = []")
  case True
  then show ?thesis by (simp add: parse_lines.simps)
next
  case False
  obtain raw rest where rl: "read_line 510 s = (raw, rest)" by fastforce
  let ?str = "takeWhile (\<lambda>c. c \<noteq> CHR 0x00) raw"
  obtain r d2 where c: "cleanupLine (d\<lparr>curLine := curLine d + 1\<rparr>)
      (if last ?str \<noteq> newline then ?str @ [newline] else ?str) = (r, d2)" by fastforce
  show ?thesis
    using False by (subst parse_lines.simps) (simp add: rl line_step_def c Let_def split: option.split)
qed

lemma kept_line_step:
  assumes "tree_ok d" "line_step d raw = Some (go, r, e)"
  shows "kept d e"
proof -
  let ?str = "takeWhile (\<lambda>c. c \<noteq> CHR 0x00) raw" and ?d1 = "d\<lparr>curLine := curLine d + 1\<rparr>"
  obtain r2 d2 where c: "cleanupLine ?d1 (if last ?str \<noteq> newline then ?str @ [newline] else ?str) = (r2, d2)"
    by fastforce
  have k: "kept d d2" using kept_cleanupLine [OF c] by (blast intro: kept_trans conf)
  show ?thesis
  proof (cases "r2 = 0 \<and> words d2 \<noteq> []")
    case True
    obtain r' d3 where p: "parseLine d2 = Some (r', d3)" "e = d3\<lparr>words := [], dangling := False\<rparr>"
      using assms(2) c True by (auto simp: line_step_def Let_def split: if_splits option.splits)
    have "kept d2 d3" using kept_parseLine [OF _ p(1)] k assms(1) by (simp add: kept_def)
    then show ?thesis using k p(2) by (auto simp: kept_def conf)
  next
    case False
    then have "e = d2" using assms(2) c by (auto simp: line_step_def Let_def split: if_splits)
    then show ?thesis using k by simp
  qed
qed

lemma kept_parse_lines: "tree_ok d \<Longrightarrow> parse_lines s ret d = Some (r, e) \<Longrightarrow> kept d e"
proof (induction "length s" arbitrary: s ret d rule: less_induct)
  case less
  show ?case
  proof (cases "s = []")
    case True
    then show ?thesis using less(3) by (simp add: parse_lines.simps)
  next
    case False
    obtain go r1 d1 where st: "line_step d (fst (read_line 510 s)) = Some (go, r1, d1)"
      using less(3) False by (auto simp: parse_lines_step [of s] split: option.splits)
    have k: "kept d d1" by (rule kept_line_step [OF less(2) st])
    show ?thesis
    proof (cases go)
      case True
      have l: "length (snd (read_line 510 s)) < length s"
        using read_line_shorter [of "fst (read_line 510 s)" "snd (read_line 510 s)" 510 s] False by simp
      have p: "parse_lines (snd (read_line 510 s)) r1 d1 = Some (r, e)"
        using less(3) False st True by (simp add: parse_lines_step [of s])
      have "tree_ok d1" using k less(2) by (simp add: kept_def)
      from less(1) [OF l this p] have "kept d1 e" .
      then show ?thesis using k kept_trans by blast
    next
      case False
      then show ?thesis using less(3) \<open>s \<noteq> []\<close> st k by (simp add: parse_lines_step [of s])
    qed
  qed
qed

lemma kept_parseFile: "tree_ok d \<Longrightarrow> parseFile d text None = Some (r, e) \<Longrightarrow> kept d e"
proof -
  assume t: "tree_ok d" and p: "parseFile d text None = Some (r, e)"
  have "d\<lparr>curLine := 0, curParent := None, quoted := False\<rparr> = (d\<lparr>curParent := None\<rparr>)\<lparr>curLine := 0, quoted := False\<rparr>"
    by simp
  then have "tree_ok (d\<lparr>curLine := 0, curParent := None, quoted := False\<rparr>)"
    using tree_ok_no_parent [OF t] by (simp only: tree_ok_update)
  from kept_parse_lines [OF this] this p show ?thesis by (auto simp: parseFile_def kept_def)
qed

lemma kept_set_value: "kept d (set_value d i vi v)"
  unfolding set_value_def by (rule kept_set_nd) (simp add: keeps_links_def)

lemma kept_subst_walk: "subst_walk h i vi m acc seen d = (r, v, e) \<Longrightarrow> kept d e"
proof (induction h i vi m acc seen d arbitrary: r v e rule: subst_walk.induct)
  case (1 h i vi m acc seen d)
  let ?d1 = "if seen then d else set_value d i vi (acc @ ''${'' @ macro_var m)"
  have k: "kept d ?d1" by (simp add: kept_set_value)
  show ?case
  proof (cases "m \<noteq> [] \<and> take 2 m = ''${''")
    case True
    then show ?thesis
      using 1(1) [OF _ _ refl] 1(3) k
      by (subst (asm) subst_walk.simps) (auto simp: Let_def split: option.splits intro: kept_trans)
  next
    case False
    then show ?thesis
      using 1(2) 1(3) by (subst (asm) (2) subst_walk.simps) (auto split: if_splits)
  qed
qed

lemma kept_macroSubstitute: "macroSubstitute h d i vi = (r, e) \<Longrightarrow> kept d e"
proof -
  assume m: "macroSubstitute h d i vi = (r, e)"
  obtain r1 v d1 where w: "subst_walk h i vi (nd_values (nodeTree d ! i) ! vi) [] False d = (r1, v, d1)"
    by (metis prod_cases3)
  have "e = set_value d1 i vi v" using m w by (simp add: macroSubstitute_def)
  then show ?thesis using kept_subst_walk [OF w] kept_set_value kept_trans by blast
qed

lemma kept_check_values: "check_values h i n ret d = (r, e) \<Longrightarrow> kept d e"
proof (induction h i n ret d arbitrary: r e rule: check_values.induct)
  case (2 h i n ret d)
  let ?vs = "nd_values (nodeTree d ! i)" and ?vi = "length (nd_values (nodeTree d ! i)) - Suc n"
  show ?case
  proof (cases "has_macro (?vs ! ?vi) \<and> CHR ''}'' \<in> set (?vs ! ?vi)")
    case True
    obtain r1 d1 where m: "macroSubstitute h d i ?vi = (r1, d1)" by fastforce
    let ?d2 = "d1\<lparr>dangling := dangling d1 \<or> words d1 \<noteq> []\<rparr>"
    have k: "kept d ?d2" using kept_macroSubstitute [OF m] by (blast intro: kept_trans conf)
    show ?thesis
    proof (cases "r1 = -1")
      case True
      then show ?thesis using 2(3) \<open>has_macro _ \<and> _\<close> m k by (simp add: Let_def)
    next
      case False
      then show ?thesis
        using 2(1) [OF refl refl True m [symmetric] refl refl False] 2(3) True m k
        by (auto simp: Let_def intro: kept_trans)
    qed
  next
    case False
    then have "check_values h i (Suc n) ret d = check_values h i n ret d" by (auto simp: Let_def)
    then show ?thesis using 2(2) [OF refl refl False] 2(3) by simp
  qed
qed simp

lemma kept_check_nodes: "check_nodes h js ret d = (r, e) \<Longrightarrow> kept d e"
proof (induction js arbitrary: ret d)
  case (Cons i js)
  obtain r1 d1 where c: "check_values h i (length (nd_values (nodeTree d ! i))) ret d = (r1, d1)" by fastforce
  show ?case using Cons kept_check_values [OF c] c by (auto split: if_splits intro: kept_trans)
qed simp

lemma kept_checkConfig: "checkConfig h d n = (r, e) \<Longrightarrow> kept d e"
  unfolding checkConfig_def by (rule kept_check_nodes)

subsection \<open>Included files\<close>

definition real_files :: "conf_host \<Rightarrow> string set" where
  "real_files h = {rp. \<exists>v. realpath h v = Some rp}"

text \<open>An include directive either changes nothing or adds a file that was not processed before.\<close>

lemma include_values_progress:
  "include_values h vs ret d = Some (r, e) \<Longrightarrow>
   (tree_ok d \<longrightarrow> tree_ok e) \<and>
   (tree_ok d \<longrightarrow> e = d \<or> (set (processedFiles d) \<subset> set (processedFiles e) \<and>
      set (processedFiles e) \<subseteq> set (processedFiles d) \<union> real_files h))"
proof (induction vs arbitrary: ret d)
  case (Cons v vs)
  show ?case
  proof (cases "access h v \<and> realpath h v \<noteq> None \<and> the (realpath h v) \<notin> set (processedFiles d)")
    case False
    then show ?thesis using Cons.prems by (auto split: if_splits option.splits)
  next
    case True
    then obtain rp where rp: "realpath h v = Some rp" "rp \<notin> set (processedFiles d)" "access h v" by auto
    have rf: "rp \<in> real_files h" using rp(1) by (auto simp: real_files_def)
    let ?d1 = "d\<lparr>processedFiles := processedFiles d @ [rp]\<rparr>"
    have new: "set (processedFiles d) \<subset> set (processedFiles f) \<and>
        set (processedFiles f) \<subseteq> set (processedFiles d) \<union> real_files h"
      if "processedFiles f = processedFiles d @ [rp]" for f
      using that rp(2) rf by auto
    have t1: "tree_ok d \<Longrightarrow> tree_ok (?d1\<lparr>docFile := Some rp\<rparr>)" by (simp only: tree_ok_update)
    show ?thesis
    proof (cases "openread h v")
      case None
      then have "e = ?d1" using Cons.prems rp by simp
      then show ?thesis using new [of e] by (simp add: tree_ok_update)
    next
      case (Some cont)
      obtain r3 d3 where p: "parseFile (?d1\<lparr>docFile := Some rp\<rparr>) cont None = Some (r3, d3)"
        using Cons.prems rp Some by (auto split: option.splits)
      obtain c d4 where ch: "checkConfig h d3 (length (nodeTree d)) = (c, d4)" by fastforce
      have k3: "tree_ok d3 \<and> processedFiles d3 = processedFiles d @ [rp]" if "tree_ok d"
        using kept_parseFile [OF t1 [OF that] p] t1 [OF that] by (simp add: kept_def)
      have k4: "tree_ok d4 \<and> processedFiles d4 = processedFiles d @ [rp]" if "tree_ok d"
        using kept_checkConfig [OF ch] k3 [OF that] by (simp add: kept_def)
      consider "e = d3" | "e = d4" | "include_values h vs r3 d4 = Some (r, e)"
        using Cons.prems rp Some p ch by (auto simp: Let_def split: if_splits)
      then show ?thesis
      proof cases
        case 1
        then show ?thesis using k3 new by blast
      next
        case 2
        then show ?thesis using k4 new by blast
      next
        case 3
        note ih = Cons.IH [OF 3]
        show ?thesis
        proof (intro conjI impI)
          assume "tree_ok d"
          then show "tree_ok e" using ih k4 by blast
        next
          assume t: "tree_ok d"
          have "set (processedFiles d4) \<subseteq> set (processedFiles e) \<and>
              set (processedFiles e) \<subseteq> set (processedFiles d4) \<union> real_files h"
            using ih k4 [OF t] by auto
          then show "e = d \<or> (set (processedFiles d) \<subset> set (processedFiles e) \<and>
              set (processedFiles e) \<subseteq> set (processedFiles d) \<union> real_files h)"
            using new [of d4] k4 [OF t] by blast
        qed
      qed
    qed
  qed
qed simp

lemma include_nodes_more:
  "include_nodes n h i ret d = Some r \<Longrightarrow> n \<le> m \<Longrightarrow> include_nodes m h i ret d = Some r"
proof (induction n h i ret d arbitrary: m rule: include_nodes.induct)
  case (2 n h i ret d)
  obtain m' where m: "m = Suc m'" "n \<le> m'" using 2(4) by (cases m) auto
  show ?case
  proof (cases "i < length (nodeTree d) \<and> cmp_func d include_name (nd_name (nodeTree d ! i))")
    case False
    then show ?thesis using 2(2, 3) m by (auto split: if_splits)
  next
    case True
    show ?thesis
    proof (cases "include_values h (nd_values (nodeTree d ! i)) ret d")
      case None
      then show ?thesis using True 2(3) m by simp
    next
      case (Some re)
      obtain r' d' where re: "re = (r', d')" by fastforce
      note v = Some [unfolded re]
      show ?thesis
      proof (cases "r' = -1")
        case True
        then have "r = Some (-1, d')" using 2(3) \<open>_ \<and> _\<close> v by simp
        then show ?thesis using \<open>_ \<and> _\<close> v m \<open>r' = -1\<close> by simp
      next
        case False
        have "include_nodes n h (Suc i) r' d' = Some r" using 2(3) True v False by simp
        then have "include_nodes m' h (Suc i) r' d' = Some r"
          using 2(1) [OF _ _ v refl False] True m(2) by simp
        then show ?thesis using True v False m by simp
      qed
    qed
  qed
qed simp

lemma include_nodes_ends:
  assumes "finite (real_files h)" "tree_ok d"
  shows "\<exists>n r. include_nodes n h i ret d = Some r"
  using assms(2)
proof (induction "(card (real_files h - set (processedFiles d)), length (nodeTree d) - i)"
    arbitrary: d i ret rule: wf_induct_rule [OF wf_lex_prod [OF wf_less_than wf_less_than]])
  case (1 d i ret)
  have go: "\<exists>n r. include_nodes n h (Suc i) ret' e = Some r"
    if "tree_ok e" "i < length (nodeTree d)" "e = d \<or> (set (processedFiles d) \<subset> set (processedFiles e) \<and>
        set (processedFiles e) \<subseteq> set (processedFiles d) \<union> real_files h)" for e ret'
  proof (rule 1(1))
    show "((card (real_files h - set (processedFiles e)), length (nodeTree e) - Suc i),
        card (real_files h - set (processedFiles d)), length (nodeTree d) - i) \<in> less_than <*lex*> less_than"
    proof (cases "e = d")
      case False
      then have "real_files h - set (processedFiles e) \<subset> real_files h - set (processedFiles d)"
        using that(3) by blast
      then have "card (real_files h - set (processedFiles e)) < card (real_files h - set (processedFiles d))"
        using assms(1) by (intro psubset_card_mono) auto
      then show ?thesis by simp
    qed (use that(2) in simp)
  qed fact
  show ?case
  proof (cases "i < length (nodeTree d)")
    case False
    then have "include_nodes 1 h i ret d = Some (Some (ret, d))" by simp
    then show ?thesis by blast
  next
    case i: True
    show ?thesis
    proof (cases "cmp_func d include_name (nd_name (nodeTree d ! i))")
      case False
      obtain n r where "include_nodes n h (Suc i) ret d = Some r" using go [OF 1(2) i] by blast
      then have "include_nodes (Suc n) h i ret d = Some r" using i False by simp
      then show ?thesis by blast
    next
      case True
      show ?thesis
      proof (cases "include_values h (nd_values (nodeTree d ! i)) ret d")
        case None
        then have "include_nodes 1 h i ret d = Some None" using i True by simp
        then show ?thesis by blast
      next
        case (Some re)
        obtain r' e where re: "re = (r', e)" by fastforce
        note pr = include_values_progress [OF Some [unfolded re]]
        obtain n r where "include_nodes n h (Suc i) r' e = Some r" using go [OF _ i] pr 1(2) by blast
        then have "\<exists>r. include_nodes (Suc n) h i ret d = Some r"
          using i True Some re by (cases "r' = -1") auto
        then show ?thesis by blast
      qed
    qed
  qed
qed

lemma include_nodes_ok:
  "include_nodes n h i ret d = Some (Some (r, e)) \<Longrightarrow> tree_ok d \<Longrightarrow> tree_ok e"
proof (induction n h i ret d rule: include_nodes.induct)
  case (2 n h i ret d)
  show ?case
  proof (cases "i < length (nodeTree d) \<and> cmp_func d include_name (nd_name (nodeTree d ! i))")
    case False
    then show ?thesis using 2(2-4) by (auto split: if_splits)
  next
    case True
    obtain r' d' where v: "include_values h (nd_values (nodeTree d ! i)) ret d = Some (r', d')"
      using True 2(3) by (auto split: option.splits)
    have t: "tree_ok d'" using include_values_progress [OF v] 2(4) by blast
    show ?thesis
    proof (cases "r' = -1")
      case True
      then show ?thesis using 2(3) \<open>_ \<and> _\<close> v t by simp
    next
      case False
      then show ?thesis using 2(1) [of "(r', d')" r' d'] 2(3) True v t by simp
    qed
  qed
qed simp

text \<open>The checks return 0 or -1.\<close>

lemma subst_walk_result: "subst_walk h i vi m acc seen d = (r, v, e) \<Longrightarrow> r = 0 \<or> r = -1"
proof (induction h i vi m acc seen d arbitrary: r v e rule: subst_walk.induct)
  case (1 h i vi m acc seen d)
  show ?case
  proof (cases "m \<noteq> [] \<and> take 2 m = ''${''")
    case True
    then show ?thesis
      using 1(1) [OF _ _ refl] 1(3)
      by (subst (asm) subst_walk.simps) (auto simp: Let_def split: option.splits)
  next
    case False
    then show ?thesis
      using 1(2) 1(3) by (subst (asm) (2) subst_walk.simps) (auto split: if_splits)
  qed
qed

lemma check_values_result: "check_values h i n ret d = (r, e) \<Longrightarrow> ret = 0 \<or> ret = -1 \<Longrightarrow> r = 0 \<or> r = -1"
proof (induction n arbitrary: ret d)
  case (Suc n)
  let ?vs = "nd_values (nodeTree d ! i)" and ?vi = "length (nd_values (nodeTree d ! i)) - Suc n"
  obtain r1 d1 where m: "macroSubstitute h d i ?vi = (r1, d1)" by fastforce
  obtain r2 v d2 where "subst_walk h i ?vi (?vs ! ?vi) [] False d = (r2, v, d2)" by (metis prod_cases3)
  then have "r1 = 0 \<or> r1 = -1" using m subst_walk_result by (fastforce simp: macroSubstitute_def)
  then show ?case
    using Suc.IH Suc.prems m
    by (cases "has_macro (?vs ! ?vi) \<and> CHR ''}'' \<in> set (?vs ! ?vi)") (auto simp: Let_def split: if_splits)
qed simp

lemma checkConfig_result: "checkConfig h d n = (r, e) \<Longrightarrow> r = 0 \<or> r = -1"
proof -
  have "check_nodes h js ret d = (r, e) \<Longrightarrow> ret = 0 \<or> ret = -1 \<Longrightarrow> r = 0 \<or> r = -1" for js ret d
  proof (induction js arbitrary: ret d)
    case (Cons i js)
    obtain r1 d1 where c: "check_values h i (length (nd_values (nodeTree d ! i))) ret d = (r1, d1)" by fastforce
    show ?case using Cons check_values_result [OF c] c by (auto split: if_splits)
  qed simp
  then show "checkConfig h d n = (r, e) \<Longrightarrow> r = 0 \<or> r = -1" by (simp add: checkConfig_def)
qed

end
