(* ===== verification/ConfReader.thy ===== *)
theory ConfReader
  imports ConfDoc
begin

text \<open>
  The readers over the parser: \<open>ConfigReader\<close> of \<open>common/config/config_reader.cc\<close>, \<open>ReadFile\<close> of
  \<open>common/base/file_reader.cc\<close>, \<open>PbConfig\<close> of \<open>common/pb_config/pb_config.h\<close> and the process-wide buffer
  of \<open>common/base/global_buff.cc\<close>. A reader is its \<open>m_conf\<close>, a document or the null pointer. \<open>atof\<close> and
  the protobuf text parser are parameters.
\<close>

subsection \<open>\<open>strtol\<close> and \<open>strtoul\<close>\<close>

definition digit_val :: "char \<Rightarrow> int" where
  "digit_val c = (let n = int (of_char c)
     in if 48 \<le> n \<and> n \<le> 57 then n - 48
        else if 97 \<le> n \<and> n \<le> 122 then n - 87
        else if 65 \<le> n \<and> n \<le> 90 then n - 55 else 99)"

fun digits_val :: "int \<Rightarrow> string \<Rightarrow> int \<Rightarrow> int" where
  "digits_val base [] acc = acc"
| "digits_val base (c # cs) acc =
     (if digit_val c < base then digits_val base cs (acc * base + digit_val c) else acc)"

definition strto_sign :: "string \<Rightarrow> bool \<times> string" where
  "strto_sign s = (let t = dropWhile isspace s
     in if t \<noteq> [] \<and> hd t = CHR ''-'' then (True, tl t)
        else if t \<noteq> [] \<and> hd t = CHR ''+'' then (False, tl t) else (False, t))"

definition has_0x :: "string \<Rightarrow> bool" where
  "has_0x s \<longleftrightarrow> take 2 s = ''0x'' \<or> take 2 s = ''0X''"

definition strto_mag :: "int \<Rightarrow> string \<Rightarrow> int" where
  "strto_mag base t =
     digits_val base (if base = 16 \<and> has_0x t \<and> drop 2 t \<noteq> [] \<and> digit_val (t ! 2) < 16 then drop 2 t else t) 0"

definition strtol :: "string \<Rightarrow> int \<Rightarrow> int" where
  "strtol s base = (let (neg, t) = strto_sign s; v = strto_mag base t
     in if neg then max (- (2 ^ 63)) (- v) else min (2 ^ 63 - 1) v)"

definition strtoul :: "string \<Rightarrow> int \<Rightarrow> int" where
  "strtoul s base = (let (neg, t) = strto_sign s; v = strto_mag base t
     in if v \<ge> 2 ^ 64 then 2 ^ 64 - 1 else if neg then u64 (- v) else v)"

subsection \<open>\<open>ConfigReader\<close>\<close>

type_synonym reader = "document option"

definition ConfigReader :: reader where
  "ConfigReader = None"

definition SetSource :: "nat \<Rightarrow> conf_host \<Rightarrow> string \<Rightarrow> bool \<Rightarrow> (bool \<times> reader) option option" where
  "SetSource fuel h file ic =
     map_option (map_option (\<lambda>(r, d). if r = -1 then (False, None) else (True, Some d)))
       (setContent fuel h (DOTCONFDocument ic) file)"

text \<open>The first value of the first node of that name outside every other node.\<close>

definition conf_lookup :: "document \<Rightarrow> string \<Rightarrow> string option" where
  "conf_lookup d nm = do { i \<leftarrow> findNode d nm None None; getValue (nodeTree d ! i) 0 }"

definition GetValueAsString :: "reader \<Rightarrow> string \<Rightarrow> string \<Rightarrow> string" where
  "GetValueAsString m nm def =
     (case m of None \<Rightarrow> def | Some d \<Rightarrow> (case conf_lookup d nm of None \<Rightarrow> def | Some v \<Rightarrow> v))"

definition GetValueAsBool :: "reader \<Rightarrow> string \<Rightarrow> bool \<Rightarrow> bool" where
  "GetValueAsBool m nm def =
     (case m of None \<Rightarrow> False
      | Some d \<Rightarrow> (case conf_lookup d nm of None \<Rightarrow> def
          | Some v \<Rightarrow> v \<in> {''true'', ''TRUE'', ''yes'', ''YES'', ''1''}))"

definition GetValueAsInt :: "reader \<Rightarrow> string \<Rightarrow> int \<Rightarrow> int" where
  "GetValueAsInt m nm def =
     (case m of None \<Rightarrow> def
      | Some d \<Rightarrow> (case conf_lookup d nm of None \<Rightarrow> def
          | Some v \<Rightarrow> i32 (if has_0x v then strtol v 16 else strtol v 10)))"

definition GetValueAsUInt :: "reader \<Rightarrow> string \<Rightarrow> int \<Rightarrow> int" where
  "GetValueAsUInt m nm def =
     (case m of None \<Rightarrow> def
      | Some d \<Rightarrow> (case conf_lookup d nm of None \<Rightarrow> def
          | Some v \<Rightarrow> u32 (if has_0x v then strtoul v 16 else strtoul v 10)))"

definition GetValueAsFloat :: "(string \<Rightarrow> 'f :: zero) \<Rightarrow> reader \<Rightarrow> string \<Rightarrow> 'f \<Rightarrow> 'f" where
  "GetValueAsFloat atof m nm def =
     (case m of None \<Rightarrow> def
      | Some d \<Rightarrow> (case conf_lookup d nm of None \<Rightarrow> 0 | Some v \<Rightarrow> atof v))"

subsection \<open>\<open>ReadFile\<close> and \<open>PbConfig\<close>\<close>

definition GLOBAL_BUFF_SIZE :: nat where "GLOBAL_BUFF_SIZE = 16 * 1024 * 1024"

definition GetZeroGlobalBuffer :: "byte list \<Rightarrow> byte list" where
  "GetZeroGlobalBuffer b = replicate GLOBAL_BUFF_SIZE 0"

text \<open>\<open>files\<close> gives the content of a file that can be opened. \<open>None\<close> is the failed assert.\<close>

definition ReadFile ::
  "(string \<Rightarrow> byte list option) \<Rightarrow> string \<Rightarrow> byte list \<Rightarrow> int \<Rightarrow> (int \<times> byte list \<times> int) option" where
  "ReadFile files file_name buff len =
     (case files ''file_name'' of
        None \<Rightarrow> Some (-1, buff, len)
      | Some text \<Rightarrow>
          let n = i32 (int (length text))
          in if n < 0 then Some (-1, buff, len)
             else if n > len then None
             else do { buff' \<leftarrow> memcpy buff 0 text 0 n; Some (0, buff', n) })"

text \<open>
  The function ends without a return after it has parsed the file, which is a fault. The result is the
  returned value, the buffer and the configuration.
\<close>

definition pb_Load ::
  "(byte list \<Rightarrow> 'c option) \<Rightarrow> (string \<Rightarrow> byte list option) \<Rightarrow> string \<Rightarrow> byte list \<Rightarrow> 'c \<Rightarrow> (bool \<times> byte list \<times> 'c) option" where
  "pb_Load parse files config_file buff cfg =
     (case ReadFile files config_file buff (int GLOBAL_BUFF_SIZE) of
        None \<Rightarrow> None
      | Some (r, buff', n) \<Rightarrow>
          if r \<noteq> 0 then Some (False, buff', cfg)
          else (case parse (take (nat n) buff') of
              None \<Rightarrow> Some (False, buff', cfg)
            | Some c \<Rightarrow> None))"

end
