(* ===== verification/ConfText.thy ===== *)
theory ConfText
  imports ConfTree ConfReader
begin

text \<open>
  Configuration files written as one assignment a line, and what the parser makes of them.
\<close>

definition plain_name :: "string \<Rightarrow> bool" where
  "plain_name k \<longleftrightarrow> k \<noteq> [] \<and> (\<forall>c\<in>set k. \<not> isspace c \<and>
     c \<notin> {CHR ''#'', CHR '';'', CHR ''='', CHR 0x5C, CHR 0x22, CHR 0x27, CHR ''<'', CHR ''>'', CHR 0x00})"

definition plain_value :: "string \<Rightarrow> bool" where
  "plain_value v \<longleftrightarrow> v \<noteq> [] \<and> hd v \<noteq> CHR ''<'' \<and> last v \<noteq> CHR ''>'' \<and>
     (\<forall>c\<in>set v. c \<notin> {CHR 0x5C, CHR 0x22, CHR 0x27, CHR ''$'', CHR 0x00, newline})"

definition conf_line :: "string \<times> string \<Rightarrow> string" where
  "conf_line kv = fst kv @ '' = '' @ [CHR 0x22] @ snd kv @ [CHR 0x22, newline]"

definition conf_text :: "(string \<times> string) list \<Rightarrow> string" where
  "conf_text kvs = List.concat (map conf_line kvs)"

definition plain_entry :: "string \<times> string \<Rightarrow> bool" where
  "plain_entry kv \<longleftrightarrow> plain_name (fst kv) \<and> plain_value (snd kv) \<and> length (fst kv) + length (snd kv) \<le> 500 \<and>
     map tolower (fst kv) \<noteq> map tolower include_name"

subsection \<open>The words of a line\<close>

lemma clean_copy:
  "(\<And>c nx. c \<in> set s \<Longrightarrow> clean_act c nx q = Copy) \<Longrightarrow>
   clean_loop (s @ rest) cur j ws q = clean_loop rest (cur @ s) j ws q"
  by (induction s arbitrary: cur) simp_all

lemma name_copy: "plain_name k \<Longrightarrow> c \<in> set k \<Longrightarrow> clean_act c nx False = Copy"
  by (auto simp: plain_name_def clean_act_def)

lemma value_copy: "plain_value v \<Longrightarrow> c \<in> set v \<Longrightarrow> clean_act c nx True = Copy"
  by (auto simp: plain_value_def clean_act_def)

lemma clean_conf_line:
  assumes "plain_name k" "plain_value v"
  shows "clean_loop (conf_line (k, v)) [] False [] False = (False, [k, v], False)"
proof -
  have ne: "k \<noteq> []" "v \<noteq> []" using assms by (auto simp: plain_name_def plain_value_def)
  let ?t = "[CHR 0x22] @ v @ [CHR 0x22, newline]"
  have "clean_loop (conf_line (k, v)) [] False [] False = clean_loop ('' = '' @ ?t) k False [] False"
    using clean_copy [of k False, OF name_copy [OF assms(1)]] by (simp add: conf_line_def)
  also have "\<dots> = clean_loop (''= '' @ ?t) [] False [k] False"
    using ne(1) by (simp add: clean_act_def isspace_def end_word_def newline_def)
  also have "\<dots> = clean_loop ?t [] False [k] False"
    by (simp add: clean_act_def isspace_def end_word_def newline_def)
  also have "\<dots> = clean_loop (v @ [CHR 0x22, newline]) [] False [k] True"
    by (simp add: clean_act_def isspace_def newline_def split: list.split)
  also have "\<dots> = clean_loop [CHR 0x22, newline] v False [k] True"
    using clean_copy [of v True, OF value_copy [OF assms(2)]] by simp
  also have "\<dots> = (False, [k, v], False)"
    using ne(2) by (simp add: clean_act_def isspace_def end_word_def newline_def)
  finally show ?thesis .
qed

subsection \<open>The node of a line\<close>

definition entry_of :: "conf_node \<Rightarrow> string \<times> string list" where
  "entry_of nd = (nd_name nd, nd_values nd)"

definition flat :: "document \<Rightarrow> (string \<times> string) list \<Rightarrow> bool" where
  "flat d kvs \<longleftrightarrow> map entry_of (nodeTree d) = map (\<lambda>(k, v). (k, [v])) kvs \<and>
     (\<forall>nd\<in>set (nodeTree d). closed nd \<and> parentNode nd = None) \<and> \<not> quoted d \<and>
     curParent d = None \<and> \<not> dangling d \<and> processedFiles d \<noteq> [] \<and>
     (nodeTree d \<noteq> [] \<longrightarrow> (\<exists>p < length (nodeTree d). curPrev d = Some p))"

definition same_rest :: "document \<Rightarrow> document \<Rightarrow> bool" where
  "same_rest d e \<longleftrightarrow> requiredOptions e = requiredOptions d \<and> processedFiles e = processedFiles d \<and>
     ignorecase e = ignorecase d"

lemma parse_words_entry:
  assumes f: "flat d kvs" and p: "plain_name k" "plain_value v"
  shows "\<exists>e. parse_words [k, v] False False None d = Some (0, e) \<and> flat e (kvs @ [(k, v)]) \<and> same_rest d e"
proof -
  have k: "k \<noteq> []" "hd k \<noteq> CHR ''<''" "last k \<noteq> CHR ''>''"
    using p(1) by (auto simp: plain_name_def)
  have v: "v \<noteq> []" "hd v \<noteq> CHR ''<''" "last v \<noteq> CHR ''>''" using p(2) by (auto simp: plain_value_def)
  let ?n = "length (nodeTree d)"
  have len: "length kvs = ?n" using f unfolding flat_def by (metis length_map)
  have "\<exists>d1. add_node d k True = Some d1 \<and> length (nodeTree d1) = Suc ?n \<and>
      map entry_of (nodeTree d1) = map entry_of (nodeTree d) @ [(k, [])] \<and>
      (\<forall>nd\<in>set (nodeTree d1). closed nd \<and> parentNode nd = None) \<and> \<not> quoted d1 \<and>
      curParent d1 = None \<and> \<not> dangling d1 \<and> processedFiles d1 \<noteq> [] \<and> curPrev d1 = Some ?n \<and> same_rest d d1"
  proof (cases "nodeTree d = []")
    case True
    then show ?thesis using f by (auto simp: add_node_def flat_def entry_of_def same_rest_def)
  next
    case False
    obtain q where q: "curPrev d = Some q" "q < ?n" using f False by (auto simp: flat_def)
    have "nodeTree d ! (?n - 1) \<in> set (nodeTree d)" using False by simp
    then have "closed (nodeTree d ! (?n - 1))" using f by (simp add: flat_def)
    moreover have "map entry_of ((nodeTree d)[q := (nodeTree d ! q)\<lparr>nextNode := Some ?n\<rparr>]) = map entry_of (nodeTree d)"
      using q(2) by (intro nth_equalityI) (auto simp: nth_list_update entry_of_def)
    moreover have "nd \<in> set ((nodeTree d)[q := (nodeTree d ! q)\<lparr>nextNode := Some ?n\<rparr>]) \<Longrightarrow> closed nd \<and> parentNode nd = None" for nd
      using f q by (auto simp: flat_def dest: set_update_subset_insert [THEN subsetD])
    ultimately show ?thesis using f q False by (auto simp: add_node_def flat_def entry_of_def same_rest_def Let_def)
  qed
  then obtain d1 where d1: "add_node d k True = Some d1" "length (nodeTree d1) = Suc ?n"
      "map entry_of (nodeTree d1) = map entry_of (nodeTree d) @ [(k, [])]"
      "\<forall>nd\<in>set (nodeTree d1). closed nd \<and> parentNode nd = None" "\<not> quoted d1"
      "curParent d1 = None" "\<not> dangling d1" "processedFiles d1 \<noteq> []" "curPrev d1 = Some ?n" "same_rest d d1"
    by blast
  let ?e = "set_nd d1 ?n (\<lambda>nd. pushValue nd v)"
  have "parse_words [k, v] False False None d = Some (0, ?e)" using d1(1) k v by simp
  moreover have "flat ?e (kvs @ [(k, v)])"
  proof -
    have last: "entry_of (nodeTree d1 ! ?n) = (k, [])"
    proof -
      have "entry_of (nodeTree d1 ! ?n) = map entry_of (nodeTree d1) ! ?n" using d1(2) by simp
      then show ?thesis unfolding d1(3) by (simp add: nth_append)
    qed
    have "map entry_of (nodeTree ?e) = (map entry_of (nodeTree d1))[?n := (k, [v])]"
      using last d1(2) by (simp add: set_nd_def map_update pushValue_def entry_of_def)
    also have "\<dots> = map (\<lambda>(k, v). (k, [v])) (kvs @ [(k, v)])"
      using f len unfolding d1(3) by (simp add: flat_def list_update_append)
    finally have m: "map entry_of (nodeTree ?e) = map (\<lambda>(k, v). (k, [v])) (kvs @ [(k, v)])" .
    have a: "closed nd \<and> parentNode nd = None" if "nd \<in> set (nodeTree ?e)" for nd
    proof -
      have "nodeTree d1 ! ?n \<in> set (nodeTree d1)" using d1(2) by simp
      then show ?thesis using that d1(4) set_update_subset_insert [of "nodeTree d1" ?n]
        by (fastforce simp: set_nd_def pushValue_def)
    qed
    show ?thesis using m a d1 unfolding flat_def by (auto simp: set_nd_def)
  qed
  moreover have "same_rest d ?e" using d1(10) by (simp add: same_rest_def set_nd_def)
  ultimately show ?thesis by blast
qed

subsection \<open>The whole file\<close>

lemma conf_line_last: "last (conf_line kv) = newline" "conf_line kv \<noteq> []"
  by (simp_all add: conf_line_def)

lemma read_line_upto:
  "newline \<notin> set s \<Longrightarrow> length s < n \<Longrightarrow> read_line n (s @ newline # rest) = (s @ [newline], rest)"
proof (induction s arbitrary: n)
  case Nil
  then show ?case by (cases n) auto
next
  case (Cons c s)
  then obtain m where "n = Suc m" by (cases n) auto
  then show ?case using Cons by auto
qed

lemma conf_line_chars:
  assumes "plain_entry kv"
  shows "newline \<notin> set (butlast (conf_line kv))" "CHR 0x00 \<notin> set (conf_line kv)" "length (conf_line kv) \<le> 510"
proof -
  have n: "c \<in> set (fst kv) \<Longrightarrow> c \<noteq> newline \<and> c \<noteq> CHR 0x00" for c
    using assms by (auto simp: plain_entry_def plain_name_def isspace_def newline_def)
  have v: "c \<in> set (snd kv) \<Longrightarrow> c \<noteq> newline \<and> c \<noteq> CHR 0x00" for c
    using assms by (auto simp: plain_entry_def plain_value_def)
  have b: "butlast (conf_line kv) = fst kv @ '' = '' @ [CHR 0x22] @ snd kv @ [CHR 0x22]"
    by (simp add: conf_line_def butlast_append)
  show "newline \<notin> set (butlast (conf_line kv))" using n v unfolding b by (auto simp: newline_def)
  show "CHR 0x00 \<notin> set (conf_line kv)" using n v by (auto simp: conf_line_def newline_def)
  show "length (conf_line kv) \<le> 510" using assms by (simp add: conf_line_def plain_entry_def)
qed

lemma read_conf_line:
  assumes "plain_entry kv"
  shows "read_line 510 (conf_line kv @ rest) = (conf_line kv, rest)"
proof -
  let ?b = "butlast (conf_line kv)"
  have e: "conf_line kv = ?b @ [newline]" using conf_line_last [of kv] by (metis append_butlast_last_id)
  have "length ?b < 510" using conf_line_chars(3) [OF assms] conf_line_last(2) [of kv] by (cases "conf_line kv") auto
  then have "read_line 510 (?b @ newline # rest) = (?b @ [newline], rest)"
    by (rule read_line_upto [OF conf_line_chars(1) [OF assms]])
  then show ?thesis using e by (metis append.assoc append_Cons append_Nil)
qed

lemma line_step_entry:
  assumes f: "flat d kvs" "words d = []" and p: "plain_entry (k, v)"
  shows "\<exists>e. line_step d (conf_line (k, v)) = Some (True, 0, e) \<and> flat e (kvs @ [(k, v)]) \<and> words e = [] \<and>
    same_rest d e"
proof -
  have pk: "plain_name k" "plain_value v" using p by (auto simp: plain_entry_def)
  have "\<forall>c\<in>set (conf_line (k, v)). c \<noteq> CHR 0x00" using conf_line_chars(2) [OF p] by blast
  then have t: "takeWhile (\<lambda>c. c \<noteq> CHR 0x00) (conf_line (k, v)) = conf_line (k, v)"
    by (simp only: takeWhile_eq_all_conv)
  let ?d1 = "d\<lparr>curLine := curLine d + 1\<rparr>"
  let ?d2 = "?d1\<lparr>words := [k, v], quoted := False\<rparr>"
  have c: "cleanupLine ?d1 (conf_line (k, v)) = (0, ?d2)"
    using f clean_conf_line [OF pk] by (simp add: cleanupLine_def flat_def)
  have d2: "flat ?d2 kvs" "\<not> dangling ?d2" using f by (simp_all add: flat_def)
  obtain e0 where e0: "parse_words [k, v] False False None ?d2 = Some (0, e0)" "flat e0 (kvs @ [(k, v)])" "same_rest ?d2 e0"
    using parse_words_entry [OF d2(1) pk] by blast
  have pl: "parseLine ?d2 = Some (0, e0)" using e0(1) d2(2) unfolding parseLine_def by simp
  have i: "(if last (conf_line (k, v)) \<noteq> newline then conf_line (k, v) @ [newline] else conf_line (k, v)) = conf_line (k, v)"
    by (simp add: conf_line_last)
  have w: "(words ?d2 \<noteq> []) = True" and z: "((0 :: int) = -1) = False" by simp_all
  have n: "(conf_line (k, v) = []) = False" using conf_line_last(2) by blast
  have "line_step d (conf_line (k, v)) = Some (True, 0, e0\<lparr>words := [], dangling := False\<rparr>)"
    unfolding line_step_def t Let_def i c n prod.case pl option.case
    by (simp only: w z if_False if_True simp_thms)
  moreover have "flat (e0\<lparr>words := [], dangling := False\<rparr>) (kvs @ [(k, v)])" using e0(2) by (simp add: flat_def)
  moreover have "same_rest d (e0\<lparr>words := [], dangling := False\<rparr>)" using e0(3) by (simp add: same_rest_def)
  moreover have "words (e0\<lparr>words := [], dangling := False\<rparr>) = []" by simp
  ultimately show ?thesis by blast
qed

lemma parse_conf_text:
  "flat d kvs \<Longrightarrow> words d = [] \<Longrightarrow> \<forall>kv\<in>set new. plain_entry kv \<Longrightarrow>
   \<exists>e. parse_lines (conf_text new) 0 d = Some (0, e) \<and> flat e (kvs @ new) \<and> words e = [] \<and> same_rest d e"
proof (induction new arbitrary: d kvs)
  case Nil
  then show ?case by (simp add: conf_text_def parse_lines.simps same_rest_def)
next
  case (Cons kv new)
  obtain k v where kv: "kv = (k, v)" by fastforce
  obtain d1 where d1: "line_step d (conf_line kv) = Some (True, 0, d1)" "flat d1 (kvs @ [kv])" "words d1 = []" "same_rest d d1"
    using line_step_entry [OF Cons.prems(1, 2)] Cons.prems(3) kv by fastforce
  obtain e where e: "parse_lines (conf_text new) 0 d1 = Some (0, e)" "flat e ((kvs @ [kv]) @ new)" "words e = []" "same_rest d1 e"
    using Cons.IH [OF d1(2, 3)] Cons.prems(3) by auto
  have t: "conf_text (kv # new) = conf_line kv @ conf_text new" by (simp add: conf_text_def)
  have r: "read_line 510 (conf_text (kv # new)) = (conf_line kv, conf_text new)"
    unfolding t using read_conf_line Cons.prems(3) by simp
  have "parse_lines (conf_text (kv # new)) 0 d = Some (0, e)"
    using d1(1) e(1) conf_line_last(2) [of kv] by (simp add: parse_lines_step [of "conf_text (kv # new)"] r) (simp add: t)
  then show ?case using e d1(4) by (auto simp: same_rest_def)
qed

lemma check_flat:
  assumes "flat d kvs" "\<forall>kv\<in>set kvs. plain_entry kv"
  shows "checkConfig h d 0 = (0, d)"
proof -
  have nm: "\<not> has_macro s" if "CHR ''$'' \<notin> set s" for s
    using that by (induction s rule: has_macro.induct) auto
  have len: "length kvs = length (nodeTree d)" using assms(1) unfolding flat_def by (metis length_map)
  have nd: "closed (nodeTree d ! i) \<and> (\<exists>v. nd_values (nodeTree d ! i) = [v] \<and> CHR ''$'' \<notin> set v)"
    if "i < length (nodeTree d)" for i
  proof -
    have "map entry_of (nodeTree d) ! i = map (\<lambda>(k, v). (k, [v])) kvs ! i" using assms(1) by (simp add: flat_def)
    then have "nd_values (nodeTree d ! i) = [snd (kvs ! i)]"
      using that len by (simp add: entry_of_def split: prod.splits)
    moreover have "plain_entry (kvs ! i)" using assms(2) that len by simp
    moreover have "closed (nodeTree d ! i)" using assms(1) that by (simp add: flat_def)
    ultimately show ?thesis by (auto simp: plain_entry_def plain_value_def)
  qed
  have "\<forall>i\<in>set js. i < length (nodeTree d) \<Longrightarrow> check_nodes h js 0 d = (0, d)" for js
  proof (induction js)
    case (Cons i js)
    obtain v where "closed (nodeTree d ! i)" "nd_values (nodeTree d ! i) = [v]" "\<not> has_macro v"
      using nd [of i] nm Cons.prems by auto
    then show ?case using Cons by simp
  qed simp
  then show ?thesis by (simp add: checkConfig_def)
qed

lemma include_flat:
  assumes "flat d kvs" "\<forall>kv\<in>set kvs. plain_entry kv"
  shows "length kvs - i < n \<Longrightarrow> include_nodes n h i ret d = Some (Some (ret, d))"
proof (induction n arbitrary: i)
  case (Suc n)
  have len: "length kvs = length (nodeTree d)" using assms(1) unfolding flat_def by (metis length_map)
  have "\<not> cmp_func d include_name (nd_name (nodeTree d ! i))" if "i < length (nodeTree d)"
  proof -
    have "map entry_of (nodeTree d) ! i = map (\<lambda>(k, v). (k, [v])) kvs ! i" using assms(1) by (simp add: flat_def)
    then have "nd_name (nodeTree d ! i) = fst (kvs ! i)"
      using that len by (simp add: entry_of_def split: prod.splits)
    moreover have "plain_entry (kvs ! i)" using assms(2) that len by simp
    ultimately show ?thesis by (metis plain_entry_def cmp_func_def)
  qed
  then show ?case using Suc len by auto
qed simp

lemma find_flat:
  assumes f: "flat d kvs"
  shows "find_from d nm None [i..<length kvs] =
    (case filter (\<lambda>j. cmp_func d nm (fst (kvs ! j))) [i..<length kvs] of [] \<Rightarrow> None | j # _ \<Rightarrow> Some j)"
proof -
  have len: "length kvs = length (nodeTree d)" using f unfolding flat_def by (metis length_map)
  have nm: "nd_name (nodeTree d ! j) = fst (kvs ! j) \<and> parentNode (nodeTree d ! j) = None" if "j < length kvs" for j
  proof -
    have "map entry_of (nodeTree d) ! j = map (\<lambda>(k, v). (k, [v])) kvs ! j" using f by (simp add: flat_def)
    then show ?thesis using that len f by (simp add: entry_of_def flat_def split: prod.splits)
  qed
  have "\<forall>j\<in>set js. j < length kvs \<Longrightarrow> find_from d nm None js =
      (case filter (\<lambda>j. cmp_func d nm (fst (kvs ! j))) js of [] \<Rightarrow> None | j # _ \<Rightarrow> Some j)" for js
    by (induction js) (auto simp: nm)
  then show ?thesis by simp
qed

text \<open>What the reader gives for a file of plain entries.\<close>

lemma conf_reads:
  assumes "\<forall>kv\<in>set kvs. plain_entry kv"
    and "realpath h file = Some rp" "openread h rp = Some (conf_text kvs)" "length kvs < fuel"
  shows "\<exists>d. SetSource fuel h file ic = Some (Some (True, Some d)) \<and>
    (\<forall>nm def. GetValueAsString (Some d) nm def =
       (case filter (\<lambda>kv. if ic then map tolower nm = map tolower (fst kv) else nm = fst kv) kvs of
          [] \<Rightarrow> def | kv # _ \<Rightarrow> snd kv))"
proof -
  let ?d0 = "(DOTCONFDocument ic)\<lparr>docFile := Some rp, processedFiles := [rp]\<rparr>"
  have "flat (?d0\<lparr>curLine := 0, curParent := None, quoted := False\<rparr>) []"
    by (simp add: flat_def DOTCONFDocument_def)
  from parse_conf_text [OF this _ assms(1)] obtain d where
    d: "parseFile ?d0 (conf_text kvs) None = Some (0, d)" "flat d kvs" and
    r: "requiredOptions d = []" "ignorecase d = ic"
    by (auto simp: parseFile_def DOTCONFDocument_def same_rest_def)
  have p: "processedFiles (DOTCONFDocument ic) @ [rp] = [rp]" by (simp add: DOTCONFDocument_def)
  have i: "include_nodes fuel h 0 0 d = Some (Some (0, d))"
    using include_flat [OF d(2) assms(1)] assms(4) by simp
  have "setContent fuel h (DOTCONFDocument ic) file = Some (Some (0, d))"
    using assms(2, 3) d(1) i r(1) check_flat [OF d(2) assms(1)]
    by (simp add: setContent_def p Let_def)
  then have s: "SetSource fuel h file ic = Some (Some (True, Some d))" by (simp add: SetSource_def)
  have len: "length kvs = length (nodeTree d)" using d(2) unfolding flat_def by (metis length_map)
  have v: "getValue (nodeTree d ! j) 0 = Some (snd (kvs ! j))" if "j < length kvs" for j
  proof -
    have "map entry_of (nodeTree d) ! j = map (\<lambda>(k, v). (k, [v])) kvs ! j" using d(2) by (simp add: flat_def)
    then show ?thesis using that len by (simp add: entry_of_def getValue_def split: prod.splits)
  qed
  have "GetValueAsString (Some d) nm def =
      (case filter (\<lambda>kv. cmp_func d nm (fst kv)) kvs of [] \<Rightarrow> def | kv # _ \<Rightarrow> snd kv)" for nm def
  proof -
    let ?js = "filter (\<lambda>j. cmp_func d nm (fst (kvs ! j))) [0..<length kvs]"
    have k: "filter (\<lambda>kv. cmp_func d nm (fst kv)) kvs = map ((!) kvs) ?js"
      using filter_map [of "\<lambda>kv. cmp_func d nm (fst kv)" "(!) kvs" "[0..<length kvs]"] by (simp add: map_nth comp_def)
    have f: "findNode d nm None None = (case ?js of [] \<Rightarrow> None | j # _ \<Rightarrow> Some j)"
      using find_flat [OF d(2), of nm 0] by (simp add: findNode_def len)
    show ?thesis
    proof (cases ?js)
      case Nil
      then show ?thesis using f k by (simp add: GetValueAsString_def conf_lookup_def)
    next
      case (Cons j js)
      then have "j < length kvs" by (metis Cons_eq_filterD in_set_conv_decomp atLeastLessThan_iff set_upt)
      then show ?thesis using f k v Cons by (simp add: GetValueAsString_def conf_lookup_def)
    qed
  qed
  then show ?thesis using s r(2) by (auto simp: cmp_func_def)
qed

end
