(* ===== verification/ConfProps.thy ===== *)
theory ConfProps
  imports ConfText
begin

text \<open>The properties of the configuration parser and its reader.\<close>

text \<open>C16. Round trip. A file that assigns quoted values to plain names, one a line, loads without error,
  and \<open>GetValueAsString\<close> then gives for every name the value of the first line with that name (up to
  case when the reader ignores it), and the default for a name that has no line.\<close>
theorem config_roundtrip:
  assumes "\<forall>kv\<in>set kvs. plain_entry kv"
    and "realpath h file = Some rp" "openread h rp = Some (conf_text kvs)" "length kvs < fuel"
  shows "\<exists>d. SetSource fuel h file ic = Some (Some (True, Some d)) \<and>
    (\<forall>nm def. GetValueAsString (Some d) nm def =
       (case filter (\<lambda>kv. if ic then map tolower nm = map tolower (fst kv) else nm = fst kv) kvs of
          [] \<Rightarrow> def | kv # _ \<Rightarrow> snd kv))"
  by (rule conf_reads [OF assms])

definition demo_host :: "string \<Rightarrow> conf_host" where
  "demo_host cont = \<lparr>realpath = Some, openread = (\<lambda>_. Some cont), access = (\<lambda>_. True), getenv = (\<lambda>_. None)\<rparr>"

theorem config_roundtrip_witness:
  "\<exists>d. SetSource 3 (demo_host (conf_text [(''Port'', ''80 # x''), (''port'', ''9'')])) ''a.conf'' True = Some (Some (True, Some d)) \<and>
     GetValueAsString (Some d) ''PORT'' ''0'' = ''80 # x'' \<and> GetValueAsString (Some d) ''Host'' ''none'' = ''none''"
proof -
  let ?kvs = "[(''Port'', ''80 # x''), (''port'', ''9'')]"
  have p: "\<forall>kv\<in>set ?kvs. plain_entry kv" by code_simp
  obtain d where d: "SetSource 3 (demo_host (conf_text ?kvs)) ''a.conf'' True = Some (Some (True, Some d))"
    "\<And>nm def. GetValueAsString (Some d) nm def =
       (case filter (\<lambda>kv. if True then map tolower nm = map tolower (fst kv) else nm = fst kv) ?kvs of
          [] \<Rightarrow> def | kv # _ \<Rightarrow> snd kv)"
    using config_roundtrip [OF p, of "demo_host (conf_text ?kvs)" "''a.conf''" "''a.conf''" 3 True]
    by (auto simp: demo_host_def)
  have "map tolower ''PORT'' = map tolower ''Port''" "map tolower ''Host'' \<noteq> map tolower ''Port''"
    "map tolower ''Host'' \<noteq> map tolower ''port''" by code_simp+
  then show ?thesis using d(1) by (auto simp: d(2))
qed

lemma setContent_fuel:
  assumes "finite (real_files h)"
  shows "\<exists>n r. \<forall>m\<ge>n. setContent m h (DOTCONFDocument ic) file = Some r"
proof -
  have t0: "tree_ok ((DOTCONFDocument ic)\<lparr>docFile := f, processedFiles := ps\<rparr>)" for f ps
    by (simp add: DOTCONFDocument_def tree_ok_def)
  let ?d1 = "\<lambda>rp. (DOTCONFDocument ic)\<lparr>docFile := Some rp, processedFiles := processedFiles (DOTCONFDocument ic) @ [rp]\<rparr>"
  show ?thesis
  proof (cases "\<exists>rp cont d2 d3. realpath h file = Some rp \<and> openread h rp = Some cont \<and>
      parseFile (?d1 rp) cont None = Some (0, d2) \<and> checkConfig h d2 0 = (0, d3)")
    case True
    then obtain rp cont d2 d3 where e: "realpath h file = Some rp" "openread h rp = Some cont"
      "parseFile (?d1 rp) cont None = Some (0, d2)" "checkConfig h d2 0 = (0, d3)" by blast
    have "tree_ok d3" using kept_parseFile [OF t0 e(3)] kept_checkConfig [OF e(4)] t0 by (simp add: kept_def)
    then obtain n r where n: "include_nodes n h 0 0 d3 = Some r" using include_nodes_ends [OF assms] by blast
    have "setContent m h (DOTCONFDocument ic) file = setContent n h (DOTCONFDocument ic) file" if "m \<ge> n" for m
      using include_nodes_more [OF n that] n e by (simp add: setContent_def Let_def)
    moreover have "\<exists>r. setContent n h (DOTCONFDocument ic) file = Some r"
      using n e by (cases r) (auto simp: setContent_def Let_def split: prod.split)
    ultimately show ?thesis by metis
  next
    case False
    have c: "checkConfig h d2 0 = (c, d3) \<Longrightarrow> c = 0 \<or> c = -1" for d2 c d3 by (rule checkConfig_result)
    have "\<exists>r. \<forall>m. setContent m h (DOTCONFDocument ic) file = Some r"
    proof (cases "realpath h file")
      case None
      then show ?thesis by (simp add: setContent_def)
    next
      case rp: (Some rp)
      show ?thesis
      proof (cases "openread h rp")
        case None
        then show ?thesis using rp by (simp add: setContent_def)
      next
        case cont: (Some cont)
        show ?thesis
        proof (cases "parseFile (?d1 rp) cont None")
          case None
          then show ?thesis using rp cont by (simp add: setContent_def)
        next
          case (Some p)
          obtain r d2 where p: "p = (r, d2)" by fastforce
          obtain c d3 where ch: "checkConfig h d2 0 = (c, d3)" by fastforce
          have "r \<noteq> 0 \<or> c = -1" using False rp cont Some p ch c [OF ch] by blast
          then show ?thesis using rp cont Some p ch by (auto simp: setContent_def Let_def)
        qed
      qed
    qed
    then show ?thesis by blast
  qed
qed

text \<open>C21. Loading a configuration ends: if only finitely many files have a real path, then for any contents,
  however the files include each other or themselves, \<open>setContent\<close> returns (or faults), and it does so
  with every larger fuel as well, with the same result.\<close>
theorem setContent_ends:
  assumes "finite (real_files h)"
  shows "\<exists>n r. \<forall>m\<ge>n. setContent m h (DOTCONFDocument ic) file = Some r"
  using assms by (rule setContent_fuel)

definition loop_host :: conf_host where
  "loop_host = \<lparr>realpath = (\<lambda>v. if v = ''a'' then Some ''/a'' else None), openread = (\<lambda>_. Some (''DOTCONFPPIncludeFile a'' @ [newline])),
     access = (\<lambda>_. True), getenv = (\<lambda>_. None)\<rparr>"

theorem setContent_ends_witness:
  "\<exists>n r. \<forall>m\<ge>n. setContent m loop_host (DOTCONFDocument True) ''a'' = Some r"
proof (rule setContent_ends)
  have "real_files loop_host \<subseteq> {''/a''}" by (auto simp: real_files_def loop_host_def split: if_splits)
  then show "finite (real_files loop_host)" using finite_subset by blast
qed

text \<open>C17. The node tree is consistent after any load that returns, whatever the files hold: every parent is an
  earlier node, a child names its parent, the next and previous links are inverse to each other and point
  forward and back, and a node that is still open has no next node.\<close>
theorem setContent_tree_ok:
  assumes "setContent n h (DOTCONFDocument ic) file = Some (Some (r, d))"
  shows "tree_ok d"
proof -
  have t0: "tree_ok ((DOTCONFDocument ic)\<lparr>docFile := f, processedFiles := ps\<rparr>)" "tree_ok (DOTCONFDocument ic)" for f ps
    by (simp_all add: DOTCONFDocument_def tree_ok_def)
  show ?thesis
  proof (cases "\<exists>rp cont. realpath h file = Some rp \<and> openread h rp = Some cont")
    case False
    then show ?thesis using assms t0 by (auto simp: setContent_def Let_def split: option.splits)
  next
    case True
    then obtain rp cont where rp: "realpath h file = Some rp" "openread h rp = Some cont" by blast
    let ?d1 = "(DOTCONFDocument ic)\<lparr>docFile := Some rp, processedFiles := processedFiles (DOTCONFDocument ic) @ [rp]\<rparr>"
    obtain r2 d2 where p: "parseFile ?d1 cont None = Some (r2, d2)"
      using assms rp by (auto simp: setContent_def Let_def split: option.splits)
    have t2: "tree_ok d2" using kept_parseFile [OF t0(1) p] t0(1) by (simp add: kept_def)
    obtain c d3 where ch: "checkConfig h d2 0 = (c, d3)" by fastforce
    have t3: "tree_ok d3" using kept_checkConfig [OF ch] t2 by (simp add: kept_def)
    consider "d = d2" | "d = d3" | r' where "include_nodes n h 0 c d3 = Some (Some (r', d))"
      using assms rp p ch by (auto simp: setContent_def Let_def split: if_splits option.splits)
    then show ?thesis using t2 t3 include_nodes_ok by cases auto
  qed
qed

definition tag_text :: string where
  "tag_text = ''<a>'' @ [newline] @ ''x 1'' @ [newline] @ ''y 2'' @ [newline] @ ''</a>'' @ [newline]"

theorem setContent_tree_ok_witness:
  "\<exists>d. setContent 5 (demo_host tag_text) (DOTCONFDocument True) ''a'' = Some (Some (0, d)) \<and> tree_ok d \<and>
     map nd_name (nodeTree d) = [''a'', ''x'', ''y'']"
proof -
  have s: "map_option (map_option (\<lambda>(r, d). (r, map nd_name (nodeTree d))))
      (setContent 5 (demo_host tag_text) (DOTCONFDocument True) ''a'') = Some (Some (0, [''a'', ''x'', ''y'']))"
    by code_simp
  then obtain d where d: "setContent 5 (demo_host tag_text) (DOTCONFDocument True) ''a'' = Some (Some (0, d))"
    "map nd_name (nodeTree d) = [''a'', ''x'', ''y'']" by auto
  show ?thesis by (rule exI [of _ d]) (use d setContent_tree_ok [OF d(1)] in simp)
qed

text \<open>A closing tag without its bracket crashes the parser: when a line starts with the closing tag of an
  open node and another word follows before any closing bracket, \<open>parseLine\<close> dereferences the null pointer
  \<open>tagNode\<close>. With the bracket in place the same line is parsed.\<close>
theorem closing_tag_crash:
  assumes "find_open d nm (length (nodeTree d)) = Some i" "\<not> dangling d" "nm \<noteq> []" "last nm \<noteq> CHR ''>''"
    and "w \<noteq> []" "hd w \<noteq> CHR ''<''" "last w \<noteq> CHR ''>''" "processedFiles d \<noteq> []" "tree_ok d"
  shows "parseLine (d\<lparr>words := [''</'' @ nm, w]\<rparr>) = None \<and>
    (\<exists>e. parseLine (d\<lparr>words := [''</'' @ nm @ ''>'', w]\<rparr>) = Some (0, e))"
proof -
  have fo: "find_open (d\<lparr>words := ws\<rparr>) nm n = find_open d nm n" for ws n
    by (induction n) (simp_all add: cmp_func_def)
  have "parse_words [''</'' @ nm, w] False False None (d\<lparr>words := ws\<rparr>) = None" for ws
    using assms fo by (simp add: Let_def)
  moreover have "\<exists>e. parse_words [''</'' @ nm @ ''>'', w] False False None (d\<lparr>words := ws\<rparr>) = Some (0, e)" for ws
  proof -
    let ?e = "close_node (d\<lparr>words := ws\<rparr>) i"
    have "tree_ok ?e" using tree_ok_close_node find_open_some [OF assms(1)] assms(9) by (simp add: conf)
    moreover have "nodeTree ?e \<noteq> []" using find_open_some [OF assms(1)]
      by (auto simp: close_node_def set_nd_def)
    ultimately have "\<exists>e. add_node ?e w True = Some e"
      using assms(8) by (auto simp: add_node_def Let_def tree_ok_def close_node_def)
    then show ?thesis using assms fo by (auto simp: Let_def butlast_append)
  qed
  ultimately show ?thesis using assms(2) by (simp add: parseLine_def)
qed

theorem closing_tag_crash_witness:
  "\<exists>d. parseLine ((DOTCONFDocument True)\<lparr>words := [''<a>''], processedFiles := [''/a'']\<rparr>) = Some (0, d) \<and>
     parseLine (d\<lparr>words := [''</a'', ''b'']\<rparr>) = None"
proof -
  let ?d0 = "(DOTCONFDocument True)\<lparr>words := [''<a>''], processedFiles := [''/a'']\<rparr>"
  have "map_option (\<lambda>(r, d). (r, find_open d ''a'' (length (nodeTree d)), dangling d, processedFiles d)) (parseLine ?d0) =
      Some (0, Some 0, False, [''/a''])" by code_simp
  then obtain d where d: "parseLine ?d0 = Some (0, d)" "find_open d ''a'' (length (nodeTree d)) = Some 0"
    "\<not> dangling d" "processedFiles d = [''/a'']" by auto
  have "tree_ok ?d0" by (simp add: DOTCONFDocument_def tree_ok_def)
  then have "tree_ok d" using kept_parseLine [OF _ d(1)] by (simp add: kept_def)
  then show ?thesis using closing_tag_crash [OF d(2, 3), of "''b''"] d(1, 4) by auto
qed

subsection \<open>Macros\<close>

text \<open>A value as a sequence of literal text and macros.\<close>

datatype piece = Lit string | Var string

fun piece_text :: "piece \<Rightarrow> string" where
  "piece_text (Lit s) = s"
| "piece_text (Var v) = ''${'' @ v @ ''}''"

fun piece_ok :: "conf_host \<Rightarrow> piece \<Rightarrow> bool" where
  "piece_ok h (Lit s) = (CHR ''$'' \<notin> set s)"
| "piece_ok h (Var v) = (CHR ''}'' \<notin> set v \<and> CHR '':'' \<notin> set v \<and> getenv h v \<noteq> None)"

fun piece_value :: "conf_host \<Rightarrow> piece \<Rightarrow> string" where
  "piece_value h (Lit s) = s"
| "piece_value h (Var v) = the (getenv h v)"

lemma subst_lit:
  "CHR ''$'' \<notin> set s \<Longrightarrow> subst_walk h i vi (s @ rest) acc seen d = subst_walk h i vi rest (acc @ s) seen d"
proof (induction s arbitrary: acc)
  case (Cons c s)
  have "c \<noteq> CHR ''$''" using Cons.prems by auto
  then have "subst_walk h i vi ((c # s) @ rest) acc seen d = subst_walk h i vi (s @ rest) (acc @ [c]) seen d"
    by (subst subst_walk.simps) simp
  then show ?case using Cons by simp
qed simp

lemma subst_var:
  assumes "piece_ok h (Var v)"
  shows "\<exists>d'. subst_walk h i vi (piece_text (Var v) @ rest) acc seen d =
      subst_walk h i vi rest (acc @ piece_value h (Var v)) True d' \<and> (d' = d \<or> (\<exists>x. d' = set_value d i vi x))"
proof -
  let ?m = "''${'' @ v @ ''}'' @ rest"
  have v: "\<forall>c\<in>set v. c \<noteq> CHR ''}''" "\<forall>c\<in>set v. c \<noteq> CHR '':''" using assms by auto
  have b: "macro_body ?m = ''${'' @ v" using v(1) by (simp add: macro_body_def takeWhile_append2)
  have m: "macro_var ?m = v" "macro_rest ?m = []" using v(2)
    unfolding macro_var_def macro_rest_def b by (simp_all add: takeWhile_eq_all_conv dropWhile_eq_Nil_conv)
  obtain s where s: "getenv h v = Some s" using assms by auto
  have g: "getSubstitution h e ?m = Some s" for e using m s by (simp add: getSubstitution_def macro_default_def)
  let ?d = "if seen then d else set_value d i vi (acc @ ''${'' @ macro_var ?m)"
  have "subst_walk h i vi ?m acc seen d = subst_walk h i vi rest (acc @ s) True ?d"
    using g b by (subst subst_walk.simps) (simp add: Let_def numeral_2_eq_2)
  moreover have "?d = d \<or> (\<exists>y. ?d = set_value d i vi y)" by (cases seen) auto
  moreover have "piece_text (Var v) @ rest = ?m" "piece_value h (Var v) = s" using s by simp_all
  ultimately show ?thesis by (intro exI [of _ ?d]) simp
qed

lemma set_value_sizes:
  "length (nodeTree (set_value d i vi x)) = length (nodeTree d)"
  "i < length (nodeTree d) \<Longrightarrow> length (nd_values (nodeTree (set_value d i vi x) ! i)) = length (nd_values (nodeTree d ! i))"
  by (simp_all add: set_value_def nth_set_nd)

lemma subst_pieces:
  "\<forall>p\<in>set ps. piece_ok h p \<Longrightarrow> i < length (nodeTree d) \<Longrightarrow>
   \<exists>d'. subst_walk h i vi (List.concat (map piece_text ps)) acc seen d =
       (0, acc @ List.concat (map (piece_value h) ps), d') \<and> length (nodeTree d') = length (nodeTree d) \<and>
     length (nd_values (nodeTree d' ! i)) = length (nd_values (nodeTree d ! i))"
proof (induction ps arbitrary: acc seen d)
  case Nil
  then show ?case by (simp add: subst_walk.simps)
next
  case (Cons p ps)
  show ?case
  proof (cases p)
    case (Lit s)
    then show ?thesis using Cons.IH [of d "acc @ s" seen] Cons.prems subst_lit by simp
  next
    case (Var v)
    obtain d1 where d1: "subst_walk h i vi (piece_text (Var v) @ List.concat (map piece_text ps)) acc seen d =
        subst_walk h i vi (List.concat (map piece_text ps)) (acc @ piece_value h (Var v)) True d1"
      "d1 = d \<or> (\<exists>x. d1 = set_value d i vi x)" using subst_var Cons.prems(1) Var by (metis list.set_intros(1))
    have l: "length (nodeTree d1) = length (nodeTree d)"
      "length (nd_values (nodeTree d1 ! i)) = length (nd_values (nodeTree d ! i))"
      using d1(2) set_value_sizes Cons.prems(2) by auto
    show ?thesis using Cons.IH [of d1 "acc @ piece_value h (Var v)" True] Cons.prems d1(1) l Var by auto
  qed
qed

text \<open>Macro substitution: a value made of literal text and of macros that name environment variables
  becomes the text with every macro replaced by the value of its variable, and nothing else.\<close>
theorem macro_substitution:
  assumes "i < length (nodeTree d)" "vi < length (nd_values (nodeTree d ! i))"
    and "nd_values (nodeTree d ! i) ! vi = List.concat (map piece_text ps)" "\<forall>p\<in>set ps. piece_ok h p"
  shows "fst (macroSubstitute h d i vi) = 0 \<and>
    nd_values (nodeTree (snd (macroSubstitute h d i vi)) ! i) ! vi = List.concat (map (piece_value h) ps)"
proof -
  obtain d' where w: "subst_walk h i vi (List.concat (map piece_text ps)) [] False d =
       (0, List.concat (map (piece_value h) ps), d')" "length (nodeTree d') = length (nodeTree d)"
     "length (nd_values (nodeTree d' ! i)) = length (nd_values (nodeTree d ! i))"
    using subst_pieces [OF assms(4, 1), of vi "[]" False] by auto
  then show ?thesis using assms by (simp add: macroSubstitute_def set_value_def nth_set_nd)
qed

definition macro_doc :: "string \<Rightarrow> document" where
  "macro_doc v = (DOTCONFDocument True)\<lparr>nodeTree := [\<lparr>previousNode = None, nextNode = None, parentNode = None,
     childNode = None, nd_values = [v], nd_name = ''x'', lineNum = 1, nd_file = ''f'', closed = True\<rparr>]\<rparr>"

definition env_host :: conf_host where
  "env_host = \<lparr>realpath = Some, openread = (\<lambda>_. None), access = (\<lambda>_. True), getenv = (\<lambda>v. Some (v @ v))\<rparr>"

theorem macro_substitution_witness:
  "nd_values (nodeTree (snd (macroSubstitute env_host (macro_doc ''a/${H}b'') 0 0)) ! 0) ! 0 = ''a/HHb''"
  using macro_substitution [of 0 "macro_doc ''a/${H}b''" 0 "[Lit ''a/'', Var ''H'', Lit ''b'']" env_host]
  by (simp add: macro_doc_def env_host_def)

end
