(* ===== verification/Tcp.thy ===== *)
theory Tcp
  imports ConfReader
begin

text \<open>
  One socket: \<open>Socket\<close> of \<open>common/network/socket.{h,cc}\<close> and \<open>TcpSocket\<close> of
  \<open>common/network/tcp_socket.{h,cc}\<close>, as one record.

  \<^item> The kernel is a parameter. \<open>'k ksend\<close> is \<open>send\<close>: from its state and the bytes it gives the result
    and the next state; \<open>'k krecv\<close> is \<open>recv\<close>. \<open>wire\<close> collects the bytes that were accepted. The
    results of the other calls are the fields of \<open>sock_env\<close>, one for each call a function makes.
  \<^item> Fields that the constructor leaves unset and the content of new memory are parameters.
  \<^item> \<open>None\<close> is a fault: a null or too short buffer, or a failed assert.
\<close>

subsection \<open>States\<close>

datatype sock_state = SS_CLOSED | SS_CLOSING | SS_CREATED | SS_CONNECTING | SS_CONNECTED | SS_LISTENING | SS_UDP

abbreviation SS_INVALID :: sock_state where "SS_INVALID \<equiv> SS_CLOSED"
abbreviation SS_ACCEPTED :: sock_state where "SS_ACCEPTED \<equiv> SS_CONNECTED"

definition INVALID_SOCKET :: int where "INVALID_SOCKET = -1"
definition SCR_SEND_FAILED :: int where "SCR_SEND_FAILED = 13"
definition SOCK_EVENT_ON_READ :: "32 word" where "SOCK_EVENT_ON_READ = 1"
definition SOCK_EVENT_ON_WRITE :: "32 word" where "SOCK_EVENT_ON_WRITE = 2"
definition SOCK_EVENT_ON_EXCEPT :: "32 word" where "SOCK_EVENT_ON_EXCEPT = 0x100000"

record tcp_socket =
  sock_fd :: int
  sstate :: sock_state
  remote_ip :: int
  remote_port :: int
  support_cached_send :: bool
  cached_send_buf :: "byte list option"
  cur_cached_send_buf_size :: int
  max_cached_send_buf_size :: int
  max_cached_send_interval_ms :: int
  recv_buf :: "byte list option"
  recv_start :: int
  recv_bytes :: int
  send_buf_len :: int
  recv_buf_len :: int
  max_len_per_send_pkg :: int
  max_len_per_recv_pkg :: int
  event_handler :: bool
  event_flag :: "32 word"
  last_active_time :: int
  active_time_out :: int
  last_recv_time :: int
  recv_time_out :: int
  hconn :: int

text \<open>The handler, the event flag and the connection number are not initialised: \<open>junk\<close> holds them.\<close>

definition TcpSocket :: "int \<Rightarrow> int \<Rightarrow> int \<Rightarrow> int \<Rightarrow> bool \<times> 32 word \<times> int \<Rightarrow> tcp_socket" where
  "TcpSocket sbl rbl msp mrp junk =
     \<lparr>sock_fd = INVALID_SOCKET, sstate = SS_INVALID, remote_ip = 0, remote_port = 0,
      support_cached_send = False, cached_send_buf = None, cur_cached_send_buf_size = 0,
      max_cached_send_buf_size = 0, max_cached_send_interval_ms = 0, recv_buf = None, recv_start = 0,
      recv_bytes = 0, send_buf_len = sbl, recv_buf_len = rbl, max_len_per_send_pkg = msp,
      max_len_per_recv_pkg = mrp, event_handler = fst junk, event_flag = fst (snd junk),
      last_active_time = 0, active_time_out = 0, last_recv_time = 0, recv_time_out = 0,
      hconn = snd (snd junk)\<rparr>"

definition IsValid :: "tcp_socket \<Rightarrow> bool" where
  "IsValid s \<longleftrightarrow> SS_INVALID \<noteq> sstate s"

definition IsClosing :: "tcp_socket \<Rightarrow> bool" where
  "IsClosing s \<longleftrightarrow> SS_CLOSING = sstate s"

subsection \<open>\<open>Socket\<close>\<close>

definition Socket_Close :: "tcp_socket \<Rightarrow> tcp_socket" where
  "Socket_Close s =
     (if INVALID_SOCKET \<noteq> sock_fd s then s\<lparr>sock_fd := INVALID_SOCKET, sstate := SS_CLOSED\<rparr> else s)"

definition Socket_Create :: "tcp_socket \<Rightarrow> int \<Rightarrow> bool \<times> tcp_socket" where
  "Socket_Create s fd =
     (if INVALID_SOCKET = fd then (False, s) else (True, s\<lparr>sock_fd := fd, sstate := SS_CREATED\<rparr>))"

text \<open>\<open>proto\<close> is the result of \<open>getprotobyname\<close>; for an empty name the null pointer is read.\<close>

definition GetProtoByName :: "(string \<Rightarrow> int option) \<Rightarrow> string \<Rightarrow> int option" where
  "GetProtoByName proto name =
     (if name \<noteq> [] then Some (case proto name of None \<Rightarrow> 0 | Some p \<Rightarrow> p) else None)"

definition htons :: "int \<Rightarrow> int" where
  "htons x = (let y = x mod 2 ^ 16 in (y mod 2 ^ 8) * 2 ^ 8 + y div 2 ^ 8)"

definition INetAddressPort :: "string \<Rightarrow> int" where
  "INetAddressPort port = htons (i32 (strtol port 10))"

text \<open>The results of the system calls of one call of a member function.\<close>

record sock_env =
  env_socket :: int
  env_reuse :: bool
  env_keepalive :: bool
  env_nodelay :: bool
  env_linger :: bool
  env_sndbuf :: bool
  env_connect :: int
  env_inprogress :: bool
  env_listen :: int
  env_new_bytes :: "nat \<Rightarrow> byte list"

definition SetOptNonBlock :: "tcp_socket \<Rightarrow> bool" where
  "SetOptNonBlock s = True"

definition SetOptReuse :: "sock_env \<Rightarrow> tcp_socket \<Rightarrow> bool" where
  "SetOptReuse e s = env_reuse e"

definition SetOptKeepAlive :: "sock_env \<Rightarrow> tcp_socket \<Rightarrow> bool" where
  "SetOptKeepAlive e s = env_keepalive e"

definition SetOptNoDelay :: "sock_env \<Rightarrow> tcp_socket \<Rightarrow> bool" where
  "SetOptNoDelay e s = env_nodelay e"

definition SetOptLinger :: "sock_env \<Rightarrow> tcp_socket \<Rightarrow> bool" where
  "SetOptLinger e s = env_linger e"

definition SetOptSendBufSize :: "sock_env \<Rightarrow> tcp_socket \<Rightarrow> bool" where
  "SetOptSendBufSize e s = env_sndbuf e"

subsection \<open>\<open>TcpSocket\<close>: sending\<close>

record 'k net =
  kstate :: 'k
  wire :: "byte list"

type_synonym 'k ksend = "'k \<Rightarrow> byte list \<Rightarrow> int \<times> 'k"

definition do_send :: "'k ksend \<Rightarrow> 'k net \<Rightarrow> byte list \<Rightarrow> int \<times> 'k net" where
  "do_send ks n data = (let (r, k) = ks (kstate n) data in (r, \<lparr>kstate = k, wire = wire n @ take (nat r) data\<rparr>))"

definition tcp_Create :: "sock_env \<Rightarrow> tcp_socket \<Rightarrow> bool \<times> tcp_socket" where
  "tcp_Create e s = Socket_Create s (env_socket e)"

definition tcp_Close :: "tcp_socket \<Rightarrow> tcp_socket" where
  "tcp_Close s = s"

definition SendCache :: "'k ksend \<Rightarrow> tcp_socket \<Rightarrow> 'k net \<Rightarrow> (int \<times> tcp_socket \<times> 'k net) option" where
  "SendCache ks s n =
     (if SS_CONNECTED \<noteq> sstate s then Some (-1, s, n)
      else if 0 = cur_cached_send_buf_size s then Some (0, s, n)
      else do {
        b \<leftarrow> cached_send_buf s;
        data \<leftarrow> mem_read b 0 (cur_cached_send_buf_size s);
        let (r, n') = do_send ks n data
        in if r \<noteq> cur_cached_send_buf_size s then Some (-2, s, n')
           else Some (0, s\<lparr>cur_cached_send_buf_size := 0\<rparr>, n') })"

definition AddCache :: "tcp_socket \<Rightarrow> byte list \<Rightarrow> int \<Rightarrow> tcp_socket option" where
  "AddCache s buf len =
     (if i32 (cur_cached_send_buf_size s + len) > max_cached_send_buf_size s then Some s
      else do {
        b \<leftarrow> cached_send_buf s;
        b' \<leftarrow> memcpy b (cur_cached_send_buf_size s) buf 0 len;
        Some (s\<lparr>cached_send_buf := Some b', cur_cached_send_buf_size := cur_cached_send_buf_size s + len\<rparr>) })"

definition SetCachedSendInfo :: "sock_env \<Rightarrow> tcp_socket \<Rightarrow> int \<Rightarrow> int \<Rightarrow> tcp_socket" where
  "SetCachedSendInfo e s max_len interval_ms =
     (if max_len \<le> 0 then s
      else s\<lparr>support_cached_send := True, max_cached_send_buf_size := max_len,
             max_cached_send_interval_ms := interval_ms,
             cached_send_buf := (case cached_send_buf s of
                 None \<Rightarrow> Some (env_new_bytes e (nat max_len)) | Some b \<Rightarrow> Some b)\<rparr>)"

definition UpdateActiveTime :: "tcp_socket \<Rightarrow> tcp_socket" where
  "UpdateActiveTime s = s\<lparr>last_active_time := 0\<rparr>"

definition UpdateRecvTime :: "tcp_socket \<Rightarrow> tcp_socket" where
  "UpdateRecvTime s = s\<lparr>last_recv_time := 0\<rparr>"

text \<open>\<open>len\<close> bytes from the front of the buffer; \<open>None\<close> is the null pointer.\<close>

definition tcp_Send ::
  "'k ksend \<Rightarrow> tcp_socket \<Rightarrow> 'k net \<Rightarrow> byte list option \<Rightarrow> int \<Rightarrow> (int \<times> tcp_socket \<times> 'k net) option" where
  "tcp_Send ks s n buf len =
     (case buf of
        None \<Rightarrow> Some (-1, s, n)
      | Some msg \<Rightarrow>
          if sstate s \<noteq> SS_CONNECTED then Some (-2, s, n)
          else
            let s1 = UpdateActiveTime s
            in if len > max_len_per_send_pkg s1 then Some (-3, s1, n)
               else if support_cached_send s1
                 then if i32 (len + cur_cached_send_buf_size s1) > max_cached_send_buf_size s1
                   then do {
                     (r, s2, n2) \<leftarrow> SendCache ks s1 n;
                     (if r < 0 then Some (-4, s2, n2)
                      else do {
                        data \<leftarrow> mem_read msg 0 len;
                        let (r2, n3) = do_send ks n2 data
                        in if r2 \<noteq> len then Some (-5, s2, n3) else Some (0, s2, n3) }) }
                   else Some (0, s1, n)
               else do {
                 data \<leftarrow> mem_read msg 0 len;
                 let (r2, n3) = do_send ks n data
                 in if r2 \<noteq> len then Some (-6, s1, n3) else Some (0, s1, n3) })"

subsection \<open>Receiving\<close>

type_synonym 'k krecv = "'k \<Rightarrow> int \<Rightarrow> int \<times> byte list \<times> 'k"

text \<open>The bytes received go into the caller's buffer.\<close>

definition tcp_Recv_buf :: "'k krecv \<Rightarrow> tcp_socket \<Rightarrow> 'k \<Rightarrow> byte list option \<Rightarrow> int \<Rightarrow>
   (int \<times> byte list \<times> tcp_socket \<times> 'k) option" where
  "tcp_Recv_buf kr s k buf len =
     (let s1 = UpdateRecvTime (UpdateActiveTime s)
      in case buf of
        None \<Rightarrow> None
      | Some b \<Rightarrow> let (r, data, k') = kr k len
          in if r > 0 then do { b' \<leftarrow> memcpy b 0 data 0 r; Some (r, b', s1, k') } else Some (r, b, s1, k'))"

definition tcp_Recv :: "'k krecv \<Rightarrow> tcp_socket \<Rightarrow> 'k \<Rightarrow> (int \<times> tcp_socket \<times> 'k) option" where
  "tcp_Recv kr s k =
     (let s1 = UpdateRecvTime (UpdateActiveTime s);
          remain_len = recv_buf_len s1 - (recv_start s1 + recv_bytes s1)
      in if remain_len < 0 then None
         else
           let (r, data, k') = kr k remain_len
           in if r > 0
              then do {
                b \<leftarrow> recv_buf s1;
                b' \<leftarrow> memcpy b (recv_start s1 + recv_bytes s1) data 0 r;
                Some (r, s1\<lparr>recv_buf := Some b', recv_bytes := recv_bytes s1 + r\<rparr>, k') }
              else Some (r, s1, k'))"

subsection \<open>Connecting and accepting\<close>

definition SetRemoteAddr :: "tcp_socket \<Rightarrow> int \<Rightarrow> int \<Rightarrow> tcp_socket" where
  "SetRemoteAddr s ip port = s\<lparr>remote_ip := ip, remote_port := port\<rparr>"

text \<open>\<open>None\<close> is the failed assert.\<close>

definition InitRecvBuf :: "sock_env \<Rightarrow> tcp_socket \<Rightarrow> int \<Rightarrow> (bool \<times> tcp_socket) option" where
  "InitRecvBuf e s n =
     (if recv_buf s \<noteq> None then None else Some (True, s\<lparr>recv_buf := Some (env_new_bytes e (nat n))\<rparr>))"

text \<open>The options that \<open>Accept\<close> and \<open>Connect\<close> set one after the other, up to the first that fails.\<close>

definition set_options :: "sock_env \<Rightarrow> tcp_socket \<Rightarrow> (bool \<times> tcp_socket) option" where
  "set_options e s =
     (if \<not> SetOptNoDelay e s then Some (False, s)
      else if \<not> SetOptNonBlock s then Some (False, s)
      else if \<not> SetOptLinger e s then Some (False, s)
      else if \<not> SetOptReuse e s then Some (False, s)
      else do {
        (ok, s1) \<leftarrow> InitRecvBuf e s (recv_buf_len s);
        Some (if \<not> ok then (False, s1) else (SetOptSendBufSize e s1, s1)) })"

text \<open>
  \<open>acc\<close> is the result of \<open>accept\<close>: the descriptor and the remote address. The inner \<open>None\<close> is the null
  pointer that \<open>Accept\<close> returns; the destructor of the discarded socket closes the descriptor.
\<close>

definition Accept :: "sock_env \<Rightarrow> tcp_socket \<Rightarrow> int \<times> int \<times> int \<Rightarrow> bool \<times> 32 word \<times> int \<Rightarrow> tcp_socket option option" where
  "Accept e l acc junk =
     (case acc of (fd, ip, port) \<Rightarrow>
        if fd < 0 then Some None
        else
          let s = TcpSocket (send_buf_len l) (recv_buf_len l) (max_len_per_send_pkg l) (max_len_per_recv_pkg l) junk;
              (created, s1) = Socket_Create s fd
          in if created then Some None
             else
               let s2 = (SetRemoteAddr s1 ip port)\<lparr>sstate := SS_ACCEPTED\<rparr>;
                   s3 = SetCachedSendInfo e (UpdateRecvTime (UpdateActiveTime s2))
                          (max_cached_send_buf_size l) (max_cached_send_interval_ms l)
               in (case set_options e s3 of
                   None \<Rightarrow> None
                 | Some (success, s4) \<Rightarrow> Some (if success then Some s4 else None)))"

definition DoConnect :: "sock_env \<Rightarrow> tcp_socket \<Rightarrow> bool \<times> tcp_socket" where
  "DoConnect e s =
     (if -1 = env_connect e \<and> env_inprogress e then (True, s\<lparr>sstate := SS_CONNECTING\<rparr>)
      else (True, UpdateRecvTime (UpdateActiveTime (s\<lparr>sstate := SS_CONNECTED\<rparr>))))"

definition tcp_Connect :: "sock_env \<Rightarrow> tcp_socket \<Rightarrow> int \<Rightarrow> int \<Rightarrow> (bool \<times> tcp_socket) option" where
  "tcp_Connect e s ip port =
     (let (ok, s0) = (if SS_INVALID = sstate s then tcp_Create e s else (True, s))
      in if \<not> ok then Some (False, s0)
         else do {
           (options, s2) \<leftarrow> set_options e (SetRemoteAddr s0 ip port);
           let (success, s3) = (if \<not> options then (False, s2)
             else let (done, s3) = DoConnect e s2 in (\<not> done, s3));
           Some (if \<not> success then (False, tcp_Close s3) else (True, s3)) })"

definition tcp_Connect_str :: "(string \<Rightarrow> int) \<Rightarrow> sock_env \<Rightarrow> tcp_socket \<Rightarrow> string \<Rightarrow> string \<Rightarrow> (bool \<times> tcp_socket) option" where
  "tcp_Connect_str inet_addr e s ip port = tcp_Connect e s (inet_addr ip) (htons (strtol port 10))"

definition CheckConnect :: "int \<Rightarrow> bool" where
  "CheckConnect err = (0 = err)"

definition tcp_Listen :: "sock_env \<Rightarrow> tcp_socket \<Rightarrow> int \<Rightarrow> int \<Rightarrow> bool \<times> tcp_socket" where
  "tcp_Listen e s ip port =
     (let (ok, s0) = (if SS_INVALID = sstate s then tcp_Create e s else (True, s)) in (ok, s0))"

definition DoListen :: "sock_env \<Rightarrow> tcp_socket \<Rightarrow> bool \<times> tcp_socket" where
  "DoListen e s = (if 0 = env_listen e then (True, s\<lparr>sstate := SS_LISTENING\<rparr>) else (False, s))"

end
