(* ===== verification/SockMgr.thy ===== *)
theory SockMgr
  imports Tcp
begin

unbundle bit_operations_syntax

text \<open>
  \<open>SocketManager\<close> of \<open>common/network/socket_manager.{h,cc}\<close> with \<open>EpollSocketManager\<close> of
  \<open>common/network/epoll_socket_manager.{h,cc}\<close>.

  \<^item> The sockets live in a store from addresses; the two maps hold addresses, in the order of their
    keys. \<open>deleted\<close> lists the addresses freed. \<open>HandleClose\<close> calls are collected in \<open>closed_log\<close>.
  \<^item> \<open>ep_events\<close> is the event array after \<open>epoll_wait\<close>, the result of \<open>epoll_ctl\<close> is a parameter. The
    array and its two counters have no value before the first wait, and are not read before it.
  \<^item> The \<open>Process\<close> functions have empty bodies; the calls of them are the result of \<open>CheckSocketEvents\<close>.
  \<^item> \<open>None\<close> is a fault: a dangling pointer or an access out of bounds. The asserts of \<open>epoll_socket_manager.cc\<close> have no
    effect: one of them names a variable that does not exist, so the file compiles only with assertions off. A failed
    \<open>epoll_create\<close> or \<open>epoll_ctl\<close> is the result false, as the statement after the assert has it.
\<close>

datatype sock_act = ActConnect nat | ActAccept nat | ActRead nat | ActWrite nat

record sock_mgr =
  socks :: "nat \<Rightarrow> tcp_socket option"
  hconn_map :: "(int \<times> nat) list"
  fd_map :: "(int \<times> nat) list"
  closing_sockets :: "int list"
  max_fds :: int
  wait_event_time :: int
  flush_interval_ms :: int
  cur_conn :: int
  cur_time_ms :: int
  g_last_time :: "int option"
  closed_log :: "(int \<times> int) list"
  deleted :: "nat list"
  ep_events :: "(int \<times> 32 word) list"
  nfds :: int
  cur_fd_index :: int

definition RESERVE_FD_COUNT :: int where "RESERVE_FD_COUNT = 30"
definition EPOLLIN :: "32 word" where "EPOLLIN = 0x1"
definition EPOLLOUT :: "32 word" where "EPOLLOUT = 0x4"
definition EPOLLERR :: "32 word" where "EPOLLERR = 0x8"
definition EPOLLHUP :: "32 word" where "EPOLLHUP = 0x10"

text \<open>\<open>now_ms\<close> is the clock when the static member is initialised.\<close>

definition SocketManager :: "int \<Rightarrow> sock_mgr" where
  "SocketManager now_ms = \<lparr>socks = (\<lambda>_. None), hconn_map = [], fd_map = [], closing_sockets = [], max_fds = 0,
     wait_event_time = 1, flush_interval_ms = 50, cur_conn = 1, cur_time_ms = now_ms, g_last_time = None,
     closed_log = [], deleted = [], ep_events = [], nfds = 0, cur_fd_index = 0\<rparr>"

definition Initialize :: "sock_mgr \<Rightarrow> int \<Rightarrow> bool \<times> sock_mgr" where
  "Initialize m n = (True, m\<lparr>max_fds := u32 (n + RESERVE_FD_COUNT)\<rparr>)"

definition ep_Initialize :: "int \<Rightarrow> sock_mgr \<Rightarrow> int \<Rightarrow> bool \<times> sock_mgr" where
  "ep_Initialize epoll_create m n =
     (let (r, m1) = Initialize m n in if epoll_create < 0 then (False, m1) else (True, m1))"

text \<open>\<open>None\<close> is the null pointer that \<open>Create\<close> returns.\<close>

definition mgr_Create :: "int \<Rightarrow> int \<Rightarrow> int \<Rightarrow> sock_mgr option" where
  "mgr_Create epoll_create now_ms n =
     (let (ok, m) = ep_Initialize epoll_create (SocketManager now_ms) n in if ok then None else Some m)"

definition mgr_Listen :: "sock_mgr \<Rightarrow> int \<Rightarrow> int \<Rightarrow> int" where
  "mgr_Listen m ip port = 0"

definition mgr_Listen_str :: "(string \<Rightarrow> int) \<Rightarrow> sock_mgr \<Rightarrow> string \<Rightarrow> string \<Rightarrow> int" where
  "mgr_Listen_str inet_addr m ip port = mgr_Listen m (inet_addr ip) (htons (strtol port 10))"

definition GetSocketByHconn :: "sock_mgr \<Rightarrow> int \<Rightarrow> nat option" where
  "GetSocketByHconn m h = map_of (hconn_map m) h"

definition GetSocketByFD :: "sock_mgr \<Rightarrow> int \<Rightarrow> nat option" where
  "GetSocketByFD m fd = map_of (fd_map m) fd"

definition GetHconnCount :: "sock_mgr \<Rightarrow> int" where
  "GetHconnCount m = i32 (int (length (hconn_map m)))"

definition set_sock :: "sock_mgr \<Rightarrow> nat \<Rightarrow> tcp_socket \<Rightarrow> sock_mgr" where
  "set_sock m a s = m\<lparr>socks := (socks m)(a \<mapsto> s)\<rparr>"

subsection \<open>Events\<close>

definition WaitForSocketEvents :: "sock_mgr \<Rightarrow> (int \<times> 32 word) list \<Rightarrow> int \<Rightarrow> bool \<times> sock_mgr" where
  "WaitForSocketEvents m evs n =
     (let m1 = m\<lparr>ep_events := evs, nfds := n\<rparr>
      in if n \<le> 0 then (False, m1) else (True, m1\<lparr>cur_fd_index := 0\<rparr>))"

definition event_flags :: "32 word \<Rightarrow> 32 word" where
  "event_flags ev =
     (let f0 = 0;
          f1 = (if ev AND EPOLLERR \<noteq> 0 then f0 OR SOCK_EVENT_ON_EXCEPT else f0);
          f2 = (if ev AND EPOLLIN \<noteq> 0 then f1 OR SOCK_EVENT_ON_READ else f1)
      in if ev AND EPOLLOUT \<noteq> 0 then f2 OR SOCK_EVENT_ON_WRITE else f2)"

text \<open>The inner \<open>None\<close> is the result false.\<close>

definition GetSocketEvent :: "sock_mgr \<Rightarrow> ((int \<times> 32 word) option \<times> sock_mgr) option" where
  "GetSocketEvent m =
     (if cur_fd_index m \<ge> nfds m then Some (None, m)
      else if \<not> (0 \<le> cur_fd_index m \<and> cur_fd_index m < int (length (ep_events m))) then None
      else
        let (fd, ev) = ep_events m ! nat (cur_fd_index m);
            m1 = m\<lparr>cur_fd_index := cur_fd_index m + 1\<rparr>
        in (case GetSocketByFD m1 fd of
            None \<Rightarrow> Some (None, m1)
          | Some a \<Rightarrow> do { s \<leftarrow> socks m1 a; Some (Some (hconn s, event_flags ev), m1) }))"

definition dispatch :: "tcp_socket \<Rightarrow> nat \<Rightarrow> 32 word \<Rightarrow> sock_act list" where
  "dispatch s a fl =
     (if fl AND SOCK_EVENT_ON_EXCEPT \<noteq> 0 then []
      else if SS_CONNECTING = sstate s \<and> fl AND SOCK_EVENT_ON_WRITE \<noteq> 0 then [ActConnect a]
      else if SS_LISTENING = sstate s \<and> fl AND SOCK_EVENT_ON_READ \<noteq> 0 then [ActAccept a]
      else (if SS_CONNECTED = sstate s \<and> fl AND SOCK_EVENT_ON_READ \<noteq> 0 then [ActRead a] else [])
         @ (if SS_CONNECTED = sstate s \<and> fl AND SOCK_EVENT_ON_WRITE \<noteq> 0 then [ActWrite a] else []))"

function event_loop :: "sock_mgr \<Rightarrow> sock_act list \<Rightarrow> (sock_act list \<times> sock_mgr) option" where
  "event_loop m acts =
     (case GetSocketEvent m of
        None \<Rightarrow> None
      | Some (None, m1) \<Rightarrow> Some (acts, m1)
      | Some (Some (h, fl), m1) \<Rightarrow>
          (case GetSocketByHconn m1 h of
             None \<Rightarrow> event_loop m1 acts
           | Some a \<Rightarrow>
               (case socks m1 a of
                  None \<Rightarrow> None
                | Some s \<Rightarrow>
                    if IsValid s \<or> sstate s = SS_CLOSING then event_loop m1 acts
                    else event_loop m1 (acts @ dispatch s a fl))))"
  by pat_completeness auto

termination
  by (relation "measure (\<lambda>(m, acts). nat (nfds m - cur_fd_index m))")
    (auto simp: GetSocketEvent_def Let_def split: if_splits prod.splits option.splits Option.bind_splits)

declare event_loop.simps [simp del]

definition CheckSocketEvents :: "sock_mgr \<Rightarrow> (int \<times> 32 word) list \<Rightarrow> int \<Rightarrow> (sock_act list \<times> sock_mgr) option" where
  "CheckSocketEvents m evs n =
     (let (ok, m1) = WaitForSocketEvents m evs n in if \<not> ok then Some ([], m1) else event_loop m1 [])"

text \<open>Both times are the constant 0; the result lists the connections that would be closed.\<close>

definition CheckSocketTimeOut :: "sock_mgr \<Rightarrow> int list" where
  "CheckSocketTimeOut m =
     (let last_time = 0; cur_time = (0 :: int)
      in if cur_time - last_time < 1120 then []
         else [h. (h, a) \<leftarrow> hconn_map m,
                 (case socks m a of None \<Rightarrow> False
                  | Some s \<Rightarrow> sstate s = SS_CONNECTED \<and>
                      (active_time_out s \<noteq> 0 \<and> cur_time - last_active_time s > active_time_out s \<or>
                       recv_time_out s \<noteq> 0 \<and> cur_time - last_recv_time s > recv_time_out s))])"

definition RegisterSocketEvent :: "(tcp_socket \<Rightarrow> 32 word \<Rightarrow> bool \<times> bool \<times> bool) \<Rightarrow> tcp_socket \<Rightarrow> 32 word \<Rightarrow> bool" where
  "RegisterSocketEvent ctl s fl =
     (if \<not> IsValid s then False
      else
        let e0 = EPOLLHUP OR EPOLLERR;
            e1 = (if fl AND SOCK_EVENT_ON_READ \<noteq> 0 then e0 OR EPOLLIN else e0);
            e2 = (if fl AND SOCK_EVENT_ON_WRITE \<noteq> 0 then e1 OR EPOLLOUT else e1);
            (mod_failed, enoent, add_failed) = ctl s e2
        in \<not> (mod_failed \<and> (\<not> enoent \<or> add_failed)))"

definition UnregistSocketEvent :: "(int \<Rightarrow> bool) \<Rightarrow> tcp_socket \<Rightarrow> bool" where
  "UnregistSocketEvent del_failed s =
     (if \<not> IsValid s then False else if del_failed (sock_fd s) then False else True)"

subsection \<open>Closing\<close>

definition mgr_Close :: "'k ksend \<Rightarrow> sock_mgr \<Rightarrow> 'k net \<Rightarrow> int \<Rightarrow> (sock_mgr \<times> 'k net) option" where
  "mgr_Close ks m n h =
     (case GetSocketByHconn m h of
        None \<Rightarrow> Some (m, n)
      | Some a \<Rightarrow> do {
          s \<leftarrow> socks m a;
          (if sstate s = SS_CLOSING \<or> sstate s = SS_CLOSED then Some (m, n)
           else do {
             (r, s1, n1) \<leftarrow> SendCache ks s n;
             Some ((set_sock m a (s1\<lparr>sstate := SS_CLOSING\<rparr>))\<lparr>closing_sockets := closing_sockets m @ [h]\<rparr>, n1) }) })"

definition SysCloseSocket :: "sock_mgr \<Rightarrow> nat \<Rightarrow> int \<Rightarrow> sock_mgr option" where
  "SysCloseSocket m a reason = do {
     s \<leftarrow> socks m a;
     (if sstate s = SS_CLOSING \<or> sstate s = SS_CLOSED then Some m
      else Some ((set_sock m a (s\<lparr>sstate := SS_CLOSING\<rparr>))
        \<lparr>closing_sockets := closing_sockets m @ [hconn s],
         closed_log := (if event_handler s then closed_log m @ [(hconn s, reason)] else closed_log m)\<rparr>)) }"

definition with_socket :: "sock_mgr \<Rightarrow> int \<Rightarrow> (tcp_socket \<Rightarrow> tcp_socket) \<Rightarrow> sock_mgr option" where
  "with_socket m h f =
     (case GetSocketByHconn m h of
        None \<Rightarrow> Some m
      | Some a \<Rightarrow> do { s \<leftarrow> socks m a; Some (set_sock m a (f s)) })"

definition SetActiveTimeout :: "sock_mgr \<Rightarrow> int \<Rightarrow> int \<Rightarrow> sock_mgr option" where
  "SetActiveTimeout m h t = with_socket m h (\<lambda>s. s\<lparr>active_time_out := t\<rparr>)"

definition SetRecvTimeout :: "sock_mgr \<Rightarrow> int \<Rightarrow> int \<Rightarrow> sock_mgr option" where
  "SetRecvTimeout m h t = with_socket m h (\<lambda>s. s\<lparr>recv_time_out := t\<rparr>)"

definition SetCacheSendInfo :: "sock_env \<Rightarrow> sock_mgr \<Rightarrow> int \<Rightarrow> int \<Rightarrow> int \<Rightarrow> sock_mgr option" where
  "SetCacheSendInfo e m h max_len interval_ms =
     (case GetSocketByHconn m h of
        None \<Rightarrow> Some m
      | Some a \<Rightarrow> with_socket
          (if interval_ms < flush_interval_ms m then m\<lparr>flush_interval_ms := interval_ms\<rparr> else m) h
          (\<lambda>s. SetCachedSendInfo e s max_len interval_ms))"

definition mgr_UpdateTime :: "sock_mgr \<Rightarrow> int \<Rightarrow> sock_mgr" where
  "mgr_UpdateTime m now_ms = m\<lparr>cur_time_ms := now_ms\<rparr>"

fun flush_loop :: "'k ksend \<Rightarrow> (int \<times> nat) list \<Rightarrow> sock_mgr \<Rightarrow> 'k net \<Rightarrow> (sock_mgr \<times> 'k net) option" where
  "flush_loop ks [] m n = Some (m, n)"
| "flush_loop ks ((h, a) # es) m n = do {
     s \<leftarrow> socks m a;
     (if sstate s \<noteq> SS_CONNECTED then flush_loop ks es m n
      else do {
        (r, s1, n1) \<leftarrow> SendCache ks s n;
        m1 \<leftarrow> (if r < 0 then SysCloseSocket (set_sock m a s1) a SCR_SEND_FAILED else Some (set_sock m a s1));
        flush_loop ks es m1 n1 }) }"

definition FlushCachedSendSockets :: "'k ksend \<Rightarrow> sock_mgr \<Rightarrow> 'k net \<Rightarrow> (sock_mgr \<times> 'k net) option" where
  "FlushCachedSendSockets ks m n =
     (let last_time = (case g_last_time m of None \<Rightarrow> i32 (cur_time_ms m) | Some t \<Rightarrow> t);
          cur_time = i32 (cur_time_ms m)
      in if i32 (cur_time - last_time) < flush_interval_ms m then Some (m\<lparr>g_last_time := Some last_time\<rparr>, n)
         else flush_loop ks (hconn_map m) (m\<lparr>g_last_time := Some cur_time\<rparr>) n)"

definition DetachSocket :: "(int \<Rightarrow> bool) \<Rightarrow> sock_mgr \<Rightarrow> nat option \<Rightarrow> sock_mgr option" where
  "DetachSocket del_failed m p =
     (case p of
        None \<Rightarrow> Some m
      | Some a \<Rightarrow> do {
          s \<leftarrow> socks m a;
          let r = UnregistSocketEvent del_failed s;
          Some (m\<lparr>hconn_map := filter (\<lambda>(h, b). h \<noteq> hconn s) (hconn_map m),
                   fd_map := filter (\<lambda>(f, b). f \<noteq> sock_fd s) (fd_map m)\<rparr>) })"

fun close_loop :: "(int \<Rightarrow> bool) \<Rightarrow> int list \<Rightarrow> sock_mgr \<Rightarrow> sock_mgr option" where
  "close_loop del_failed [] m = Some m"
| "close_loop del_failed (h # hs) m =
     (case GetSocketByHconn m h of
        None \<Rightarrow> close_loop del_failed hs m
      | Some a \<Rightarrow> do {
          m1 \<leftarrow> DetachSocket del_failed m (Some a);
          close_loop del_failed hs (m1\<lparr>socks := (socks m1)(a := None), deleted := deleted m1 @ [a]\<rparr>) })"

definition DoCloseSockets :: "(int \<Rightarrow> bool) \<Rightarrow> sock_mgr \<Rightarrow> sock_mgr option" where
  "DoCloseSockets del_failed m = close_loop del_failed (closing_sockets m) m"

definition mgr_Update ::
  "'k ksend \<Rightarrow> sock_mgr \<Rightarrow> 'k net \<Rightarrow> int \<Rightarrow> (int \<times> 32 word) list \<Rightarrow> int \<Rightarrow>
   (sock_act list \<times> int list \<times> sock_mgr \<times> 'k net) option" where
  "mgr_Update ks m n now_ms evs nev = do {
     (m1, n1) \<leftarrow> FlushCachedSendSockets ks (mgr_UpdateTime m now_ms) n;
     (acts, m2) \<leftarrow> CheckSocketEvents m1 evs nev;
     Some (acts, CheckSocketTimeOut m2, m2, n1) }"

end
