(* ===== verification/TcpProps.thy ===== *)
theory TcpProps
  imports SockMgr
begin

text \<open>
  The properties of one socket: what \<open>Send\<close> puts on the wire, what \<open>Recv\<close> keeps of the stream, and
  that no connection is ever opened.
\<close>

subsection \<open>Sending\<close>

definition cached :: "tcp_socket \<Rightarrow> byte list" where
  "cached s = (case cached_send_buf s of None \<Rightarrow> [] | Some b \<Rightarrow> take (nat (cur_cached_send_buf_size s)) b)"

definition fits_cache :: "tcp_socket \<Rightarrow> int \<Rightarrow> bool" where
  "fits_cache s len \<longleftrightarrow> i32 (len + cur_cached_send_buf_size s) \<le> max_cached_send_buf_size s"

lemma do_send_wire: "do_send ks n data = (r, n') \<Longrightarrow> wire n' = wire n @ take (nat r) data"
  by (auto simp: do_send_def split: prod.splits)

lemma mem_read_front: "mem_read b 0 n = Some xs \<Longrightarrow> xs = take (nat n) b \<and> int (length xs) = n"
  by (auto simp: mem_read_def split: if_splits)

lemma do_send_full:
  assumes "mem_read b 0 n = Some xs" and "do_send ks st xs = (n, st')"
  shows "wire st' = wire st @ take (nat n) b"
  using mem_read_front [OF assms(1)] do_send_wire [OF assms(2)] by simp

text \<open>The whole cache and the result 0, or a prefix of it and the cache unchanged.\<close>

lemma SendCache_wire:
  assumes run: "SendCache ks s n = Some (r, s', n')"
  shows "sstate s' = sstate s" "r < 0 \<Longrightarrow> s' = s \<and> (\<exists>k. wire n' = wire n @ take k (cached s))"
    "\<not> r < 0 \<Longrightarrow> r = 0 \<and> cur_cached_send_buf_size s' = 0 \<and> wire n' = wire n @ cached s"
proof -
  have "sstate s' = sstate s \<and> (r < 0 \<longrightarrow> s' = s \<and> (\<exists>k. wire n' = wire n @ take k (cached s))) \<and>
      (\<not> r < 0 \<longrightarrow> r = 0 \<and> cur_cached_send_buf_size s' = 0 \<and> wire n' = wire n @ cached s)"
  proof (cases "SS_CONNECTED \<noteq> sstate s \<or> cur_cached_send_buf_size s = 0")
    case True
    then show ?thesis using run
      by (auto simp: SendCache_def cached_def intro: exI [of _ 0] split: if_splits option.splits)
  next
    case False
    with run have run': "do {
        b \<leftarrow> cached_send_buf s;
        data \<leftarrow> mem_read b 0 (cur_cached_send_buf_size s);
        let (r, n') = do_send ks n data
        in if r \<noteq> cur_cached_send_buf_size s then Some (-2, s, n')
           else Some (0, s\<lparr>cur_cached_send_buf_size := 0\<rparr>, n') } = Some (r, s', n')"
      unfolding SendCache_def by (simp only: if_False de_Morgan_disj not_not) simp
    then obtain b data where b: "cached_send_buf s = Some b"
      "mem_read b 0 (cur_cached_send_buf_size s) = Some data" by (auto split: Option.bind_splits)
    obtain q st where q: "do_send ks n data = (q, st)" by fastforce
    have b3: "do_send ks n data = (q, n')" and
      r: "if q \<noteq> cur_cached_send_buf_size s then r = -2 \<and> s' = s
          else r = 0 \<and> s' = s\<lparr>cur_cached_send_buf_size := 0\<rparr>"
      using run' b q by (simp_all split: if_splits)
    have c: "cached s = data" using mem_read_front [OF b(2)] b(1) by (simp add: cached_def)
    have w: "wire n' = wire n @ take (nat q) data" by (rule do_send_wire [OF b3])
    have all: "take (nat (cur_cached_send_buf_size s)) data = data" using mem_read_front [OF b(2)] by simp
    show ?thesis
    proof (cases "q = cur_cached_send_buf_size s")
      case True
      then show ?thesis using r w c all by simp
    next
      case False
      then have "r = -2" "s' = s" using r by simp_all
      then show ?thesis using w c by auto
    qed
  qed
  then show "sstate s' = sstate s" "r < 0 \<Longrightarrow> s' = s \<and> (\<exists>k. wire n' = wire n @ take k (cached s))"
    "\<not> r < 0 \<Longrightarrow> r = 0 \<and> cur_cached_send_buf_size s' = 0 \<and> wire n' = wire n @ cached s" by auto
qed

lemma cached_UpdateActiveTime [simp]: "cached (UpdateActiveTime s) = cached s"
  by (cases "cached_send_buf s") (simp_all add: cached_def UpdateActiveTime_def)

lemma UpdateActiveTime_fields [simp]:
  "sstate (UpdateActiveTime s) = sstate s" "support_cached_send (UpdateActiveTime s) = support_cached_send s"
  "cur_cached_send_buf_size (UpdateActiveTime s) = cur_cached_send_buf_size s"
  "max_cached_send_buf_size (UpdateActiveTime s) = max_cached_send_buf_size s"
  "max_len_per_send_pkg (UpdateActiveTime s) = max_len_per_send_pkg s"
  by (simp_all add: UpdateActiveTime_def)

text \<open>The four ways a call ends, one for each branch.\<close>

lemma tcp_Send_cases:
  assumes run: "tcp_Send ks s n (Some msg) len = Some (r, s', n')"
  obtains
    (refused) "r < 0" "n' = n" "sstate s' = sstate s"
  | (lost) "r = 0" "support_cached_send s" "fits_cache s len" "n' = n" "s' = UpdateActiveTime s"
  | (direct) data q where "\<not> support_cached_send s" "mem_read msg 0 len = Some data"
      "do_send ks n data = (q, n')" "r = (if q \<noteq> len then -6 else 0)" "s' = UpdateActiveTime s"
  | (stuck) "support_cached_send s" "\<not> fits_cache s len" "r = -4" "\<exists>q<0. SendCache ks (UpdateActiveTime s) n = Some (q, s', n')"
  | (flushed) data q n1 where "support_cached_send s" "\<not> fits_cache s len"
      "SendCache ks (UpdateActiveTime s) n = Some (0, s', n1)" "mem_read msg 0 len = Some data"
      "do_send ks n1 data = (q, n')" "r = (if q \<noteq> len then -5 else 0)"
proof -
  note u = run [unfolded tcp_Send_def, simplified]
  show thesis
  proof (cases "sstate s \<noteq> SS_CONNECTED \<or> max_len_per_send_pkg s < len")
    case True
    then show thesis using u refused by (auto simp: Let_def split: if_splits)
  next
    case False
    then have c: "sstate s = SS_CONNECTED" "\<not> max_len_per_send_pkg s < len" by simp_all
    show thesis
    proof (cases "support_cached_send s")
      case False
      then show thesis using u c direct
        by (auto simp: Let_def split: Option.bind_splits prod.splits if_splits)
    next
      case True
      show thesis
      proof (cases "fits_cache s len")
        case fits: True
        then show thesis using u c True lost by (simp add: fits_cache_def Let_def)
      next
        case full: False
        with u c True obtain q s2 n2 where sc: "SendCache ks (UpdateActiveTime s) n = Some (q, s2, n2)" and
          rest: "(if q < 0 then Some (-4, s2, n2) else do {
             data \<leftarrow> mem_read msg 0 len;
             let (r2, n3) = do_send ks n2 data in if r2 \<noteq> len then Some (-5, s2, n3) else Some (0, s2, n3) })
             = Some (r, s', n')"
          by (auto simp: fits_cache_def Let_def split: Option.bind_splits)
        show thesis
        proof (cases "q < 0")
          case neg: True
          then have "r = -4" "s' = s2" "n' = n2" using rest by simp_all
          then show thesis using stuck True full sc neg by blast
        next
          case False
          have "q = 0" using SendCache_wire(3) [OF sc False] by simp
          then show thesis using rest sc flushed True full
            by (auto simp: Let_def split: Option.bind_splits prod.splits if_splits)
        qed
      qed
    qed
  qed
qed

text \<open>C20. What \<open>Send\<close> puts on the wire. With the result 0 it is the message when the socket does not cache,
  the cached bytes and then the message when the message does not fit into the cache, and nothing at all when
  it fits: that message is dropped. Any other result leaves a prefix of those bytes on the wire, and no
  result changes the state of the socket.\<close>
theorem send_spec:
  assumes "tcp_Send ks s n (Some msg) len = Some (r, s', n')"
  shows "sstate s' = sstate s \<and>
    (if r = 0
     then if \<not> support_cached_send s then wire n' = wire n @ take (nat len) msg
          else if fits_cache s len then n' = n \<and> s' = UpdateActiveTime s
          else wire n' = wire n @ cached s @ take (nat len) msg \<and> cur_cached_send_buf_size s' = 0
     else \<exists>k. wire n' = wire n @ take k ((if support_cached_send s then cached s else []) @ take (nat len) msg))"
  using assms
proof (cases rule: tcp_Send_cases)
  case refused
  then show ?thesis by (auto intro: exI [of _ 0])
next
  case lost
  then show ?thesis by simp
next
  case (direct data q)
  note f = mem_read_front [OF direct(2)] and w = do_send_wire [OF direct(3)]
  from direct f w show ?thesis by (auto split: if_splits)
next
  case stuck
  then obtain q where q: "q < 0" "SendCache ks (UpdateActiveTime s) n = Some (q, s', n')" by blast
  from SendCache_wire(2) [OF q(2, 1)] obtain k where "s' = UpdateActiveTime s" "wire n' = wire n @ take k (cached s)"
    by auto
  moreover have "take k (cached s) = take (min k (length (cached s))) (cached s @ take (nat len) msg)"
    by (cases "k \<le> length (cached s)") (simp_all add: min_def)
  ultimately have "wire n' = wire n @ take (min k (length (cached s))) (cached s @ take (nat len) msg)"
    by (simp only:)
  then show ?thesis using stuck \<open>s' = UpdateActiveTime s\<close> by fastforce
next
  case (flushed data q n1)
  note f = mem_read_front [OF flushed(4)] and w = do_send_wire [OF flushed(5)]
    and c = SendCache_wire(1, 3) [OF flushed(3)]
  have m: "wire n' = wire n @ cached s @ take (nat q) (take (nat len) msg)" using f w c by simp
  moreover have "cached s @ take (nat q) (take (nat len) msg) =
      take (length (cached s) + nat q) (cached s @ take (nat len) msg)" by simp
  ultimately have "\<exists>k. wire n' = wire n @ take k (cached s @ take (nat len) msg)" by metis
  moreover have "q = len \<Longrightarrow> wire n' = wire n @ cached s @ take (nat len) msg" using m by simp
  ultimately show ?thesis using flushed c by (cases "q = len") simp_all
qed

lemma send_spec_witness:
  "let s = (TcpSocket 0 0 9 9 (False, 0, 0))\<lparr>sstate := SS_CONNECTED, support_cached_send := True,
        cached_send_buf := Some [1, 2, 3], cur_cached_send_buf_size := 2, max_cached_send_buf_size := 3\<rparr>;
      ks = (\<lambda>k data. (int (length data), k)); n = \<lparr>kstate = (), wire = [0]\<rparr>
   in (\<exists>s' n'. tcp_Send ks s n (Some [7, 8]) 2 = Some (0, s', n') \<and> wire n' = [0, 1, 2, 7, 8]) \<and>
      (\<exists>s'. tcp_Send ks s n (Some [7]) 1 = Some (0, s', n))"
proof -
  let ?s = "(TcpSocket 0 0 9 9 (False, 0, 0))\<lparr>sstate := SS_CONNECTED, support_cached_send := True,
        cached_send_buf := Some [1, 2, 3], cur_cached_send_buf_size := 2, max_cached_send_buf_size := 3\<rparr>"
  let ?ks = "\<lambda>(k :: unit) data. (int (length data), k)" and ?n = "\<lparr>kstate = (), wire = [0]\<rparr>"
  have f: "support_cached_send ?s" "\<not> fits_cache ?s 2" "fits_cache ?s 1" "cached ?s = [1, 2]"
    by (simp_all add: TcpSocket_def fits_cache_def cached_def i32_def)
  have "\<exists>s' n'. tcp_Send ?ks ?s ?n (Some [7, 8]) 2 = Some (0, s', n')"
    and "\<exists>s' n'. tcp_Send ?ks ?s ?n (Some [7]) 1 = Some (0, s', n')"
    by (simp_all add: tcp_Send_def TcpSocket_def UpdateActiveTime_def SendCache_def do_send_def mem_read_def i32_def Let_def)
  then obtain s1 n1 s2 n2 where r: "tcp_Send ?ks ?s ?n (Some [7, 8]) 2 = Some (0, s1, n1)"
    "tcp_Send ?ks ?s ?n (Some [7]) 1 = Some (0, s2, n2)" by blast
  have "wire n1 = [0, 1, 2, 7, 8]" using send_spec [OF r(1)] f by simp
  moreover have "n2 = ?n" using send_spec [OF r(2)] f by simp
  ultimately show ?thesis using r unfolding Let_def by blast
qed

subsection \<open>Receiving\<close>

text \<open>The buffer has its size and the window of received bytes lies in it.\<close>

definition recv_ok :: "tcp_socket \<Rightarrow> bool" where
  "recv_ok s \<longleftrightarrow> 0 \<le> recv_start s \<and> 0 \<le> recv_bytes s \<and> recv_start s + recv_bytes s \<le> recv_buf_len s \<and>
     (\<exists>b. recv_buf s = Some b \<and> int (length b) = recv_buf_len s)"

definition received :: "tcp_socket \<Rightarrow> byte list" where
  "received s = (case recv_buf s of None \<Rightarrow> []
     | Some b \<Rightarrow> take (nat (recv_bytes s)) (drop (nat (recv_start s)) b))"

text \<open>What is known of \<open>recv\<close>: it gives at most as many bytes as asked for, from the front of the stream.\<close>

definition recv_law :: "'k krecv \<Rightarrow> ('k \<Rightarrow> byte list) \<Rightarrow> bool" where
  "recv_law kr pending \<longleftrightarrow> (\<forall>k len. case kr k len of (r, d, k') \<Rightarrow>
     (if r > 0 then r \<le> len \<and> int (length d) = r \<and> pending k = d @ pending k' else pending k' = pending k))"

fun recv_run :: "'k krecv \<Rightarrow> nat \<Rightarrow> tcp_socket \<Rightarrow> 'k \<Rightarrow> (tcp_socket \<times> 'k) option" where
  "recv_run kr 0 s k = Some (s, k)"
| "recv_run kr (Suc i) s k = do { (r, s1, k1) \<leftarrow> tcp_Recv kr s k; recv_run kr i s1 k1 }"

lemma memcpy_window:
  assumes b: "int (length b) = n" and w: "0 \<le> st" "0 \<le> c" "st + c + r \<le> n" and d: "int (length d) = r"
  shows "\<exists>b'. memcpy b (st + c) d 0 r = Some b' \<and> int (length b') = n \<and>
    take (nat (c + r)) (drop (nat st) b') = take (nat c) (drop (nat st) b) @ d"
proof -
  let ?b = "take (nat (st + c)) b @ d @ drop (nat (st + c + r)) b"
  have m: "memcpy b (st + c) d 0 r = Some ?b" using assms by (simp add: memcpy_def)
  have l: "length (take (nat (st + c)) b) = nat st + nat c" using assms by simp
  have dr: "drop (nat st) ?b = take (nat c) (drop (nat st) b) @ d @ drop (nat (st + c + r)) b"
    using w l by (simp add: nat_add_distrib take_drop add.commute)
  have "take (nat (c + r)) (drop (nat st) ?b) = take (nat c) (drop (nat st) b) @ d"
    unfolding dr using assms l by (simp add: nat_add_distrib)
  then show ?thesis using m length_memcpy [OF m] b by (intro exI [of _ ?b]) simp
qed

lemma tcp_Recv_step:
  assumes ok: "recv_ok s" and law: "recv_law kr pending"
  obtains r s' k' where "tcp_Recv kr s k = Some (r, s', k')" "recv_ok s'"
    "received s' @ pending k' = received s @ pending k" "recv_start s' = recv_start s"
proof -
  from ok obtain b where b: "recv_buf s = Some b" "int (length b) = recv_buf_len s"
    and w: "0 \<le> recv_start s" "0 \<le> recv_bytes s" "recv_start s + recv_bytes s \<le> recv_buf_len s"
    by (auto simp: recv_ok_def)
  let ?s = "UpdateRecvTime (UpdateActiveTime s)" and ?len = "recv_buf_len s - (recv_start s + recv_bytes s)"
  have f: "recv_buf ?s = Some b" "recv_start ?s = recv_start s" "recv_bytes ?s = recv_bytes s"
    "recv_buf_len ?s = recv_buf_len s" by (simp_all add: UpdateRecvTime_def UpdateActiveTime_def b)
  obtain r d k' where k: "kr k ?len = (r, d, k')" by (cases "kr k ?len") auto
  have l: "if r > 0 then r \<le> ?len \<and> int (length d) = r \<and> pending k = d @ pending k' else pending k' = pending k"
    using law [unfolded recv_law_def, THEN spec, THEN spec, of ?len k] k by simp
  show thesis
  proof (cases "r > 0")
    case True
    then have d: "r \<le> ?len" "int (length d) = r" "pending k = d @ pending k'" using l by simp_all
    have fit: "recv_start s + recv_bytes s + r \<le> recv_buf_len s" using d(1) by simp
    from memcpy_window [OF b(2) w(1, 2) fit d(2)] obtain b' where
      b': "memcpy b (recv_start s + recv_bytes s) d 0 r = Some b'" "int (length b') = recv_buf_len s"
      "take (nat (recv_bytes s + r)) (drop (nat (recv_start s)) b') = take (nat (recv_bytes s)) (drop (nat (recv_start s)) b) @ d"
      by blast
    let ?t = "?s\<lparr>recv_buf := Some b', recv_bytes := recv_bytes s + r\<rparr>"
    have "tcp_Recv kr s k = Some (r, ?t, k')" using f w k b'(1) True by (simp add: tcp_Recv_def Let_def)
    moreover have "recv_ok ?t" using b'(2) w True fit f by (simp add: recv_ok_def)
    moreover have "received ?t @ pending k' = received s @ pending k"
      using b'(3) b(1) d(3) f by (simp add: received_def)
    ultimately show thesis using that f by simp
  next
    case False
    have "tcp_Recv kr s k = Some (r, ?s, k')" using f w k False by (simp add: tcp_Recv_def Let_def)
    moreover have "recv_ok ?s" using ok f b by (simp add: recv_ok_def)
    moreover have "received ?s @ pending k' = received s @ pending k"
      using l False b(1) f by (simp add: received_def)
    ultimately show thesis using that f by simp
  qed
qed

text \<open>C18. Receiving. Any number of calls of \<open>Recv\<close> on a socket whose window lies in its buffer ends without
  a fault or a write outside the buffer, keeps the window in the buffer, and neither loses, repeats nor
  reorders a byte: what has been received followed by what the kernel still holds stays the same stream.\<close>
theorem recv_keeps_stream:
  assumes "recv_ok s" and "recv_law kr pending"
  shows "\<exists>s' k'. recv_run kr i s k = Some (s', k') \<and> recv_ok s' \<and>
    received s' @ pending k' = received s @ pending k \<and> recv_start s' = recv_start s"
  using assms(1)
proof (induction i arbitrary: s k)
  case (Suc i)
  obtain r s1 k1 where 1: "tcp_Recv kr s k = Some (r, s1, k1)" "recv_ok s1"
    "received s1 @ pending k1 = received s @ pending k" "recv_start s1 = recv_start s"
    by (rule tcp_Recv_step [OF Suc.prems assms(2), of k]) blast
  obtain s2 k2 where 2: "recv_run kr i s1 k1 = Some (s2, k2)" "recv_ok s2"
    "received s2 @ pending k2 = received s1 @ pending k1" "recv_start s2 = recv_start s1"
    using Suc.IH [OF 1(2), of k1] by blast
  have "recv_run kr (Suc i) s k = Some (s2, k2)" using 1(1) 2(1) by simp
  moreover have "received s2 @ pending k2 = received s @ pending k" "recv_start s2 = recv_start s"
    using 1 2 by simp_all
  ultimately show ?case using 2(2) by blast
qed simp

definition chunk_recv :: "byte list krecv" where
  "chunk_recv k len = (let d = take (min 2 (nat len)) k in (int (length d), d, drop (min 2 (nat len)) k))"

lemma recv_keeps_stream_witness:
  "let s = (TcpSocket 0 5 9 9 (False, 0, 0))\<lparr>recv_buf := Some [0, 0, 0, 0, 0]\<rparr>
   in \<exists>s' k'. recv_run chunk_recv 3 s [1, 2, 3, 4, 5, 6] = Some (s', k') \<and> received s' @ k' = [1, 2, 3, 4, 5, 6]"
proof -
  let ?s = "(TcpSocket 0 5 9 9 (False, 0, 0))\<lparr>recv_buf := Some [0, 0, 0, 0, 0]\<rparr>"
  have "recv_law chunk_recv (\<lambda>k. k)" by (auto simp: recv_law_def chunk_recv_def Let_def)
  moreover have "recv_ok ?s" "received ?s = []" by (simp_all add: recv_ok_def received_def TcpSocket_def)
  ultimately show ?thesis using recv_keeps_stream [of ?s chunk_recv "\<lambda>k. k" 3 "[1, 2, 3, 4, 5, 6]"]
    unfolding Let_def by auto
qed

subsection \<open>Opening\<close>

lemma tcp_Connect_result:
  assumes run: "tcp_Connect e s ip port = Some (ok, s')"
  shows "\<not> ok"
proof -
  have c: "fst (DoConnect e t)" for t by (simp add: DoConnect_def)
  obtain made s0 where m: "(if SS_INVALID = sstate s then tcp_Create e s else (True, s)) = (made, s0)" by fastforce
  show ?thesis
  proof (cases "made \<and> set_options e (SetRemoteAddr s0 ip port) \<noteq> None")
    case True
    then obtain opts s2 where o: "set_options e (SetRemoteAddr s0 ip port) = Some (opts, s2)" by auto
    obtain d s3 where d: "DoConnect e s2 = (d, s3)" by fastforce
    then show ?thesis using run m o c [of s2] True by (cases opts) (simp_all add: tcp_Connect_def)
  next
    case False
    then have "\<not> made \<or> set_options e (SetRemoteAddr s0 ip port) = None" by blast
    then show ?thesis using run m by (elim disjE) (simp_all add: tcp_Connect_def split: if_splits)
  qed
qed

text \<open>C40. Nothing is ever opened. Whatever the system calls return, \<open>Accept\<close> gives the null pointer, \<open>Connect\<close>
  never gives true when it returns - also when the kernel has connected and the socket is in the state
  \<open>SS_CONNECTED\<close> - and \<open>SocketManager::Create\<close> gives the null pointer when it has set up a manager, and a manager,
  one without an epoll descriptor, exactly when \<open>epoll_create\<close> has failed.\<close>
theorem connections_never_open:
  "Accept e l acc junk = Some None \<and>
   map_option fst (tcp_Connect e s ip port) \<noteq> Some True \<and>
   (\<exists>e' s'. tcp_Connect e' (TcpSocket sb rb ms mr junk) ip port = Some (False, s') \<and> sstate s' = SS_CONNECTED) \<and>
   mgr_Create epoll now_ms n = (if epoll < 0 then Some ((SocketManager now_ms)\<lparr>max_fds := u32 (n + 30)\<rparr>) else None)"
proof (intro conjI)
  show "Accept e l acc junk = Some None"
    by (cases acc) (auto simp: Accept_def Socket_Create_def INVALID_SOCKET_def Let_def)
  show "map_option fst (tcp_Connect e s ip port) \<noteq> Some True"
    by (cases "tcp_Connect e s ip port") (auto dest: tcp_Connect_result)
  let ?e = "\<lparr>env_socket = 3, env_reuse = True, env_keepalive = True, env_nodelay = True, env_linger = True,
      env_sndbuf = True, env_connect = 0, env_inprogress = False, env_listen = 0, env_new_bytes = (\<lambda>_. [])\<rparr>"
  show "\<exists>e' s'. tcp_Connect e' (TcpSocket sb rb ms mr junk) ip port = Some (False, s') \<and> sstate s' = SS_CONNECTED"
    by (rule exI [of _ ?e]) (simp add: tcp_Connect_def TcpSocket_def tcp_Create_def Socket_Create_def INVALID_SOCKET_def
      set_options_def SetOptNoDelay_def SetOptNonBlock_def SetOptLinger_def SetOptReuse_def InitRecvBuf_def SetOptSendBufSize_def
      SetRemoteAddr_def DoConnect_def UpdateRecvTime_def UpdateActiveTime_def tcp_Close_def Let_def)
  show "mgr_Create epoll now_ms n = (if epoll < 0 then Some ((SocketManager now_ms)\<lparr>max_fds := u32 (n + 30)\<rparr>) else None)"
    by (simp add: mgr_Create_def ep_Initialize_def Initialize_def RESERVE_FD_COUNT_def)
qed

end
