(* ===== verification/SockProofs.thy ===== *)
theory SockProofs
  imports TcpProps
begin

text \<open>
  The invariant of the socket manager: the two maps agree with the sockets they name, a connection is in
  the list of closing connections exactly when its socket is in the state \<open>SS_CLOSING\<close>, no freed
  socket is reachable and none is freed twice. One lemma for each operation.
\<close>

subsection \<open>The invariant\<close>

definition sock_ok :: "tcp_socket \<Rightarrow> bool" where
  "sock_ok s \<longleftrightarrow> 0 \<le> cur_cached_send_buf_size s \<and> (cur_cached_send_buf_size s = 0 \<or>
     (\<exists>b. cached_send_buf s = Some b \<and> cur_cached_send_buf_size s \<le> int (length b)))"

definition tables_ok ::
  "(nat \<Rightarrow> tcp_socket option) \<Rightarrow> (int \<times> nat) list \<Rightarrow> (int \<times> nat) list \<Rightarrow> int list \<Rightarrow> nat list \<Rightarrow> bool" where
  "tables_ok st hm fm cl dl \<longleftrightarrow> distinct (map fst hm) \<and> distinct (map fst fm) \<and> distinct cl \<and> distinct dl \<and>
     (\<forall>h a. (h, a) \<in> set hm \<longrightarrow>
        (\<exists>s. st a = Some s \<and> hconn s = h \<and> sock_ok s \<and> (h \<in> set cl \<longleftrightarrow> sstate s = SS_CLOSING))) \<and>
     (\<forall>f a. (f, a) \<in> set fm \<longrightarrow> (\<exists>s. st a = Some s \<and> sock_fd s = f \<and> (hconn s, a) \<in> set hm)) \<and>
     (\<forall>a \<in> set dl. st a = None)"

definition mgr_ok :: "sock_mgr \<Rightarrow> bool" where
  "mgr_ok m \<longleftrightarrow> tables_ok (socks m) (hconn_map m) (fd_map m) (closing_sockets m) (deleted m)"

lemma tables_okD:
  assumes "tables_ok st hm fm cl dl"
  shows "distinct (map fst hm)" "distinct (map fst fm)" "distinct cl" "distinct dl"
    "(h, a) \<in> set hm \<Longrightarrow> \<exists>s. st a = Some s \<and> hconn s = h \<and> sock_ok s \<and> (h \<in> set cl \<longleftrightarrow> sstate s = SS_CLOSING)"
    "(f, a) \<in> set fm \<Longrightarrow> \<exists>s. st a = Some s \<and> sock_fd s = f \<and> (hconn s, a) \<in> set hm"
    "a \<in> set dl \<Longrightarrow> st a = None"
  using assms unfolding tables_ok_def by blast+

lemma hconn_lookup:
  assumes "mgr_ok m" and "GetSocketByHconn m h = Some a"
  obtains s where "(h, a) \<in> set (hconn_map m)" "socks m a = Some s" "hconn s = h" "sock_ok s"
    "h \<in> set (closing_sockets m) \<longleftrightarrow> sstate s = SS_CLOSING"
proof -
  from assms(2) have h: "(h, a) \<in> set (hconn_map m)" unfolding GetSocketByHconn_def by (rule map_of_SomeD)
  from tables_okD(5) [OF assms(1) [unfolded mgr_ok_def] h] h that show thesis by blast
qed

text \<open>A socket is replaced, and its connection may join the closing ones.\<close>

lemma tables_ok_set:
  assumes ok: "tables_ok st hm fm cl dl" and a: "(hconn s, a) \<in> set hm" "st a = Some s"
    and same: "hconn s' = hconn s" "sock_fd s' = sock_fd s" "sock_ok s'"
    and cl: "cl' = cl \<and> (sstate s' = SS_CLOSING \<longleftrightarrow> sstate s = SS_CLOSING) \<or>
             cl' = cl @ [hconn s] \<and> sstate s' = SS_CLOSING \<and> sstate s \<noteq> SS_CLOSING"
  shows "tables_ok (st(a \<mapsto> s')) hm fm cl' dl"
proof -
  note d = tables_okD [OF ok]
  obtain t where "st a = Some t" "hconn s \<in> set cl \<longleftrightarrow> sstate t = SS_CLOSING" using d(5) [OF a(1)] by blast
  then have c: "hconn s \<in> set cl \<longleftrightarrow> sstate s = SS_CLOSING" using a(2) by simp
  have "a \<notin> set dl" using d(7) [of a] a(2) by auto
  moreover have "distinct cl'" using cl c d(3) by auto
  moreover have "\<exists>t. (st(a \<mapsto> s')) b = Some t \<and> hconn t = h \<and> sock_ok t \<and> (h \<in> set cl' \<longleftrightarrow> sstate t = SS_CLOSING)"
    if hb: "(h, b) \<in> set hm" for h b
  proof -
    obtain t where t: "st b = Some t" "hconn t = h" "sock_ok t" "h \<in> set cl \<longleftrightarrow> sstate t = SS_CLOSING"
      using d(5) [OF hb] by blast
    show ?thesis
    proof (cases "b = a")
      case True
      then show ?thesis using t a(2) same cl c by auto
    next
      case False
      have "h \<noteq> hconn s" using eq_key_imp_eq_value [OF d(1), of h b a] hb a(1) False by auto
      then show ?thesis using t cl False by auto
    qed
  qed
  moreover have "\<exists>t. (st(a \<mapsto> s')) b = Some t \<and> sock_fd t = f \<and> (hconn t, b) \<in> set hm" if fb: "(f, b) \<in> set fm" for f b
    using d(6) [OF fb] a same by auto
  ultimately show ?thesis using d(1, 2, 4, 7) unfolding tables_ok_def by auto
qed

lemma mgr_ok_set:
  assumes "mgr_ok m" and "(hconn s, a) \<in> set (hconn_map m)" "socks m a = Some s"
    and "hconn s' = hconn s" "sock_fd s' = sock_fd s" "sock_ok s'"
    and "sstate s' = SS_CLOSING \<longleftrightarrow> sstate s = SS_CLOSING"
  shows "mgr_ok (set_sock m a s')"
  using tables_ok_set [OF assms(1) [unfolded mgr_ok_def] assms(2, 3, 4, 5, 6)] assms(7)
  by (simp add: mgr_ok_def set_sock_def)

lemma mgr_ok_closing:
  assumes "mgr_ok m" and "(hconn s, a) \<in> set (hconn_map m)" "socks m a = Some s"
    and "hconn s' = hconn s" "sock_fd s' = sock_fd s" "sock_ok s'"
    and "sstate s' = SS_CLOSING" "sstate s \<noteq> SS_CLOSING"
  shows "mgr_ok ((set_sock m a s')\<lparr>closing_sockets := closing_sockets m @ [hconn s]\<rparr>)"
  using tables_ok_set [OF assms(1) [unfolded mgr_ok_def] assms(2, 3, 4, 5, 6)] assms(7, 8)
  by (simp add: mgr_ok_def set_sock_def)

text \<open>A socket leaves both maps and is freed.\<close>

lemma tables_ok_free:
  assumes ok: "tables_ok st hm fm cl dl" and a: "(hconn s, a) \<in> set hm" "st a = Some s"
  shows "tables_ok (st(a := None)) (filter (\<lambda>(h, b). h \<noteq> hconn s) hm) (filter (\<lambda>(f, b). f \<noteq> sock_fd s) fm) cl (dl @ [a])"
proof -
  note d = tables_okD [OF ok]
  have "a \<notin> set dl" using d(7) [of a] a(2) by auto
  moreover have "\<exists>t. (st(a := None)) b = Some t \<and> hconn t = h \<and> sock_ok t \<and> (h \<in> set cl \<longleftrightarrow> sstate t = SS_CLOSING)"
    if "(h, b) \<in> set hm" "h \<noteq> hconn s" for h b
    using d(5) [OF that(1)] that(2) a(2) by auto
  moreover have "\<exists>t. (st(a := None)) b = Some t \<and> sock_fd t = f \<and> (hconn t, b) \<in> set hm \<and> hconn t \<noteq> hconn s"
    if fb: "(f, b) \<in> set fm" "f \<noteq> sock_fd s" for f b
  proof -
    obtain t where t: "st b = Some t" "sock_fd t = f" "(hconn t, b) \<in> set hm" using d(6) [OF fb(1)] by blast
    then have "b \<noteq> a" using fb(2) a(2) by auto
    moreover have "hconn t \<noteq> hconn s" using eq_key_imp_eq_value [OF d(1), of "hconn t" b a] t(3) a(1) \<open>b \<noteq> a\<close> by auto
    ultimately show ?thesis using t by auto
  qed
  moreover have "distinct (map fst (filter P xs))" if "distinct (map fst xs)" for P and xs :: "(int \<times> nat) list"
    using that by (rule distinct_map_filter)
  ultimately show ?thesis using d(1, 2, 3, 4, 7) unfolding tables_ok_def by auto
qed

subsection \<open>The operations\<close>

lemma SendCache_ok:
  assumes "sock_ok s"
  obtains r s' n' where "SendCache ks s n = Some (r, s', n')" "sock_ok s'" "sstate s' = sstate s"
    "hconn s' = hconn s" "sock_fd s' = sock_fd s"
proof (cases "SS_CONNECTED \<noteq> sstate s \<or> cur_cached_send_buf_size s = 0")
  case True
  then have "\<exists>r. SendCache ks s n = Some (r, s, n)" by (auto simp: SendCache_def)
  then show thesis using that assms by blast
next
  case False
  then obtain b where b: "cached_send_buf s = Some b" "0 \<le> cur_cached_send_buf_size s"
    "cur_cached_send_buf_size s \<le> int (length b)" using assms by (auto simp: sock_ok_def)
  let ?d = "take (nat (cur_cached_send_buf_size s)) b"
  have m: "mem_read b 0 (cur_cached_send_buf_size s) = Some ?d" using b by (simp add: mem_read_def)
  obtain q n1 where q: "do_send ks n ?d = (q, n1)" by fastforce
  show thesis
  proof (cases "q = cur_cached_send_buf_size s")
    case True
    then have "SendCache ks s n = Some (0, s\<lparr>cur_cached_send_buf_size := 0\<rparr>, n1)"
      using False b(1) m q by (simp add: SendCache_def)
    then show thesis by (rule that) (simp_all add: sock_ok_def)
  next
    case part: False
    then have "SendCache ks s n = Some (-2, s, n1)" using False b(1) m q by (simp add: SendCache_def)
    then show thesis by (rule that) (simp_all add: assms)
  qed
qed

lemma mgr_Close_ok:
  assumes ok: "mgr_ok m"
  shows "\<exists>m' n'. mgr_Close ks m n h = Some (m', n') \<and> mgr_ok m'"
proof (cases "GetSocketByHconn m h")
  case None
  then show ?thesis using ok by (simp add: mgr_Close_def)
next
  case (Some a)
  then obtain s where s: "(h, a) \<in> set (hconn_map m)" "socks m a = Some s" "hconn s = h" "sock_ok s"
    by (rule hconn_lookup [OF ok])
  show ?thesis
  proof (cases "sstate s = SS_CLOSING \<or> sstate s = SS_CLOSED")
    case True
    then show ?thesis using Some s ok by (simp add: mgr_Close_def)
  next
    case False
    obtain r s' n' where c: "SendCache ks s n = Some (r, s', n')" "sock_ok s'" "sstate s' = sstate s"
      "hconn s' = hconn s" "sock_fd s' = sock_fd s" by (rule SendCache_ok [OF s(4)])
    let ?s = "s'\<lparr>sstate := SS_CLOSING\<rparr>"
    have "mgr_ok ((set_sock m a ?s)\<lparr>closing_sockets := closing_sockets m @ [hconn s]\<rparr>)"
      using mgr_ok_closing [of m s a ?s] ok s c False by (simp add: sock_ok_def)
    then show ?thesis using Some s c(1) False by (simp add: mgr_Close_def)
  qed
qed

lemma SysCloseSocket_ok:
  assumes ok: "mgr_ok m" and s: "(hconn s, a) \<in> set (hconn_map m)" "socks m a = Some s"
  shows "\<exists>m'. SysCloseSocket m a reason = Some m' \<and> mgr_ok m' \<and> hconn_map m' = hconn_map m"
proof (cases "sstate s = SS_CLOSING \<or> sstate s = SS_CLOSED")
  case True
  then show ?thesis using s ok by (simp add: SysCloseSocket_def)
next
  case False
  obtain t where "socks m a = Some t" "sock_ok t"
    using tables_okD(5) [OF ok [unfolded mgr_ok_def] s(1)] by blast
  then have "sock_ok s" using s(2) by simp
  let ?s = "s\<lparr>sstate := SS_CLOSING\<rparr>"
  have "mgr_ok ((set_sock m a ?s)\<lparr>closing_sockets := closing_sockets m @ [hconn s]\<rparr>)"
    using mgr_ok_closing [of m s a ?s] ok s False \<open>sock_ok s\<close> by (simp add: sock_ok_def)
  then show ?thesis using s False by (simp add: SysCloseSocket_def mgr_ok_def set_sock_def)
qed

lemma with_socket_ok:
  assumes ok: "mgr_ok m" and f: "\<And>s. sock_ok s \<Longrightarrow> hconn (f s) = hconn s \<and> sock_fd (f s) = sock_fd s \<and>
      sstate (f s) = sstate s \<and> sock_ok (f s)"
  shows "\<exists>m'. with_socket m h f = Some m' \<and> mgr_ok m'"
proof (cases "GetSocketByHconn m h")
  case None
  then show ?thesis using ok by (simp add: with_socket_def)
next
  case (Some a)
  then obtain s where s: "(h, a) \<in> set (hconn_map m)" "socks m a = Some s" "hconn s = h" "sock_ok s"
    by (rule hconn_lookup [OF ok])
  then show ?thesis using Some mgr_ok_set [of m s a "f s"] ok f [OF s(4)] by (simp add: with_socket_def)
qed

lemma SetCacheSendInfo_ok:
  assumes "mgr_ok m"
  shows "\<exists>m'. SetCacheSendInfo e m h n i = Some m' \<and> mgr_ok m'"
proof (cases "GetSocketByHconn m h")
  case None
  then show ?thesis using assms by (simp add: SetCacheSendInfo_def)
next
  case (Some a)
  let ?m = "if i < flush_interval_ms m then m\<lparr>flush_interval_ms := i\<rparr> else m"
  have "mgr_ok ?m" using assms by (simp add: mgr_ok_def)
  moreover have "hconn (SetCachedSendInfo e s n i) = hconn s \<and> sock_fd (SetCachedSendInfo e s n i) = sock_fd s \<and>
      sstate (SetCachedSendInfo e s n i) = sstate s \<and> sock_ok (SetCachedSendInfo e s n i)" if "sock_ok s" for s
    using that by (auto simp: SetCachedSendInfo_def sock_ok_def split: option.splits)
  ultimately have "\<exists>m'. with_socket ?m h (\<lambda>s. SetCachedSendInfo e s n i) = Some m' \<and> mgr_ok m'"
    by (rule with_socket_ok)
  then show ?thesis using Some by (simp add: SetCacheSendInfo_def)
qed

lemma flush_loop_ok:
  assumes "mgr_ok m" and "set es \<subseteq> set (hconn_map m)"
  shows "\<exists>m' n'. flush_loop ks es m n = Some (m', n') \<and> mgr_ok m'"
  using assms
proof (induction es arbitrary: m n)
  case (Cons e es)
  obtain h a where e: "e = (h, a)" by (cases e)
  then obtain s where s: "socks m a = Some s" "hconn s = h" "sock_ok s" "(hconn s, a) \<in> set (hconn_map m)"
    using Cons.prems tables_okD(5) [of "socks m" "hconn_map m" "fd_map m" "closing_sockets m" "deleted m" h a]
    by (auto simp: mgr_ok_def)
  show ?case
  proof (cases "sstate s \<noteq> SS_CONNECTED")
    case True
    then show ?thesis using Cons s e by simp
  next
    case False
    obtain r s1 n1 where c: "SendCache ks s n = Some (r, s1, n1)" "sock_ok s1" "sstate s1 = sstate s"
      "hconn s1 = hconn s" "sock_fd s1 = sock_fd s" by (rule SendCache_ok [OF s(3)])
    let ?m = "set_sock m a s1"
    have o: "mgr_ok ?m" using mgr_ok_set [of m s a s1] Cons.prems(1) s c False by simp
    have m: "hconn_map ?m = hconn_map m" "socks ?m a = Some s1" by (simp_all add: set_sock_def)
    have "\<exists>m1. (if r < 0 then SysCloseSocket ?m a SCR_SEND_FAILED else Some ?m) = Some m1 \<and> mgr_ok m1 \<and> hconn_map m1 = hconn_map m"
      using SysCloseSocket_ok [OF o, of s1 a] m s c o by (cases "r < 0") simp_all
    then obtain m1 where m1: "(if r < 0 then SysCloseSocket ?m a SCR_SEND_FAILED else Some ?m) = Some m1"
      "mgr_ok m1" "hconn_map m1 = hconn_map m" by blast
    then have "\<exists>m' n'. flush_loop ks es m1 n1 = Some (m', n') \<and> mgr_ok m'" using Cons by simp
    then show ?thesis using e s(1) c(1) m1(1) False by simp
  qed
qed simp

lemma FlushCachedSendSockets_ok:
  assumes "mgr_ok m"
  shows "\<exists>m' n'. FlushCachedSendSockets ks m n = Some (m', n') \<and> mgr_ok m'"
proof -
  have o: "mgr_ok (m\<lparr>g_last_time := t\<rparr>)" for t using assms by (simp add: mgr_ok_def)
  have "\<exists>m' n'. flush_loop ks (hconn_map m) (m\<lparr>g_last_time := t\<rparr>) n = Some (m', n') \<and> mgr_ok m'" for t
    by (rule flush_loop_ok [OF o]) simp
  then show ?thesis using o by (simp add: FlushCachedSendSockets_def Let_def)
qed

lemma map_of_filter_other: "k \<noteq> h \<Longrightarrow> map_of (filter (\<lambda>(j, b). j \<noteq> h) xs) k = map_of xs k"
  by (induction xs) auto

lemma map_filter_cong: "(\<And>x. x \<in> set xs \<Longrightarrow> f x = g x) \<Longrightarrow> List.map_filter f xs = List.map_filter g xs"
  by (induction xs) (auto simp: map_filter_simps split: option.splits)

lemma close_one_ok:
  assumes ok: "mgr_ok m" and "GetSocketByHconn m h = Some a"
  shows "\<exists>s :: tcp_socket. DetachSocket del_failed m (Some a) =
      Some (m\<lparr>hconn_map := filter (\<lambda>(k, b). k \<noteq> h) (hconn_map m), fd_map := filter (\<lambda>(f, b). f \<noteq> sock_fd s) (fd_map m)\<rparr>) \<and>
    mgr_ok (m\<lparr>hconn_map := filter (\<lambda>(k, b). k \<noteq> h) (hconn_map m),
        fd_map := filter (\<lambda>(f, b). f \<noteq> sock_fd s) (fd_map m), socks := (socks m)(a := None), deleted := deleted m @ [a]\<rparr>)"
proof -
  obtain s where s: "(h, a) \<in> set (hconn_map m)" "socks m a = Some s" "hconn s = h"
    by (rule hconn_lookup [OF assms(1, 2)])
  have "mgr_ok (m\<lparr>hconn_map := filter (\<lambda>(k, b). k \<noteq> h) (hconn_map m),
        fd_map := filter (\<lambda>(f, b). f \<noteq> sock_fd s) (fd_map m), socks := (socks m)(a := None), deleted := deleted m @ [a]\<rparr>)"
    using tables_ok_free [OF ok [unfolded mgr_ok_def], of s a] s by (simp add: mgr_ok_def)
  then show ?thesis using s by (intro exI [of _ s]) (auto simp: DetachSocket_def)
qed

text \<open>What \<open>DoCloseSockets\<close> does to the maps and the store.\<close>

lemma close_loop_ok:
  assumes "mgr_ok m"
  shows "\<exists>m'. close_loop del_failed hs m = Some m' \<and> mgr_ok m' \<and> closing_sockets m' = closing_sockets m \<and>
    hconn_map m' = filter (\<lambda>(h, a). h \<notin> set hs) (hconn_map m) \<and>
    (distinct hs \<longrightarrow> deleted m' = deleted m @ List.map_filter (map_of (hconn_map m)) hs)"
  using assms
proof (induction hs arbitrary: m)
  case (Cons h hs)
  show ?case
  proof (cases "GetSocketByHconn m h")
    case None
    then have n: "h \<notin> fst ` set (hconn_map m)" by (simp add: GetSocketByHconn_def map_of_eq_None_iff)
    from Cons.IH [OF Cons.prems] obtain m' where "close_loop del_failed hs m = Some m'" "mgr_ok m'"
      "closing_sockets m' = closing_sockets m" "hconn_map m' = filter (\<lambda>(h, a). h \<notin> set hs) (hconn_map m)"
      "distinct hs \<longrightarrow> deleted m' = deleted m @ List.map_filter (map_of (hconn_map m)) hs" by blast
    moreover have "filter (\<lambda>(k, a). k \<notin> set (h # hs)) (hconn_map m) = filter (\<lambda>(k, a). k \<notin> set hs) (hconn_map m)"
      using n by (intro filter_cong) force+
    moreover have "map_of (hconn_map m) h = None" using None by (simp add: GetSocketByHconn_def)
    ultimately show ?thesis using None by (simp add: map_filter_simps)
  next
    case (Some a)
    obtain s :: tcp_socket where s: "DetachSocket del_failed m (Some a) =
        Some (m\<lparr>hconn_map := filter (\<lambda>(k, b). k \<noteq> h) (hconn_map m), fd_map := filter (\<lambda>(f, b). f \<noteq> sock_fd s) (fd_map m)\<rparr>)"
      "mgr_ok (m\<lparr>hconn_map := filter (\<lambda>(k, b). k \<noteq> h) (hconn_map m),
          fd_map := filter (\<lambda>(f, b). f \<noteq> sock_fd s) (fd_map m), socks := (socks m)(a := None), deleted := deleted m @ [a]\<rparr>)" (is "mgr_ok ?m")
      using close_one_ok [where del_failed = del_failed, OF Cons.prems Some] by (elim exE conjE)
    from Cons.IH [OF s(2)] obtain m' where m': "close_loop del_failed hs ?m = Some m'" "mgr_ok m'"
      "closing_sockets m' = closing_sockets ?m" "hconn_map m' = filter (\<lambda>(h, a). h \<notin> set hs) (hconn_map ?m)"
      "distinct hs \<longrightarrow> deleted m' = deleted ?m @ List.map_filter (map_of (hconn_map ?m)) hs" by blast
    have f: "filter (\<lambda>(k, a). k \<notin> set hs) (hconn_map ?m) = filter (\<lambda>(k, a). k \<notin> set (h # hs)) (hconn_map m)"
      by (auto intro: filter_cong)
    have o: "map_of (filter (\<lambda>(k, b). k \<noteq> h) (hconn_map m)) k = map_of (hconn_map m) k" if "k \<noteq> h" for k
      using that by (rule map_of_filter_other)
    have "distinct (h # hs) \<Longrightarrow> List.map_filter (map_of (hconn_map ?m)) hs = List.map_filter (map_of (hconn_map m)) hs"
      by (rule map_filter_cong) (simp, rule o, auto)
    then have "distinct (h # hs) \<Longrightarrow> deleted m' = deleted m @ a # List.map_filter (map_of (hconn_map m)) hs"
      using m'(5) by simp
    moreover have "map_of (hconn_map m) h = Some a" using Some by (simp add: GetSocketByHconn_def)
    moreover have "close_loop del_failed (h # hs) m = Some m'" using Some s(1) m'(1) by simp
    ultimately show ?thesis using m'(2, 3, 4) f by (auto simp: map_filter_simps)
  qed
qed (simp add: map_filter_simps)

subsection \<open>Events\<close>

lemma event_loop_ok:
  assumes "mgr_ok m" and "0 \<le> cur_fd_index m" and "nfds m \<le> int (length (ep_events m))"
  shows "\<exists>acts' m'. event_loop m acts = Some (acts', m') \<and> mgr_ok m'"
  using assms
proof (induction m acts rule: event_loop.induct)
  case (1 m acts)
  show ?case
  proof (cases "cur_fd_index m \<ge> nfds m")
    case True
    then show ?thesis using 1(4) by (subst event_loop.simps) (simp add: GetSocketEvent_def)
  next
    case False
    obtain fd ev where e: "ep_events m ! nat (cur_fd_index m) = (fd, ev)" by fastforce
    let ?m = "m\<lparr>cur_fd_index := cur_fd_index m + 1\<rparr>"
    have o: "mgr_ok ?m" using 1(4) by (simp add: mgr_ok_def)
    show ?thesis
    proof (cases "GetSocketByFD m fd")
      case None
      then have "GetSocketEvent m = Some (None, ?m)"
        using False 1(5, 6) e by (simp add: GetSocketEvent_def GetSocketByFD_def Let_def)
      then show ?thesis using o by (subst event_loop.simps) simp
    next
      case (Some b)
      then have "(fd, b) \<in> set (fd_map m)" unfolding GetSocketByFD_def by (rule map_of_SomeD)
      then obtain t where t: "socks m b = Some t" using tables_okD(6) [OF 1(4) [unfolded mgr_ok_def]] by blast
      then have g: "GetSocketEvent m = Some (Some (hconn t, event_flags ev), ?m)"
        using False 1(5, 6) e Some by (simp add: GetSocketEvent_def GetSocketByFD_def Let_def)
      have next_ok: "mgr_ok ?m" "0 \<le> cur_fd_index ?m" "nfds ?m \<le> int (length (ep_events ?m))" using o 1(5, 6) by simp_all
      show ?thesis
      proof (cases "GetSocketByHconn ?m (hconn t)")
        case None
        then show ?thesis using 1(1) [OF g refl refl refl None next_ok] g by (subst event_loop.simps) simp
      next
        case (Some a)
        then obtain s where s: "socks ?m a = Some s" by (rule hconn_lookup [OF o])
        show ?thesis
        proof (cases "IsValid s \<or> sstate s = SS_CLOSING")
          case True
          then show ?thesis using 1(2) [OF g refl refl refl Some s True next_ok] g Some s
            by (subst event_loop.simps) simp
        next
          case False
          then show ?thesis using 1(3) [OF g refl refl refl Some s False next_ok] g Some s
            by (subst event_loop.simps) simp
        qed
      qed
    qed
  qed
qed

text \<open>A socket that passes the inverted test is closed, and no branch applies to it.\<close>

lemma dispatch_skipped: "\<not> (IsValid s \<or> sstate s = SS_CLOSING) \<Longrightarrow> dispatch s a fl = []"
  by (simp add: IsValid_def dispatch_def)

lemma event_loop_acts: "event_loop m acts = Some (acts', m') \<Longrightarrow> acts' = acts"
proof (induction m acts rule: event_loop.induct)
  case (1 m acts)
  obtain r m1 where g: "GetSocketEvent m = Some (r, m1)"
    using 1(4) by (subst (asm) event_loop.simps) (auto split: option.splits)
  show ?case
  proof (cases r)
    case None
    then show ?thesis using 1(4) g by (subst (asm) event_loop.simps) simp
  next
    case (Some ev)
    obtain h fl where ev: "ev = (h, fl)" by (cases ev)
    note g' = g [unfolded Some ev]
    show ?thesis
    proof (cases "GetSocketByHconn m1 h")
      case None
      then have "event_loop m acts = event_loop m1 acts" using g' by (subst event_loop.simps) simp
      then show ?thesis using 1(1) [OF g' refl refl refl None] 1(4) by simp
    next
      case (Some a)
      show ?thesis
      proof (cases "socks m1 a")
        case None
        then show ?thesis using 1(4) g' Some by (subst (asm) event_loop.simps) simp
      next
        case s: (Some s)
        show ?thesis
        proof (cases "IsValid s \<or> sstate s = SS_CLOSING")
          case True
          then have "event_loop m acts = event_loop m1 acts" using g' Some s by (subst event_loop.simps) simp
          then show ?thesis using 1(2) [OF g' refl refl refl Some s True] 1(4) by simp
        next
          case False
          then have "event_loop m acts = event_loop m1 acts"
            using g' Some s dispatch_skipped [OF False] by (subst event_loop.simps) simp
          then show ?thesis using 1(3) [OF g' refl refl refl Some s False] 1(4) dispatch_skipped [OF False] by simp
        qed
      qed
    qed
  qed
qed

end
