(* ===== verification/SockProps.thy ===== *)
theory SockProps
  imports SockProofs
begin

text \<open>The properties of the socket manager, over any sequence of the calls that its clients make.\<close>

datatype mgr_request = CallClose int | CallSysClose int int | CallActiveTimeout int int | CallRecvTimeout int int
  | CallCacheInfo int int int | CallUpdate int "(int \<times> 32 word) list" | CallDoClose

fun mgr_call :: "'k ksend \<Rightarrow> (int \<Rightarrow> bool) \<Rightarrow> sock_env \<Rightarrow> mgr_request \<Rightarrow> sock_mgr \<times> 'k net \<Rightarrow> (sock_mgr \<times> 'k net) option" where
  "mgr_call ks del e (CallClose h) (m, n) = mgr_Close ks m n h"
| "mgr_call ks del e (CallSysClose h reason) (m, n) =
     map_option (\<lambda>m'. (m', n)) (case GetSocketByHconn m h of None \<Rightarrow> Some m | Some a \<Rightarrow> SysCloseSocket m a reason)"
| "mgr_call ks del e (CallActiveTimeout h t) (m, n) = map_option (\<lambda>m'. (m', n)) (SetActiveTimeout m h t)"
| "mgr_call ks del e (CallRecvTimeout h t) (m, n) = map_option (\<lambda>m'. (m', n)) (SetRecvTimeout m h t)"
| "mgr_call ks del e (CallCacheInfo h len i) (m, n) = map_option (\<lambda>m'. (m', n)) (SetCacheSendInfo e m h len i)"
| "mgr_call ks del e (CallUpdate now_ms evs) (m, n) =
     map_option (\<lambda>(acts, tos, m', n'). (m', n')) (mgr_Update ks m n now_ms evs (int (length evs)))"
| "mgr_call ks del e CallDoClose (m, n) = map_option (\<lambda>m'. (m', n)) (DoCloseSockets del m)"

fun mgr_calls :: "'k ksend \<Rightarrow> (int \<Rightarrow> bool) \<Rightarrow> sock_env \<Rightarrow> mgr_request list \<Rightarrow> sock_mgr \<times> 'k net \<Rightarrow> (sock_mgr \<times> 'k net) option" where
  "mgr_calls ks del e [] st = Some st"
| "mgr_calls ks del e (c # cs) st = do { st1 \<leftarrow> mgr_call ks del e c st; mgr_calls ks del e cs st1 }"

lemma CheckSocketEvents_ok:
  assumes "mgr_ok m"
  shows "\<exists>acts m'. CheckSocketEvents m evs (int (length evs)) = Some (acts, m') \<and> mgr_ok m'"
proof -
  let ?m = "m\<lparr>ep_events := evs, nfds := int (length evs)\<rparr>"
  have o: "mgr_ok ?m" "mgr_ok (?m\<lparr>cur_fd_index := 0\<rparr>)" using assms by (simp_all add: mgr_ok_def)
  have "\<exists>acts m'. event_loop (?m\<lparr>cur_fd_index := 0\<rparr>) [] = Some (acts, m') \<and> mgr_ok m'"
    by (rule event_loop_ok [OF o(2)]) simp_all
  moreover have "mgr_ok (m\<lparr>ep_events := [], nfds := 0\<rparr>)" using assms by (simp add: mgr_ok_def)
  ultimately show ?thesis using o(1) by (simp add: CheckSocketEvents_def WaitForSocketEvents_def Let_def)
qed

lemma mgr_Update_ok:
  assumes "mgr_ok m"
  shows "\<exists>acts tos m' n'. mgr_Update ks m n now_ms evs (int (length evs)) = Some (acts, tos, m', n') \<and> mgr_ok m'"
proof -
  have "mgr_ok (mgr_UpdateTime m now_ms)" using assms by (simp add: mgr_UpdateTime_def mgr_ok_def)
  then obtain m1 n1 where 1: "FlushCachedSendSockets ks (mgr_UpdateTime m now_ms) n = Some (m1, n1)" "mgr_ok m1"
    using FlushCachedSendSockets_ok by blast
  then obtain acts m2 where "CheckSocketEvents m1 evs (int (length evs)) = Some (acts, m2)" "mgr_ok m2"
    using CheckSocketEvents_ok by blast
  then show ?thesis using 1 by (simp add: mgr_Update_def)
qed

lemma timeout_fields: "sock_ok s \<Longrightarrow> hconn (s\<lparr>active_time_out := t\<rparr>) = hconn s \<and> sock_fd (s\<lparr>active_time_out := t\<rparr>) = sock_fd s \<and>
    sstate (s\<lparr>active_time_out := t\<rparr>) = sstate s \<and> sock_ok (s\<lparr>active_time_out := t\<rparr>)"
  "sock_ok s \<Longrightarrow> hconn (s\<lparr>recv_time_out := t\<rparr>) = hconn s \<and> sock_fd (s\<lparr>recv_time_out := t\<rparr>) = sock_fd s \<and>
    sstate (s\<lparr>recv_time_out := t\<rparr>) = sstate s \<and> sock_ok (s\<lparr>recv_time_out := t\<rparr>)"
  by (simp_all add: sock_ok_def)

lemma mgr_call_ok:
  assumes ok: "mgr_ok m"
  shows "\<exists>m' n'. mgr_call ks del e c (m, n) = Some (m', n') \<and> mgr_ok m'"
proof (cases c)
  case (CallClose h)
  then show ?thesis using mgr_Close_ok [OF ok] by simp
next
  case (CallSysClose h reason)
  have "\<exists>m'. (case GetSocketByHconn m h of None \<Rightarrow> Some m | Some a \<Rightarrow> SysCloseSocket m a reason) = Some m' \<and> mgr_ok m'"
  proof (cases "GetSocketByHconn m h")
    case (Some a)
    then obtain s where "(h, a) \<in> set (hconn_map m)" "socks m a = Some s" "hconn s = h" by (rule hconn_lookup [OF ok])
    then show ?thesis using SysCloseSocket_ok [OF ok, of s a reason] Some by auto
  qed (simp add: ok)
  then show ?thesis using CallSysClose by auto
next
  case (CallActiveTimeout h t)
  have "\<exists>m'. SetActiveTimeout m h t = Some m' \<and> mgr_ok m'"
    unfolding SetActiveTimeout_def by (rule with_socket_ok [OF ok timeout_fields(1)])
  then show ?thesis using CallActiveTimeout by auto
next
  case (CallRecvTimeout h t)
  have "\<exists>m'. SetRecvTimeout m h t = Some m' \<and> mgr_ok m'"
    unfolding SetRecvTimeout_def by (rule with_socket_ok [OF ok timeout_fields(2)])
  then show ?thesis using CallRecvTimeout by auto
next
  case (CallCacheInfo h len i)
  then show ?thesis using SetCacheSendInfo_ok [OF ok, of e h len i] by auto
next
  case (CallUpdate now_ms evs)
  then show ?thesis using mgr_Update_ok [OF ok, of ks n now_ms evs] by auto
next
  case CallDoClose
  then show ?thesis using close_loop_ok [OF ok, of del "closing_sockets m"] by (auto simp: DoCloseSockets_def)
qed

text \<open>C13. No use of a freed socket. From a manager whose tables are consistent, any sequence of the calls
  of its clients runs without a fault - no dangling pointer is followed and no socket is freed twice - and
  ends with consistent tables, where a connection is in the closing list exactly when its socket is closing. This
  holds whether \<open>epoll_ctl\<close> succeeds in removing a descriptor or not.\<close>
theorem manager_invariant:
  assumes "mgr_ok m"
  shows "\<exists>m' n'. mgr_calls ks del e cs (m, n) = Some (m', n') \<and> mgr_ok m'"
  using assms
proof (induction cs arbitrary: m n)
  case (Cons c cs)
  obtain m1 n1 where 1: "mgr_call ks del e c (m, n) = Some (m1, n1)" "mgr_ok m1"
    using mgr_call_ok [OF Cons.prems] by blast
  show ?case using Cons.IH [OF 1(2), of n1] 1(1) by simp
qed simp

definition demo_sock :: "int \<Rightarrow> int \<Rightarrow> sock_state \<Rightarrow> tcp_socket" where
  "demo_sock fd h st = (TcpSocket 0 0 9 9 (False, 0, h))\<lparr>sock_fd := fd, sstate := st\<rparr>"

definition demo_mgr :: sock_mgr where
  "demo_mgr = (SocketManager 0)\<lparr>
     socks := [10 \<mapsto> demo_sock 4 1 SS_CONNECTED, 11 \<mapsto> demo_sock 5 2 SS_CLOSING, 12 \<mapsto> demo_sock 6 3 SS_CONNECTED],
     hconn_map := [(1, 10), (2, 11), (3, 12)], fd_map := [(4, 10), (5, 11), (6, 12)], closing_sockets := [2]\<rparr>"

lemma demo_mgr_ok: "mgr_ok demo_mgr"
  by (auto simp: mgr_ok_def tables_ok_def demo_mgr_def demo_sock_def sock_ok_def SocketManager_def TcpSocket_def)

definition demo_sock_env :: sock_env where
  "demo_sock_env = \<lparr>env_socket = 3, env_reuse = True, env_keepalive = True, env_nodelay = True, env_linger = True,
     env_sndbuf = True, env_connect = 0, env_inprogress = False, env_listen = 0, env_new_bytes = (\<lambda>_. [])\<rparr>"

lemma manager_invariant_witness:
  "\<exists>m' n'. mgr_calls (\<lambda>k d. (0, k)) (\<lambda>fd. fd = 5) demo_sock_env [CallClose 1, CallDoClose, CallClose 1, CallUpdate 100 [(6, 1)], CallDoClose]
     (demo_mgr, \<lparr>kstate = (), wire = []\<rparr>) = Some (m', n') \<and> mgr_ok m'"
  by (rule manager_invariant [OF demo_mgr_ok])

text \<open>\<open>DoCloseSockets\<close> removes exactly the closing connections, in the order in which they were closed, and
  frees the socket of each of them once.\<close>
theorem closing_frees_once:
  assumes "mgr_ok m"
  shows "\<exists>m'. DoCloseSockets del m = Some m' \<and>
    hconn_map m' = filter (\<lambda>(h, a). h \<notin> set (closing_sockets m)) (hconn_map m) \<and>
    deleted m' = deleted m @ List.map_filter (GetSocketByHconn m) (closing_sockets m) \<and>
    distinct (deleted m') \<and> (\<forall>a \<in> set (deleted m'). socks m' a = None)"
proof -
  obtain m' where m': "DoCloseSockets del m = Some m'" "mgr_ok m'"
    "hconn_map m' = filter (\<lambda>(h, a). h \<notin> set (closing_sockets m)) (hconn_map m)"
    "distinct (closing_sockets m) \<longrightarrow> deleted m' = deleted m @ List.map_filter (map_of (hconn_map m)) (closing_sockets m)"
    using close_loop_ok [OF assms, of del] unfolding DoCloseSockets_def by blast
  have "distinct (closing_sockets m)" using assms by (simp add: mgr_ok_def tables_ok_def)
  moreover have "map_of (hconn_map m) = GetSocketByHconn m" by (simp add: GetSocketByHconn_def fun_eq_iff)
  moreover have "distinct (deleted m')" "\<forall>a \<in> set (deleted m'). socks m' a = None"
    using m'(2) by (simp_all add: mgr_ok_def tables_ok_def)
  ultimately show ?thesis using m' by simp
qed

lemma closing_frees_once_witness:
  "\<exists>m'. DoCloseSockets (\<lambda>_. False) demo_mgr = Some m' \<and> deleted m' = [11] \<and> map fst (hconn_map m') = [1, 3]"
proof -
  have "List.map_filter (GetSocketByHconn demo_mgr) (closing_sockets demo_mgr) = [11]" "deleted demo_mgr = []"
    "map fst (filter (\<lambda>(h, a). h \<notin> set (closing_sockets demo_mgr)) (hconn_map demo_mgr)) = [1, 3]"
    by (simp_all add: demo_mgr_def GetSocketByHconn_def SocketManager_def map_filter_simps)
  then show ?thesis using closing_frees_once [OF demo_mgr_ok, of "\<lambda>_. False"] by auto
qed

text \<open>One round of the manager serves nobody. Whatever events the kernel reports, no accept, connect, read
  or write is processed, and no connection is found to have timed out.\<close>
theorem update_serves_nothing:
  assumes "mgr_Update ks m n now_ms evs nev = Some (acts, tos, m', n')"
  shows "acts = [] \<and> tos = []"
proof -
  obtain m1 n1 where "CheckSocketEvents m1 evs nev = Some (acts, m')" "tos = CheckSocketTimeOut m'"
    using assms by (auto simp: mgr_Update_def split: Option.bind_splits)
  then show ?thesis
    by (auto simp: CheckSocketEvents_def CheckSocketTimeOut_def Let_def split: prod.splits if_splits dest: event_loop_acts)
qed

lemma update_serves_nothing_witness:
  "\<exists>m' n'. mgr_Update (\<lambda>k d. (0, k)) demo_mgr \<lparr>kstate = (), wire = []\<rparr> 100 [(6, EPOLLIN)] 1 = Some ([], [], m', n') \<and>
     GetSocketByFD demo_mgr 6 = Some 12 \<and> map_option sstate (socks demo_mgr 12) = Some SS_CONNECTED"
proof -
  have "\<exists>acts tos m' n'. mgr_Update (\<lambda>k d. (0, k)) demo_mgr \<lparr>kstate = (), wire = []\<rparr> 100 [(6, EPOLLIN)] 1 = Some (acts, tos, m', n')"
    using mgr_Update_ok [OF demo_mgr_ok, of "\<lambda>k d. (0, k)" "\<lparr>kstate = (), wire = []\<rparr>" 100 "[(6, EPOLLIN)]"] by auto
  moreover have "GetSocketByFD demo_mgr 6 = Some 12" "map_option sstate (socks demo_mgr 12) = Some SS_CONNECTED"
    by (simp_all add: GetSocketByFD_def demo_mgr_def demo_sock_def)
  ultimately show ?thesis using update_serves_nothing by blast
qed

end
