(* ===== verification/Channel.thy ===== *)
theory Channel
  imports QueueProofs "HOL-Library.Sublist"
begin

text \<open>
  The shared segments of \<open>common/platform/os_shm.cc\<close> and \<open>MessageChannel\<close> of
  \<open>common/container/message_channel.{h,cc}\<close>.

  \<^item> The system calls are parameters: \<open>shmget\<close> gives a segment number for a key, a size and flags,
    \<open>shmat\<close> the address at which a segment is mapped (\<open>None\<close> is \<open>(void*)-1\<close>).
  \<^item> The mapped segments lie in a store from addresses, so that two processes, each with a channel of its
    own, work on the same segments. A queue object holds the address of its segment; \<open>None\<close> is \<open>NULL\<close>.
\<close>

subsection \<open>Shared memory\<close>

record shm_calls =
  shmget :: "int \<Rightarrow> int \<Rightarrow> int \<Rightarrow> int"
  eexist :: bool
  shmat :: "int \<Rightarrow> nat option"

abbreviation SHM_MODE :: int where "SHM_MODE \<equiv> 438"
abbreviation IPC_CREAT :: int where "IPC_CREAT \<equiv> 512"
abbreviation IPC_EXCL :: int where "IPC_EXCL \<equiv> 1024"

text \<open>The address and the new value of the reference parameter \<open>id\<close>.\<close>

definition GetShm_flag :: "shm_calls \<Rightarrow> int \<Rightarrow> int \<Rightarrow> int \<Rightarrow> int \<Rightarrow> nat option \<times> int" where
  "GetShm_flag k key sz flag sid =
     (let shm_id = shmget k key sz flag
      in if shm_id = -1 then (None, sid)
         else (case shmat k shm_id of None \<Rightarrow> (None, sid) | Some a \<Rightarrow> (Some a, shm_id)))"

definition GetShm :: "shm_calls \<Rightarrow> int \<Rightarrow> int \<Rightarrow> bool \<Rightarrow> int \<Rightarrow> nat option \<times> int" where
  "GetShm k key sz force_create sid =
     (let (shm, id1) = GetShm_flag k key sz SHM_MODE sid
      in if shm = None \<and> \<not> force_create then (None, id1)
         else GetShm_flag k key sz (SHM_MODE + IPC_CREAT) id1)"

text \<open>The address and the new values of \<open>if_create\<close> and \<open>id\<close>.\<close>

definition GetShmEx :: "shm_calls \<Rightarrow> int \<Rightarrow> int \<Rightarrow> bool \<Rightarrow> int \<Rightarrow> nat option \<times> bool \<times> int" where
  "GetShmEx k key sz if_create sid =
     (let new_id = shmget k key sz (IPC_CREAT + IPC_EXCL + SHM_MODE);
          map_it = (\<lambda>shm_id created.
            (case shmat k shm_id of None \<Rightarrow> (None, created, sid) | Some a \<Rightarrow> (Some a, created, shm_id)))
      in if new_id < 0
         then if \<not> eexist k then (None, if_create, sid)
              else let old_id = shmget k key 0 SHM_MODE
                   in if old_id < 0 then (None, if_create, sid) else map_it old_id False
         else map_it new_id True)"

subsection \<open>The channel\<close>

record channel =
  recv_queue :: "nat option"
  send_queue :: "nat option"
  send_shm :: "nat option"
  recv_shm :: "nat option"

type_synonym shm_mem = "nat \<Rightarrow> shm"

definition MessageChannel :: channel where
  "MessageChannel = \<lparr>recv_queue = None, send_queue = None, send_shm = None, recv_shm = None\<rparr>"

text \<open>\<open>Attach\<close> on the queue object \<open>q\<close>.\<close>

definition attach_at :: "shm_mem \<Rightarrow> nat option \<Rightarrow> nat \<Rightarrow> int \<Rightarrow> bool \<Rightarrow> shm_mem \<times> nat option" where
  "attach_at mem q a sz init_head =
     (case Attach MessageQueue_new (mem a) sz init_head of
        None \<Rightarrow> (mem, q) | Some s \<Rightarrow> (mem(a := s), Some a))"

definition chan_Create ::
  "shm_calls \<Rightarrow> shm_mem \<Rightarrow> channel \<Rightarrow> int \<Rightarrow> int \<Rightarrow> int \<Rightarrow> int \<Rightarrow> bool \<times> shm_mem \<times> channel" where
  "chan_Create k mem c send_key recv_key send_size recv_size =
     (let (ss, send_clear, _) = GetShmEx k send_key send_size False 0;
          c1 = c\<lparr>send_shm := ss\<rparr>
      in case ss of
        None \<Rightarrow> (False, mem, c1)
      | Some sa \<Rightarrow>
          let (rs, recv_clear, _) = GetShmEx k recv_key recv_size False 0;
              c2 = c1\<lparr>recv_shm := rs\<rparr>
          in (case rs of
            None \<Rightarrow> (False, mem, c2)
          | Some ra \<Rightarrow>
              let (mem1, sq) = attach_at mem (send_queue c2) sa send_size send_clear;
                  (mem2, rq) = attach_at mem1 (recv_queue c2) ra recv_size recv_clear
              in (True, mem2, c2\<lparr>send_queue := sq, recv_queue := rq\<rparr>)))"

text \<open>A call on the queue object at \<open>q\<close>; its new segment goes back to the store.\<close>

definition chan_SendMsg :: "shm_mem \<Rightarrow> channel \<Rightarrow> byte list option \<Rightarrow> int \<Rightarrow> (bool \<times> shm_mem) option" where
  "chan_SendMsg mem c buf len = do {
     (ok, q) \<leftarrow> SendMsg (map_option mem (send_queue c)) buf len;
     Some (True, (case (send_queue c, q) of (Some a, Some s) \<Rightarrow> mem(a := s) | _ \<Rightarrow> mem)) }"

definition chan_RecvMsg :: "shm_mem \<Rightarrow> channel \<Rightarrow> bool \<Rightarrow> int \<Rightarrow> (bool \<times> int \<times> byte list \<times> shm_mem) option" where
  "chan_RecvMsg mem c buf_null len = do {
     (ok, l, d, q) \<leftarrow> RecvMsg (map_option mem (recv_queue c)) buf_null len;
     Some (True, l, d, (case (recv_queue c, q) of (Some a, Some s) \<Rightarrow> mem(a := s) | _ \<Rightarrow> mem)) }"

definition IsInputEmpty :: "shm_mem \<Rightarrow> channel \<Rightarrow> bool option" where
  "IsInputEmpty mem c = IsQueueEmpty (map_option mem (recv_queue c))"

subsection \<open>Two processes\<close>

text \<open>What the two processes do: a send or a receive of the first or of the second channel.\<close>

datatype chan_act = Send1 "byte list" | Recv1 | Send2 "byte list" | Recv2

text \<open>The results: the messages the second and the first process got (those that are not empty).\<close>

definition got :: "byte list \<Rightarrow> byte list list" where
  "got d = (if d = [] then [] else [d])"

fun chan_acts :: "channel \<Rightarrow> channel \<Rightarrow> chan_act list \<Rightarrow> shm_mem \<Rightarrow> (byte list list \<times> byte list list \<times> shm_mem) option" where
  "chan_acts c1 c2 [] mem = Some ([], [], mem)"
| "chan_acts c1 c2 (Send1 m # acts) mem = do {
     (ok, mem1) \<leftarrow> chan_SendMsg mem c1 (Some m) (int (length m)); chan_acts c1 c2 acts mem1 }"
| "chan_acts c1 c2 (Send2 m # acts) mem = do {
     (ok, mem1) \<leftarrow> chan_SendMsg mem c2 (Some m) (int (length m)); chan_acts c1 c2 acts mem1 }"
| "chan_acts c1 c2 (Recv1 # acts) mem = do {
     (ok, l, d, mem1) \<leftarrow> chan_RecvMsg mem c1 False 0;
     (xs, ys, mem2) \<leftarrow> chan_acts c1 c2 acts mem1;
     Some (xs, got d @ ys, mem2) }"
| "chan_acts c1 c2 (Recv2 # acts) mem = do {
     (ok, l, d, mem1) \<leftarrow> chan_RecvMsg mem c2 False 0;
     (xs, ys, mem2) \<leftarrow> chan_acts c1 c2 acts mem1;
     Some (got d @ xs, ys, mem2) }"

fun sent1 :: "chan_act \<Rightarrow> byte list list" where
  "sent1 (Send1 m) = [m]" | "sent1 _ = []"

fun sent2 :: "chan_act \<Rightarrow> byte list list" where
  "sent2 (Send2 m) = [m]" | "sent2 _ = []"

abbreviation all_sent1 :: "chan_act list \<Rightarrow> byte list list" where "all_sent1 acts \<equiv> concat (map sent1 acts)"
abbreviation all_sent2 :: "chan_act list \<Rightarrow> byte list list" where "all_sent2 acts \<equiv> concat (map sent2 acts)"

abbreviation nonempty :: "byte list list \<Rightarrow> byte list list" where "nonempty ms \<equiv> filter (\<lambda>m. m \<noteq> []) ms"

text \<open>The first channel sends on the segment that the second receives on, and the other way round.\<close>

definition crossed :: "channel \<Rightarrow> channel \<Rightarrow> nat \<Rightarrow> nat \<Rightarrow> bool" where
  "crossed c1 c2 a b \<longleftrightarrow> a \<noteq> b \<and> send_queue c1 = Some a \<and> recv_queue c2 = Some a \<and>
     send_queue c2 = Some b \<and> recv_queue c1 = Some b"

lemma chan_SendMsg_step:
  assumes "send_queue c = Some a" and "queue_holds (mem a) ms" and "int (length m) < 2 ^ 32"
  obtains s where "chan_SendMsg mem c (Some m) (int (length m)) = Some (True, mem(a := s))"
    "queue_holds s (if queue_fits (mem a) ms (int (length m)) then ms @ [m] else ms)"
    "sh_size s = sh_size (mem a)"
proof -
  have "take (nat (int (length m))) m = m" by simp
  with SendMsg_refines [OF assms(2), of "int (length m)" m] assms(3) obtain s where
    "SendMsg (Some (mem a)) (Some m) (int (length m)) = Some (queue_fits (mem a) ms (int (length m)), Some s)"
    and s: "sh_size s = sh_size (mem a)" "queue_holds s (if queue_fits (mem a) ms (int (length m)) then ms @ [m] else ms)"
    by (metis of_nat_0_le_iff order_refl)
  then have "chan_SendMsg mem c (Some m) (int (length m)) = Some (True, mem(a := s))"
    using assms(1) by (simp add: chan_SendMsg_def)
  then show thesis using s that by blast
qed

lemma chan_RecvMsg_step:
  assumes "recv_queue c = Some a" and "queue_holds (mem a) ms"
  obtains s d l where "chan_RecvMsg mem c False l0 = Some (True, l, d, mem(a := s))" "l = int (length d)"
    "queue_holds s (tl ms)" "d = (case ms of [] \<Rightarrow> [] | m # _ \<Rightarrow> m)" "sh_size s = sh_size (mem a)"
proof (cases ms)
  case Nil
  then have "RecvMsg (Some (mem a)) False l0 = Some (False, 0, [], Some (mem a))"
    using RecvMsg_empty assms(2) by blast
  then show thesis using that [of 0 "[]" "mem a"] assms Nil by (simp add: chan_RecvMsg_def)
next
  case (Cons m ms')
  then obtain s where "RecvMsg (Some (mem a)) False l0 = Some (True, int (length m), m, Some s)"
    "sh_size s = sh_size (mem a)" "queue_holds s ms'" using RecvMsg_refines assms(2) by blast
  moreover from this have "chan_RecvMsg mem c False l0 = Some (True, int (length m), m, mem(a := s))"
    using assms(1) by (simp add: chan_RecvMsg_def)
  ultimately show thesis using Cons by (intro that [of "int (length m)" m s]) simp_all
qed

text \<open>
  One run. \<open>acc1\<close> and \<open>acc2\<close> are the messages that were accepted; all of them, when the segments have room
  for everything that is sent.
\<close>

definition delivered_ok :: "byte list list \<Rightarrow> byte list list \<Rightarrow> byte list list \<Rightarrow> int \<Rightarrow> byte list list \<Rightarrow> bool" where
  "delivered_ok ms sent_msgs out sz rest \<longleftrightarrow> (\<exists>acc. subseq acc sent_msgs \<and> nonempty (ms @ acc) = out @ nonempty rest \<and>
     (int (length (frames (ms @ sent_msgs))) + QUEUE_VACUUM_SLOT \<le> sz \<longrightarrow> acc = sent_msgs))"

lemma delivered_send:
  assumes "delivered_ok (if queue_fits s ms (int (length m)) then ms @ [m] else ms) ss out (sh_size s) rest"
  shows "delivered_ok ms (m # ss) out (sh_size s) rest"
proof -
  obtain acc where acc: "subseq acc ss" "nonempty ((if queue_fits s ms (int (length m)) then ms @ [m] else ms) @ acc) = out @ nonempty rest"
    "int (length (frames ((if queue_fits s ms (int (length m)) then ms @ [m] else ms) @ ss))) + QUEUE_VACUUM_SLOT \<le> sh_size s \<longrightarrow> acc = ss"
    using assms unfolding delivered_ok_def by blast
  show ?thesis
  proof (cases "queue_fits s ms (int (length m))")
    case True
    then show ?thesis using acc unfolding delivered_ok_def by (intro exI [of _ "m # acc"]) simp
  next
    case False
    then have "\<not> int (length (frames (ms @ m # ss))) + QUEUE_VACUUM_SLOT \<le> sh_size s" by (simp add: queue_fits_def)
    then show ?thesis using acc False unfolding delivered_ok_def by (intro exI [of _ acc]) auto
  qed
qed

lemma delivered_recv:
  assumes "delivered_ok (tl ms) ss out sz rest"
  shows "delivered_ok ms ss (got (case ms of [] \<Rightarrow> [] | m # _ \<Rightarrow> m) @ out) sz rest"
proof (cases ms)
  case Nil
  then show ?thesis using assms by (simp add: got_def)
next
  case (Cons m ms')
  then show ?thesis using assms by (auto simp: got_def delivered_ok_def)
qed

lemma chan_acts_ok:
  assumes "crossed c1 c2 a b" and "queue_holds (mem a) ms" "queue_holds (mem b) ns"
    and "\<forall>m\<in>set (all_sent1 acts) \<union> set (all_sent2 acts). int (length m) < 2 ^ 32"
  shows "\<exists>xs ys mem' ms' ns'. chan_acts c1 c2 acts mem = Some (xs, ys, mem') \<and>
    queue_holds (mem' a) ms' \<and> queue_holds (mem' b) ns' \<and>
    delivered_ok ms (all_sent1 acts) xs (sh_size (mem a)) ms' \<and>
    delivered_ok ns (all_sent2 acts) ys (sh_size (mem b)) ns'"
  using assms(2-4)
proof (induction acts arbitrary: mem ms ns)
  case Nil
  have "delivered_ok ks [] [] sz ks" for ks sz unfolding delivered_ok_def by (rule exI [of _ "[]"]) simp
  then show ?case using Nil by auto
next
  case (Cons x acts)
  have c: "a \<noteq> b" "send_queue c1 = Some a" "recv_queue c2 = Some a" "send_queue c2 = Some b" "recv_queue c1 = Some b"
    using assms(1) by (simp_all add: crossed_def)
  show ?case
  proof (cases x)
    case (Send1 m)
    then have "int (length m) < 2 ^ 32" using Cons.prems(3) by simp
    from chan_SendMsg_step [where mem = mem and a = a, OF c(2) Cons.prems(1) this] obtain s where
      s: "chan_SendMsg mem c1 (Some m) (int (length m)) = Some (True, mem(a := s))"
      "queue_holds s (if queue_fits (mem a) ms (int (length m)) then ms @ [m] else ms)" "sh_size s = sh_size (mem a)" .
    have "queue_holds ((mem(a := s)) a) (if queue_fits (mem a) ms (int (length m)) then ms @ [m] else ms)"
      "queue_holds ((mem(a := s)) b) ns" "\<forall>m\<in>set (all_sent1 acts) \<union> set (all_sent2 acts). int (length m) < 2 ^ 32"
      using s c(1) Cons.prems Send1 by auto
    from Cons.IH [OF this] obtain xs ys mem' ms' ns' where
      "chan_acts c1 c2 acts (mem(a := s)) = Some (xs, ys, mem')" "queue_holds (mem' a) ms'" "queue_holds (mem' b) ns'"
      "delivered_ok (if queue_fits (mem a) ms (int (length m)) then ms @ [m] else ms) (all_sent1 acts) xs (sh_size ((mem(a := s)) a)) ms'"
      "delivered_ok ns (all_sent2 acts) ys (sh_size ((mem(a := s)) b)) ns'" by blast
    then show ?thesis using s c(1) Send1 delivered_send [of "mem a" ms m "all_sent1 acts" xs ms'] by auto
  next
    case (Send2 m)
    then have "int (length m) < 2 ^ 32" using Cons.prems(3) by simp
    from chan_SendMsg_step [where mem = mem and a = b, OF c(4) Cons.prems(2) this] obtain s where
      s: "chan_SendMsg mem c2 (Some m) (int (length m)) = Some (True, mem(b := s))"
      "queue_holds s (if queue_fits (mem b) ns (int (length m)) then ns @ [m] else ns)" "sh_size s = sh_size (mem b)" .
    have "queue_holds ((mem(b := s)) a) ms"
      "queue_holds ((mem(b := s)) b) (if queue_fits (mem b) ns (int (length m)) then ns @ [m] else ns)"
      "\<forall>m\<in>set (all_sent1 acts) \<union> set (all_sent2 acts). int (length m) < 2 ^ 32"
      using s c(1) Cons.prems Send2 by auto
    from Cons.IH [OF this] obtain xs ys mem' ms' ns' where
      "chan_acts c1 c2 acts (mem(b := s)) = Some (xs, ys, mem')" "queue_holds (mem' a) ms'" "queue_holds (mem' b) ns'"
      "delivered_ok ms (all_sent1 acts) xs (sh_size ((mem(b := s)) a)) ms'"
      "delivered_ok (if queue_fits (mem b) ns (int (length m)) then ns @ [m] else ns) (all_sent2 acts) ys (sh_size ((mem(b := s)) b)) ns'"
      by blast
    then show ?thesis using s c(1) Send2 delivered_send [of "mem b" ns m "all_sent2 acts" ys ns'] by auto
  next
    case Recv1
    obtain s d l where s: "chan_RecvMsg mem c1 False 0 = Some (True, l, d, mem(b := s))"
      "queue_holds s (tl ns)" "d = (case ns of [] \<Rightarrow> [] | m # _ \<Rightarrow> m)" "sh_size s = sh_size (mem b)"
      by (rule chan_RecvMsg_step [where mem = mem and a = b, OF c(5) Cons.prems(2)])
    have "queue_holds ((mem(b := s)) a) ms" "queue_holds ((mem(b := s)) b) (tl ns)"
      "\<forall>m\<in>set (all_sent1 acts) \<union> set (all_sent2 acts). int (length m) < 2 ^ 32"
      using s c(1) Cons.prems Recv1 by auto
    from Cons.IH [OF this] obtain xs ys mem' ms' ns' where
      "chan_acts c1 c2 acts (mem(b := s)) = Some (xs, ys, mem')" "queue_holds (mem' a) ms'" "queue_holds (mem' b) ns'"
      "delivered_ok ms (all_sent1 acts) xs (sh_size ((mem(b := s)) a)) ms'"
      "delivered_ok (tl ns) (all_sent2 acts) ys (sh_size ((mem(b := s)) b)) ns'" by blast
    then show ?thesis using s c(1) Recv1 delivered_recv [of ns "all_sent2 acts" ys "sh_size (mem b)" ns'] by auto
  next
    case Recv2
    obtain s d l where s: "chan_RecvMsg mem c2 False 0 = Some (True, l, d, mem(a := s))"
      "queue_holds s (tl ms)" "d = (case ms of [] \<Rightarrow> [] | m # _ \<Rightarrow> m)" "sh_size s = sh_size (mem a)"
      by (rule chan_RecvMsg_step [where mem = mem and a = a, OF c(3) Cons.prems(1)])
    have "queue_holds ((mem(a := s)) a) (tl ms)" "queue_holds ((mem(a := s)) b) ns"
      "\<forall>m\<in>set (all_sent1 acts) \<union> set (all_sent2 acts). int (length m) < 2 ^ 32"
      using s c(1) Cons.prems Recv2 by auto
    from Cons.IH [OF this] obtain xs ys mem' ms' ns' where
      "chan_acts c1 c2 acts (mem(a := s)) = Some (xs, ys, mem')" "queue_holds (mem' a) ms'" "queue_holds (mem' b) ns'"
      "delivered_ok (tl ms) (all_sent1 acts) xs (sh_size ((mem(a := s)) a)) ms'"
      "delivered_ok ns (all_sent2 acts) ys (sh_size ((mem(a := s)) b)) ns'" by blast
    then show ?thesis using s c(1) Recv2 delivered_recv [of ms "all_sent1 acts" xs "sh_size (mem a)" ms'] by auto
  qed
qed

subsection \<open>Setting up both ends\<close>

text \<open>The calls of a process that finds no segment for either key, and of one that finds both.\<close>

definition fresh_calls :: "shm_calls \<Rightarrow> int \<Rightarrow> int \<Rightarrow> int \<Rightarrow> int \<Rightarrow> nat \<Rightarrow> nat \<Rightarrow> bool" where
  "fresh_calls k ka kb sa sb a b \<longleftrightarrow>
     (\<exists>i j. 0 \<le> i \<and> 0 \<le> j \<and> shmget k ka sa (IPC_CREAT + IPC_EXCL + SHM_MODE) = i \<and> shmat k i = Some a \<and>
       shmget k kb sb (IPC_CREAT + IPC_EXCL + SHM_MODE) = j \<and> shmat k j = Some b)"

definition existing_calls :: "shm_calls \<Rightarrow> int \<Rightarrow> int \<Rightarrow> int \<Rightarrow> int \<Rightarrow> nat \<Rightarrow> nat \<Rightarrow> bool" where
  "existing_calls k ka kb sa sb a b \<longleftrightarrow> eexist k \<and>
     shmget k ka sa (IPC_CREAT + IPC_EXCL + SHM_MODE) < 0 \<and> shmget k kb sb (IPC_CREAT + IPC_EXCL + SHM_MODE) < 0 \<and>
     (\<exists>i j. 0 \<le> i \<and> 0 \<le> j \<and> shmget k ka 0 SHM_MODE = i \<and> shmat k i = Some a \<and>
       shmget k kb 0 SHM_MODE = j \<and> shmat k j = Some b)"

definition segment_fits :: "shm \<Rightarrow> int \<Rightarrow> bool" where
  "segment_fits s n \<longleftrightarrow> 20 \<le> n \<and> n \<le> 2 ^ 30 \<and> int (length (queue_buff s)) = n - 12"

lemma attach_fresh:
  assumes "segment_fits (mem a) n"
  obtains s where "attach_at mem q a n True = (mem(a := s), Some a)" "queue_holds s []" "sh_size s = n - 12"
proof -
  from Attach_init_empty [of n "mem a" MessageQueue_new] assms obtain s where
    "Attach MessageQueue_new (mem a) n True = Some s" "sh_size s = n - 12" "queue_holds s []"
    by (auto simp: segment_fits_def)
  then show thesis using that by (simp add: attach_at_def)
qed

lemma attach_existing: "20 \<le> n \<Longrightarrow> attach_at mem q a n False = (mem, Some a)"
  by (simp add: attach_at_def Attach_def sizeof_QueueHead_def QUEUE_VACUUM_SLOT_def)

lemma create_fresh:
  assumes k: "fresh_calls k ka kb sa sb a b" and "a \<noteq> b" and s: "segment_fits (mem a) sa" "segment_fits (mem b) sb"
  obtains mem1 where "chan_Create k mem MessageChannel ka kb sa sb =
      (True, mem1, \<lparr>recv_queue = Some b, send_queue = Some a, send_shm = Some a, recv_shm = Some b\<rparr>)"
    "queue_holds (mem1 a) []" "queue_holds (mem1 b) []" "sh_size (mem1 a) = sa - 12" "sh_size (mem1 b) = sb - 12"
proof -
  obtain u where u: "attach_at mem None a sa True = (mem(a := u), Some a)" "queue_holds u []" "sh_size u = sa - 12"
    by (rule attach_fresh [where mem = mem and a = a, OF s(1)])
  have "segment_fits ((mem(a := u)) b) sb" using s(2) assms(2) by simp
  then obtain v where v: "attach_at (mem(a := u)) None b sb True = (mem(a := u, b := v), Some b)"
    "queue_holds v []" "sh_size v = sb - 12"
    by (rule attach_fresh [where mem = "mem(a := u)" and a = b])
  have g: "fst (GetShmEx k ka sa False 0) = Some a" "fst (snd (GetShmEx k ka sa False 0))"
    "fst (GetShmEx k kb sb False 0) = Some b" "fst (snd (GetShmEx k kb sb False 0))"
    using k by (auto simp: fresh_calls_def GetShmEx_def)
  then obtain i j where "GetShmEx k ka sa False 0 = (Some a, True, i)" "GetShmEx k kb sb False 0 = (Some b, True, j)"
    by (metis prod.collapse)
  then have "chan_Create k mem MessageChannel ka kb sa sb = (True, mem(a := u, b := v),
      \<lparr>recv_queue = Some b, send_queue = Some a, send_shm = Some a, recv_shm = Some b\<rparr>)"
    using u(1) v(1) by (simp add: chan_Create_def MessageChannel_def)
  then show thesis using that u v assms(2) by simp
qed

lemma create_existing:
  assumes k: "existing_calls k ka kb sa sb a b" and "20 \<le> sa" "20 \<le> sb"
  shows "chan_Create k mem MessageChannel ka kb sa sb =
    (True, mem, \<lparr>recv_queue = Some b, send_queue = Some a, send_shm = Some a, recv_shm = Some b\<rparr>)"
proof -
  have g: "fst (GetShmEx k ka sa False 0) = Some a" "\<not> fst (snd (GetShmEx k ka sa False 0))"
    "fst (GetShmEx k kb sb False 0) = Some b" "\<not> fst (snd (GetShmEx k kb sb False 0))"
    using k by (auto simp: existing_calls_def GetShmEx_def)
  then obtain i j where "GetShmEx k ka sa False 0 = (Some a, False, i)" "GetShmEx k kb sb False 0 = (Some b, False, j)"
    by (metis prod.collapse)
  then show ?thesis using attach_existing assms by (simp add: chan_Create_def MessageChannel_def)
qed

text \<open>C4. Two processes that create channels with crossed keys, one before and one after the segments exist, get
  two queues in opposite directions. Over any sequence of their sends and receives nothing faults, and the
  messages (that are not empty) one side gets are, in order and byte for byte, the first of those the other
  side sent and the queue had room for - all of them, when the queue has room for everything sent.\<close>
theorem messages_cross:
  assumes "fresh_calls k1 ka kb sa sb a b" and "existing_calls k2 kb ka sb sa b a" and "a \<noteq> b"
    and "segment_fits (mem a) sa" "segment_fits (mem b) sb"
    and "\<forall>m\<in>set (all_sent1 acts) \<union> set (all_sent2 acts). int (length m) < 2 ^ 32"
  shows "\<exists>mem1 c1 c2 xs ys mem2. chan_Create k1 mem MessageChannel ka kb sa sb = (True, mem1, c1) \<and>
    chan_Create k2 mem1 MessageChannel kb ka sb sa = (True, mem1, c2) \<and>
    chan_acts c1 c2 acts mem1 = Some (xs, ys, mem2) \<and>
    (\<exists>acc rest. subseq acc (all_sent1 acts) \<and> nonempty acc = xs @ rest \<and>
      (int (length (frames (all_sent1 acts))) + 20 \<le> sa \<longrightarrow> acc = all_sent1 acts)) \<and>
    (\<exists>acc rest. subseq acc (all_sent2 acts) \<and> nonempty acc = ys @ rest \<and>
      (int (length (frames (all_sent2 acts))) + 20 \<le> sb \<longrightarrow> acc = all_sent2 acts))"
proof -
  let ?c1 = "\<lparr>recv_queue = Some b, send_queue = Some a, send_shm = Some a, recv_shm = Some b\<rparr>"
  let ?c2 = "\<lparr>recv_queue = Some a, send_queue = Some b, send_shm = Some b, recv_shm = Some a\<rparr>"
  obtain mem1 where 1: "chan_Create k1 mem MessageChannel ka kb sa sb = (True, mem1, ?c1)"
    "queue_holds (mem1 a) []" "queue_holds (mem1 b) []" and sz: "sh_size (mem1 a) = sa - 12" "sh_size (mem1 b) = sb - 12"
    by (rule create_fresh [OF assms(1, 3, 4, 5)])
  have 2: "chan_Create k2 mem1 MessageChannel kb ka sb sa = (True, mem1, ?c2)"
    using create_existing [OF assms(2)] assms(4, 5) by (simp add: segment_fits_def)
  have "crossed ?c1 ?c2 a b" using assms(3) by (simp add: crossed_def)
  from chan_acts_ok [OF this 1(2, 3) assms(6)] obtain xs ys mem2 ms ns where
    r: "chan_acts ?c1 ?c2 acts mem1 = Some (xs, ys, mem2)"
    and d: "delivered_ok [] (all_sent1 acts) xs (sa - 12) ms" "delivered_ok [] (all_sent2 acts) ys (sb - 12) ns"
    unfolding sz by blast
  have del: "\<exists>acc rest. subseq acc ss \<and> nonempty acc = out @ rest \<and> (int (length (frames ss)) + 20 \<le> n \<longrightarrow> acc = ss)"
    if "delivered_ok [] ss out (n - 12) rs" for ss out n rs
    using that by (auto simp: delivered_ok_def QUEUE_VACUUM_SLOT_def)
  show ?thesis using 1(1) 2 r del [OF d(1)] del [OF d(2)] by blast
qed

definition demo_calls :: "bool \<Rightarrow> shm_calls" where
  "demo_calls first = \<lparr>shmget = (\<lambda>key sz flag. if first \<or> flag = SHM_MODE then key else -1), eexist = True, shmat = (\<lambda>i. Some (nat i))\<rparr>"

lemma messages_cross_witness:
  "\<exists>mem1 c1 c2 xs ys mem2. chan_Create (demo_calls False) mem1 MessageChannel 7 5 60 60 = (True, mem1, c2) \<and>
     chan_acts c1 c2 [Send1 [1, 2], Recv2, Send2 [3], Recv1] mem1 = Some (xs, ys, mem2) \<and>
     prefix xs [[1, 2]] \<and> prefix ys [[3]]"
proof -
  let ?mem = "\<lambda>_ :: nat. \<lparr>head_idx = 5, tail_idx = 6, sh_size = 7, queue_buff = replicate 48 (0 :: byte)\<rparr>"
  let ?acts = "[Send1 [1, 2], Recv2, Send2 [3], Recv1]"
  have s: "all_sent1 ?acts = [[1, 2]]" "all_sent2 ?acts = [[3]]" by simp_all
  have 1: "fresh_calls (demo_calls True) 5 7 60 60 5 7" "existing_calls (demo_calls False) 7 5 60 60 7 5"
    by (simp_all add: fresh_calls_def existing_calls_def demo_calls_def)
  have 2: "segment_fits (?mem 5) 60" "segment_fits (?mem 7) 60" by (simp_all add: segment_fits_def)
  have 3: "\<forall>m\<in>set (all_sent1 ?acts) \<union> set (all_sent2 ?acts). int (length m) < 2 ^ 32" by simp
  have "int (length (frames (all_sent1 ?acts))) + 20 \<le> 60" "int (length (frames (all_sent2 ?acts))) + 20 \<le> 60" by simp_all
  with messages_cross [OF 1 _ 2 3] obtain mem1 c1 c2 xs ys mem2 rest rest' where r:
    "chan_Create (demo_calls False) mem1 MessageChannel 7 5 60 60 = (True, mem1, c2)"
    "chan_acts c1 c2 ?acts mem1 = Some (xs, ys, mem2)" "nonempty [[1, 2]] = xs @ rest" "nonempty [[3]] = ys @ rest'"
    unfolding s by auto
  then have "prefix xs [[1, 2]]" "prefix ys [[3]]" by (simp_all add: prefix_def)
  then show ?thesis using r(1, 2) by blast
qed

end
