(* ===== verification/ConnTables.thy ===== *)
theory ConnTables
  imports Prelude
begin

text \<open>
  \<open>ConnClientMgr\<close> of \<open>ConnSvr/src/conn_client_mgr.{h,cc}\<close>: the clients by connection and by game number.

  \<^item> A \<open>std::map\<close> is the list of its entries in the order of the keys, which is the order in which
    \<open>CollectTimeOutClient\<close> visits them. The entries are addresses of \<open>ClientInfo\<close> objects.
  \<^item> The locale \<open>id_table\<close> states what the users of such a map rely on.
\<close>

subsection \<open>Ordered maps\<close>

fun om_put :: "int \<Rightarrow> 'v \<Rightarrow> (int \<times> 'v) list \<Rightarrow> (int \<times> 'v) list" where
  "om_put k v [] = [(k, v)]"
| "om_put k v ((j, w) # xs) =
     (if k < j then (k, v) # (j, w) # xs else if k = j then (k, v) # xs else (j, w) # om_put k v xs)"

definition om_erase :: "int \<Rightarrow> (int \<times> 'v) list \<Rightarrow> (int \<times> 'v) list" where
  "om_erase k xs = filter (\<lambda>(j, w). j \<noteq> k) xs"

definition om_get :: "(int \<times> 'v) list \<Rightarrow> int \<Rightarrow> 'v option" where
  "om_get xs k = map_of xs k"

definition om_ok :: "(int \<times> 'v) list \<Rightarrow> bool" where
  "om_ok xs \<longleftrightarrow> sorted_wrt (<) (map fst xs)"

datatype 'v table_op = TPut int 'v | TErase int

definition table_upd :: "'v table_op \<Rightarrow> (int \<Rightarrow> 'v option) \<Rightarrow> int \<Rightarrow> 'v option" where
  "table_upd x f = (case x of TPut k v \<Rightarrow> f(k \<mapsto> v) | TErase k \<Rightarrow> f(k := None))"

locale id_table =
  fixes put :: "int \<Rightarrow> 'v \<Rightarrow> 't \<Rightarrow> 't"
    and erase :: "int \<Rightarrow> 't \<Rightarrow> 't"
    and get :: "'t \<Rightarrow> int \<Rightarrow> 'v option"
    and ok :: "'t \<Rightarrow> bool"
  assumes get_put: "ok t \<Longrightarrow> get (put k v t) = (get t)(k \<mapsto> v)"
    and get_erase: "ok t \<Longrightarrow> get (erase k t) = (get t)(k := None)"
    and ok_put: "ok t \<Longrightarrow> ok (put k v t)"
    and ok_erase: "ok t \<Longrightarrow> ok (erase k t)"
begin

definition apply_op :: "'v table_op \<Rightarrow> 't \<Rightarrow> 't" where
  "apply_op x t = (case x of TPut k v \<Rightarrow> put k v t | TErase k \<Rightarrow> erase k t)"

lemma run_refines:
  "ok t \<Longrightarrow> ok (fold apply_op ops t) \<and> get (fold apply_op ops t) = fold table_upd ops (get t)"
proof (induction ops arbitrary: t)
  case (Cons x ops)
  have "ok (apply_op x t)" "get (apply_op x t) = table_upd x (get t)"
    using Cons.prems by (cases x; simp add: apply_op_def table_upd_def ok_put ok_erase get_put get_erase)+
  with Cons.IH [of "apply_op x t"] show ?case by simp
qed simp

end

lemma om_put_keys: "set (map fst (om_put k v xs)) = insert k (set (map fst xs))"
  by (induction k v xs rule: om_put.induct) auto

lemma om_put_ok: "om_ok xs \<Longrightarrow> om_ok (om_put k v xs)"
proof (induction k v xs rule: om_put.induct)
  case (2 k v j w xs)
  have "\<forall>x \<in> insert k (set (map fst xs)). j < x" if "j < k" using 2(2) that by (auto simp: om_ok_def)
  then have "\<forall>x \<in> set (map fst (om_put k v xs)). j < x" if "j < k" using that om_put_keys by metis
  then show ?case using 2 by (auto simp: om_ok_def)
qed (simp add: om_ok_def)

lemma om_get_put: "om_ok xs \<Longrightarrow> om_get (om_put k v xs) = (om_get xs)(k \<mapsto> v)"
proof (induction k v xs rule: om_put.induct)
  case (2 k v j w xs)
  show ?case
  proof (cases "k < j")
    case False
    then show ?thesis using 2 by (cases "k = j") (auto simp: om_get_def om_ok_def fun_eq_iff)
  qed (auto simp: om_get_def fun_eq_iff)
qed (simp add: om_get_def fun_eq_iff)

lemma om_get_erase: "om_get (om_erase k xs) = (om_get xs)(k := None)"
  by (induction xs) (auto simp: om_get_def om_erase_def fun_eq_iff)

lemma om_erase_ok: "om_ok xs \<Longrightarrow> om_ok (om_erase k xs)"
  by (induction xs) (auto simp: om_ok_def om_erase_def)

interpretation om: id_table om_put om_erase om_get om_ok
  by unfold_locales (simp_all add: om_get_put om_get_erase om_put_ok om_erase_ok)

subsection \<open>The clients\<close>

definition CLIENT_STATE_NORMAL :: int where "CLIENT_STATE_NORMAL = 1"
definition CLIENT_STATE_DISCONNECTED :: int where "CLIENT_STATE_DISCONNECTED = 2"

record client_info =
  cl_ip :: int
  cl_port :: int
  game_id :: int
  create_seq :: int
  hconn_id :: int
  cl_state :: int
  disconnect_time :: int

record client_mgr =
  conn_maps :: "(int \<times> nat) list"
  game_maps :: "(int \<times> nat) list"

definition ConnClientMgr :: client_mgr where
  "ConnClientMgr = \<lparr>conn_maps = [], game_maps = []\<rparr>"

definition GetClientCount :: "client_mgr \<Rightarrow> int" where
  "GetClientCount c = i32 (int (length (game_maps c)))"

definition GetClientByConnId :: "client_mgr \<Rightarrow> int \<Rightarrow> nat option" where
  "GetClientByConnId c conn_id = om_get (conn_maps c) conn_id"

definition GetClientByGameId :: "client_mgr \<Rightarrow> int \<Rightarrow> nat option" where
  "GetClientByGameId c gid = om_get (game_maps c) gid"

definition AddToConnMap :: "client_mgr \<Rightarrow> int \<Rightarrow> nat \<Rightarrow> client_mgr" where
  "AddToConnMap c conn_id client = c\<lparr>conn_maps := om_put conn_id client (conn_maps c)\<rparr>"

definition AddToGameMap :: "client_mgr \<Rightarrow> int \<Rightarrow> nat \<Rightarrow> client_mgr" where
  "AddToGameMap c gid client = c\<lparr>game_maps := om_put gid client (game_maps c)\<rparr>"

definition EraseConnMap :: "client_mgr \<Rightarrow> int \<Rightarrow> client_mgr" where
  "EraseConnMap c key = c\<lparr>conn_maps := om_erase key (conn_maps c)\<rparr>"

definition EraseGameMap :: "client_mgr \<Rightarrow> int \<Rightarrow> client_mgr" where
  "EraseGameMap c key = c\<lparr>game_maps := om_erase key (game_maps c)\<rparr>"

text \<open>\<open>disconnect_count\<close> is passed by value, so its new value is lost.\<close>

fun collect_loop ::
  "(nat \<Rightarrow> client_info option) \<Rightarrow> int \<Rightarrow> int \<Rightarrow> (int \<times> nat) list \<Rightarrow> nat list \<Rightarrow> int \<Rightarrow> (nat list \<times> int) option" where
  "collect_loop heap now wait [] arr n = Some (arr, n)"
| "collect_loop heap now wait ((k, a) # es) arr n = do {
     client \<leftarrow> heap a;
     (if cl_state client = CLIENT_STATE_DISCONNECTED
      then if now - disconnect_time client \<ge> wait then collect_loop heap now wait es (arr @ [a]) (n + 1)
           else collect_loop heap now wait es arr (n + 1)
      else collect_loop heap now wait es arr n) }"

definition CollectTimeOutClient ::
  "(nat \<Rightarrow> client_info option) \<Rightarrow> int \<Rightarrow> int \<Rightarrow> client_mgr \<Rightarrow> nat list \<Rightarrow> int \<Rightarrow> nat list option" where
  "CollectTimeOutClient heap now wait c timeout_arr disconnect_count =
     map_option fst (collect_loop heap now wait (game_maps c) timeout_arr disconnect_count)"

subsection \<open>Properties\<close>

datatype client_call = OpAddConn int nat | OpAddGame int nat | OpEraseConn int | OpEraseGame int

fun client_op :: "client_call \<Rightarrow> client_mgr \<Rightarrow> client_mgr" where
  "client_op (OpAddConn k a) c = AddToConnMap c k a"
| "client_op (OpAddGame k a) c = AddToGameMap c k a"
| "client_op (OpEraseConn k) c = EraseConnMap c k"
| "client_op (OpEraseGame k) c = EraseGameMap c k"

text \<open>The same operations on two partial functions.\<close>

fun abs_op :: "client_call \<Rightarrow> (int \<Rightarrow> nat option) \<times> (int \<Rightarrow> nat option) \<Rightarrow> (int \<Rightarrow> nat option) \<times> (int \<Rightarrow> nat option)" where
  "abs_op (OpAddConn k a) (f, g) = (f(k \<mapsto> a), g)"
| "abs_op (OpAddGame k a) (f, g) = (f, g(k \<mapsto> a))"
| "abs_op (OpEraseConn k) (f, g) = (f(k := None), g)"
| "abs_op (OpEraseGame k) (f, g) = (f, g(k := None))"

text \<open>The operations on each of the two maps.\<close>

fun conn_ops :: "client_call \<Rightarrow> nat table_op list" where
  "conn_ops (OpAddConn k a) = [TPut k a]" | "conn_ops (OpEraseConn k) = [TErase k]" | "conn_ops _ = []"

fun game_ops :: "client_call \<Rightarrow> nat table_op list" where
  "game_ops (OpAddGame k a) = [TPut k a]" | "game_ops (OpEraseGame k) = [TErase k]" | "game_ops _ = []"

lemma client_ops_split:
  "conn_maps (fold client_op ops c) = fold om.apply_op (concat (map conn_ops ops)) (conn_maps c) \<and>
   game_maps (fold client_op ops c) = fold om.apply_op (concat (map game_ops ops)) (game_maps c)"
proof (induction ops arbitrary: c)
  case (Cons x ops)
  then show ?case
    by (cases x) (simp_all add: om.apply_op_def AddToConnMap_def AddToGameMap_def EraseConnMap_def EraseGameMap_def)
qed simp

lemma abs_ops_split:
  "fold abs_op ops (f, g) = (fold table_upd (concat (map conn_ops ops)) f, fold table_upd (concat (map game_ops ops)) g)"
proof (induction ops arbitrary: f g)
  case (Cons x ops)
  then show ?case by (cases x) (simp_all add: table_upd_def fun_upd_def)
qed simp

lemma collect_loop_spec:
  assumes "\<forall>(k, a) \<in> set es. heap a \<noteq> None"
  shows "\<exists>n'. collect_loop heap now wait es arr n = Some (arr @ map snd (filter (\<lambda>(k, a).
      (case heap a of None \<Rightarrow> False | Some c \<Rightarrow> cl_state c = CLIENT_STATE_DISCONNECTED \<and> now - disconnect_time c \<ge> wait)) es), n')"
  using assms
proof (induction es arbitrary: arr n)
  case (Cons e es)
  obtain k a where e: "e = (k, a)" by (cases e)
  then obtain c where c: "heap a = Some c" using Cons.prems by auto
  have "\<forall>(k, a) \<in> set es. heap a \<noteq> None" using Cons.prems by auto
  note IH = Cons.IH [OF this]
  show ?case using IH [of "arr @ [a]" "n + 1"] IH [of arr "n + 1"] IH [of arr n] e c by auto
qed simp

text \<open>C28. The two maps of \<open>ConnClientMgr\<close> refine two partial functions: after any sequence of insertions and
  removals both lookups give what was inserted last for the key and not removed since, whatever was done to
  the other map; \<open>CollectTimeOutClient\<close> then gives, in the order of the game numbers, the disconnected
  clients whose waiting time is over.\<close>
theorem client_maps_refine:
  assumes "fold client_op ops ConnClientMgr = c" and "\<forall>a. heap a \<noteq> None"
  shows "(GetClientByConnId c, GetClientByGameId c) = fold abs_op ops (\<lambda>_. None, \<lambda>_. None) \<and>
    sorted_wrt (<) (map fst (game_maps c)) \<and>
    CollectTimeOutClient heap now wait c [] n = Some (map snd (filter (\<lambda>(k, a). case heap a of None \<Rightarrow> False
       | Some cl \<Rightarrow> cl_state cl = CLIENT_STATE_DISCONNECTED \<and> now - disconnect_time cl \<ge> wait) (game_maps c)))"
proof -
  have e: "om_ok ([] :: (int \<times> nat) list)" "om_get ([] :: (int \<times> nat) list) = (\<lambda>_. None)" by (simp_all add: om_ok_def om_get_def fun_eq_iff)
  note r = om.run_refines [OF e(1), unfolded e(2)]
  have m: "conn_maps c = fold om.apply_op (concat (map conn_ops ops)) []" "game_maps c = fold om.apply_op (concat (map game_ops ops)) []"
    using client_ops_split [of ops ConnClientMgr] assms(1) by (simp_all add: ConnClientMgr_def)
  then have "(GetClientByConnId c, GetClientByGameId c) = fold abs_op ops (\<lambda>_. None, \<lambda>_. None)"
    using r by (simp add: abs_ops_split fun_eq_iff GetClientByConnId_def GetClientByGameId_def)
  moreover have "om_ok (game_maps c)" using r m(2) by simp
  moreover have "\<forall>(k, a) \<in> set (game_maps c). heap a \<noteq> None" using assms(2) by auto
  ultimately show ?thesis using collect_loop_spec [of "game_maps c" heap now wait "[]" n]
    by (auto simp: om_ok_def CollectTimeOutClient_def)
qed

lemma client_maps_refine_witness:
  "GetClientByGameId (fold client_op [OpAddGame 7 1, OpAddConn 7 2, OpAddGame 3 4, OpEraseGame 7, OpAddGame 5 6] ConnClientMgr) 5 = Some 6 \<and>
   CollectTimeOutClient (\<lambda>a. Some \<lparr>cl_ip = 0, cl_port = 0, game_id = 0, create_seq = 0, hconn_id = 0,
      cl_state = 2, disconnect_time = int a\<rparr>) 10 5
     (fold client_op [OpAddGame 7 1, OpAddConn 7 2, OpAddGame 3 4, OpEraseGame 7, OpAddGame 5 6] ConnClientMgr) [] 0 = Some [4]"
proof -
  let ?ops = "[OpAddGame 7 1, OpAddConn 7 2, OpAddGame 3 4, OpEraseGame 7, OpAddGame 5 6]"
  let ?heap = "\<lambda>a. Some \<lparr>cl_ip = 0, cl_port = 0, game_id = 0, create_seq = 0, hconn_id = 0, cl_state = 2, disconnect_time = int a\<rparr>"
  note r = client_maps_refine [OF refl, of ?heap ?ops 10 5 0]
  have "game_maps (fold client_op ?ops ConnClientMgr) = [(3, 4), (5, 6)]" by code_simp
  then show ?thesis using r by (simp add: CLIENT_STATE_DISCONNECTED_def)
qed

end
