(* ===== verification/Decimal.thy ===== *)
theory Decimal
  imports Prelude
begin

text \<open>
  Decimal output: \<open>%d\<close> and \<open>%0<w>d\<close> of the \<open>printf\<close> family, as the sources use them, and the reading of
  digits back.
\<close>

fun dec :: "nat \<Rightarrow> string" where
  "dec n = (if n < 10 then [char_of (48 + n)] else dec (n div 10) @ [char_of (48 + n mod 10)])"

declare dec.simps [simp del]

definition fmt_d :: "nat \<Rightarrow> int \<Rightarrow> string" where
  "fmt_d w i = (let sgn = (if i < 0 then ''-'' else []); d = dec (nat \<bar>i\<bar>)
     in sgn @ replicate (w - length sgn - length d) (CHR ''0'') @ d)"

definition undec :: "string \<Rightarrow> nat" where
  "undec cs = foldl (\<lambda>n c. 10 * n + (of_char c - 48)) 0 cs"

lemma undec_snoc [simp]: "undec (cs @ [c]) = 10 * undec cs + (of_char c - 48)"
  by (simp add: undec_def)

lemma of_char_digit: "n < 10 \<Longrightarrow> (of_char (char_of (48 + n :: nat)) :: nat) = 48 + n"
  by (simp add: of_char_of)

lemma undec_dec: "undec (dec n) = n"
proof (induction n rule: dec.induct)
  case (1 n)
  show ?case
  proof (cases "n < 10")
    case True
    then show ?thesis using undec_snoc [of "[]"] by (simp add: dec.simps [of n] of_char_digit undec_def)
  next
    case False
    then show ?thesis using 1 by (simp add: dec.simps [of n] of_char_digit)
  qed
qed

lemma dec_inject: "dec m = dec n \<longleftrightarrow> m = n"
  using undec_dec by metis

lemma length_dec: "n < 10 ^ Suc k \<Longrightarrow> length (dec n) \<le> Suc k"
proof (induction k arbitrary: n)
  case 0
  then show ?case by (simp add: dec.simps [of n])
next
  case (Suc k)
  have "n div 10 < 10 ^ Suc k" using Suc.prems by (simp add: less_mult_imp_div_less mult.commute)
  from Suc.IH [OF this] show ?case by (simp add: dec.simps [of n])
qed

lemma length_fmt_d:
  assumes "\<bar>i\<bar> < 10 ^ Suc k"
  shows "length (fmt_d w i) \<le> max w (k + 2)"
proof -
  have "nat \<bar>i\<bar> < 10 ^ Suc k" using assms by (simp add: nat_less_iff)
  from length_dec [OF this] show ?thesis by (auto simp: fmt_d_def Let_def)
qed

lemma length_fmt_d_nat:
  assumes "0 \<le> i" "i < 10 ^ Suc k" "Suc k \<le> w"
  shows "length (fmt_d w i) = w"
proof -
  have "nat \<bar>i\<bar> < 10 ^ Suc k" using assms by (simp add: nat_less_iff)
  from length_dec [OF this] show ?thesis using assms by (auto simp: fmt_d_def Let_def)
qed

end
