(* ===== verification/ConnMgr.thy ===== *)
theory ConnMgr
  imports SockMgr Channel ConnTables Decimal
begin

text \<open>
  \<open>ConnMgr\<close> of \<open>ConnSvr/src/conn_mgr.{h,cc}\<close> with the header codec of \<open>ConnSvr/src/conn_svr_wrapper.cc\<close>: the
  set-up of the connection server and one round of its loop.

  \<^item> \<open>conn_env\<close> holds what comes from outside: the file system, the shared-memory calls, \<open>epoll_create\<close> and
    \<open>inet_addr\<close>; \<open>round_env\<close> the clocks and the events of one round.
  \<^item> A function that reads the configuration has the result type of \<open>SetSource\<close>: the outer \<open>None\<close> is too little
    fuel for included files, the inner \<open>None\<close> a fault.
  \<^item> \<open>HandleClose\<close>, \<open>HandleConnect\<close>, \<open>HandleAccept\<close>, \<open>NotifyZoneClose\<close> and \<open>DeleteClient\<close> have empty bodies.
\<close>

subsection \<open>State\<close>

definition MAX_LISTEN_PORT_COUNT :: nat where "MAX_LISTEN_PORT_COUNT = 10"
definition CHANNEL_KEY_C2G :: int where "CHANNEL_KEY_C2G = 0x1000"
definition CHANNEL_KEY_G2C :: int where "CHANNEL_KEY_G2C = 0x1001"
definition CHANNEL_SIZE_C2G :: int where "CHANNEL_SIZE_C2G = 1024 * 1024 * 100"
definition CHANNEL_SIZE_G2C :: int where "CHANNEL_SIZE_G2C = 1024 * 1024 * 100"
definition MAX_SERVER_PACK_LEN :: int where "MAX_SERVER_PACK_LEN = 1024 * 1024"
definition sizeof_ConnMsgHead :: int where "sizeof_ConnMsgHead = 24"
definition INVALID_HCONN :: int where "INVALID_HCONN = -1"

record conn_config =
  max_accept_client :: int
  client_socket_timeout :: int
  wait_reconnect_timeout :: int
  listen_client_ip :: string
  listen_port_count :: int
  listen_ports :: "string list"
  tcp_send_buf_size :: int
  max_cached_send_time_ms :: int
  max_cached_send_buff_size :: int

record conn_mgr =
  chan :: channel
  socket_manager :: "sock_mgr option"
  config :: conn_config
  cur_seq :: int
  server_seq :: int
  cur_game_id :: int
  is_shut_down :: bool
  last_check :: "int option"

record conn_env =
  e_fuel :: nat
  e_host :: conf_host
  e_shm :: shm_calls
  e_epoll :: int
  e_now :: int
  e_inet_addr :: "string \<Rightarrow> int"
  e_sock :: sock_env

record round_env =
  r_sock_ms :: int
  r_first_ms :: int
  r_cur_ms :: int
  r_events :: "(int \<times> 32 word) list"

text \<open>The plain members of the configuration and \<open>cur_game_id_\<close> are not initialised: \<open>junk\<close>.\<close>

definition ConnMgr :: "int \<Rightarrow> conn_config \<times> int \<Rightarrow> conn_mgr" where
  "ConnMgr now junk = \<lparr>chan = MessageChannel, socket_manager = None,
     config = (fst junk)\<lparr>listen_client_ip := [], listen_ports := replicate MAX_LISTEN_PORT_COUNT []\<rparr>,
     cur_seq = 0, server_seq = u32 now, cur_game_id = snd junk, is_shut_down = False, last_check = None\<rparr>"

definition IncGameId :: "conn_mgr \<Rightarrow> int \<times> conn_mgr" where
  "IncGameId m = (u64 (cur_game_id m + 1), m\<lparr>cur_game_id := u64 (cur_game_id m + 1)\<rparr>)"

definition ConnMgr_GetTime :: int where "ConnMgr_GetTime = 0"

subsection \<open>Set-up\<close>

text \<open>The loop over the ports; \<open>listen_ports\<close> has ten entries, a larger index is outside it.\<close>

function read_ports :: "reader \<Rightarrow> int \<Rightarrow> int \<Rightarrow> string list \<Rightarrow> string list option" where
  "read_ports rd i n ports =
     (if i < n
      then if 0 \<le> i \<and> i < int (length ports)
        then read_ports rd (i + 1) n (ports[nat i := GetValueAsString rd (''ListenPort'' @ fmt_d 0 (i + 1)) []])
        else None
      else Some ports)"
  by pat_completeness auto

termination by (relation "measure (\<lambda>(rd, i, n, ports). nat (n - i))") auto

declare read_ports.simps [simp del]

definition read_config :: "reader \<Rightarrow> conn_config \<Rightarrow> conn_config option" where
  "read_config rd c0 =
     (let c1 = c0\<lparr>max_accept_client := i32 (GetValueAsUInt rd ''ClientSocketTimeout'' 5000),
                  client_socket_timeout := i32 (GetValueAsUInt rd ''ClientSocketTimeout'' 90),
                  wait_reconnect_timeout := i32 (GetValueAsUInt rd ''WaitReconnectTimeout'' 90),
                  listen_client_ip := GetValueAsString rd ''ListenClientIP'' [],
                  listen_port_count := i32 (GetValueAsUInt rd ''ListenPortCount'' 0)\<rparr>
      in do {
        ports \<leftarrow> read_ports rd 0 (listen_port_count c1) (listen_ports c1);
        Some (c1\<lparr>listen_ports := ports,
                 tcp_send_buf_size := GetValueAsInt rd ''TcpSendBufSize'' 0,
                 max_cached_send_buff_size := GetValueAsInt rd ''ClientSocketTimeout'' (5 * 1024),
                 max_cached_send_time_ms := GetValueAsInt rd ''ClientSocketTimeout'' 20\<rparr>) })"

definition conn_InitConfig :: "conn_env \<Rightarrow> conn_mgr \<Rightarrow> string \<Rightarrow> (bool \<times> conn_mgr) option option" where
  "conn_InitConfig e m file_name =
     map_option (\<lambda>r. do {
         (opened, rd) \<leftarrow> r;
         (if opened then Some (False, m)
          else do { c \<leftarrow> read_config rd (config m); Some (True, m\<lparr>config := c\<rparr>) }) })
       (SetSource (e_fuel e) (e_host e) file_name True)"

definition conn_InitChannel :: "conn_env \<Rightarrow> shm_mem \<Rightarrow> conn_mgr \<Rightarrow> bool \<times> shm_mem \<times> conn_mgr" where
  "conn_InitChannel e mem m =
     (let (created, mem1, c) = chan_Create (e_shm e) mem (chan m) CHANNEL_KEY_C2G CHANNEL_KEY_G2C
            CHANNEL_SIZE_C2G CHANNEL_SIZE_G2C
      in (\<not> created, mem1, m\<lparr>chan := c\<rparr>))"

function listen_all :: "conn_env \<Rightarrow> conn_config \<Rightarrow> int \<Rightarrow> sock_mgr \<Rightarrow> (bool \<times> sock_mgr) option" where
  "listen_all e c i sm =
     (if i < listen_port_count c
      then if \<not> (0 \<le> i \<and> i < int (length (listen_ports c))) then None
        else
          let h = mgr_Listen_str (e_inet_addr e) sm (listen_client_ip c) (listen_ports c ! nat i)
          in if h = INVALID_HCONN then Some (False, sm)
             else (case do {
                 s1 \<leftarrow> SetActiveTimeout sm h (client_socket_timeout c);
                 s2 \<leftarrow> SetRecvTimeout s1 h (client_socket_timeout c);
                 SetCacheSendInfo (e_sock e) s2 h (max_cached_send_buff_size c) (max_cached_send_time_ms c) } of
               None \<Rightarrow> None
             | Some s3 \<Rightarrow> listen_all e c (i + 1) s3)
      else Some (True, sm))"
  by pat_completeness auto

termination by (relation "measure (\<lambda>(e, c, i, sm). nat (listen_port_count c - i))") auto

declare listen_all.simps [simp del]

definition conn_InitSocket :: "conn_env \<Rightarrow> conn_mgr \<Rightarrow> (bool \<times> conn_mgr) option" where
  "conn_InitSocket e m = do {
     let p = mgr_Create (e_epoll e) (e_now e) (max_accept_client (config m));
     (case p of
        None \<Rightarrow> Some (False, m\<lparr>socket_manager := None\<rparr>)
      | Some sm \<Rightarrow> do {
          (ok, sm1) \<leftarrow> listen_all e (config m) 0 sm;
          Some (ok, m\<lparr>socket_manager := Some sm1\<rparr>) }) }"

subsection \<open>The message head\<close>

definition CONN_CMD_START :: int where "CONN_CMD_START = 1"
definition CONN_CMD_STOP :: int where "CONN_CMD_STOP = 2"
definition CONN_CMD_NORMAL :: int where "CONN_CMD_NORMAL = 3"
definition CONN_CMD_RECONN :: int where "CONN_CMD_RECONN = 5"

text \<open>
  The command number goes into the second of the four-byte fields of the head; the other fields and the
  length are not written. A \<open>char\<close> is signed here, its value is extended to 32 bits.
\<close>

definition EncodeConnSvrHead :: "byte list \<Rightarrow> int \<Rightarrow> (int \<times> byte list) option" where
  "EncodeConnSvrHead buff cmd = do {
     b \<leftarrow> memcpy buff 4 (le32 (u32 cmd)) 0 4;
     Some (if cmd \<in> {CONN_CMD_START, CONN_CMD_STOP, CONN_CMD_NORMAL, CONN_CMD_RECONN} then 0 else -1, b) }"

definition DecodeConnSvrHead :: "byte list \<Rightarrow> int \<Rightarrow> int \<times> int" where
  "DecodeConnSvrHead buff head_len = (0, head_len)"

subsection \<open>One round\<close>

definition CloseSocket :: "'k ksend \<Rightarrow> conn_mgr \<Rightarrow> 'k net \<Rightarrow> int \<Rightarrow> (conn_mgr \<times> 'k net) option" where
  "CloseSocket ks m n h = do {
     sm \<leftarrow> socket_manager m;
     (sm1, n1) \<leftarrow> mgr_Close ks sm n h;
     Some (m\<lparr>socket_manager := Some sm1\<rparr>, n1) }"

definition UpdateSocket :: "'k ksend \<Rightarrow> round_env \<Rightarrow> conn_mgr \<Rightarrow> 'k net \<Rightarrow> (conn_mgr \<times> 'k net) option" where
  "UpdateSocket ks r m n = do {
     sm \<leftarrow> socket_manager m;
     (acts, tos, sm1, n1) \<leftarrow> mgr_Update ks sm n (r_sock_ms r) (r_events r) (int (length (r_events r)));
     Some (m\<lparr>socket_manager := Some sm1\<rparr>, n1) }"

text \<open>The clients for which \<open>NotifyZoneClose\<close> and \<open>DeleteClient\<close> are called, and the state.\<close>

definition CheckDisconnectTimeOut ::
  "round_env \<Rightarrow> (nat \<Rightarrow> client_info option) \<Rightarrow> client_mgr \<Rightarrow> conn_mgr \<Rightarrow> (nat list \<times> conn_mgr) option" where
  "CheckDisconnectTimeOut r heap cm m =
     (let last_time = (case last_check m of None \<Rightarrow> r_first_ms r | Some t \<Rightarrow> t)
      in if r_cur_ms r - last_time < 1000 then Some ([], m\<lparr>last_check := Some last_time\<rparr>)
         else do {
           arr \<leftarrow> CollectTimeOutClient heap ConnMgr_GetTime (wait_reconnect_timeout (config m)) cm [] 0;
           Some (arr, m\<lparr>last_check := Some (r_cur_ms r)\<rparr>) })"

definition PKG_BUF_SIZE :: int where
  "PKG_BUF_SIZE = MAX_SERVER_PACK_LEN + sizeof_ConnMsgHead + 10240"

definition MAX_MSG_PROC_ONCE :: int where "MAX_MSG_PROC_ONCE = 100"

text \<open>The messages taken; a message longer than the static buffer is written past its end.\<close>

function pkg_loop :: "channel \<Rightarrow> int \<Rightarrow> int \<Rightarrow> shm_mem \<Rightarrow> (byte list list \<times> shm_mem) option" where
  "pkg_loop c cnt node_len mem =
     (if cnt \<ge> MAX_MSG_PROC_ONCE \<and> MAX_MSG_PROC_ONCE > 0 then Some ([], mem)
      else (case chan_RecvMsg mem c False node_len of
          None \<Rightarrow> None
        | Some (ok, l, d, mem1) \<Rightarrow>
            if \<not> ok then Some ([], mem1)
            else if int (length d) > PKG_BUF_SIZE then None
            else (case pkg_loop c (cnt + 1) l mem1 of
                None \<Rightarrow> None
              | Some (ds, mem2) \<Rightarrow> Some (d # ds, mem2))))"
  by pat_completeness auto

termination
  by (relation "measure (\<lambda>(c, cnt, nl, mem). nat (MAX_MSG_PROC_ONCE - cnt))") (auto simp: MAX_MSG_PROC_ONCE_def)

declare pkg_loop.simps [simp del]

definition HandlerPkgFromZone :: "shm_mem \<Rightarrow> conn_mgr \<Rightarrow> (byte list list \<times> shm_mem) option" where
  "HandlerPkgFromZone mem m = pkg_loop (chan m) 0 0 mem"

definition conn_Update ::
  "'k ksend \<Rightarrow> round_env \<Rightarrow> (nat \<Rightarrow> client_info option) \<Rightarrow> client_mgr \<Rightarrow> conn_mgr \<times> shm_mem \<times> 'k net \<Rightarrow>
   (conn_mgr \<times> shm_mem \<times> 'k net) option" where
  "conn_Update ks r heap cm st =
     (case st of (m, mem, n) \<Rightarrow> do {
        (m1, n1) \<leftarrow> UpdateSocket ks r m n;
        (closed, m2) \<leftarrow> CheckDisconnectTimeOut r heap cm m1;
        (pkgs, mem1) \<leftarrow> HandlerPkgFromZone mem m2;
        Some (m2, mem1, n1) })"

end
