(* ===== verification/CString.thy ===== *)
theory CString
  imports ConfReader Decimal
begin

text \<open>
  C strings in arrays, and the helpers of \<open>common/platform/common.h\<close> and \<open>common/platform/os_comm.cc\<close>. An array of
  \<open>char\<close> is the list of its characters; a write past its end is \<open>None\<close>.
\<close>

abbreviation NUL :: char where "NUL \<equiv> CHR 0x00"

text \<open>The string an array holds; \<open>None\<close> when no character of it is zero.\<close>

definition cstr :: "string \<Rightarrow> string option" where
  "cstr buf = (if NUL \<in> set buf then Some (takeWhile (\<lambda>c. c \<noteq> NUL) buf) else None)"

definition strcpy :: "string \<Rightarrow> string \<Rightarrow> string option" where
  "strcpy dest s = (if length s < length dest then Some (s @ NUL # drop (length s + 1) dest) else None)"

text \<open>\<open>strncpy\<close> of a string without zeros, over the first \<open>n\<close> characters: it pads with zeros.\<close>

definition strncpy :: "nat \<Rightarrow> string \<Rightarrow> string" where
  "strncpy n s = take n (s @ replicate n NUL)"

subsection \<open>\<open>common.h\<close>\<close>

text \<open>Whether the result is a pointer, and the array; \<open>None\<close> as an argument is the null pointer.\<close>

definition safe_strcpy :: "string option \<Rightarrow> string option \<Rightarrow> (bool \<times> string option) option" where
  "safe_strcpy dest source =
     (case dest of
        None \<Rightarrow> Some (False, None)
      | Some d \<Rightarrow> (case source of
            None \<Rightarrow> (if d = [] then None else Some (False, Some (d[0 := NUL])))
          | Some s \<Rightarrow> map_option (\<lambda>d'. (True, Some d')) (strcpy d s)))"

definition strncpy_safe :: "string \<Rightarrow> string option \<Rightarrow> string" where
  "strncpy_safe dest source =
     (if length dest \<ge> 1
      then (case source of
              None \<Rightarrow> dest[0 := NUL]
            | Some s \<Rightarrow> (strncpy (length dest - 1) s @ [last dest])[length dest - 1 := NUL])
      else dest)"

text \<open>\<open>r\<close> is the value of \<open>rand()\<close>; a remainder by zero is \<open>None\<close>.\<close>

definition RandomBetween :: "int \<Rightarrow> int \<Rightarrow> int \<Rightarrow> int option" where
  "RandomBetween r minValue maxValue =
     (if maxValue > minValue
      then let n = i32 (i32 (maxValue - minValue) + 1)
           in if n = 0 then None else Some (i32 (minValue + c_rem r n))
      else Some minValue)"

definition str2u :: "string \<Rightarrow> int" where
  "str2u s = u32 (strtoul s 10)"

definition str2i :: "string \<Rightarrow> int" where
  "str2i s = i32 (strtol s 10)"

lemma cstr_prefix: "NUL \<notin> set s \<Longrightarrow> cstr (s @ NUL # rest) = Some s"
proof -
  assume "NUL \<notin> set s"
  then have "takeWhile (\<lambda>c. c \<noteq> NUL) (s @ NUL # rest) = s" by (subst takeWhile_append2) auto
  then show ?thesis by (simp add: cstr_def)
qed

text \<open>What a copy of \<open>s\<close> leaves in an array of \<open>n\<close> characters: everything, or the first \<open>n - 1\<close>.\<close>

lemma strncpy_safe_holds:
  assumes "dest \<noteq> []" and "NUL \<notin> set s"
  shows "cstr (strncpy_safe dest (Some s)) = Some (take (length dest - 1) s) \<and>
    length (strncpy_safe dest (Some s)) = length dest"
proof -
  let ?n = "length dest - 1"
  have e: "strncpy_safe dest (Some s) = take ?n (s @ replicate ?n NUL) @ [NUL]"
  proof -
    have "length (strncpy ?n s) = ?n" by (simp add: strncpy_def)
    then have "(strncpy ?n s @ [last dest])[?n := NUL] = strncpy ?n s @ [NUL]" by (metis list_update_length)
    then show ?thesis using assms(1) by (cases dest) (simp_all add: strncpy_safe_def strncpy_def)
  qed
  have l: "length (strncpy_safe dest (Some s)) = length dest" unfolding e using assms(1) by (cases dest) auto
  have "NUL \<notin> set (take ?n s)" using assms(2) by (meson in_set_takeD)
  then have "cstr (take ?n s @ NUL # rest) = Some (take ?n s)" for rest by (rule cstr_prefix)
  moreover have "\<exists>rest. take ?n (s @ replicate ?n NUL) @ [NUL] = take ?n s @ NUL # rest"
  proof (cases "?n \<le> length s")
    case False
    then obtain k where "?n - length s = Suc k" by (cases "?n - length s") auto
    then show ?thesis by (simp add: take_replicate)
  qed simp
  ultimately have "cstr (strncpy_safe dest (Some s)) = Some (take ?n s)" unfolding e by metis
  then show ?thesis using l by simp
qed

lemma strcpy_holds: "NUL \<notin> set s \<Longrightarrow> strcpy dest s = Some d \<Longrightarrow> cstr d = Some s \<and> length d = length dest"
  using cstr_prefix by (auto simp: strcpy_def split: if_splits)

lemma RandomBetween_range:
  assumes "0 \<le> r" and "lo < hi" "hi - lo < 2 ^ 31 - 1" "- (2 ^ 31) \<le> lo" "hi < 2 ^ 31"
  shows "\<exists>x. RandomBetween r lo hi = Some x \<and> lo \<le> x \<and> x \<le> hi"
proof -
  have n: "i32 (i32 (hi - lo) + 1) = hi - lo + 1" using assms by (simp add: cint)
  have m: "r mod (hi - lo + 1) < hi - lo + 1" using assms(2) by (intro pos_mod_bound) simp
  moreover have m0: "0 \<le> r mod (hi - lo + 1)" using assms(2) by simp
  moreover have "i32 (lo + r mod (hi - lo + 1)) = lo + r mod (hi - lo + 1)"
    using assms m m0 by (intro i32_id) linarith+
  ultimately show ?thesis using assms n by (simp add: RandomBetween_def cint Let_def)
qed

text \<open>The copy and random helpers at their limits. \<open>strncpy_safe\<close> fills an array of any size with a terminated
  string, the source cut to fit; \<open>safe_strcpy\<close> writes past the end exactly when the source does not fit,
  and otherwise holds all of it; \<open>RandomBetween\<close> stays in its closed interval for every value of \<open>rand\<close>
  while the width fits an \<open>int\<close>, and divides by zero for the interval of all \<open>int\<close>s.\<close>
theorem helpers_at_limits:
  assumes "dest \<noteq> []" and "NUL \<notin> set s" and "0 \<le> r"
    and "lo < hi" "hi - lo < 2 ^ 31 - 1" "- (2 ^ 31) \<le> lo" "hi < 2 ^ 31"
  shows "cstr (strncpy_safe dest (Some s)) = Some (take (length dest - 1) s) \<and>
    (case safe_strcpy (Some dest) (Some s) of
       None \<Rightarrow> length dest \<le> length s
     | Some (ret, d) \<Rightarrow> length s < length dest \<and> ret \<and> (\<exists>b. d = Some b \<and> cstr b = Some s \<and> length b = length dest)) \<and>
    (\<exists>x. RandomBetween r lo hi = Some x \<and> lo \<le> x \<and> x \<le> hi) \<and>
    RandomBetween r (- (2 ^ 31)) (2 ^ 31 - 1) = None"
proof (intro conjI)
  show "cstr (strncpy_safe dest (Some s)) = Some (take (length dest - 1) s)"
    using strncpy_safe_holds assms(1, 2) by blast
  show "case safe_strcpy (Some dest) (Some s) of None \<Rightarrow> length dest \<le> length s
     | Some (ret, d) \<Rightarrow> length s < length dest \<and> ret \<and> (\<exists>b. d = Some b \<and> cstr b = Some s \<and> length b = length dest)"
  proof (cases "strcpy dest s")
    case None
    then have "length dest \<le> length s" by (simp add: strcpy_def split: if_splits)
    then show ?thesis using None by (simp add: safe_strcpy_def)
  next
    case (Some d)
    then have "length s < length dest" by (simp add: strcpy_def split: if_splits)
    then show ?thesis using Some strcpy_holds [OF assms(2) Some] by (simp add: safe_strcpy_def)
  qed
  show "\<exists>x. RandomBetween r lo hi = Some x \<and> lo \<le> x \<and> x \<le> hi" by (rule RandomBetween_range [OF assms(3-)])
  show "RandomBetween r (- (2 ^ 31)) (2 ^ 31 - 1) = None" by (simp add: RandomBetween_def i32_def)
qed

lemma helpers_at_limits_witness:
  "cstr (strncpy_safe (replicate 4 (CHR ''x'')) (Some ''abcdef'')) = Some ''abc'' \<and>
   safe_strcpy (Some (replicate 4 (CHR ''x''))) (Some ''abcdef'') = None \<and>
   (\<exists>x. RandomBetween 1000 3 9 = Some x \<and> 3 \<le> x \<and> x \<le> 9)"
proof -
  let ?d = "replicate 4 (CHR ''x'')"
  have p: "?d \<noteq> []" "NUL \<notin> set ''abcdef''" "(0 :: int) \<le> 1000" "(3 :: int) < 9" "(9 :: int) - 3 < 2 ^ 31 - 1"
    "- (2 ^ 31) \<le> (3 :: int)" "(9 :: int) < 2 ^ 31" by simp_all
  note h = helpers_at_limits [OF p]
  have "safe_strcpy (Some ?d) (Some ''abcdef'') = None" using h by (auto split: option.splits)
  then show ?thesis using h by (simp add: numeral_eq_Suc)
qed

subsection \<open>\<open>os_comm.cc\<close>\<close>

text \<open>The microseconds given to \<open>usleep\<close>: the product is taken in 32 bits.\<close>

definition SleepMS :: "int \<Rightarrow> int" where
  "SleepMS ms = u32 (ms * 1000)"

text \<open>The file system is a parameter: whether \<open>access\<close> finds a path, and the result of \<open>mkdir\<close>.\<close>

definition is_sep :: "char \<Rightarrow> bool" where
  "is_sep c \<longleftrightarrow> c = CHR ''/'' \<or> c = CHR 0x5C"

fun dir_loop ::
  "('s \<Rightarrow> string \<Rightarrow> bool) \<Rightarrow> ('s \<Rightarrow> string \<Rightarrow> bool \<times> 's) \<Rightarrow> 's \<Rightarrow> string \<Rightarrow> string \<Rightarrow> bool \<times> 's" where
  "dir_loop acc mk fs sub [] = (True, fs)"
| "dir_loop acc mk fs sub (c # cs) =
     (if is_sep c
      then if \<not> acc fs (sub @ [c])
        then let (made, fs1) = mk fs (sub @ [c])
             in if \<not> made then (False, fs1) else dir_loop acc mk fs1 (sub @ [c]) cs
        else dir_loop acc mk fs (sub @ [c]) cs
      else dir_loop acc mk fs (sub @ [c]) cs)"

definition createDir ::
  "('s \<Rightarrow> string \<Rightarrow> bool) \<Rightarrow> ('s \<Rightarrow> string \<Rightarrow> bool \<times> 's) \<Rightarrow> 's \<Rightarrow> string \<Rightarrow> bool \<times> 's" where
  "createDir acc mk fs dirPath = dir_loop acc mk fs [] dirPath"

text \<open>What is known of \<open>mkdir\<close>: a path that was found stays, and a path that was made is found.\<close>

definition mkdir_law :: "('s \<Rightarrow> string \<Rightarrow> bool) \<Rightarrow> ('s \<Rightarrow> string \<Rightarrow> bool \<times> 's) \<Rightarrow> bool" where
  "mkdir_law acc mk \<longleftrightarrow> (\<forall>fs p q. (acc fs q \<longrightarrow> acc (snd (mk fs p)) q) \<and> (fst (mk fs p) \<longrightarrow> acc (snd (mk fs p)) p))"

lemma dir_loop_ok:
  assumes law: "mkdir_law acc mk" and "dir_loop acc mk fs sub cs = (ok, fs')"
  shows "(\<forall>q. acc fs q \<longrightarrow> acc fs' q) \<and>
    (ok \<longrightarrow> (\<forall>pre c post. cs = pre @ c # post \<and> is_sep c \<longrightarrow> acc fs' (sub @ pre @ [c])))"
  using assms(2)
proof (induction cs arbitrary: fs sub)
  case (Cons c cs)
  have step: ?case if e: "dir_loop acc mk fs1 (sub @ [c]) cs = (ok, fs')" and keep: "\<forall>q. acc fs q \<longrightarrow> acc fs1 q"
    and here: "is_sep c \<Longrightarrow> acc fs1 (sub @ [c])" for fs1
    using keep here Cons.IH [OF e] by (auto simp: Cons_eq_append_conv)
  show ?case
  proof (cases "is_sep c \<and> \<not> acc fs (sub @ [c])")
    case True
    obtain made fs1 where m: "mk fs (sub @ [c]) = (made, fs1)" by fastforce
    have "\<forall>q. (acc fs q \<longrightarrow> acc (snd (mk fs (sub @ [c]))) q) \<and> (fst (mk fs (sub @ [c])) \<longrightarrow> acc (snd (mk fs (sub @ [c]))) (sub @ [c]))"
      using law unfolding mkdir_law_def by blast
    then have keep: "\<forall>q. acc fs q \<longrightarrow> acc fs1 q" "made \<Longrightarrow> acc fs1 (sub @ [c])" unfolding m by simp_all
    show ?thesis
    proof (cases made)
      case t: True
      then have "dir_loop acc mk fs1 (sub @ [c]) cs = (ok, fs')" using Cons.prems True m by simp
      then show ?thesis using step keep t by blast
    next
      case False
      then show ?thesis using Cons.prems True m keep(1) by auto
    qed
  next
    case False
    then have e: "dir_loop acc mk fs (sub @ [c]) cs = (ok, fs')" using Cons.prems by (auto split: if_splits)
    show ?thesis using step [OF e] False by blast
  qed
qed simp

text \<open>After success every directory named by a prefix up to a separator exists; what follows the last separator is
  not created.\<close>

lemma createDir_parents:
  assumes "mkdir_law acc mk" and "createDir acc mk fs path = (True, fs')" and "path = pre @ c # post" "is_sep c"
  shows "acc fs' (pre @ [c])"
  using dir_loop_ok [OF assms(1) assms(2) [unfolded createDir_def]] assms(3, 4) by simp

end
