(* ===== verification/ConnMain.thy ===== *)
theory ConnMain
  imports ConnMgr CString
begin

text \<open>
  \<open>ConnServer\<close> of \<open>ConnSvr/src/conn_svr.{h,cc}\<close> and \<open>ConnSvr/src/main.cc\<close>. \<open>Run\<close> is an endless loop of rounds:
  \<open>conn_rounds\<close> is what it does in its first rounds, one for each element of its list. The signals that
  are ignored are in \<open>Signals\<close>.
\<close>

definition same_arg :: "string \<Rightarrow> string \<Rightarrow> bool" where
  "same_arg a b \<longleftrightarrow> map tolower a = map tolower b"

record cmd_line =
  config_file :: string
  daemon :: bool

text \<open>\<open>strncpy\<close> leaves the array without a zero byte when the argument has 256 bytes or more.\<close>

definition conn_ParseArgs :: "string list \<Rightarrow> cmd_line \<Rightarrow> bool \<times> cmd_line" where
  "conn_ParseArgs argv p =
     (if length argv < 2 then (False, p)
      else if length argv = 2 \<and> same_arg (argv ! 1) ''-v'' then (False, p)
      else (True, p\<lparr>config_file := strncpy 256 (argv ! 1), daemon := \<not> list_ex (\<lambda>a. same_arg a ''-nd'') argv\<rparr>))"

definition svr_InitConfig :: "conn_env \<Rightarrow> conn_mgr \<Rightarrow> string \<Rightarrow> (bool \<times> conn_mgr) option option" where
  "svr_InitConfig e m buf =
     (case cstr buf of
        None \<Rightarrow> Some None
      | Some file_name \<Rightarrow> map_option (map_option (\<lambda>(ok, m1). (True, m1))) (conn_InitConfig e m file_name))"

definition svr_InitChannel :: "conn_env \<Rightarrow> shm_mem \<Rightarrow> conn_mgr \<Rightarrow> bool \<times> shm_mem \<times> conn_mgr" where
  "svr_InitChannel e mem m = (let (ok, mem1, m1) = conn_InitChannel e mem m in (True, mem1, m1))"

definition svr_InitSocket :: "conn_env \<Rightarrow> conn_mgr \<Rightarrow> (bool \<times> conn_mgr) option" where
  "svr_InitSocket e m = map_option (\<lambda>(ok, m1). (True, m1)) (conn_InitSocket e m)"

definition svr_Init :: "conn_env \<Rightarrow> shm_mem \<Rightarrow> conn_mgr \<Rightarrow> cmd_line \<Rightarrow> (bool \<times> shm_mem \<times> conn_mgr) option option" where
  "svr_Init e mem m p =
     map_option (\<lambda>r. do {
         (ok, m1) \<leftarrow> r;
         (if \<not> ok then Some (False, mem, m1)
          else
            let (ok2, mem1, m2) = svr_InitChannel e mem m1
            in if \<not> ok2 then Some (False, mem1, m2)
               else do {
                 (ok3, m3) \<leftarrow> svr_InitSocket e m2;
                 Some (if \<not> ok3 then (False, mem1, m3) else (True, mem1, m3)) }) })
       (svr_InitConfig e m (config_file p))"

fun conn_rounds ::
  "'k ksend \<Rightarrow> (nat \<Rightarrow> client_info option) \<Rightarrow> client_mgr \<Rightarrow> round_env list \<Rightarrow> conn_mgr \<times> shm_mem \<times> 'k net \<Rightarrow>
   (conn_mgr \<times> shm_mem \<times> 'k net) option" where
  "conn_rounds ks heap cm [] st = Some st"
| "conn_rounds ks heap cm (r # rs) st = do { st1 \<leftarrow> conn_Update ks r heap cm st; conn_rounds ks heap cm rs st1 }"

text \<open>
  The results of the two calls of \<open>fork\<close> decide whether the process goes on or ends with the status 0; any result
  but zero ends it, also the -1 of a failed call.
\<close>

definition InitDaemon :: "int \<times> int \<Rightarrow> int option" where
  "InitDaemon pids = (if fst pids \<noteq> 0 then Some 0 else if snd pids \<noteq> 0 then Some 0 else None)"

text \<open>How the program is found after the rounds \<open>rs\<close>: ended with a status, stopped by a fault, or in its loop.\<close>

datatype outcome = Exited int | Faulted | Serving

definition conn_main ::
  "'k ksend \<Rightarrow> conn_env \<Rightarrow> int \<times> int \<Rightarrow> cmd_line \<Rightarrow> conn_config \<times> int \<Rightarrow> (nat \<Rightarrow> client_info option) \<Rightarrow> client_mgr \<Rightarrow>
   round_env list \<Rightarrow> shm_mem \<Rightarrow> 'k net \<Rightarrow> string list \<Rightarrow> outcome option" where
  "conn_main ks e pids uninit junk heap cm rs mem n argv =
     (let (parsed, p) = conn_ParseArgs argv uninit
      in if parsed then Some (Exited (-1))
         else case (if daemon p then InitDaemon pids else None) of
           Some status \<Rightarrow> Some (Exited status)
         | None \<Rightarrow> map_option (\<lambda>r. case r of
               None \<Rightarrow> Faulted
             | Some (ok, mem1, m) \<Rightarrow>
                 if \<not> ok then Exited (-1)
                 else (case conn_rounds ks heap cm rs (m, mem1, n) of None \<Rightarrow> Faulted | Some _ \<Rightarrow> Serving))
             (svr_Init e mem (ConnMgr (e_now e) junk) p))"

end
