(* ===== verification/ConnProps.thy ===== *)
theory ConnProps
  imports ConnMain SockProps
begin

text \<open>The properties of the connection server.\<close>

subsection \<open>The configuration\<close>

definition port_name :: "int \<Rightarrow> string" where
  "port_name i = ''ListenPort'' @ fmt_d 0 (i + 1)"

lemma read_ports_from:
  assumes "0 \<le> i" and "n \<le> int (length ports)"
  shows "\<exists>ps. read_ports rd i n ports = Some ps \<and> length ps = length ports \<and>
    (\<forall>j < length ports. ps ! j = (if i \<le> int j \<and> int j < n then GetValueAsString rd (port_name (int j)) [] else ports ! j))"
  using assms
proof (induction rd i n ports rule: read_ports.induct)
  case (1 rd i n ports)
  show ?case
  proof (cases "i < n")
    case True
    let ?ps = "ports[nat i := GetValueAsString rd (port_name i) []]"
    have c: "0 \<le> i \<and> i < int (length ports)" using True 1(2, 3) by simp
    from 1(1) [OF True c] 1(2, 3) obtain ps where ps: "read_ports rd (i + 1) n ?ps = Some ps" "length ps = length ports"
      "\<forall>j < length ports. ps ! j = (if i + 1 \<le> int j \<and> int j < n then GetValueAsString rd (port_name (int j)) [] else ?ps ! j)"
      by (auto simp: port_name_def)
    have "ps ! j = (if i \<le> int j \<and> int j < n then GetValueAsString rd (port_name (int j)) [] else ports ! j)"
      if "j < length ports" for j
      using ps(3) that True c by (cases "int j = i") auto
    moreover have "read_ports rd i n ports = Some ps"
      using True c ps(1) by (subst read_ports.simps) (simp add: port_name_def)
    ultimately show ?thesis using ps(2) by auto
  next
    case False
    then have "read_ports rd i n ports = Some ports" by (subst read_ports.simps) simp
    then show ?thesis using False by auto
  qed
qed

lemma read_ports_over:
  assumes "0 \<le> i" "i \<le> int (length ports)" "int (length ports) < n"
  shows "read_ports rd i n ports = None"
  using assms
proof (induction rd i n ports rule: read_ports.induct)
  case (1 rd i n ports)
  show ?case
  proof (cases "i < int (length ports)")
    case True
    then have "i < n" "0 \<le> i \<and> i < int (length ports)" using 1(2, 4) by simp_all
    then show ?thesis using 1(1) 1(2-4) True by (subst read_ports.simps) simp
  next
    case False
    have "i < n" using 1(3, 4) by simp
    then show ?thesis using False by (subst read_ports.simps) simp
  qed
qed

text \<open>The loop over the listening ports reads entry \<open>i\<close> from \<open>ListenPort<i+1>\<close> and leaves the others, when the
  count in the file is at most ten; a larger count writes past the end of \<open>listen_ports\<close>.\<close>
theorem ports_fit_iff:
  assumes "length ports = MAX_LISTEN_PORT_COUNT"
  shows "if n \<le> 10
    then \<exists>ps. read_ports rd 0 n ports = Some ps \<and> length ps = 10 \<and> (\<forall>j < 10. ps ! j =
      (if int j < n then GetValueAsString rd (''ListenPort'' @ fmt_d 0 (int j + 1)) [] else ports ! j))
    else read_ports rd 0 n ports = None"
proof (cases "n \<le> 10")
  case True
  with assms read_ports_from [of 0 n ports rd] show ?thesis
    by (auto simp: MAX_LISTEN_PORT_COUNT_def port_name_def)
next
  case False
  then show ?thesis using assms read_ports_over [of 0 ports n rd] by (simp add: MAX_LISTEN_PORT_COUNT_def)
qed

lemma ports_fit_iff_witness:
  "read_ports None 0 11 (replicate MAX_LISTEN_PORT_COUNT []) = None \<and> read_ports None 0 2 (replicate MAX_LISTEN_PORT_COUNT []) \<noteq> None"
  using ports_fit_iff [of "replicate MAX_LISTEN_PORT_COUNT []" 11 None]
    ports_fit_iff [of "replicate MAX_LISTEN_PORT_COUNT []" 2 None] by auto

text \<open>The values that are left when no file is read.\<close>

definition default_config :: "conn_config \<Rightarrow> conn_config" where
  "default_config c = c\<lparr>max_accept_client := 5000, client_socket_timeout := 90, wait_reconnect_timeout := 90,
     listen_client_ip := [], listen_port_count := 0, tcp_send_buf_size := 0, max_cached_send_time_ms := 20,
     max_cached_send_buff_size := 5120\<rparr>"

lemma read_config_default: "read_config None c = Some (default_config c)"
  by (simp add: read_config_def GetValueAsUInt_def GetValueAsInt_def GetValueAsString_def read_ports.simps
      default_config_def i32_def Let_def)

definition demo_config :: conn_config where
  "demo_config = \<lparr>max_accept_client = 0, client_socket_timeout = 0, wait_reconnect_timeout = 0, listen_client_ip = [],
     listen_port_count = 0, listen_ports = [], tcp_send_buf_size = 0, max_cached_send_time_ms = 0, max_cached_send_buff_size = 0\<rparr>"

subsection \<open>Messages from the zone\<close>

lemma nonempty_hd: "nonempty (case ms of [] \<Rightarrow> [] | m # _ \<Rightarrow> [m]) = nonempty [case ms of [] \<Rightarrow> [] | m # _ \<Rightarrow> m]"
  by (cases ms) auto

lemma pkg_loop_takes:
  assumes "recv_queue c = Some a" and "queue_holds (mem a) ms" and "0 \<le> cnt" "cnt \<le> 100"
    and "\<forall>m \<in> set (take (nat (100 - cnt)) ms). int (length m) \<le> PKG_BUF_SIZE"
  shows "\<exists>ds mem'. pkg_loop c cnt l mem = Some (ds, mem') \<and> length ds = nat (100 - cnt) \<and>
    nonempty ds = nonempty (take (nat (100 - cnt)) ms) \<and> queue_holds (mem' a) (drop (nat (100 - cnt)) ms) \<and>
    (\<forall>b. b \<noteq> a \<longrightarrow> mem' b = mem b)"
  using assms(2-5)
proof (induction "nat (100 - cnt)" arbitrary: cnt l mem ms)
  case 0
  then have "pkg_loop c cnt l mem = Some ([], mem)" by (subst pkg_loop.simps) (simp add: MAX_MSG_PROC_ONCE_def)
  then show ?case using 0 by simp
next
  case (Suc k)
  then have cnt: "cnt < 100" and k: "nat (100 - (cnt + 1)) = k" by simp_all
  obtain s d l1 where s: "chan_RecvMsg mem c False l = Some (True, l1, d, mem(a := s))" "queue_holds s (tl ms)"
    "d = (case ms of [] \<Rightarrow> [] | m # _ \<Rightarrow> m)"
    by (rule chan_RecvMsg_step [where mem = mem and a = a and ?l0.0 = l, OF assms(1) Suc.prems(1)])
  have d: "int (length d) \<le> PKG_BUF_SIZE"
    using s(3) Suc.prems(4) Suc.hyps(2) [symmetric] by (cases ms) (auto simp: PKG_BUF_SIZE_def MAX_SERVER_PACK_LEN_def sizeof_ConnMsgHead_def)
  have t: "\<forall>m \<in> set (take (nat (100 - (cnt + 1))) (tl ms)). int (length m) \<le> PKG_BUF_SIZE"
    using Suc.prems(4) Suc.hyps(2) [symmetric] k by (cases ms) auto
  have q: "queue_holds ((mem(a := s)) a) (tl ms)" using s(2) by simp
  from Suc.hyps(1) [where mem = "mem(a := s)" and l = l1, OF k [symmetric] q _ _ t] cnt Suc.prems(2) obtain ds mem' where
    r: "pkg_loop c (cnt + 1) l1 (mem(a := s)) = Some (ds, mem')" "length ds = k" "nonempty ds = nonempty (take k (tl ms))"
      "queue_holds (mem' a) (drop k (tl ms))" "\<forall>b. b \<noteq> a \<longrightarrow> mem' b = (mem(a := s)) b"
    unfolding k by auto
  have "pkg_loop c cnt l mem = Some (d # ds, mem')"
    using cnt s(1) d r(1) by (subst pkg_loop.simps) (simp add: MAX_MSG_PROC_ONCE_def)
  moreover have "nonempty (d # ds) = nonempty (take (Suc k) ms)" using s(3) r(3) by (cases ms) simp_all
  moreover have "drop (Suc k) ms = drop k (tl ms)" by (simp add: drop_Suc)
  ultimately show ?case using r Suc.hyps(2) [symmetric] by simp
qed

lemma pkg_loop_overflows:
  assumes "recv_queue c = Some a" and "queue_holds (mem a) ms" and "0 \<le> cnt" "cnt \<le> 100"
    and "\<exists>m \<in> set (take (nat (100 - cnt)) ms). int (length m) > PKG_BUF_SIZE"
  shows "pkg_loop c cnt l mem = None"
  using assms(2-5)
proof (induction "nat (100 - cnt)" arbitrary: cnt l mem ms)
  case (Suc k)
  then have cnt: "cnt < 100" and k: "nat (100 - (cnt + 1)) = k" by simp_all
  obtain m ms' where ms: "ms = m # ms'" using Suc.prems(4) by (cases ms) auto
  obtain s d l1 where s: "chan_RecvMsg mem c False l = Some (True, l1, d, mem(a := s))" "queue_holds s (tl ms)"
    "d = (case ms of [] \<Rightarrow> [] | m # _ \<Rightarrow> m)"
    by (rule chan_RecvMsg_step [where mem = mem and a = a and ?l0.0 = l, OF assms(1) Suc.prems(1)])
  show ?case
  proof (cases "int (length m) > PKG_BUF_SIZE")
    case True
    then show ?thesis using cnt s ms by (subst pkg_loop.simps) (simp add: MAX_MSG_PROC_ONCE_def)
  next
    case False
    have q: "queue_holds ((mem(a := s)) a) ms'" using s(2) ms by simp
    have "\<exists>x \<in> set (take (nat (100 - (cnt + 1))) ms'). int (length x) > PKG_BUF_SIZE"
      using Suc.prems(4) False ms Suc.hyps(2) [symmetric] k by auto
    then have "pkg_loop c (cnt + 1) l1 (mem(a := s)) = None"
      using Suc.hyps(1) [where mem = "mem(a := s)", OF k [symmetric] q] cnt Suc.prems(2) by simp
    then show ?thesis using cnt s ms False by (subst pkg_loop.simps) (simp add: MAX_MSG_PROC_ONCE_def)
  qed
qed simp

text \<open>C29. One call of \<open>HandlerPkgFromZone\<close> always makes a hundred rounds: it takes the oldest hundred messages of
  the zone's queue, or all when there are fewer, leaves the others and every other segment, and passes none
  on. If one of them is longer than the static buffer of 1058840 bytes, the buffer is overrun - the queue
  accepts messages up to its own size.\<close>
theorem handler_takes_100:
  assumes "recv_queue (chan m) = Some a" and "queue_holds (mem a) ms"
  shows "if \<forall>x \<in> set (take 100 ms). int (length x) \<le> 1058840
    then \<exists>ds mem'. HandlerPkgFromZone mem m = Some (ds, mem') \<and> length ds = 100 \<and>
      nonempty ds = nonempty (take 100 ms) \<and> queue_holds (mem' a) (drop 100 ms) \<and> (\<forall>b. b \<noteq> a \<longrightarrow> mem' b = mem b)
    else HandlerPkgFromZone mem m = None"
proof (cases "\<forall>x \<in> set (take 100 ms). int (length x) \<le> 1058840")
  case True
  have "\<exists>ds mem'. pkg_loop (chan m) 0 0 mem = Some (ds, mem') \<and> length ds = nat (100 - 0) \<and>
      nonempty ds = nonempty (take (nat (100 - 0)) ms) \<and> queue_holds (mem' a) (drop (nat (100 - 0)) ms) \<and>
      (\<forall>b. b \<noteq> a \<longrightarrow> mem' b = mem b)"
    by (rule pkg_loop_takes [where mem = mem and a = a, OF assms]) (use True in \<open>simp_all add: PKG_BUF_SIZE_def MAX_SERVER_PACK_LEN_def sizeof_ConnMsgHead_def\<close>)
  then show ?thesis using True by (simp add: HandlerPkgFromZone_def)
next
  case False
  have "pkg_loop (chan m) 0 0 mem = None"
    by (rule pkg_loop_overflows [where mem = mem and a = a, OF assms])
      (use False in \<open>auto simp: PKG_BUF_SIZE_def MAX_SERVER_PACK_LEN_def sizeof_ConnMsgHead_def not_le\<close>)
  then show ?thesis using False by (simp add: HandlerPkgFromZone_def)
qed

lemma handler_takes_100_witness:
  "let s = \<lparr>head_idx = 0, tail_idx = 7, sh_size = 40, queue_buff = [3, 0, 0, 0, 1, 2, 3] @ replicate 33 0\<rparr>;
       m = (ConnMgr 0 (demo_config, 0))\<lparr>chan := \<lparr>recv_queue = Some 4, send_queue = None, send_shm = None, recv_shm = None\<rparr>\<rparr>
   in \<exists>ds mem'. HandlerPkgFromZone (\<lambda>_. s) m = Some (ds, mem') \<and> length ds = 100 \<and> nonempty ds = [[1, 2, 3]] \<and>
     queue_holds (mem' 4) []"
proof -
  let ?s = "\<lparr>head_idx = 0, tail_idx = 7, sh_size = 40, queue_buff = [3, 0, 0, 0, 1, 2, 3] @ replicate 33 0\<rparr>"
  let ?m = "(ConnMgr 0 (demo_config, 0))\<lparr>chan := \<lparr>recv_queue = Some 4, send_queue = None, send_shm = None, recv_shm = None\<rparr>\<rparr>"
  have "ring_read (queue_buff ?s) 0 7 = frames [[1, 2, 3]]" by code_simp
  then have "queue_holds ?s [[1, 2, 3]]"
    by (simp add: queue_holds_def queue_ok_def queue_used_def used_def ring_ok_def idx_ok_def QUEUE_VACUUM_SLOT_def)
  then show ?thesis using handler_takes_100 [of ?m 4 "\<lambda>_. ?s" "[[1, 2, 3]]"] unfolding Let_def by auto
qed

end
