(* ===== verification/Zone.thy ===== *)
theory Zone
  imports RunFlags ConnMain ConfText
begin

text \<open>
  The zone server: \<open>Zone/src/main.cc\<close>, \<open>CWorld\<close> of \<open>Zone/src/system/world.cc\<close>, \<open>LoadConfig\<close> of
  \<open>Zone/src/framework/zone_config.cc\<close> and the root path of \<open>common/platform/os_fs.cc\<close>.

  \<^item> \<open>Loop\<close> reads the run flags once a round: \<open>fl i\<close> is their value in round \<open>i\<close>. The loop is a
    \<open>partial_function\<close>: its value is \<open>None\<close> exactly when it does not return.
  \<^item> \<open>InitLog\<close>, \<open>InitChannel\<close>, \<open>InitSocket\<close>, \<open>UpdateSocket\<close> and \<open>HandleAsynQueue\<close> are empty and have the fixed
    results of the source. Signals are the subject of \<open>Signals\<close>; output and random seeds are left out.
\<close>

subsection \<open>Configuration\<close>

record zone_config =
  root_path :: string
  listen_conn_ip :: string
  listen_conn_port :: string

record zone_globals =
  g_zone_config :: zone_config
  g_default_root_path :: string
  g_zone_running :: bool

definition SetDefaultRootPath :: "string \<Rightarrow> zone_globals \<Rightarrow> zone_globals" where
  "SetDefaultRootPath path g = g\<lparr>g_default_root_path := path\<rparr>"

definition GetDefaultRootPath :: "zone_globals \<Rightarrow> string" where
  "GetDefaultRootPath g = g_default_root_path g"

text \<open>The outer \<open>None\<close> is too little fuel for included files, the inner \<open>None\<close> a fault.\<close>

definition LoadConfig :: "nat \<Rightarrow> conf_host \<Rightarrow> string \<Rightarrow> zone_globals \<Rightarrow> (bool \<times> zone_globals) option option" where
  "LoadConfig fuel h file_name g =
     map_option (map_option (\<lambda>(opened, rd).
         if \<not> opened then (False, g)
         else
           let g1 = g\<lparr>g_zone_config := (g_zone_config g)\<lparr>root_path := GetValueAsString rd ''RootPath'' []\<rparr>\<rparr>;
               g2 = SetDefaultRootPath (root_path (g_zone_config g1)) g1;
               g3 = g2\<lparr>g_zone_config := (g_zone_config g2)\<lparr>listen_conn_ip := GetValueAsString rd ''ListenConnIP'' []\<rparr>\<rparr>
           in (True, g3\<lparr>g_zone_config := (g_zone_config g3)\<lparr>listen_conn_ip := GetValueAsString rd ''ListenConnPort'' []\<rparr>\<rparr>)))
       (SetSource fuel h file_name True)"

subsection \<open>\<open>CWorld\<close>\<close>

record world =
  zone_id :: int
  shm_id :: int
  current_online_num :: int

definition CWorld :: world where
  "CWorld = \<lparr>zone_id = -1, shm_id = -1, current_online_num = 0\<rparr>"

definition world_InitConfig :: "nat \<Rightarrow> conf_host \<Rightarrow> string \<Rightarrow> zone_globals \<Rightarrow> (int \<times> zone_globals) option option" where
  "world_InitConfig fuel h file_name g =
     map_option (map_option (\<lambda>(ret, g1). if \<not> ret then (-1, g1) else (0, g1))) (LoadConfig fuel h file_name g)"

definition world_InitLog :: int where "world_InitLog = 0"
definition world_InitChannel :: int where "world_InitChannel = 0"
definition world_InitSocket :: bool where "world_InitSocket = True"

definition world_Initialize :: "bool \<Rightarrow> int" where
  "world_Initialize is_resume =
     (if world_InitChannel < 0 then -1 else if \<not> world_InitSocket then -1 else 0)"

definition DoPrepare :: "bool \<Rightarrow> int" where
  "DoPrepare is_resume = (if world_Initialize is_resume \<noteq> 0 then -1 else 0)"

text \<open>The segments that \<open>shmctl\<close> removes.\<close>

definition ClearShm :: "world \<Rightarrow> int list" where
  "ClearShm w = (if shm_id w > 0 then [shm_id w] else [])"

definition Prepare :: "world \<Rightarrow> bool \<Rightarrow> int \<times> int list" where
  "Prepare w is_resume =
     (if DoPrepare is_resume \<noteq> 0 then (-1, if \<not> is_resume then ClearShm w else []) else (0, []))"

partial_function (option) world_Loop :: "(nat \<Rightarrow> flags) \<Rightarrow> nat \<Rightarrow> int option" where
  "world_Loop fl i = (if CheckRunFlags (fl i) \<noteq> FLAG_START_NORMAL then Some 0 else world_Loop fl (i + 1))"

subsection \<open>The program\<close>

record zone_cmd =
  zone_file :: string
  is_daemon :: bool
  cmd_resume :: bool

text \<open>\<open>strcpy\<close> into \<open>char[256]\<close>: a longer argument is written past the end.\<close>

definition zone_ParseArgs :: "string list \<Rightarrow> zone_cmd \<Rightarrow> (bool \<times> zone_cmd) option" where
  "zone_ParseArgs argv p =
     (if length argv \<le> 1 then Some (False, p)
      else if same_arg (argv ! 1) ''-v'' then Some (False, p)
      else if length (argv ! 1) + 1 > 256 then None
      else Some (True, p\<lparr>zone_file := argv ! 1, is_daemon := \<not> list_ex (\<lambda>a. same_arg a ''-nd'') argv, cmd_resume := False\<rparr>))"

definition ZoneInit ::
  "nat \<Rightarrow> conf_host \<Rightarrow> string list \<Rightarrow> zone_cmd \<Rightarrow> bool \<Rightarrow> zone_globals \<Rightarrow> (int \<times> zone_globals) option option" where
  "ZoneInit fuel h argv uninit is_resume g =
     (case zone_ParseArgs argv uninit of
        None \<Rightarrow> Some None
      | Some (parsed, p) \<Rightarrow>
          if \<not> parsed then Some (Some (-1, g))
          else map_option (map_option (\<lambda>(r, g1).
                 if r < 0 then (-1, g1) else if world_InitLog < 0 then (-1, g1) else (0, g1)))
               (world_InitConfig fuel h (zone_file p) g))"

definition ZonePrepare :: "world \<Rightarrow> bool \<Rightarrow> int \<times> int list" where
  "ZonePrepare w is_resume = (let (r, rm) = Prepare w is_resume in if r < 0 then (-1, rm) else (0, rm))"

text \<open>
  \<open>ZoneExited\<close> is the status with which \<open>main\<close> returns and whether the loop was entered; \<open>ZoneLooping\<close> stands for
  a loop that never returns.
\<close>

datatype zone_outcome = ZoneExited int bool | ZoneFaulted | ZoneLooping

definition zone_main ::
  "nat \<Rightarrow> conf_host \<Rightarrow> (nat \<Rightarrow> flags) \<Rightarrow> string list \<Rightarrow> zone_cmd \<Rightarrow> world \<Rightarrow> zone_globals \<Rightarrow> (zone_outcome \<times> zone_globals) option" where
  "zone_main fuel h fl argv uninit w g0 =
     (let is_resume = False; g = g0\<lparr>g_zone_running := False\<rparr>
      in case ZoneInit fuel h argv uninit is_resume g of
        None \<Rightarrow> None
      | Some None \<Rightarrow> Some (ZoneFaulted, g)
      | Some (Some (r, g1)) \<Rightarrow>
          if r \<noteq> 0 then Some (ZoneExited (-1) False, g1)
          else if fst (ZonePrepare w is_resume) \<noteq> 0 then Some (ZoneExited (-1) False, g1)
          else
            let g2 = g1\<lparr>g_zone_running := True\<rparr>
            in Some (case world_Loop fl 0 of None \<Rightarrow> ZoneLooping | Some _ \<Rightarrow> ZoneExited 0 True, g2))"

subsection \<open>Properties\<close>

definition quit_seen :: "(nat \<Rightarrow> flags) \<Rightarrow> nat \<Rightarrow> bool" where
  "quit_seen fl i \<longleftrightarrow> CheckRunFlags (fl i) \<noteq> FLAG_START_NORMAL"

lemma world_Loop_returns:
  assumes "world_Loop fl i = Some r"
  shows "r = 0 \<and> (\<exists>j \<ge> i. quit_seen fl j)"
proof (rule world_Loop.raw_induct [where P = "\<lambda>fl i r. r = 0 \<and> (\<exists>j \<ge> i. quit_seen fl j)", OF _ assms])
  fix loop fl i r
  assume IH: "\<And>fl i r. loop fl i = Some r \<Longrightarrow> r = 0 \<and> (\<exists>j \<ge> i. quit_seen fl j)"
    and r: "(if CheckRunFlags (fl i) \<noteq> FLAG_START_NORMAL then Some 0 else loop fl (i + 1)) = Some r"
  show "r = 0 \<and> (\<exists>j \<ge> i. quit_seen fl j)"
  proof (cases "quit_seen fl i")
    case True
    then show ?thesis using r by (auto simp: quit_seen_def)
  next
    case False
    then have "r = 0 \<and> (\<exists>j \<ge> i + 1. quit_seen fl j)" using r by (intro IH) (simp add: quit_seen_def)
    then show ?thesis by (meson add_leD1)
  qed
qed

lemma world_Loop_quits: "quit_seen fl (i + k) \<Longrightarrow> world_Loop fl i = Some 0"
proof (induction k arbitrary: i)
  case 0
  then show ?case by (subst world_Loop.simps) (simp add: quit_seen_def)
next
  case (Suc k)
  then have "world_Loop fl (i + 1) = Some 0" by simp
  then show ?case by (subst world_Loop.simps) simp
qed

lemma CheckRunFlags_quits: "CheckRunFlags f \<noteq> FLAG_START_NORMAL \<longleftrightarrow>
    IsFlagSet f FLAG_QUIT_AFTER_KICK_ALL_USER \<or> IsFlagSet f FLAG_QUIT_NORMAL"
  by (simp add: CheckRunFlags_def app_flags)

lemma zone_loop_result:
  assumes "ZoneInit fuel h argv uninit False (g\<lparr>g_zone_running := False\<rparr>) = Some (Some (0, g1))"
  shows "zone_main fuel h fl argv uninit w g =
    Some (if \<exists>i. IsFlagSet (fl i) FLAG_QUIT_AFTER_KICK_ALL_USER \<or> IsFlagSet (fl i) FLAG_QUIT_NORMAL
          then ZoneExited 0 True else ZoneLooping, g1\<lparr>g_zone_running := True\<rparr>)"
proof -
  have p: "fst (ZonePrepare w False) = 0"
    by (simp add: ZonePrepare_def Prepare_def DoPrepare_def world_Initialize_def world_InitChannel_def world_InitSocket_def)
  have "world_Loop fl 0 = (if \<exists>i. quit_seen fl i then Some 0 else None)"
    using world_Loop_quits [of fl 0] world_Loop_returns [of fl 0] by (cases "world_Loop fl 0") auto
  then show ?thesis using assms p by (simp add: zone_main_def quit_seen_def CheckRunFlags_quits)
qed

text \<open>C23. Termination of the zone. Once its set-up has succeeded, the zone returns from its loop, with the status 0,
  exactly when in some round the flags ask for a normal exit or for one after kicking all users; with flags
  that never do it loops for ever. No other flag ends it.\<close>
theorem zone_ends_iff_asked:
  assumes "ZoneInit fuel h argv uninit False (g\<lparr>g_zone_running := False\<rparr>) = Some (Some (0, g1))"
  shows "zone_main fuel h fl argv uninit w g =
    Some (if \<exists>i. IsFlagSet (fl i) FLAG_QUIT_AFTER_KICK_ALL_USER \<or> IsFlagSet (fl i) FLAG_QUIT_NORMAL
          then ZoneExited 0 True else ZoneLooping, g1\<lparr>g_zone_running := True\<rparr>)"
  by (rule zone_loop_result [OF assms])

text \<open>C36. From the text of a configuration to the state of the zone. For a file that assigns quoted values to plain
  names, \<open>LoadConfig\<close> takes the root path - also as the default root path - from the first line for
  \<open>RootPath\<close>, in any case of letters. The address becomes the value of \<open>ListenConnPort\<close>: the address in the file
  is lost, and the port member keeps its old value.\<close>
theorem zone_config_loaded:
  assumes "\<forall>kv\<in>set kvs. plain_entry kv"
    and "realpath h file = Some rp" "openread h rp = Some (conf_text kvs)" "length kvs < fuel"
  defines "entry \<equiv> (\<lambda>nm. case filter (\<lambda>kv. map tolower nm = map tolower (fst kv)) kvs of [] \<Rightarrow> [] | kv # _ \<Rightarrow> snd kv)"
  shows "\<exists>g'. LoadConfig fuel h file g = Some (Some (True, g')) \<and>
    root_path (g_zone_config g') = entry ''RootPath'' \<and> GetDefaultRootPath g' = entry ''RootPath'' \<and>
    listen_conn_ip (g_zone_config g') = entry ''ListenConnPort'' \<and>
    listen_conn_port (g_zone_config g') = listen_conn_port (g_zone_config g)"
proof -
  obtain d where "SetSource fuel h file True = Some (Some (True, Some d))"
    "\<And>nm def. GetValueAsString (Some d) nm def =
       (case filter (\<lambda>kv. map tolower nm = map tolower (fst kv)) kvs of [] \<Rightarrow> def | kv # _ \<Rightarrow> snd kv)"
    using conf_reads [OF assms(1-4), of True] by auto
  then show ?thesis by (simp add: LoadConfig_def SetDefaultRootPath_def GetDefaultRootPath_def entry_def)
qed

definition zone_host :: "(string \<times> string) list \<Rightarrow> conf_host" where
  "zone_host kvs = \<lparr>realpath = Some, openread = (\<lambda>_. Some (conf_text kvs)), access = (\<lambda>_. True), getenv = (\<lambda>_. None)\<rparr>"

definition zone_start :: zone_globals where
  "zone_start = \<lparr>g_zone_config = \<lparr>root_path = [], listen_conn_ip = [], listen_conn_port = []\<rparr>,
     g_default_root_path = [], g_zone_running = False\<rparr>"

lemma zone_entries: "\<forall>kv\<in>set [(''rootpath'', ''/srv/zone''), (''ListenConnIP'', ''10.0.0.1''), (''ListenConnPort'', ''9999'')]. plain_entry kv"
  by code_simp

lemma zone_config_loaded_witness:
  "\<exists>g'. LoadConfig 4 (zone_host [(''rootpath'', ''/srv/zone''), (''ListenConnIP'', ''10.0.0.1''), (''ListenConnPort'', ''9999'')])
      ''zone.conf'' zone_start = Some (Some (True, g')) \<and>
     root_path (g_zone_config g') = ''/srv/zone'' \<and> listen_conn_ip (g_zone_config g') = ''9999''"
proof -
  let ?kvs = "[(''rootpath'', ''/srv/zone''), (''ListenConnIP'', ''10.0.0.1''), (''ListenConnPort'', ''9999'')]"
  have l: "map tolower ''RootPath'' = map tolower ''rootpath''" "map tolower ''ListenConnPort'' \<noteq> map tolower ''rootpath''"
    "map tolower ''ListenConnPort'' \<noteq> map tolower ''ListenConnIP''" by code_simp+
  show ?thesis
    using zone_config_loaded [OF zone_entries, of "zone_host ?kvs" "''zone.conf''" "''zone.conf''" 4 zone_start] l
    by (auto simp: zone_host_def)
qed

lemma zone_start_ok:
  "\<exists>g1. ZoneInit 1 (zone_host []) [''zone'', ''a.conf''] \<lparr>zone_file = [], is_daemon = False, cmd_resume = False\<rparr> False
     (zone_start\<lparr>g_zone_running := False\<rparr>) = Some (Some (0, g1))"
proof -
  obtain d where "SetSource 1 (zone_host []) ''a.conf'' True = Some (Some (True, Some d))"
    using conf_reads [of "[]" "zone_host []" "''a.conf''" "''a.conf''" 1 True] by (auto simp: zone_host_def)
  then show ?thesis
    by (simp add: ZoneInit_def zone_ParseArgs_def same_arg_def tolower_def world_InitConfig_def LoadConfig_def world_InitLog_def SetDefaultRootPath_def)
qed

lemma zone_ends_iff_asked_witness:
  "\<exists>g1. zone_main 1 (zone_host []) (\<lambda>i. if i < 3 then FLAG_START_NORMAL else FLAG_QUIT_NORMAL) [''zone'', ''a.conf'']
      \<lparr>zone_file = [], is_daemon = False, cmd_resume = False\<rparr> CWorld zone_start = Some (ZoneExited 0 True, g1) \<and>
    zone_main 1 (zone_host []) (\<lambda>_. FLAG_START_NORMAL) [''zone'', ''a.conf'']
      \<lparr>zone_file = [], is_daemon = False, cmd_resume = False\<rparr> CWorld zone_start = Some (ZoneLooping, g1)"
proof -
  let ?p = "\<lparr>zone_file = [], is_daemon = False, cmd_resume = False\<rparr>"
  obtain g1 where i: "ZoneInit 1 (zone_host []) [''zone'', ''a.conf''] ?p False (zone_start\<lparr>g_zone_running := False\<rparr>) = Some (Some (0, g1))"
    using zone_start_ok by blast
  let ?fl = "\<lambda>i :: nat. if i < 3 then FLAG_START_NORMAL else FLAG_QUIT_NORMAL"
  have q: "\<exists>i. IsFlagSet (?fl i) FLAG_QUIT_AFTER_KICK_ALL_USER \<or> IsFlagSet (?fl i) FLAG_QUIT_NORMAL"
    by (rule exI [of _ 3]) (simp add: IsFlagSet_def app_flags)
  have n: "\<not> (\<exists>i :: nat. IsFlagSet FLAG_START_NORMAL FLAG_QUIT_AFTER_KICK_ALL_USER \<or> IsFlagSet FLAG_START_NORMAL FLAG_QUIT_NORMAL)"
    by (simp add: IsFlagSet_def app_flags)
  show ?thesis
    using zone_ends_iff_asked [OF i, of ?fl CWorld, unfolded if_P [OF q]]
      zone_ends_iff_asked [OF i, of "\<lambda>_. FLAG_START_NORMAL" CWorld, unfolded if_not_P [OF n]] by blast
qed

end
