(* ===== verification/Signals.thy ===== *)
theory Signals
  imports Zone
begin

text \<open>
  Signals: \<open>IgnoreSignal\<close> and \<open>IgnorePipe\<close> of \<open>common/platform/os_comm.cc\<close>, the two functions \<open>ProcessSignal\<close> of
  \<open>ConnSvr/src/main.cc\<close> and \<open>Zone/src/main.cc\<close>, and what the signals that arrive do to the run flags of the zone.

  \<^item> A table gives the action for each signal; \<open>sigaction\<close> stands for both \<open>signal\<close> and \<open>sigaction\<close> (no flags, an
    empty mask). The only handler of the program is \<open>SigExitAfterAllKick\<close>. The numbers are those of Linux.
  \<^item> \<open>dfl s\<close>: the default action of signal \<open>s\<close> ends the process. \<open>None\<close> is a process ended by a signal.
\<close>

subsection \<open>Actions\<close>

datatype sig_action = SIG_DFL | SIG_IGN | SIG_HANDLER

type_synonym sig_table = "int \<Rightarrow> sig_action"

definition SIGHUP :: int where "SIGHUP = 1"
definition SIGINT :: int where "SIGINT = 2"
definition SIGQUIT :: int where "SIGQUIT = 3"
definition SIGPIPE :: int where "SIGPIPE = 13"
definition SIGTERM :: int where "SIGTERM = 15"
definition SIGCHLD :: int where "SIGCHLD = 17"
definition SIGTTIN :: int where "SIGTTIN = 21"
definition SIGTTOU :: int where "SIGTTOU = 22"

lemmas signal_numbers = SIGHUP_def SIGINT_def SIGQUIT_def SIGPIPE_def SIGTERM_def SIGCHLD_def SIGTTIN_def SIGTTOU_def

definition sigaction :: "int \<Rightarrow> sig_action \<Rightarrow> sig_table \<Rightarrow> sig_table" where
  "sigaction sign act t = t(sign := act)"

definition IgnoreSignal :: "int \<Rightarrow> sig_table \<Rightarrow> sig_table" where
  "IgnoreSignal sign t = sigaction sign SIG_IGN t"

definition IgnorePipe :: "sig_table \<Rightarrow> sig_table" where
  "IgnorePipe t = sigaction SIGPIPE SIG_IGN t"

definition conn_ProcessSignal :: "sig_table \<Rightarrow> sig_table" where
  "conn_ProcessSignal t0 =
     (let t1 = IgnoreSignal SIGHUP t0;
          t2 = IgnoreSignal SIGPIPE t1;
          t3 = IgnoreSignal SIGTTOU t2;
          t4 = IgnoreSignal SIGTTIN t3;
          t5 = IgnoreSignal SIGCHLD t4
      in IgnoreSignal SIGINT t5)"

definition zone_ProcessSignal :: "sig_table \<Rightarrow> sig_table" where
  "zone_ProcessSignal t0 =
     (let t1 = sigaction SIGHUP SIG_IGN t0;
          t2 = sigaction SIGPIPE SIG_IGN t1;
          t3 = sigaction SIGTTOU SIG_IGN t2;
          t4 = sigaction SIGTTIN SIG_IGN t3;
          t5 = sigaction SIGCHLD SIG_IGN t4;
          t6 = sigaction SIGTERM SIG_HANDLER t5
      in sigaction SIGQUIT SIG_HANDLER t6)"

subsection \<open>Signals that arrive\<close>

text \<open>The body of the handler is empty.\<close>

definition SigExitAfterAllKick :: "int \<Rightarrow> flags \<Rightarrow> flags" where
  "SigExitAfterAllKick sig_val g_run_flags = g_run_flags"

definition deliver :: "(int \<Rightarrow> bool) \<Rightarrow> sig_table \<Rightarrow> int \<Rightarrow> flags \<Rightarrow> flags option" where
  "deliver dfl t s fl =
     (case t s of
        SIG_DFL \<Rightarrow> if dfl s then None else Some fl
      | SIG_IGN \<Rightarrow> Some fl
      | SIG_HANDLER \<Rightarrow> Some (SigExitAfterAllKick s fl))"

primrec deliver_all :: "(int \<Rightarrow> bool) \<Rightarrow> sig_table \<Rightarrow> int list \<Rightarrow> flags \<Rightarrow> flags option" where
  "deliver_all dfl t [] fl = Some fl"
| "deliver_all dfl t (s # ss) fl = do { fl1 \<leftarrow> deliver dfl t s fl; deliver_all dfl t ss fl1 }"

text \<open>The flags that round \<open>i\<close> of the loop sees; \<open>sigs j\<close> are the signals that arrive before round \<open>j\<close>.\<close>

primrec flags_at :: "(int \<Rightarrow> bool) \<Rightarrow> sig_table \<Rightarrow> (nat \<Rightarrow> int list) \<Rightarrow> nat \<Rightarrow> flags option" where
  "flags_at dfl t sigs 0 = deliver_all dfl t (sigs 0) CRunFlag_new"
| "flags_at dfl t sigs (Suc i) = do { fl \<leftarrow> flags_at dfl t sigs i; deliver_all dfl t (sigs (Suc i)) fl }"

definition deadly :: "(int \<Rightarrow> bool) \<Rightarrow> sig_table \<Rightarrow> int \<Rightarrow> bool" where
  "deadly dfl t s \<longleftrightarrow> t s = SIG_DFL \<and> dfl s"

lemma deliver_cases: "deliver dfl t s fl = (if deadly dfl t s then None else Some fl)"
  by (simp add: deliver_def deadly_def SigExitAfterAllKick_def split: sig_action.split)

lemma deliver_all_cases: "deliver_all dfl t ss fl = (if \<exists>s\<in>set ss. deadly dfl t s then None else Some fl)"
  by (induction ss) (simp_all add: deliver_cases)

lemma flags_at_cases:
  "flags_at dfl t sigs i = (if \<exists>j\<le>i. \<exists>s\<in>set (sigs j). deadly dfl t s then None else Some CRunFlag_new)"
  by (induction i) (auto simp: deliver_all_cases le_Suc_eq split: if_splits)

lemma zone_deadly:
  "deadly dfl (zone_ProcessSignal t) s \<longleftrightarrow>
     s \<notin> {SIGHUP, SIGPIPE, SIGTTOU, SIGTTIN, SIGCHLD, SIGTERM, SIGQUIT} \<and> t s = SIG_DFL \<and> dfl s"
  by (auto simp: deadly_def zone_ProcessSignal_def sigaction_def Let_def signal_numbers)

lemma conn_deadly:
  "deadly dfl (conn_ProcessSignal t) s \<longleftrightarrow>
     s \<notin> {SIGHUP, SIGPIPE, SIGTTOU, SIGTTIN, SIGCHLD, SIGINT} \<and> t s = SIG_DFL \<and> dfl s"
  by (auto simp: deadly_def conn_ProcessSignal_def IgnoreSignal_def sigaction_def Let_def)

lemma fresh_flags_quiet:
  "\<not> IsFlagSet CRunFlag_new FLAG_QUIT_AFTER_KICK_ALL_USER \<and> \<not> IsFlagSet CRunFlag_new FLAG_QUIT_NORMAL"
  by (simp add: IsFlagSet_def CRunFlag_new_def)

text \<open>C24. No signal makes the zone leave its loop. Once its set-up has succeeded and its actions are installed,
  signals that arrive in any order between the rounds leave the run flags as they were made, so the loop never
  returns - \<open>SIGTERM\<close> and \<open>SIGQUIT\<close>, which should ask for an orderly end, included; the only way to end the process
  is a signal outside the seven it sets, with its action left at a default that kills.\<close>
theorem zone_outlives_signals:
  assumes "ZoneInit fuel h argv uninit False (g\<lparr>g_zone_running := False\<rparr>) = Some (Some (0, g1))"
  shows "if \<exists>i. \<exists>s\<in>set (sigs i). s \<notin> {SIGHUP, SIGPIPE, SIGTTOU, SIGTTIN, SIGCHLD, SIGTERM, SIGQUIT} \<and> t s = SIG_DFL \<and> dfl s
    then \<exists>i. flags_at dfl (zone_ProcessSignal t) sigs i = None
    else \<exists>fl. (\<forall>i. flags_at dfl (zone_ProcessSignal t) sigs i = Some (fl i)) \<and>
      zone_main fuel h fl argv uninit w g = Some (ZoneLooping, g1\<lparr>g_zone_running := True\<rparr>)"
proof -
  have "zone_main fuel h (\<lambda>_. CRunFlag_new) argv uninit w g = Some (ZoneLooping, g1\<lparr>g_zone_running := True\<rparr>)"
    using zone_loop_result [OF assms, of "\<lambda>_. CRunFlag_new" w] fresh_flags_quiet by simp
  moreover have "flags_at dfl (zone_ProcessSignal t) sigs i =
      (if \<exists>j\<le>i. \<exists>s\<in>set (sigs j). s \<notin> {SIGHUP, SIGPIPE, SIGTTOU, SIGTTIN, SIGCHLD, SIGTERM, SIGQUIT} \<and> t s = SIG_DFL \<and> dfl s
       then None else Some CRunFlag_new)" for i
    unfolding flags_at_cases zone_deadly ..
  ultimately show ?thesis by (auto intro!: exI [of _ "\<lambda>_. CRunFlag_new"])
qed

lemma zone_outlives_signals_witness:
  "\<exists>fl g1. (\<forall>i. flags_at (\<lambda>s. s \<noteq> SIGCHLD) (zone_ProcessSignal (\<lambda>_. SIG_DFL)) (\<lambda>i. [SIGTERM, SIGQUIT]) i = Some (fl i)) \<and>
     zone_main 1 (zone_host []) fl [''zone'', ''a.conf''] \<lparr>zone_file = [], is_daemon = False, cmd_resume = False\<rparr>
       CWorld zone_start = Some (ZoneLooping, g1)"
proof -
  obtain g1 where i: "ZoneInit 1 (zone_host []) [''zone'', ''a.conf''] \<lparr>zone_file = [], is_daemon = False, cmd_resume = False\<rparr>
      False (zone_start\<lparr>g_zone_running := False\<rparr>) = Some (Some (0, g1))"
    using zone_start_ok by blast
  show ?thesis
    using zone_outlives_signals [OF i, of "\<lambda>i. [SIGTERM, SIGQUIT]" "\<lambda>_. SIG_DFL" "\<lambda>s. s \<noteq> SIGCHLD" CWorld] by auto
qed

end
