(* ===== verification/ConfError.thy ===== *)
theory ConfError
  imports DotConf Decimal
begin

text \<open>
  The messages of the configuration parser, \<open>DOTCONFDocument::error\<close>. The file name and the line are first written
  before the caller's format, and the result is then itself the format of \<open>vfprintf\<close>. \<open>vfprintf\<close> is modelled for
  \<open>%s\<close> and \<open>%%\<close>, which are all the parser uses; another conversion, and a \<open>%s\<close> without an argument, is \<open>None\<close>.
\<close>

definition percent :: char where "percent = CHR 0x25"

fun vfprintf :: "string \<Rightarrow> string list \<Rightarrow> string option" where
  "vfprintf [] as = Some []"
| "vfprintf [c] as = (if c = percent then None else Some [c])"
| "vfprintf (c # d # cs) as =
     (if c \<noteq> percent then map_option ((#) c) (vfprintf (d # cs) as)
      else if d = CHR ''s'' then (case as of [] \<Rightarrow> None | a # as' \<Rightarrow> map_option ((@) a) (vfprintf cs as'))
      else if d = percent then map_option ((#) percent) (vfprintf cs as)
      else None)"

text \<open>At most \<open>n\<close> bytes with the terminating zero.\<close>

definition snprintf :: "nat \<Rightarrow> string \<Rightarrow> string" where
  "snprintf n txt = take (n - 1) txt"

definition conf_error :: "int \<Rightarrow> string option \<Rightarrow> string \<Rightarrow> string list \<Rightarrow> string option" where
  "conf_error ln file_name fmt as =
     (if ln \<noteq> 0 then do {
         f \<leftarrow> file_name;
         vfprintf (snprintf (length f + length fmt + 50)
           (''DOTCONF++: file '' @ [CHR 0x27] @ f @ [CHR 0x27] @ '', line '' @ fmt_d 0 ln @ '': '' @ fmt @ [newline])) as }
      else vfprintf (snprintf (length fmt + 50) (''DOTCONF++: '' @ fmt @ [newline])) as)"

subsection \<open>What is printed\<close>

lemma vfprintf_plain: "c \<noteq> percent \<Longrightarrow> vfprintf (c # cs) as = map_option ((#) c) (vfprintf cs as)"
  by (cases cs) simp_all

lemma vfprintf_prefix: "\<forall>c\<in>set p. c \<noteq> percent \<Longrightarrow> vfprintf (p @ f) as = map_option ((@) p) (vfprintf f as)"
  by (induction p) (cases "vfprintf f as"; simp add: vfprintf_plain)+

lemma vfprintf_newline: "vfprintf f as = Some t \<Longrightarrow> vfprintf (f @ [newline]) as = Some (t @ [newline])"
proof (induction f as arbitrary: t rule: vfprintf.induct)
  case (3 c d cs as)
  then show ?case by (auto split: if_splits list.splits)
qed (auto simp: newline_def percent_def split: if_splits)

lemma fmt_d_plain: "c \<in> set (fmt_d 0 i) \<Longrightarrow> c \<noteq> percent"
proof -
  have digit: "char_of (48 + n) \<noteq> percent" if "n < 10" for n :: nat
  proof
    assume "char_of (48 + n) = percent"
    then have "(of_char (char_of (48 + n) :: char) :: nat) = of_char percent" by simp
    moreover have "(of_char percent :: nat) = 37" by (simp add: percent_def)
    ultimately show False using of_char_digit [OF that] by linarith
  qed
  have "c \<noteq> percent" if "c \<in> set (dec n)" for c n
    using that
  proof (induction n rule: dec.induct)
    case (1 n)
    have "char_of (48 + n mod 10) \<noteq> percent" by (rule digit) simp
    then show ?case using 1 digit [of n] by (cases "n < 10") (simp_all add: dec.simps [of n], fastforce)
  qed
  then show "c \<in> set (fmt_d 0 i) \<Longrightarrow> c \<noteq> percent"
    by (auto simp: fmt_d_def Let_def percent_def split: if_splits)
qed

text \<open>No message is cut off, and one about a line is printed as it is meant - with the file, the line and the caller's
  text - when the name of the file has no percent sign.\<close>
theorem error_prints:
  assumes "vfprintf fmt as = Some t" and "\<bar>ln\<bar> < 2 ^ 31" and "\<forall>c\<in>set f. c \<noteq> percent"
  shows "conf_error ln (Some f) fmt as = Some (
    (if ln \<noteq> 0 then ''DOTCONF++: file '' @ [CHR 0x27] @ f @ [CHR 0x27] @ '', line '' @ fmt_d 0 ln @ '': '' else ''DOTCONF++: '')
    @ t @ [newline])"
proof -
  let ?h = "''DOTCONF++: file '' @ [CHR 0x27] @ f @ [CHR 0x27] @ '', line '' @ fmt_d 0 ln @ '': ''"
  have n: "length (fmt_d 0 ln) \<le> 11" using length_fmt_d [of ln 9 0] assms(2) by simp
  have s: "snprintf (length f + length fmt + 50) (?h @ fmt @ [newline]) = ?h @ fmt @ [newline]"
    "snprintf (length fmt + 50) (''DOTCONF++: '' @ fmt @ [newline]) = ''DOTCONF++: '' @ fmt @ [newline]"
    using n by (simp_all add: snprintf_def)
  have "\<forall>c\<in>set ?h. c \<noteq> percent" using assms(3) fmt_d_plain by (auto simp: percent_def)
  then have "vfprintf (?h @ fmt @ [newline]) as = Some (?h @ t @ [newline])"
    using vfprintf_prefix [of ?h "fmt @ [newline]" as] vfprintf_newline [OF assms(1)] by simp
  moreover have "\<forall>c\<in>set ''DOTCONF++: ''. c \<noteq> percent" by (simp add: percent_def)
  then have "vfprintf (''DOTCONF++: '' @ fmt @ [newline]) as = Some (''DOTCONF++: '' @ t @ [newline])"
    using vfprintf_prefix [of "''DOTCONF++: ''" "fmt @ [newline]" as] vfprintf_newline [OF assms(1)] by simp
  ultimately show ?thesis using s by (simp add: conf_error_def)
qed

text \<open>A percent sign in the name takes the caller's argument, so that the caller's own \<open>%s\<close> has none left.\<close>
lemma error_percent:
  "conf_error 7 (Some ''a.conf'') ''unclosed tag %s'' [''srv''] =
     Some (''DOTCONF++: file '' @ [CHR 0x27] @ ''a.conf'' @ [CHR 0x27] @ '', line 7: unclosed tag srv'' @ [newline]) \<and>
   conf_error 7 (Some ''a%s.conf'') ''unclosed tag %s'' [''srv''] = None"
  by code_simp

end
