(* ===== verification/TimerTask.thy ===== *)
theory TimerTask
  imports ObjId
begin

text \<open>
  The tasks of \<open>common/jybase/timer_data.h\<close>: a callback on an object that is named by its id, with or without
  data, copied into the data area of a timer node.

  \<^item> A task is the id, the data (\<open>None\<close> for the specialisation without data) and the function object.
  \<^item> \<open>GetAgent\<close> is a template without a definition in the repository; it is the parameter \<open>agent\<close>.
  \<^item> Running a task gives the calls of the function object that it makes.
\<close>

definition TIMER_DATA_LEN :: int where "TIMER_DATA_LEN = 64"

record ('f, 'd) timer_task =
  task_id :: obj_id
  task_data :: "'d option"
  task_func :: 'f

text \<open>\<open>tagObjectIDHelper::operator()\<close>: the agent of the object, or the null pointer.\<close>

definition id_helper :: "(int \<Rightarrow> int) \<Rightarrow> (int \<Rightarrow> obj_base option) \<Rightarrow> int \<Rightarrow> obj_id \<Rightarrow> int option option" where
  "id_helper agent mem pool_size x = map_option (map_option agent) (GetObject mem pool_size x)"

definition task_invoke ::
  "(int \<Rightarrow> int) \<Rightarrow> (int \<Rightarrow> obj_base option) \<Rightarrow> int \<Rightarrow> ('f, 'd) timer_task \<Rightarrow> ('f \<times> int \<times> 'd option) list option" where
  "task_invoke agent mem pool_size t =
     map_option (\<lambda>obj. case obj of None \<Rightarrow> [] | Some p \<Rightarrow> [(task_func t, p, task_data t)])
       (id_helper agent mem pool_size (task_id t))"

definition TTimerTask_run where
  "TTimerTask_run agent mem pool_size t = task_invoke agent mem pool_size t"

text \<open>The size of the type is checked, then the task is copied; without a source it is default constructed, which
  leaves its members as they are in the buffer.\<close>

definition TimerConstruct :: "int \<Rightarrow> ('f, 'd) timer_task \<Rightarrow> ('f, 'd) timer_task option \<Rightarrow> ('f, 'd) timer_task option" where
  "TimerConstruct sizeof_T buffer task =
     (if sizeof_T \<le> TIMER_DATA_LEN then Some (case task of None \<Rightarrow> buffer | Some t \<Rightarrow> t) else None)"

definition data_RunTask where
  "data_RunTask agent mem pool_size buffer = TTimerTask_run agent mem pool_size buffer"

text \<open>C25. When a timer calls back. A task made for the object in a slot and copied into a timer node calls its function, once and
  with its data, while the slot holds that object. When the object is gone and the slot is empty, it does nothing. When the slot holds
  the \<open>n\<close>-th object after it, of any type, it does nothing either, except for the wrap-around of the sequence numbers: if \<open>n\<close> is a multiple
  of \<open>2 ^ 23\<close> and the types are the same, it calls its function on that other object.\<close>
theorem timer_task_needs_live_object:
  assumes "0 < off" "off \<le> pool_size" "off < 2 ^ 32" and "0 < m_seq ob" "m_seq ob \<le> 2 ^ 23" and "m_type ob \<noteq> 0"
    and "TimerConstruct sz junk (Some \<lparr>task_id = id_of_obj off ob, task_data = d, task_func = f\<rparr>) = Some buffer"
  shows "data_RunTask agent (\<lambda>a. if a = off then Some (SetObjType ty ((IncSeq ^^ n) ob)) else None) pool_size buffer =
      Some (if ty mod 2 ^ 8 = m_type ob \<and> 2 ^ 23 dvd int n then [(f, agent off, d)] else []) \<and>
    data_RunTask agent (\<lambda>a. if a = off then Some (obj_destroy ob) else None) pool_size buffer = Some []"
proof -
  have b: "buffer = \<lparr>task_id = id_of_obj off ob, task_data = d, task_func = f\<rparr>"
    using assms(7) by (simp add: TimerConstruct_def split: if_splits)
  have "GetObject (\<lambda>a. if a = off then Some (obj_destroy ob) else None) pool_size (id_of_obj off ob) = Some None"
    using assms by (simp add: GetObject_def id_of_obj_def cint GetObjType_def obj_destroy_def)
  then show ?thesis
    using stale_id_is_rejected [OF assms(1-6), of ty n]
    by (simp add: b data_RunTask_def TTimerTask_run_def task_invoke_def id_helper_def)
qed

lemma timer_task_needs_live_object_witness:
  "let ob = \<lparr>m_type = 3, m_seq = 9, m_md5 = 0\<rparr>;
       task = \<lparr>task_id = id_of_obj 64 ob, task_data = Some ''x'', task_func = (7 :: int)\<rparr>
   in data_RunTask (\<lambda>p. p + 1) (\<lambda>a. if a = 64 then Some (SetObjType 3 ((IncSeq ^^ 0) ob)) else None) 4096 task = Some [(7, 65, Some ''x'')] \<and>
      data_RunTask (\<lambda>p. p + 1) (\<lambda>a. if a = 64 then Some (SetObjType 3 ((IncSeq ^^ 1) ob)) else None) 4096 task = Some []"
proof -
  let ?ob = "\<lparr>m_type = 3, m_seq = 9, m_md5 = 0\<rparr>"
  let ?task = "\<lparr>task_id = id_of_obj 64 ?ob, task_data = Some ''x'', task_func = (7 :: int)\<rparr>"
  have c: "TimerConstruct 64 junk (Some ?task) = Some ?task" for junk by (simp add: TimerConstruct_def TIMER_DATA_LEN_def)
  have p: "(0 :: int) < 64" "(64 :: int) \<le> 4096" "(64 :: int) < 2 ^ 32" "0 < m_seq ?ob" "m_seq ?ob \<le> 2 ^ 23" "m_type ?ob \<noteq> 0"
    by simp_all
  show ?thesis
    using timer_task_needs_live_object [OF p c, of "\<lambda>p. p + 1" 3 0]
      timer_task_needs_live_object [OF p c, of "\<lambda>p. p + 1" 3 1] by (simp only: Let_def) simp
qed

end
