(* ===== verification/OsTime.thy ===== *)
theory OsTime
  imports SysTime CString
begin

text \<open>
  \<open>common/platform/os_time.{h,cc}\<close>: clock values and their text. \<open>gettimeofday\<close> is the argument \<open>tv\<close>,
  \<open>localtime_r\<close> the parameter \<open>loc\<close> that splits the seconds.
\<close>

definition MINUTE :: int where "MINUTE = 60"
definition HOUR :: int where "HOUR = MINUTE * 60"
definition DAY :: int where "DAY = HOUR * 24"
definition MONTH :: int where "MONTH = DAY * 30"

definition GetTimeMs :: "timeval \<Rightarrow> int" where
  "GetTimeMs tv = tv_sec tv * 1000 + c_div (tv_usec tv) 1000"

definition GetTimeUs :: "timeval \<Rightarrow> int" where
  "GetTimeUs tv = u64 (u64 (u64 (tv_sec tv) * 1000000) + u64 (tv_usec tv))"

record time_stats =
  t1 :: int
  t2 :: int

definition TimeStats :: time_stats where "TimeStats = \<lparr>t1 = 0, t2 = 0\<rparr>"
definition stats_Begin :: "timeval \<Rightarrow> time_stats \<Rightarrow> time_stats" where "stats_Begin tv s = s\<lparr>t1 := GetTimeUs tv\<rparr>"
definition stats_End :: "timeval \<Rightarrow> time_stats \<Rightarrow> time_stats" where "stats_End tv s = s\<lparr>t2 := GetTimeUs tv\<rparr>"
definition GetExpireTime64 :: "time_stats \<Rightarrow> int" where "GetExpireTime64 s = u64 (t2 s - t1 s)"
definition GetExpireTime32 :: "time_stats \<Rightarrow> int" where "GetExpireTime32 s = u32 (u64 (t2 s - t1 s))"

text \<open>\<open>TimeStatHelper\<close>: started by its constructor, read by its call operator.\<close>

definition stat_helper :: "timeval \<Rightarrow> timeval \<Rightarrow> int" where
  "stat_helper start now = GetExpireTime32 (stats_End now (stats_Begin start TimeStats))"

subsection \<open>Text\<close>

datatype time_format = TF_DATE | TF_DATE_PACKED | TF_DATE_TIME_SEC | TF_DATE_TIME_SEC_PACKED
  | TF_DATE_TIME_MS | TF_DATE_TIME_MS_PACKED | TF_OTHER

record tm =
  tm_year :: int
  tm_mon :: int
  tm_mday :: int
  tm_hour :: int
  tm_min :: int
  tm_sec :: int

definition time_text :: "tm \<Rightarrow> int \<Rightarrow> time_format \<Rightarrow> string" where
  "time_text ltm usec fmt =
     (let year = fmt_d 4 (i32 (tm_year ltm + 1900)); mon = fmt_d 2 (i32 (tm_mon ltm + 1)); mday = fmt_d 2 (tm_mday ltm);
          hour = fmt_d 2 (tm_hour ltm); minute = fmt_d 2 (tm_min ltm); sec = fmt_d 2 (tm_sec ltm);
          ms = fmt_d 3 (i32 (c_div usec 1000))
      in case fmt of
        TF_OTHER \<Rightarrow> []
      | TF_DATE \<Rightarrow> year @ ''-'' @ mon @ ''-'' @ mday
      | TF_DATE_PACKED \<Rightarrow> year @ mon @ mday
      | TF_DATE_TIME_SEC \<Rightarrow> year @ ''-'' @ mon @ ''-'' @ mday @ '' '' @ hour @ '':'' @ minute @ '':'' @ sec
      | TF_DATE_TIME_SEC_PACKED \<Rightarrow> year @ mon @ mday @ hour @ minute @ sec
      | TF_DATE_TIME_MS \<Rightarrow>
          year @ ''-'' @ mon @ ''-'' @ mday @ '' '' @ hour @ '':'' @ minute @ '':'' @ sec @ ''.'' @ ms
      | TF_DATE_TIME_MS_PACKED \<Rightarrow> year @ mon @ mday @ hour @ minute @ sec @ ms)"

text \<open>The text goes into the array \<open>dateTime\<close> with its terminating zero.\<close>

definition GetTimeFormatStr :: "(int \<Rightarrow> tm) \<Rightarrow> string \<Rightarrow> timeval \<Rightarrow> time_format \<Rightarrow> string option" where
  "GetTimeFormatStr loc dateTime tv fmt = strcpy dateTime (time_text (loc (tv_sec tv)) (tv_usec tv) fmt)"

text \<open>The two call operators of \<open>TimeStr\<close>, on its array of 100 characters.\<close>

definition TimeStr_sec :: "(int \<Rightarrow> tm) \<Rightarrow> string \<Rightarrow> int \<Rightarrow> string option" where
  "TimeStr_sec loc buf t = do { b \<leftarrow> GetTimeFormatStr loc buf \<lparr>tv_sec = t, tv_usec = 0\<rparr> TF_DATE_TIME_SEC; cstr b }"

definition TimeStr_tv :: "(int \<Rightarrow> tm) \<Rightarrow> string \<Rightarrow> timeval \<Rightarrow> string option" where
  "TimeStr_tv loc buf tv = do { b \<leftarrow> GetTimeFormatStr loc buf tv TF_DATE_TIME_MS; cstr b }"

subsection \<open>Properties\<close>

text \<open>The ranges of the fields; the year is any \<open>int\<close> that the sum with 1900 does not overflow.\<close>

definition tm_ok :: "tm \<Rightarrow> bool" where
  "tm_ok t \<longleftrightarrow> - (2 ^ 31) \<le> tm_year t + 1900 \<and> tm_year t + 1900 < 2 ^ 31 \<and> 0 \<le> tm_mon t \<and> tm_mon t \<le> 11 \<and>
     1 \<le> tm_mday t \<and> tm_mday t \<le> 31 \<and> 0 \<le> tm_hour t \<and> tm_hour t \<le> 23 \<and>
     0 \<le> tm_min t \<and> tm_min t \<le> 59 \<and> 0 \<le> tm_sec t \<and> tm_sec t \<le> 60"

lemma undec_append: "undec (xs @ ys) = undec xs * 10 ^ length ys + undec ys"
proof (induction ys rule: rev_induct)
  case (snoc y ys)
  have "undec (xs @ ys @ [y]) = 10 * undec (xs @ ys) + (of_char y - 48)" using undec_snoc [of "xs @ ys" y] by simp
  then show ?case using snoc by (simp add: algebra_simps)
qed (simp add: undec_def)

lemma undec_zeros [simp]: "undec (replicate k (CHR ''0'')) = 0"
proof (induction k)
  case (Suc k)
  have "replicate (Suc k) (CHR ''0'') = replicate k (CHR ''0'') @ [CHR ''0'']" by (simp add: replicate_append_same)
  then show ?case using Suc undec_snoc [of "replicate k (CHR ''0'')" "CHR ''0''"] by simp
qed (simp add: undec_def)

lemma undec_fmt_d: "0 \<le> i \<Longrightarrow> undec (fmt_d w i) = nat i"
  by (simp add: fmt_d_def undec_append undec_dec Let_def)

lemma two_digits: "0 \<le> i \<Longrightarrow> i < 100 \<Longrightarrow> length (fmt_d 2 i) = 2"
  using length_fmt_d_nat [of i 1 2] by simp

lemma digit_not_nul: "NUL \<notin> set (dec n)"
proof (induction n rule: dec.induct)
  case (1 n)
  have c: "char_of (48 + k :: nat) \<noteq> NUL" if "k < 10" for k
  proof
    assume "char_of (48 + k :: nat) = NUL"
    then have "(of_char (char_of (48 + k :: nat)) :: nat) = 0" by simp
    then show False using of_char_digit [OF that] by simp
  qed
  show ?case
  proof (cases "n < 10")
    case True
    then show ?thesis using c [of n] by (simp add: dec.simps [of n])
  next
    case False
    then show ?thesis using 1 c [of "n mod 10"] by (simp add: dec.simps [of n])
  qed
qed

lemma fmt_d_not_nul: "NUL \<notin> set (fmt_d w i)"
  using digit_not_nul by (auto simp: fmt_d_def Let_def)

lemma time_text_not_nul: "NUL \<notin> set (time_text t us fmt)"
  using fmt_d_not_nul by (cases fmt) (auto simp: time_text_def Let_def)

text \<open>Clock texts. \<open>TimeStr\<close> gives for every time whose fields are in their ranges - for every year of type
  \<open>int\<close>, negative ones included - the whole text, terminated inside its array; and the packed form of a
  year with at most four digits, read as a number, is the digits of year, month, day, hour, minute and second
  side by side, so that packed texts are in the order of the times.\<close>
theorem time_text_fits:
  assumes "tm_ok (loc (tv_sec tv))" and "0 \<le> tv_usec tv" "tv_usec tv < 1000000" and "length buf = 100"
  defines "t \<equiv> loc (tv_sec tv)"
  shows "TimeStr_tv loc buf tv = Some (time_text t (tv_usec tv) TF_DATE_TIME_MS) \<and>
    TimeStr_sec loc buf (tv_sec tv) = Some (time_text t 0 TF_DATE_TIME_SEC) \<and>
    (0 \<le> tm_year t + 1900 \<and> tm_year t + 1900 \<le> 9999 \<longrightarrow>
      int (undec (time_text t (tv_usec tv) TF_DATE_TIME_SEC_PACKED)) =
        (((((tm_year t + 1900) * 100 + (tm_mon t + 1)) * 100 + tm_mday t) * 100 + tm_hour t) * 100 + tm_min t) * 100 + tm_sec t)"
proof -
  have t: "tm_ok t" using assms(1) by (simp add: t_def)
  note r = t [unfolded tm_ok_def]
  have i: "i32 (tm_year t + 1900) = tm_year t + 1900" "i32 (tm_mon t + 1) = tm_mon t + 1"
    using r by (simp_all add: cint)
  have two: "length (fmt_d 2 (tm_mon t + 1)) = 2" "length (fmt_d 2 (tm_mday t)) = 2" "length (fmt_d 2 (tm_hour t)) = 2"
    "length (fmt_d 2 (tm_min t)) = 2" "length (fmt_d 2 (tm_sec t)) = 2"
    using r by (simp_all add: two_digits)
  have "\<bar>tm_year t + 1900\<bar> < 10 ^ Suc 9" using r by (simp add: abs_less_iff)
  then have year: "length (fmt_d 4 (tm_year t + 1900)) \<le> 11" using length_fmt_d [of "tm_year t + 1900" 9 4] by simp
  have ms: "length (fmt_d 3 (i32 (c_div us 1000))) = 3" if "0 \<le> us" "us < 1000000" for us
  proof -
    have "c_div us 1000 = us div 1000" "0 \<le> us div 1000" "us div 1000 < 1000" using that by (simp_all add: c_div_nonneg)
    then show ?thesis using length_fmt_d_nat [of "us div 1000" 2 3] by (simp add: cint)
  qed
  have len: "length (time_text t us fmt) < 100" if "0 \<le> us" "us < 1000000" for us fmt
    using two year ms [OF that] by (cases fmt) (simp_all add: time_text_def Let_def i)
  have w: "GetTimeFormatStr loc buf (tv\<lparr>tv_usec := us\<rparr>) fmt \<bind> cstr = Some (time_text t us fmt)"
    if "0 \<le> us" "us < 1000000" for us fmt
    using len [OF that, of fmt] cstr_prefix [OF time_text_not_nul] assms(4)
    by (simp add: GetTimeFormatStr_def strcpy_def t_def)
  have "TimeStr_tv loc buf tv = Some (time_text t (tv_usec tv) TF_DATE_TIME_MS)"
    using w [of "tv_usec tv" TF_DATE_TIME_MS] assms(2, 3) by (simp add: TimeStr_tv_def)
  moreover have "TimeStr_sec loc buf (tv_sec tv) = Some (time_text t 0 TF_DATE_TIME_SEC)"
    using w [of 0 TF_DATE_TIME_SEC] by (simp add: TimeStr_sec_def GetTimeFormatStr_def)
  moreover have "int (undec (time_text t (tv_usec tv) TF_DATE_TIME_SEC_PACKED)) =
        (((((tm_year t + 1900) * 100 + (tm_mon t + 1)) * 100 + tm_mday t) * 100 + tm_hour t) * 100 + tm_min t) * 100 + tm_sec t"
    if "0 \<le> tm_year t + 1900"
    using r that two by (simp add: time_text_def Let_def i undec_append undec_fmt_d)
  ultimately show ?thesis by blast
qed

definition demo_tm :: "int \<Rightarrow> tm" where
  "demo_tm s = \<lparr>tm_year = 118, tm_mon = 6, tm_mday = 29, tm_hour = 8, tm_min = 5, tm_sec = s\<rparr>"

lemma time_text_fits_witness:
  "TimeStr_tv demo_tm (replicate 100 NUL) \<lparr>tv_sec = 9, tv_usec = 42000\<rparr> = Some ''2018-07-29 08:05:09.042'' \<and>
   int (undec (time_text (demo_tm 9) 42000 TF_DATE_TIME_SEC_PACKED)) = 20180729080509"
proof -
  have "time_text (demo_tm 9) 42000 TF_DATE_TIME_MS = ''2018-07-29 08:05:09.042''" by code_simp
  then show ?thesis
    using time_text_fits [of demo_tm "\<lparr>tv_sec = 9, tv_usec = 42000\<rparr>" "replicate 100 NUL"]
    by (simp add: demo_tm_def tm_ok_def)
qed

end
