(* ===== verification/Trig.thy ===== *)
theory Trig
  imports Prelude
begin

text \<open>
  The sine and cosine tables of \<open>common/platform/common.h\<close>, in steps of half a degree. An entry is the decimal of
  the source times 100000; a \<open>float\<close> holds the nearest value of its type.
\<close>

definition sindata :: "int list" where
  "sindata = [
    0, 873, 1745, 2618, 3490, 4362, 5234, 6105, 6976, 7846, 8716, 9585, 10453, 11320, 12187, 13053, 13917, 14781, 15643, 16505,
    17365, 18224, 19081, 19937, 20791, 21644, 22495, 23345, 24192, 25038, 25882, 26724, 27564, 28402, 29237, 30071, 30902, 31730, 32557, 33381,
    34202, 35021, 35837, 36650, 37461, 38268, 39073, 39875, 40674, 41469, 42262, 43051, 43837, 44620, 45399, 46175, 46947, 47716, 48481, 49242,
    50000, 50754, 51504, 52250, 52992, 53730, 54464, 55194, 55919, 56641, 57358, 58070, 58779, 59482, 60181, 60876, 61566, 62251, 62932, 63608,
    64279, 64945, 65606, 66262, 66913, 67559, 68200, 68835, 69466, 70091, 70711, 71325, 71934, 72537, 73135, 73728, 74314, 74896, 75471, 76041,
    76604, 77162, 77715, 78261, 78801, 79335, 79864, 80386, 80902, 81412, 81915, 82413, 82904, 83389, 83867, 84339, 84805, 85264, 85717, 86163,
    86603, 87036, 87462, 87882, 88295, 88701, 89101, 89493, 89879, 90259, 90631, 90996, 91355, 91706, 92050, 92388, 92718, 93042, 93358, 93667,
    93969, 94264, 94552, 94832, 95106, 95372, 95630, 95882, 96126, 96363, 96593, 96815, 97030, 97237, 97437, 97630, 97815, 97992, 98163, 98325,
    98481, 98629, 98769, 98902, 99027, 99144, 99255, 99357, 99452, 99540, 99619, 99692, 99756, 99813, 99863, 99905, 99939, 99966, 99985, 99996,
    100000, 99996, 99985, 99966, 99939, 99905, 99863, 99813, 99756, 99692, 99619, 99540, 99452, 99357, 99255, 99144, 99027, 98902, 98769, 98629,
    98481, 98325, 98163, 97992, 97815, 97630, 97437, 97237, 97030, 96815, 96593, 96363, 96126, 95882, 95630, 95372, 95106, 94832, 94552, 94264,
    93969, 93667, 93358, 93042, 92718, 92388, 92050, 91706, 91355, 90996, 90631, 90259, 89879, 89493, 89101, 88701, 88295, 87882, 87462, 87036,
    86603, 86163, 85717, 85264, 84805, 84339, 83867, 83389, 82904, 82413, 81915, 81412, 80902, 80386, 79864, 79335, 78801, 78261, 77715, 77162,
    76604, 76041, 75471, 74896, 74314, 73728, 73135, 72537, 71934, 71325, 70711, 70091, 69466, 68835, 68200, 67559, 66913, 66262, 65606, 64945,
    64279, 63608, 62932, 62251, 61566, 60876, 60182, 59482, 58779, 58070, 57358, 56641, 55919, 55194, 54464, 53730, 52992, 52250, 51504, 50754,
    50000, 49242, 48481, 47716, 46947, 46175, 45399, 44620, 43837, 43051, 42262, 41469, 40674, 39875, 39073, 38268, 37461, 36650, 35837, 35021,
    34202, 33381, 32557, 31730, 30902, 30071, 29237, 28402, 27564, 26724, 25882, 25038, 24192, 23345, 22495, 21644, 20791, 19937, 19081, 18224,
    17365, 16505, 15643, 14781, 13917, 13053, 12187, 11320, 10453, 9585, 8716, 7846, 6976, 6105, 5234, 4362, 3490, 2618, 1745, 873,
    0, -873, -1745, -2618, -3490, -4362, -5234, -6105, -6976, -7846, -8716, -9585, -10453, -11320, -12187, -13053, -13917, -14781, -15643, -16505,
    -17365, -18224, -19081, -19937, -20791, -21644, -22495, -23345, -24192, -25038, -25882, -26724, -27564, -28402, -29237, -30071, -30902, -31730, -32557, -33381,
    -34202, -35021, -35837, -36650, -37461, -38268, -39073, -39875, -40674, -41469, -42262, -43051, -43837, -44620, -45399, -46175, -46947, -47716, -48481, -49242,
    -50000, -50754, -51504, -52250, -52992, -53730, -54464, -55194, -55919, -56641, -57358, -58070, -58779, -59482, -60181, -60876, -61566, -62251, -62932, -63608,
    -64279, -64945, -65606, -66262, -66913, -67559, -68200, -68835, -69466, -70091, -70711, -71325, -71934, -72537, -73135, -73728, -74314, -74896, -75471, -76041,
    -76604, -77162, -77715, -78261, -78801, -79335, -79864, -80386, -80902, -81412, -81915, -82413, -82904, -83389, -83867, -84339, -84805, -85264, -85717, -86163,
    -86603, -87036, -87462, -87882, -88295, -88701, -89101, -89493, -89879, -90259, -90631, -90996, -91355, -91706, -92050, -92388, -92718, -93042, -93358, -93667,
    -93969, -94264, -94552, -94832, -95106, -95372, -95630, -95882, -96126, -96363, -96593, -96815, -97030, -97237, -97437, -97630, -97815, -97992, -98163, -98325,
    -98481, -98629, -98769, -98902, -99027, -99144, -99255, -99357, -99452, -99540, -99619, -99692, -99756, -99813, -99863, -99905, -99939, -99966, -99985, -99996,
    -100000, -99996, -99985, -99966, -99939, -99905, -99863, -99813, -99756, -99692, -99619, -99540, -99452, -99357, -99255, -99144, -99027, -98902, -98769, -98629,
    -98481, -98325, -98163, -97992, -97815, -97630, -97437, -97237, -97030, -96815, -96593, -96363, -96126, -95882, -95630, -95372, -95106, -94832, -94552, -94264,
    -93969, -93667, -93358, -93042, -92718, -92388, -92050, -91706, -91355, -90996, -90631, -90259, -89879, -89493, -89101, -88701, -88295, -87882, -87462, -87036,
    -86603, -86163, -85717, -85264, -84805, -84339, -83867, -83389, -82904, -82413, -81915, -81412, -80902, -80386, -79864, -79335, -78801, -78261, -77715, -77162,
    -76604, -76041, -75471, -74896, -74314, -73728, -73135, -72537, -71934, -71325, -70711, -70091, -69466, -68835, -68200, -67559, -66913, -66262, -65606, -64945,
    -64279, -63608, -62932, -62251, -61566, -60876, -60182, -59482, -58779, -58070, -57358, -56641, -55919, -55194, -54464, -53730, -52992, -52250, -51504, -50754,
    -50000, -49242, -48481, -47716, -46947, -46175, -45399, -44620, -43837, -43051, -42262, -41469, -40674, -39875, -39073, -38268, -37461, -36650, -35837, -35021,
    -34202, -33381, -32557, -31730, -30902, -30071, -29237, -28402, -27564, -26724, -25882, -25038, -24192, -23345, -22495, -21644, -20791, -19937, -19081, -18224,
    -17365, -16505, -15643, -14781, -13917, -13053, -12187, -11320, -10453, -9585, -8716, -7846, -6976, -6105, -5234, -4362, -3490, -2618, -1745, -873]"

definition cosdata :: "int list" where
  "cosdata = [
    100000, 99996, 99985, 99966, 99939, 99905, 99863, 99813, 99756, 99692, 99619, 99540, 99452, 99357, 99255, 99144, 99027, 98902, 98769, 98629,
    98481, 98325, 98163, 97992, 97815, 97630, 97437, 97237, 97030, 96815, 96593, 96363, 96126, 95882, 95630, 95372, 95106, 94832, 94552, 94264,
    93969, 93667, 93358, 93042, 92718, 92388, 92050, 91706, 91355, 90996, 90631, 90259, 89879, 89493, 89101, 88701, 88295, 87882, 87462, 87036,
    86603, 86163, 85717, 85264, 84805, 84339, 83867, 83389, 82904, 82413, 81915, 81412, 80902, 80386, 79864, 79335, 78801, 78261, 77715, 77162,
    76604, 76041, 75471, 74896, 74314, 73728, 73135, 72537, 71934, 71325, 70711, 70091, 69466, 68835, 68200, 67559, 66913, 66262, 65606, 64945,
    64279, 63608, 62932, 62251, 61566, 60876, 60182, 59482, 58779, 58070, 57358, 56641, 55919, 55194, 54464, 53730, 52992, 52250, 51504, 50754,
    50000, 49242, 48481, 47716, 46947, 46175, 45399, 44620, 43837, 43051, 42262, 41469, 40674, 39875, 39073, 38268, 37461, 36650, 35837, 35021,
    34202, 33381, 32557, 31730, 30902, 30071, 29237, 28402, 27564, 26724, 25882, 25038, 24192, 23345, 22495, 21644, 20791, 19937, 19081, 18224,
    17365, 16505, 15643, 14781, 13917, 13053, 12187, 11320, 10453, 9585, 8716, 7846, 6976, 6105, 5234, 4362, 3490, 2618, 1745, 873,
    0, -873, -1745, -2618, -3490, -4362, -5234, -6105, -6976, -7846, -8716, -9585, -10453, -11320, -12187, -13053, -13917, -14781, -15643, -16505,
    -17365, -18224, -19081, -19937, -20791, -21644, -22495, -23345, -24192, -25038, -25882, -26724, -27564, -28402, -29237, -30071, -30902, -31730, -32557, -33381,
    -34202, -35021, -35837, -36650, -37461, -38268, -39073, -39875, -40674, -41469, -42262, -43051, -43837, -44620, -45399, -46175, -46947, -47716, -48481, -49242,
    -50000, -50754, -51504, -52250, -52992, -53730, -54464, -55194, -55919, -56641, -57358, -58070, -58779, -59482, -60181, -60876, -61566, -62251, -62932, -63608,
    -64279, -64945, -65606, -66262, -66913, -67559, -68200, -68835, -69466, -70091, -70711, -71325, -71934, -72537, -73135, -73728, -74314, -74896, -75471, -76041,
    -76604, -77162, -77715, -78261, -78801, -79335, -79864, -80386, -80902, -81412, -81915, -82413, -82904, -83389, -83867, -84339, -84805, -85264, -85717, -86163,
    -86603, -87036, -87462, -87882, -88295, -88701, -89101, -89493, -89879, -90259, -90631, -90996, -91355, -91706, -92050, -92388, -92718, -93042, -93358, -93667,
    -93969, -94264, -94552, -94832, -95106, -95372, -95630, -95882, -96126, -96363, -96593, -96815, -97030, -97237, -97437, -97630, -97815, -97992, -98163, -98325,
    -98481, -98629, -98769, -98902, -99027, -99144, -99255, -99357, -99452, -99540, -99619, -99692, -99756, -99813, -99863, -99905, -99939, -99966, -99985, -99996,
    -100000, -99996, -99985, -99966, -99939, -99905, -99863, -99813, -99756, -99692, -99619, -99540, -99452, -99357, -99255, -99144, -99027, -98902, -98769, -98629,
    -98481, -98325, -98163, -97992, -97815, -97630, -97437, -97237, -97030, -96815, -96593, -96363, -96126, -95882, -95630, -95372, -95106, -94832, -94552, -94264,
    -93969, -93667, -93358, -93042, -92718, -92388, -92050, -91706, -91355, -90996, -90631, -90259, -89879, -89493, -89101, -88701, -88295, -87882, -87462, -87036,
    -86603, -86163, -85717, -85264, -84805, -84339, -83867, -83389, -82904, -82413, -81915, -81412, -80902, -80386, -79864, -79335, -78801, -78261, -77715, -77162,
    -76604, -76041, -75471, -74896, -74314, -73728, -73135, -72537, -71934, -71325, -70711, -70091, -69466, -68835, -68200, -67559, -66913, -66262, -65606, -64945,
    -64279, -63608, -62932, -62251, -61566, -60876, -60182, -59482, -58779, -58070, -57358, -56641, -55919, -55194, -54464, -53730, -52992, -52250, -51504, -50754,
    -50000, -49242, -48481, -47716, -46947, -46175, -45399, -44620, -43837, -43051, -42262, -41469, -40674, -39875, -39073, -38268, -37461, -36650, -35837, -35021,
    -34202, -33381, -32557, -31730, -30902, -30071, -29237, -28402, -27564, -26724, -25882, -25038, -24192, -23345, -22495, -21644, -20791, -19937, -19081, -18224,
    -17365, -16505, -15643, -14781, -13917, -13053, -12187, -11320, -10453, -9585, -8716, -7846, -6976, -6105, -5234, -4362, -3490, -2618, -1745, -873,
    0, 873, 1745, 2618, 3490, 4362, 5234, 6105, 6976, 7846, 8716, 9585, 10453, 11320, 12187, 13053, 13917, 14781, 15643, 16505,
    17365, 18224, 19081, 19937, 20791, 21644, 22495, 23345, 24192, 25038, 25882, 26724, 27564, 28402, 29237, 30071, 30902, 31730, 32557, 33381,
    34202, 35021, 35837, 36650, 37461, 38268, 39073, 39875, 40674, 41469, 42262, 43051, 43837, 44620, 45399, 46175, 46947, 47716, 48481, 49242,
    50000, 50754, 51504, 52250, 52992, 53730, 54464, 55194, 55919, 56641, 57358, 58070, 58779, 59482, 60181, 60876, 61566, 62251, 62932, 63608,
    64279, 64945, 65606, 66262, 66913, 67559, 68200, 68835, 69466, 70091, 70711, 71325, 71934, 72537, 73135, 73728, 74314, 74896, 75471, 76041,
    76604, 77162, 77715, 78261, 78801, 79335, 79864, 80386, 80902, 81412, 81915, 82413, 82904, 83389, 83867, 84339, 84805, 85264, 85717, 86163,
    86603, 87036, 87462, 87882, 88295, 88701, 89101, 89493, 89879, 90259, 90631, 90996, 91355, 91706, 92050, 92388, 92718, 93042, 93358, 93667,
    93969, 94264, 94552, 94832, 95106, 95372, 95630, 95882, 96126, 96363, 96593, 96815, 97030, 97237, 97437, 97630, 97815, 97992, 98163, 98325,
    98481, 98629, 98769, 98902, 99027, 99144, 99255, 99357, 99452, 99540, 99619, 99692, 99756, 99813, 99863, 99905, 99939, 99966, 99985, 99996]"

definition zl_sin :: "int \<Rightarrow> int" where
  "zl_sin degree = (if degree \<ge> 0 \<and> degree < 720 then sindata ! nat degree else 0)"

definition zl_cos :: "int \<Rightarrow> int" where
  "zl_cos degree = (if degree \<ge> 0 \<and> degree < 720 then cosdata ! nat degree else 0)"

text \<open>\<open>r\<close> is the value of \<open>rand()\<close>.\<close>

definition zl_randdegree :: "int \<Rightarrow> int" where
  "zl_randdegree r = c_rem r 720"

subsection \<open>The tables as a whole\<close>

definition turn :: "nat \<Rightarrow> int list \<Rightarrow> int list" where
  "turn k xs = drop k xs @ take k xs"

lemma table_lengths: "length sindata = 720" "length cosdata = 720"
  by (simp_all add: sindata_def cosdata_def)

lemma cos_turn: "cosdata = turn 180 sindata"
  by (simp add: sindata_def cosdata_def turn_def)

lemma sin_turn: "turn 360 sindata = map uminus sindata"
  by (simp add: sindata_def turn_def)

lemma unit_circle: "list_all2 (\<lambda>x y. \<bar>x * x + y * y - 10000000000\<bar> \<le> 131620) sindata cosdata"
  by (simp add: sindata_def cosdata_def)

lemma nth_turn: "k \<le> length xs \<Longrightarrow> i < length xs \<Longrightarrow> turn k xs ! i = xs ! ((i + k) mod length xs)"
  by (auto simp: turn_def nth_append mod_if add.commute)

text \<open>The two tables are one: the cosine is the sine a quarter turn later, half a turn changes the sign, and the
  sum of the squares of every pair of entries is 1 up to 0.0000132. The entry for 37 degrees is not the one for
  143 degrees, though their sines are equal.\<close>
theorem trig_tables:
  assumes "0 \<le> d" and "d < 720"
  shows "zl_cos d = zl_sin ((d + 180) mod 720) \<and> zl_sin ((d + 360) mod 720) = - zl_sin d \<and>
    \<bar>(zl_sin d)\<^sup>2 + (zl_cos d)\<^sup>2 - 10000000000\<bar> \<le> 131620 \<and> zl_sin 74 \<noteq> zl_sin (360 - 74)"
proof -
  have n: "nat d < 720" "nat ((d + 180) mod 720) = (nat d + 180) mod 720" "nat ((d + 360) mod 720) = (nat d + 360) mod 720"
    using assms by (simp_all add: nat_mod_distrib nat_add_distrib)
  have "cosdata ! nat d = sindata ! ((nat d + 180) mod 720)"
    unfolding cos_turn using nth_turn [of 180 sindata "nat d"] n by (simp add: table_lengths)
  moreover have "sindata ! ((nat d + 360) mod 720) = - (sindata ! nat d)"
    using nth_turn [of 360 sindata "nat d"] n by (simp add: table_lengths sin_turn)
  moreover have "\<bar>(sindata ! nat d)\<^sup>2 + (cosdata ! nat d)\<^sup>2 - 10000000000\<bar> \<le> 131620"
    using unit_circle n by (simp add: list_all2_conv_all_nth table_lengths power2_eq_square)
  moreover have "sindata ! 74 \<noteq> sindata ! 286" by (simp add: sindata_def)
  ultimately show ?thesis using assms n by (simp add: zl_sin_def zl_cos_def)
qed

lemma trig_tables_witness:
  "zl_cos 720 = 0 \<and> zl_cos 0 = zl_sin 180 \<and> zl_sin 390 = - zl_sin 30"
  using trig_tables [of 0] trig_tables [of 30] by (simp add: zl_cos_def)

end
