(* ===== verification/ConnRun.thy ===== *)
theory ConnRun
  imports ConnProps
begin

text \<open>
  The connection server's loop with everything it works on: the sockets, the client table, the queue that the zone
  fills and the shared segments. A run is a list of rounds of \<open>ConnMgr::Update\<close> and of messages that the zone sends
  between them. The server here is one whose set-up has succeeded; when the program gets there is the subject of
  \<open>ConnStart\<close>.
\<close>

subsection \<open>One round\<close>

definition clients_live :: "(nat \<Rightarrow> client_info option) \<Rightarrow> client_mgr \<Rightarrow> bool" where
  "clients_live heap cm \<longleftrightarrow> (\<forall>(k, a) \<in> set (game_maps cm). heap a \<noteq> None)"

text \<open>A server that is set up, with the messages \<open>ms\<close> from the zone in the segment \<open>a\<close>.\<close>

definition server_ok :: "nat \<Rightarrow> byte list list \<Rightarrow> conn_mgr \<Rightarrow> shm_mem \<Rightarrow> bool" where
  "server_ok a ms m mem \<longleftrightarrow> (\<exists>sm. socket_manager m = Some sm \<and> mgr_ok sm) \<and>
     recv_queue (chan m) = Some a \<and> queue_holds (mem a) ms \<and> (\<forall>x \<in> set ms. int (length x) \<le> PKG_BUF_SIZE)"

lemma UpdateSocket_ok:
  assumes "socket_manager m = Some sm" "mgr_ok sm"
  obtains sm' n' where "UpdateSocket ks r m n = Some (m\<lparr>socket_manager := Some sm'\<rparr>, n')" "mgr_ok sm'"
proof -
  obtain acts tos sm' n' where "mgr_Update ks sm n (r_sock_ms r) (r_events r) (int (length (r_events r))) = Some (acts, tos, sm', n')"
    "mgr_ok sm'" using mgr_Update_ok [OF assms(2)] by blast
  then show thesis using that assms(1) by (simp add: UpdateSocket_def)
qed

lemma CheckDisconnect_ok:
  assumes "clients_live heap cm"
  obtains closed t where "CheckDisconnectTimeOut r heap cm m = Some (closed, m\<lparr>last_check := t\<rparr>)"
proof -
  obtain arr where "CollectTimeOutClient heap ConnMgr_GetTime (wait_reconnect_timeout (config m)) cm [] 0 = Some arr"
    using collect_loop_spec [of "game_maps cm" heap] assms by (fastforce simp: CollectTimeOutClient_def clients_live_def)
  then show thesis using that by (cases "r_cur_ms r - (case last_check m of None \<Rightarrow> r_first_ms r | Some t \<Rightarrow> t) < 1000")
      (auto simp: CheckDisconnectTimeOut_def Let_def)
qed

lemma Handler_ok:
  assumes "recv_queue (chan m) = Some a" "queue_holds (mem a) ms" "\<forall>x \<in> set ms. int (length x) \<le> PKG_BUF_SIZE"
  obtains ds mem' where "HandlerPkgFromZone mem m = Some (ds, mem')" "nonempty ds = nonempty (take 100 ms)"
    "queue_holds (mem' a) (drop 100 ms)" "\<forall>b. b \<noteq> a \<longrightarrow> mem' b = mem b"
proof -
  have "\<forall>x \<in> set (take (nat (100 - 0)) ms). int (length x) \<le> PKG_BUF_SIZE"
    using assms(3) in_set_takeD by fastforce
  then have "\<exists>ds mem'. pkg_loop (chan m) 0 0 mem = Some (ds, mem') \<and> length ds = nat (100 - 0) \<and>
      nonempty ds = nonempty (take (nat (100 - 0)) ms) \<and> queue_holds (mem' a) (drop (nat (100 - 0)) ms) \<and>
      (\<forall>b. b \<noteq> a \<longrightarrow> mem' b = mem b)"
    by (intro pkg_loop_takes [where mem = mem and a = a, OF assms(1, 2)]) simp_all
  then show thesis using that by (auto simp: HandlerPkgFromZone_def)
qed

lemma conn_Update_ok:
  assumes "server_ok a ms m mem" and "clients_live heap cm"
  obtains m' mem' n' where "conn_Update ks r heap cm (m, mem, n) = Some (m', mem', n')"
    "server_ok a (drop 100 ms) m' mem'" "chan m' = chan m" "\<forall>b. b \<noteq> a \<longrightarrow> mem' b = mem b"
proof -
  obtain sm where sm: "socket_manager m = Some sm" "mgr_ok sm" and q: "recv_queue (chan m) = Some a"
    "queue_holds (mem a) ms" "\<forall>x \<in> set ms. int (length x) \<le> PKG_BUF_SIZE"
    using assms(1) by (auto simp: server_ok_def)
  obtain sm' n' where u: "UpdateSocket ks r m n = Some (m\<lparr>socket_manager := Some sm'\<rparr>, n')" "mgr_ok sm'"
    by (rule UpdateSocket_ok [OF sm])
  obtain closed t where c: "CheckDisconnectTimeOut r heap cm (m\<lparr>socket_manager := Some sm'\<rparr>) =
      Some (closed, m\<lparr>socket_manager := Some sm'\<rparr>\<lparr>last_check := t\<rparr>)"
    by (rule CheckDisconnect_ok [OF assms(2)])
  let ?m = "m\<lparr>socket_manager := Some sm'\<rparr>\<lparr>last_check := t\<rparr>"
  have "recv_queue (chan ?m) = Some a" using q(1) by simp
  then obtain ds mem' where h: "HandlerPkgFromZone mem ?m = Some (ds, mem')" "queue_holds (mem' a) (drop 100 ms)"
    "\<forall>b. b \<noteq> a \<longrightarrow> mem' b = mem b" by (rule Handler_ok [where mem = mem and a = a and ms = ms, OF _ q(2, 3)])
  have "conn_Update ks r heap cm (m, mem, n) = Some (?m, mem', n')" using u(1) c h(1) by (simp add: conn_Update_def)
  moreover have "server_ok a (drop 100 ms) ?m mem'"
    using u(2) q h(2) by (auto simp: server_ok_def dest: in_set_dropD)
  ultimately show thesis using that h(3) by simp
qed

subsection \<open>Rounds and the zone's messages\<close>

datatype server_event = Round round_env | ZoneSends "byte list"

fun server_run ::
  "'k ksend \<Rightarrow> (nat \<Rightarrow> client_info option) \<Rightarrow> client_mgr \<Rightarrow> channel \<Rightarrow> server_event list \<Rightarrow> conn_mgr \<times> shm_mem \<times> 'k net \<Rightarrow>
   (conn_mgr \<times> shm_mem \<times> 'k net) option" where
  "server_run ks heap cm zc [] st = Some st"
| "server_run ks heap cm zc (Round r # es) st =
     (case conn_Update ks r heap cm st of None \<Rightarrow> None | Some st1 \<Rightarrow> server_run ks heap cm zc es st1)"
| "server_run ks heap cm zc (ZoneSends d # es) (m, mem, n) =
     (case chan_SendMsg mem zc (Some d) (int (length d)) of
        None \<Rightarrow> None
      | Some (ok, mem1) \<Rightarrow> server_run ks heap cm zc es (m, mem1, n))"

fun zone_sent :: "server_event list \<Rightarrow> byte list list" where
  "zone_sent [] = []"
| "zone_sent (Round r # es) = zone_sent es"
| "zone_sent (ZoneSends d # es) = d # zone_sent es"

fun round_count :: "server_event list \<Rightarrow> nat" where
  "round_count [] = 0"
| "round_count (Round r # es) = Suc (round_count es)"
| "round_count (ZoneSends d # es) = round_count es"

lemma server_run_ok:
  assumes "send_queue zc = Some a" and "clients_live heap cm"
    and "server_ok a ms m mem" and "\<forall>d \<in> set (zone_sent es). int (length d) \<le> PKG_BUF_SIZE"
  shows "\<exists>m' mem' n' acc k. server_run ks heap cm zc es (m, mem, n) = Some (m', mem', n') \<and> subseq acc (zone_sent es) \<and>
    k \<le> 100 * round_count es \<and> server_ok a (drop k (ms @ acc)) m' mem' \<and> (\<forall>b. b \<noteq> a \<longrightarrow> mem' b = mem b)"
  using assms(3, 4)
proof (induction es arbitrary: ms m mem n)
  case Nil
  then show ?case by (intro exI [of _ m] exI [of _ mem] exI [of _ n] exI [of _ "[]"] exI [of _ 0]) simp
next
  case (Cons e es)
  show ?case
  proof (cases e)
    case (Round r)
    obtain m1 mem1 n1 where u: "conn_Update ks r heap cm (m, mem, n) = Some (m1, mem1, n1)"
      "server_ok a (drop 100 ms) m1 mem1" "\<forall>b. b \<noteq> a \<longrightarrow> mem1 b = mem b"
      by (rule conn_Update_ok [OF Cons.prems(1) assms(2)])
    have "\<forall>d \<in> set (zone_sent es). int (length d) \<le> PKG_BUF_SIZE" using Cons.prems(2) Round by simp
    from Cons.IH [OF u(2) this] obtain m' mem' n' acc k where
      r: "server_run ks heap cm zc es (m1, mem1, n1) = Some (m', mem', n')" "subseq acc (zone_sent es)"
        "k \<le> 100 * round_count es" "server_ok a (drop k (drop 100 ms @ acc)) m' mem'" "\<forall>b. b \<noteq> a \<longrightarrow> mem' b = mem1 b" by blast
    let ?k = "min 100 (length ms) + k"
    have "drop k (drop 100 ms @ acc) = drop ?k (ms @ acc)" by (simp add: min_def add.commute)
    then show ?thesis using Round u r
      by (intro exI [of _ m'] exI [of _ mem'] exI [of _ n'] exI [of _ acc] exI [of _ ?k]) simp
  next
    case (ZoneSends d)
    have q: "queue_holds (mem a) ms" using Cons.prems(1) by (simp add: server_ok_def)
    have d: "int (length d) \<le> PKG_BUF_SIZE" using Cons.prems(2) ZoneSends by simp
    then have "int (length d) < 2 ^ 32" by (simp add: PKG_BUF_SIZE_def MAX_SERVER_PACK_LEN_def sizeof_ConnMsgHead_def)
    then obtain s where s: "chan_SendMsg mem zc (Some d) (int (length d)) = Some (True, mem(a := s))"
      "queue_holds s (if queue_fits (mem a) ms (int (length d)) then ms @ [d] else ms)"
      by (rule chan_SendMsg_step [where mem = mem and a = a, OF assms(1) q])
    let ?x = "if queue_fits (mem a) ms (int (length d)) then [d] else []"
    have "server_ok a (ms @ ?x) m (mem(a := s))" using Cons.prems(1) s(2) d by (auto simp: server_ok_def)
    moreover have "\<forall>d \<in> set (zone_sent es). int (length d) \<le> PKG_BUF_SIZE" using Cons.prems(2) ZoneSends by simp
    ultimately obtain m' mem' n' acc k where
      r: "server_run ks heap cm zc es (m, mem(a := s), n) = Some (m', mem', n')" "subseq acc (zone_sent es)"
        "k \<le> 100 * round_count es" "server_ok a (drop k ((ms @ ?x) @ acc)) m' mem'" "\<forall>b. b \<noteq> a \<longrightarrow> mem' b = (mem(a := s)) b"
      using Cons.IH [where ms = "ms @ ?x" and m = m and mem = "mem(a := s)" and n = n] by blast
    have "subseq (?x @ acc) (zone_sent (e # es))" using r(2) ZoneSends by auto
    then show ?thesis using ZoneSends s(1) r
      by (intro exI [of _ m'] exI [of _ mem'] exI [of _ n'] exI [of _ "?x @ acc"] exI [of _ k]) (simp del: subseq_append)
  qed
qed

lemma quiet_rounds_ok:
  assumes "clients_live heap cm" and "server_ok a ms m mem"
  shows "\<exists>m' mem' n'. server_run ks heap cm zc (map Round rs) (m, mem, n) = Some (m', mem', n') \<and>
    server_ok a (drop (100 * length rs) ms) m' mem'"
  using assms(2)
proof (induction rs arbitrary: ms m mem n)
  case (Cons r rs)
  obtain m1 mem1 n1 where u: "conn_Update ks r heap cm (m, mem, n) = Some (m1, mem1, n1)"
    "server_ok a (drop 100 ms) m1 mem1" by (rule conn_Update_ok [OF Cons.prems assms(1)])
  have "drop (100 * length rs) (drop 100 ms) = drop (100 * length (r # rs)) ms" by (simp add: add.commute)
  with Cons.IH [OF u(2)] u(1) show ?case by simp
qed simp

lemma server_run_append:
  "server_run ks heap cm zc (es @ fs) st =
     (case server_run ks heap cm zc es st of None \<Rightarrow> None | Some st1 \<Rightarrow> server_run ks heap cm zc fs st1)"
  by (induction ks heap cm zc es st rule: server_run.induct) (auto split: option.splits)

text \<open>C14. The loop of a connection server that is set up never faults. Take any rounds, with whatever events the
  kernel reports and whatever it accepts for sending, and any messages of at most 1058840 bytes that the zone sends
  between them: no dangling client or socket is touched, the invariant of the sockets holds at the end, the segments
  of other queues are as before, and the zone's queue holds, in order, what it held and accepted without the part
  that the rounds took from its front - which is at most a hundred messages a round, and everything after enough
  quiet rounds.\<close>
theorem server_loop_safe:
  assumes "socket_manager m = Some sm" "mgr_ok sm" "clients_live heap cm"
    and "recv_queue (chan m) = Some a" "send_queue zc = Some a" "queue_holds (mem a) ms"
    and "\<forall>d \<in> set ms \<union> set (zone_sent es). int (length d) \<le> 1058840"
  shows "\<exists>m' mem' n' acc k. server_run ks heap cm zc es (m, mem, n) = Some (m', mem', n') \<and>
    (\<exists>sm'. socket_manager m' = Some sm' \<and> mgr_ok sm') \<and> (\<forall>b. b \<noteq> a \<longrightarrow> mem' b = mem b) \<and>
    subseq acc (zone_sent es) \<and> k \<le> 100 * round_count es \<and> queue_holds (mem' a) (drop k (ms @ acc)) \<and>
    (\<forall>rs. length (ms @ acc) \<le> k + 100 * length rs \<longrightarrow> (\<exists>m2 mem2 n2.
       server_run ks heap cm zc (es @ map Round rs) (m, mem, n) = Some (m2, mem2, n2) \<and> queue_holds (mem2 a) []))"
proof -
  have size: "PKG_BUF_SIZE = 1058840" by (simp add: PKG_BUF_SIZE_def MAX_SERVER_PACK_LEN_def sizeof_ConnMsgHead_def)
  have "server_ok a ms m mem" "\<forall>d \<in> set (zone_sent es). int (length d) \<le> PKG_BUF_SIZE"
    using assms by (auto simp: server_ok_def size)
  from server_run_ok [OF assms(5, 3) this, of ks n] obtain m' mem' n' acc k where
    r: "server_run ks heap cm zc es (m, mem, n) = Some (m', mem', n')" "subseq acc (zone_sent es)"
      "k \<le> 100 * round_count es" "server_ok a (drop k (ms @ acc)) m' mem'" "\<forall>b. b \<noteq> a \<longrightarrow> mem' b = mem b" by blast
  have "\<exists>m2 mem2 n2. server_run ks heap cm zc (es @ map Round rs) (m, mem, n) = Some (m2, mem2, n2) \<and> queue_holds (mem2 a) []"
    if l: "length (ms @ acc) \<le> k + 100 * length rs" for rs
  proof -
    obtain m2 mem2 n2 where "server_run ks heap cm zc (map Round rs) (m', mem', n') = Some (m2, mem2, n2)"
      "server_ok a (drop (100 * length rs) (drop k (ms @ acc))) m2 mem2"
      using quiet_rounds_ok [OF assms(3) r(4), of ks zc rs n'] by blast
    then show ?thesis using r(1) l by (simp add: server_run_append server_ok_def add.commute)
  qed
  then show ?thesis using r by (intro exI [of _ m'] exI [of _ mem'] exI [of _ n'] exI [of _ acc] exI [of _ k]) (simp add: server_ok_def)
qed

definition demo_zone_channel :: channel where
  "demo_zone_channel = \<lparr>recv_queue = None, send_queue = Some 4, send_shm = None, recv_shm = None\<rparr>"

definition demo_server :: conn_mgr where
  "demo_server = (ConnMgr 0 (demo_config, 0))\<lparr>socket_manager := Some demo_mgr,
     chan := \<lparr>recv_queue = Some 4, send_queue = None, send_shm = None, recv_shm = None\<rparr>\<rparr>"

lemma server_loop_safe_witness:
  "let s = \<lparr>head_idx = 0, tail_idx = 7, sh_size = 40, queue_buff = [3, 0, 0, 0, 1, 2, 3] @ replicate 33 0\<rparr>;
       r = \<lparr>r_sock_ms = 100, r_first_ms = 0, r_cur_ms = 5000, r_events = [(6, EPOLLIN)]\<rparr>
   in \<exists>m' mem' n'. server_run (\<lambda>k d. (0, k)) (\<lambda>_. None) ConnClientMgr demo_zone_channel [Round r, ZoneSends [7, 8], Round r]
        (demo_server, \<lambda>_. s, \<lparr>kstate = (), wire = []\<rparr>) = Some (m', mem', n')"
proof -
  let ?s = "\<lparr>head_idx = 0, tail_idx = 7, sh_size = 40, queue_buff = [3, 0, 0, 0, 1, 2, 3] @ replicate 33 0\<rparr>"
  have "ring_read (queue_buff ?s) 0 7 = frames [[1, 2, 3]]" by code_simp
  then have q: "queue_holds ?s [[1, 2, 3]]"
    by (simp add: queue_holds_def queue_ok_def queue_used_def used_def ring_ok_def idx_ok_def QUEUE_VACUUM_SLOT_def)
  have m: "socket_manager demo_server = Some demo_mgr" "recv_queue (chan demo_server) = Some 4"
    "send_queue demo_zone_channel = Some 4" "clients_live (\<lambda>_. None) ConnClientMgr"
    by (simp_all add: demo_server_def demo_zone_channel_def clients_live_def ConnClientMgr_def)
  show ?thesis
    unfolding Let_def using server_loop_safe [where mem = "\<lambda>_. ?s" and a = 4 and ms = "[[1, 2, 3]]" and
        es = "[Round \<lparr>r_sock_ms = 100, r_first_ms = 0, r_cur_ms = 5000, r_events = [(6, EPOLLIN)]\<rparr>, ZoneSends [7, 8],
          Round \<lparr>r_sock_ms = 100, r_first_ms = 0, r_cur_ms = 5000, r_events = [(6, EPOLLIN)]\<rparr>]" and
        ks = "\<lambda>k d. (0, k)" and n = "\<lparr>kstate = (), wire = []\<rparr>", OF m(1) demo_mgr_ok m(4, 2, 3) q] by auto
qed

end
