(* ===== verification/ConnStart.thy ===== *)
theory ConnStart
  imports ConnRun ConfProps
begin

text \<open>
  The start of the connection server: \<open>main\<close> of \<open>ConnSvr/src/main.cc\<close> from its arguments to the loop. The fuel of the
  configuration parser is any number from some point on, which depends on the files.
\<close>

subsection \<open>Set-up\<close>

lemma svr_InitConfig_fuel:
  assumes "finite (real_files (e_host e))"
  shows "\<exists>N r. \<forall>fuel\<ge>N. svr_InitConfig (e\<lparr>e_fuel := fuel\<rparr>) m buf = Some r"
proof (cases "cstr buf")
  case None
  then show ?thesis by (simp add: svr_InitConfig_def)
next
  case (Some f)
  obtain N r where "\<forall>fuel\<ge>N. setContent fuel (e_host e) (DOTCONFDocument True) f = Some r" using setContent_fuel [OF assms] by blast
  then show ?thesis by (intro exI [of _ N]) (simp add: svr_InitConfig_def conn_InitConfig_def SetSource_def Some)
qed

lemma svr_InitConfig_true: "svr_InitConfig e m buf = Some (Some (ok, m1)) \<Longrightarrow> ok"
  by (auto simp: svr_InitConfig_def split: option.splits)

lemma svr_Init_fuel:
  assumes "finite (real_files (e_host e))"
  shows "\<exists>N. \<forall>fuel\<ge>N. svr_Init (e\<lparr>e_fuel := fuel\<rparr>) mem m p \<noteq> None"
proof -
  obtain N r where "\<forall>fuel\<ge>N. svr_InitConfig (e\<lparr>e_fuel := fuel\<rparr>) m (config_file p) = Some r"
    using svr_InitConfig_fuel [OF assms] by blast
  then show ?thesis by (intro exI [of _ N]) (simp add: svr_Init_def)
qed

lemma InitSocket_null: "conn_InitSocket e m = Some (ok, m') \<Longrightarrow> 0 \<le> e_epoll e \<Longrightarrow> socket_manager m' = None"
  by (auto simp: conn_InitSocket_def mgr_Create_def ep_Initialize_def Initialize_def)

lemma svr_Init_result:
  assumes "svr_Init e mem m p = Some (Some (ok, mem1, m1))"
  shows "ok" "0 \<le> e_epoll e \<Longrightarrow> socket_manager m1 = None"
proof -
  obtain r where r: "svr_InitConfig e m (config_file p) = Some r" using assms by (auto simp: svr_Init_def)
  obtain c m0 where c: "r = Some (c, m0)" using assms r by (cases r) (auto simp: svr_Init_def)
  then have c': "c" using r svr_InitConfig_true by blast
  obtain mem2 m2 where m2: "svr_InitChannel e mem m0 = (True, mem2, m2)"
    by (cases "conn_InitChannel e mem m0") (auto simp: svr_InitChannel_def)
  obtain ok3 m3 where m3: "svr_InitSocket e m2 = Some (ok3, m3)"
    using assms r c c' m2 by (cases "svr_InitSocket e m2") (auto simp: svr_Init_def)
  then have o: "ok3" "0 \<le> e_epoll e \<longrightarrow> socket_manager m3 = None" using InitSocket_null by (auto simp: svr_InitSocket_def)
  show "ok" "0 \<le> e_epoll e \<Longrightarrow> socket_manager m1 = None" using assms r c c' m2 m3 o by (simp_all add: svr_Init_def)
qed

text \<open>The file cannot be read, so the defaults hold; \<open>epoll_create\<close> fails, so there is a manager; the two segments are new.\<close>

definition unreadable :: "conf_host \<Rightarrow> string \<Rightarrow> bool" where
  "unreadable h buf \<longleftrightarrow> (case cstr buf of None \<Rightarrow> False
     | Some f \<Rightarrow> (case realpath h f of None \<Rightarrow> True | Some rp \<Rightarrow> openread h rp = None))"

definition new_segments :: "shm_calls \<Rightarrow> shm_mem \<Rightarrow> nat \<Rightarrow> nat \<Rightarrow> bool" where
  "new_segments k mem a b \<longleftrightarrow> fresh_calls k CHANNEL_KEY_C2G CHANNEL_KEY_G2C CHANNEL_SIZE_C2G CHANNEL_SIZE_G2C a b \<and> a \<noteq> b \<and>
     segment_fits (mem a) CHANNEL_SIZE_C2G \<and> segment_fits (mem b) CHANNEL_SIZE_G2C"

lemma svr_Init_serves:
  assumes "unreadable (e_host e) (config_file p)" and "e_epoll e < 0" and "new_segments (e_shm e) mem a b"
  obtains mem1 m1 where "svr_Init e mem (ConnMgr now junk) p = Some (Some (True, mem1, m1))" "server_ok b [] m1 mem1"
proof -
  let ?m = "ConnMgr now junk"
  let ?m1 = "?m\<lparr>config := default_config (config ?m)\<rparr>"
  obtain f where f: "cstr (config_file p) = Some f" "case realpath (e_host e) f of None \<Rightarrow> True | Some rp \<Rightarrow> openread (e_host e) rp = None"
    using assms(1) by (auto simp: unreadable_def split: option.splits)
  then have "\<exists>d. setContent (e_fuel e) (e_host e) (DOTCONFDocument True) f = Some (Some (-1, d))"
    by (auto simp: setContent_def Let_def split: option.splits)
  then have c: "svr_InitConfig e ?m (config_file p) = Some (Some (True, ?m1))"
    by (auto simp: svr_InitConfig_def conn_InitConfig_def SetSource_def f(1) read_config_default)
  have s: "fresh_calls (e_shm e) CHANNEL_KEY_C2G CHANNEL_KEY_G2C CHANNEL_SIZE_C2G CHANNEL_SIZE_G2C a b" "a \<noteq> b"
    "segment_fits (mem a) CHANNEL_SIZE_C2G" "segment_fits (mem b) CHANNEL_SIZE_G2C"
    using assms(3) by (simp_all add: new_segments_def)
  obtain mem1 where ch: "chan_Create (e_shm e) mem MessageChannel CHANNEL_KEY_C2G CHANNEL_KEY_G2C CHANNEL_SIZE_C2G CHANNEL_SIZE_G2C =
      (True, mem1, \<lparr>recv_queue = Some b, send_queue = Some a, send_shm = Some a, recv_shm = Some b\<rparr>)" "queue_holds (mem1 b) []"
    by (rule create_fresh [OF s])
  have x: "chan ?m1 = MessageChannel" by (simp add: ConnMgr_def)
  let ?m2 = "?m1\<lparr>chan := \<lparr>recv_queue = Some b, send_queue = Some a, send_shm = Some a, recv_shm = Some b\<rparr>\<rparr>"
  have i: "svr_InitChannel e mem ?m1 = (True, mem1, ?m2)" using ch(1) by (simp add: svr_InitChannel_def conn_InitChannel_def x)
  let ?sm = "snd (Initialize (SocketManager (e_now e)) (max_accept_client (config ?m2)))"
  have "mgr_Create (e_epoll e) (e_now e) (max_accept_client (config ?m2)) = Some ?sm"
    using assms(2) by (simp add: mgr_Create_def ep_Initialize_def Initialize_def)
  moreover have "listen_port_count (config ?m2) = 0" by (simp add: default_config_def)
  ultimately have k: "svr_InitSocket e ?m2 = Some (True, ?m2\<lparr>socket_manager := Some ?sm\<rparr>)"
    by (simp add: svr_InitSocket_def conn_InitSocket_def listen_all.simps)
  have "mgr_ok ?sm" by (simp add: mgr_ok_def tables_ok_def Initialize_def SocketManager_def)
  then have "server_ok b [] (?m2\<lparr>socket_manager := Some ?sm\<rparr>) mem1" using ch(2) by (simp add: server_ok_def)
  moreover have "svr_Init e mem ?m p = Some (Some (True, mem1, ?m2\<lparr>socket_manager := Some ?sm\<rparr>))"
    using c i k by (simp add: svr_Init_def)
  ultimately show thesis using that by blast
qed

lemma conn_rounds_server_run: "conn_rounds ks heap cm rs st = server_run ks heap cm zc (map Round rs) st"
  by (induction rs arbitrary: st) (auto split: option.splits)

subsection \<open>The program\<close>

lemma conn_main_goes_on:
  assumes "conn_ParseArgs argv uninit = (False, p)" and "daemon p \<longrightarrow> pids = (0, 0)"
  shows "conn_main ks e pids uninit junk heap cm rs mem n argv =
    map_option (\<lambda>r. case r of None \<Rightarrow> Faulted
      | Some (ok, mem1, m) \<Rightarrow> (case conn_rounds ks heap cm rs (m, mem1, n) of None \<Rightarrow> Faulted | Some _ \<Rightarrow> Serving))
      (svr_Init e mem (ConnMgr (e_now e) junk) p)"
proof -
  have d: "(if daemon p then InitDaemon pids else None) = None" using assms(2) by (simp add: InitDaemon_def)
  show ?thesis
  proof (cases "svr_Init e mem (ConnMgr (e_now e) junk) p")
    case (Some r)
    then show ?thesis using assms(1) d svr_Init_result(1) by (cases r) (fastforce simp: conn_main_def)+
  qed (use assms(1) d in \<open>simp add: conn_main_def\<close>)
qed

lemma conn_main_null_manager:
  assumes "conn_ParseArgs argv uninit = (False, p)" "daemon p \<longrightarrow> pids = (0, 0)" "rs \<noteq> []"
    and "svr_Init e mem (ConnMgr (e_now e) junk) p \<noteq> None"
  shows "conn_main ks e pids uninit junk heap cm rs mem n argv = Some Faulted \<or>
    e_epoll e < 0 \<and> conn_main ks e pids uninit junk heap cm rs mem n argv = Some Serving"
proof -
  obtain r where r: "svr_Init e mem (ConnMgr (e_now e) junk) p = Some r" using assms(4) by blast
  show ?thesis
  proof (cases r)
    case None
    show ?thesis unfolding conn_main_goes_on [OF assms(1,2)] r None by simp
  next
    case (Some s)
    obtain ok mem1 m1 where s: "s = (ok, mem1, m1)" by (cases s)
    have "conn_rounds ks heap cm rs (m1, mem1, n) = None" if "0 \<le> e_epoll e"
      using svr_Init_result(2) [OF r [unfolded Some s] that] assms(3) by (cases rs) (simp_all add: conn_Update_def UpdateSocket_def)
    then show ?thesis unfolding conn_main_goes_on [OF assms(1,2)] r Some s by (cases "0 \<le> e_epoll e") (auto split: option.splits)
  qed
qed

text \<open>C35. The connection server serves only when it could not set up its sockets. With the arguments it asks for it ends at
  once with the status -1. Without them it goes on with an uninitialised command line: a process that forks ends with the
  status 0, also when a fork has failed. One that does not fork stops with a fault, at the latest in its first round, where
  the socket manager is the null pointer, whenever \<open>epoll_create\<close> has succeeded. When it has failed, the program is found in
  its loop or at a fault, and certainly in its loop, with no socket that listens, when the configuration file cannot be read
  and the shared segments are new. Loading the configuration ends: all this holds for every fuel from some number on.\<close>
theorem conn_server_serves_only_broken:
  assumes "rs \<noteq> []" and "finite (real_files (e_host e))"
  shows "if 2 \<le> length argv \<and> \<not> (length argv = 2 \<and> same_arg (argv ! 1) ''-v'')
    then conn_main ks e pids uninit junk heap cm rs mem n argv = Some (Exited (-1))
    else if daemon uninit \<and> pids \<noteq> (0, 0)
    then conn_main ks e pids uninit junk heap cm rs mem n argv = Some (Exited 0)
    else \<exists>N. \<forall>fuel\<ge>N. if 0 \<le> e_epoll e
      then conn_main ks (e\<lparr>e_fuel := fuel\<rparr>) pids uninit junk heap cm rs mem n argv = Some Faulted
      else if unreadable (e_host e) (config_file uninit) \<and> (\<exists>a b. new_segments (e_shm e) mem a b) \<and> clients_live heap cm
      then conn_main ks (e\<lparr>e_fuel := fuel\<rparr>) pids uninit junk heap cm rs mem n argv = Some Serving
      else conn_main ks (e\<lparr>e_fuel := fuel\<rparr>) pids uninit junk heap cm rs mem n argv \<in> {Some Faulted, Some Serving}"
proof (cases "fst (conn_ParseArgs argv uninit)")
  case True
  then show ?thesis by (auto simp: conn_main_def conn_ParseArgs_def Let_def split: if_splits)
next
  case False
  then have p: "conn_ParseArgs argv uninit = (False, uninit)" by (auto simp: conn_ParseArgs_def split: if_splits)
  have usage: "\<not> (2 \<le> length argv \<and> \<not> (length argv = 2 \<and> same_arg (argv ! 1) ''-v''))"
    using False by (auto simp: conn_ParseArgs_def split: if_splits)
  let ?main = "\<lambda>fuel. conn_main ks (e\<lparr>e_fuel := fuel\<rparr>) pids uninit junk heap cm rs mem n argv"
  show ?thesis
  proof (cases "daemon uninit \<and> pids \<noteq> (0, 0)")
    case True
    then have "conn_main ks e pids uninit junk heap cm rs mem n argv = Some (Exited 0)"
      using p by (cases pids) (auto simp: conn_main_def InitDaemon_def)
    then show ?thesis by (simp only: usage True if_False if_True simp_thms)
  next
    case False
    then have d: "daemon uninit \<longrightarrow> pids = (0, 0)" by blast
    obtain N where N: "\<forall>fuel\<ge>N. svr_Init (e\<lparr>e_fuel := fuel\<rparr>) mem (ConnMgr (e_now e) junk) uninit \<noteq> None"
      using svr_Init_fuel [OF assms(2)] by blast
    have r: "?main fuel = Some Faulted \<or> e_epoll e < 0 \<and> ?main fuel = Some Serving" if "N \<le> fuel" for fuel
      using conn_main_null_manager [OF p d assms(1), where e = "e\<lparr>e_fuel := fuel\<rparr>" and mem = mem and junk = junk] N that by simp
    have "?main fuel = Some Serving" if u: "unreadable (e_host e) (config_file uninit)" "new_segments (e_shm e) mem a b"
      "clients_live heap cm" "e_epoll e < 0" for fuel a b
    proof -
      let ?e = "e\<lparr>e_fuel := fuel\<rparr>"
      obtain mem1 m1 where i: "svr_Init ?e mem (ConnMgr (e_now e) junk) uninit = Some (Some (True, mem1, m1))" "server_ok b [] m1 mem1"
        by (rule svr_Init_serves [of ?e uninit mem a b]) (use u in simp_all)
      have "conn_rounds ks heap cm rs (m1, mem1, n) \<noteq> None"
        using quiet_rounds_ok [OF u(3) i(2), of ks MessageChannel rs n] by (auto simp: conn_rounds_server_run [where zc = MessageChannel])
      moreover have "svr_Init ?e mem (ConnMgr (e_now ?e) junk) uninit = Some (Some (True, mem1, m1))" using i(1) by simp
      ultimately show ?thesis unfolding conn_main_goes_on [OF p d] by (auto split: option.splits)
    qed
    with r show ?thesis unfolding if_not_P [OF usage] if_not_P [OF False] by (intro exI [of _ N]) (auto simp: not_le)
  qed
qed

definition demo_env :: "int \<Rightarrow> conn_env" where
  "demo_env epoll = \<lparr>e_fuel = 5, e_host = \<lparr>realpath = (\<lambda>_. None), openread = (\<lambda>_. None), access = (\<lambda>_. True), getenv = (\<lambda>_. None)\<rparr>,
     e_shm = demo_calls True, e_epoll = epoll, e_now = 0, e_inet_addr = (\<lambda>_. 0), e_sock = demo_sock_env\<rparr>"

definition blank_segments :: shm_mem where
  "blank_segments = (\<lambda>_. \<lparr>head_idx = 0, tail_idx = 0, sh_size = 0, queue_buff = replicate (nat (CHANNEL_SIZE_C2G - 12)) 0\<rparr>)"

lemma conn_server_serves_only_broken_witness:
  "\<exists>N. let r = \<lparr>r_sock_ms = 0, r_first_ms = 0, r_cur_ms = 0, r_events = []\<rparr>;
       start = (\<lambda>epoll pids. conn_main (\<lambda>k d. (0, k)) (demo_env epoll\<lparr>e_fuel := N\<rparr>) pids \<lparr>config_file = ''a'' @ [NUL], daemon = True\<rparr>
         (demo_config, 0) (\<lambda>_. None) ConnClientMgr [r] blank_segments \<lparr>kstate = (), wire = []\<rparr>)
     in start 3 (0, 0) [''conn_svr'', ''conn_svr.conf'', ''-nd''] = Some (Exited (-1)) \<and> start 3 (7, 0) [''conn_svr''] = Some (Exited 0) \<and>
       start 3 (0, 0) [''conn_svr''] = Some Faulted \<and> start (-1) (0, 0) [''conn_svr''] = Some Serving"
proof -
  let ?r = "\<lparr>r_sock_ms = 0, r_first_ms = 0, r_cur_ms = 0, r_events = []\<rparr>" and ?u = "\<lparr>config_file = ''a'' @ [NUL], daemon = True\<rparr>"
  let ?start = "\<lambda>epoll N pids. conn_main (\<lambda>k d. (0, k)) (demo_env epoll\<lparr>e_fuel := N\<rparr>) pids ?u
      (demo_config, 0) (\<lambda>_. None) ConnClientMgr [?r] blank_segments \<lparr>kstate = (), wire = []\<rparr>"
  have fin: "finite (real_files (e_host (demo_env epoll\<lparr>e_fuel := n\<rparr>)))" "finite (real_files (e_host (demo_env epoll)))" for epoll n
    by (simp_all add: demo_env_def real_files_def)
  have u: "unreadable (e_host (demo_env epoll)) (config_file ?u)" for epoll by (simp add: unreadable_def demo_env_def cstr_def)
  have k: "new_segments (e_shm (demo_env epoll)) blank_segments 4096 4097" for epoll
    by (simp add: new_segments_def fresh_calls_def segment_fits_def demo_env_def demo_calls_def blank_segments_def CHANNEL_KEY_C2G_def
        CHANNEL_KEY_G2C_def CHANNEL_SIZE_C2G_def CHANNEL_SIZE_G2C_def)
  have c: "clients_live (\<lambda>_. None) ConnClientMgr" by (simp add: clients_live_def ConnClientMgr_def)
  have ep: "e_epoll (demo_env epoll) = epoll" for epoll by (simp add: demo_env_def)
  note t = conn_server_serves_only_broken [where rs = "[?r]" and ks = "\<lambda>k d. (0, k)" and uninit = ?u and junk = "(demo_config, 0)" and
      heap = "\<lambda>_. None" and cm = ConnClientMgr and mem = blank_segments and n = "\<lparr>kstate = (), wire = []\<rparr>", OF list.distinct(2)]
  have 1: "?start 3 N (0, 0) [''conn_svr'', ''conn_svr.conf'', ''-nd''] = Some (Exited (-1))" for N
    using t [OF fin(1), where argv = "[''conn_svr'', ''conn_svr.conf'', ''-nd'']"] by simp
  have 2: "?start 3 N (7, 0) [''conn_svr''] = Some (Exited 0)" for N
    using t [OF fin(1), where argv = "[''conn_svr'']" and pids = "(7, 0)"] by simp
  obtain N1 where 3: "?start 3 n (0, 0) [''conn_svr''] = Some Faulted" if "N1 \<le> n" for n
    using t [OF fin(2) [of 3], where argv = "[''conn_svr'']" and pids = "(0, 0)"] ep [of 3] by auto
  have n: "\<not> (2 \<le> length [''conn_svr''] \<and> \<not> (length [''conn_svr''] = 2 \<and> same_arg ([''conn_svr''] ! 1) ''-v''))"
    "\<not> (daemon ?u \<and> (0 :: int, 0 :: int) \<noteq> (0, 0))" "\<not> 0 \<le> e_epoll (demo_env (-1))" by (simp_all add: ep)
  have y: "unreadable (e_host (demo_env (-1))) (config_file ?u) \<and> (\<exists>a b. new_segments (e_shm (demo_env (-1))) blank_segments a b) \<and>
      clients_live (\<lambda>_. None) ConnClientMgr" using u k c by blast
  obtain N2 where 4: "?start (-1) n (0, 0) [''conn_svr''] = Some Serving" if "N2 \<le> n" for n
    using t [OF fin(2) [of "-1"], where argv = "[''conn_svr'']" and pids = "(0, 0)",
        unfolded if_not_P [OF n(1)] if_not_P [OF n(2)] if_not_P [OF n(3)] if_P [OF y]] by blast
  show ?thesis unfolding Let_def using 1 2 3 [of "max N1 N2"] 4 [of "max N1 N2"] by (intro exI [of _ "max N1 N2"]) simp
qed

end
