(* ===== verification/PoolSpace.thy ===== *)
theory PoolSpace
  imports PoolProps PoolMgr Decimal
begin

text \<open>
  Several object pools in the one buffer of the manager: \<open>TObjPool::CreateObjpool\<close> and \<open>CObjPoolMgr::CreatePool\<close> of
  \<open>common/jybase/obj_pool.h\<close> with the pools they make, \<open>base_exception\<close> of \<open>common/jybase/base_exception.h\<close> and the
  plain accessors of a pool.

  \<^item> \<open>PoolSize\<close> has no body in the repository. What is relied on is \<open>pool_size_law\<close>: it is at least what \<open>CreatePool\<close>
    lays out, the header with its bit map and the array of slots.
  \<^item> \<open>Inl\<close> is the exception with its text, \<open>Inr None\<close> a fault. \<open>old\<close> is what the memory of the new pool held.
\<close>

subsection \<open>Accessors\<close>

definition UnitSize :: "pool \<Rightarrow> nat" where "UnitSize p = pool_unit p"
definition AllocateCount :: "pool \<Rightarrow> nat" where "AllocateCount p = allocate_count p"
definition DeallocateCount :: "pool \<Rightarrow> nat" where "DeallocateCount p = deallocate_count p"
definition PoolType :: "pool \<Rightarrow> int" where "PoolType p = obj_type p"
definition array_Start :: "buffer_array \<Rightarrow> int" where "array_Start a = arr_start a"
definition array_MaxSize :: "buffer_array \<Rightarrow> nat" where "array_MaxSize a = arr_count a"
definition PoolStart :: "pool \<Rightarrow> int" where "PoolStart p = array_Start (parray p)"
definition MaxUsedNode :: "pool \<Rightarrow> nat" where "MaxUsedNode p = nat (u64 (max_used_node p))"

text \<open>Those of the manager. \<open>FindPool\<close> has no body in the repository; a null result is dereferenced by \<open>GetPool\<close>.\<close>

definition mgr_GetPool :: "('g \<Rightarrow> int \<Rightarrow> int option) \<Rightarrow> 'g pool_mgr \<Rightarrow> int \<Rightarrow> int option" where
  "mgr_GetPool FindPool m otyp = FindPool (registry m) otyp"

definition mgr_size :: "'g pool_mgr \<Rightarrow> int" where "mgr_size m = m_capacity m"
definition mgr_TimerQueue :: "'g pool_mgr \<Rightarrow> int option" where "mgr_TimerQueue m = m_tq m"
definition GetResumeFix :: "'g pool_mgr \<Rightarrow> int" where "GetResumeFix m = m_ResumeFix m"

text \<open>The exception; \<open>what\<close> gives its text.\<close>

record base_exception =
  desc :: string

definition what :: "base_exception \<Rightarrow> string" where "what e = desc e"

subsection \<open>Pools in the buffer\<close>

definition no_memory :: "int \<Rightarrow> int \<Rightarrow> base_exception" where
  "no_memory need have_size = \<lparr>desc = ''Insufficient memory buffer size, '' @ fmt_d 0 need @ '' needed, but only '' @
     fmt_d 0 have_size @ '' bytes''\<rparr>"

text \<open>The address of the pool, what lies there, and the number of bytes that is stored in \<open>buffer_size\<close>; \<open>resume_error\<close> is the
  exception of a resume with other parameters.\<close>

definition CreateObjpool ::
  "(int \<Rightarrow> int \<Rightarrow> int) \<Rightarrow> nat \<Rightarrow> base_exception \<Rightarrow> int \<Rightarrow> pool \<Rightarrow> int \<Rightarrow> int \<Rightarrow> nat \<Rightarrow> nat \<Rightarrow> bool \<Rightarrow>
   base_exception + (int \<times> pool \<times> int) option" where
  "CreateObjpool PoolSize sizeof_pool resume_error buffer old buffer_size otyp unit n resume =
     (let need = PoolSize (int unit) (int n)
      in if buffer_size < need then Inl (no_memory need buffer_size)
         else case TObjPool sizeof_pool buffer old otyp unit n resume of
             Inl e \<Rightarrow> Inl resume_error
           | Inr None \<Rightarrow> Inr None
           | Inr (Some p) \<Rightarrow> Inr (Some (buffer, p, need)))"

definition mgr_MakePool ::
  "(int \<Rightarrow> int \<Rightarrow> int) \<Rightarrow> nat \<Rightarrow> base_exception \<Rightarrow> (int \<Rightarrow> int \<Rightarrow> 'g \<Rightarrow> 'g) \<Rightarrow> 'g pool_mgr \<Rightarrow> pool \<Rightarrow> int \<Rightarrow> nat \<Rightarrow> nat \<Rightarrow>
   base_exception + (int \<times> int \<times> pool \<times> 'g pool_mgr) option" where
  "mgr_MakePool PoolSize sizeof_pool resume_error InsertPool m old otyp unit n =
     (case CreateObjpool PoolSize sizeof_pool resume_error (m_nextPoolBuffer m) old (m_capacity m) otyp unit n (m_resume m) of
        Inl e \<Rightarrow> Inl e
      | Inr None \<Rightarrow> Inr None
      | Inr (Some (a, p, need)) \<Rightarrow>
          Inr (Some (0, a, p, carve need (m\<lparr>registry := InsertPool otyp a (registry m)\<rparr>))))"

text \<open>\<open>mgr_CreatePool\<close> of \<open>PoolMgr\<close> is what this does to the manager.\<close>

lemma mgr_MakePool_state:
  "mgr_MakePool ps sz err ins m old ty u n = Inr (Some (r, a, p, m')) \<Longrightarrow>
   mgr_CreatePool ps ins m ty (int u) (int n) = Inr (r, a, m')"
  by (auto simp: mgr_MakePool_def CreateObjpool_def mgr_CreatePool_def Let_def split: if_splits sum.splits option.splits)

text \<open>A run of requests: type, size and number of the objects, and the old memory. An exception is caught and the
  next request made.\<close>

type_synonym pool_req = "int \<times> nat \<times> nat \<times> pool"

fun make_pools ::
  "(int \<Rightarrow> int \<Rightarrow> int) \<Rightarrow> nat \<Rightarrow> base_exception \<Rightarrow> (int \<Rightarrow> int \<Rightarrow> 'g \<Rightarrow> 'g) \<Rightarrow> 'g pool_mgr \<Rightarrow> pool_req list \<Rightarrow>
   (pool list \<times> 'g pool_mgr) option" where
  "make_pools ps sz err ins m [] = Some ([], m)"
| "make_pools ps sz err ins m ((ty, u, n, old) # rs) =
     (case mgr_MakePool ps sz err ins m old ty u n of
        Inl e \<Rightarrow> make_pools ps sz err ins m rs
      | Inr None \<Rightarrow> None
      | Inr (Some (r, a, p, m1)) \<Rightarrow>
          (case make_pools ps sz err ins m1 rs of None \<Rightarrow> None | Some (pls, m2) \<Rightarrow> Some (p # pls, m2)))"

text \<open>The same run, with the address of each pool.\<close>

fun place_pools ::
  "(int \<Rightarrow> int \<Rightarrow> int) \<Rightarrow> nat \<Rightarrow> base_exception \<Rightarrow> (int \<Rightarrow> int \<Rightarrow> 'g \<Rightarrow> 'g) \<Rightarrow> 'g pool_mgr \<Rightarrow> pool_req list \<Rightarrow>
   ((int \<times> pool) list \<times> 'g pool_mgr) option" where
  "place_pools ps sz err ins m [] = Some ([], m)"
| "place_pools ps sz err ins m ((ty, u, n, old) # rs) =
     (case mgr_MakePool ps sz err ins m old ty u n of
        Inl e \<Rightarrow> place_pools ps sz err ins m rs
      | Inr None \<Rightarrow> None
      | Inr (Some (r, a, p, m1)) \<Rightarrow>
          (case place_pools ps sz err ins m1 rs of None \<Rightarrow> None | Some (pls, m2) \<Rightarrow> Some ((a, p) # pls, m2)))"

lemma make_place_pools:
  "make_pools ps sz err ins m rs = map_option (\<lambda>(aps, m). (map snd aps, m)) (place_pools ps sz err ins m rs)"
  by (induction rs arbitrary: m) (auto split: sum.splits option.splits)

text \<open>The requests that fit, each into what the ones before it left.\<close>

fun fitting :: "(int \<Rightarrow> int \<Rightarrow> int) \<Rightarrow> int \<Rightarrow> pool_req list \<Rightarrow> pool_req list" where
  "fitting PoolSize cap [] = []"
| "fitting PoolSize cap ((ty, u, n, old) # rs) =
     (let need = PoolSize (int u) (int n)
      in if cap < need then fitting PoolSize cap rs else (ty, u, n, old) # fitting PoolSize (cap - need) rs)"

subsection \<open>Objects\<close>

definition obj_addrs :: "pool \<Rightarrow> int \<Rightarrow> int set" where
  "obj_addrs p a = {a..<a + int (arr_unit (parray p))}"

definition region :: "pool \<Rightarrow> int set" where
  "region p = {arr_start (parray p)..<arr_start (parray p) + int (arr_unit (parray p) * arr_count (parray p))}"

text \<open>The bytes of a pool at \<open>a\<close>: the header with the bit map, and the slots.\<close>

definition pool_header :: "nat \<Rightarrow> int \<times> pool \<Rightarrow> int set" where
  "pool_header sz ap = {fst ap..<fst ap + int (sz + 4 * pool_count (snd ap))}"

definition pool_area :: "nat \<Rightarrow> int \<times> pool \<Rightarrow> int set" where
  "pool_area sz ap = pool_header sz ap \<union> region (snd ap)"

datatype pools_call = NewObj nat | DelObj nat int

text \<open>
  What happens along a list of calls on numbered pools; \<open>L\<close> is the set of live objects, as numbers of pools and addresses.
  \<open>Allocate\<close> returns the null pointer exactly when all slots of the pool are live, and otherwise a slot of the pool that is not, and
  shares no byte with a live object of any pool. \<open>Deallocate\<close> frees a live slot; for one that is not live it changes nothing, and
  an address that is no slot of the pool is a fault, which ends the run. A call on a pool that does not exist is not made.
\<close>

fun pools_safe :: "pool list \<Rightarrow> (nat \<times> int) set \<Rightarrow> pools_call list \<Rightarrow> bool" where
  "pools_safe ps L [] = True"
| "pools_safe ps L (NewObj k # cs) =
     (if k < length ps
      then (case Allocate (ps ! k) of
              None \<Rightarrow> False
            | Some (None, p') \<Rightarrow> (\<forall>a \<in> slots_of (parray (ps ! k)). (k, a) \<in> L) \<and> p' = ps ! k \<and> pools_safe ps L cs
            | Some (Some a, p') \<Rightarrow> a \<in> slots_of (parray (ps ! k)) \<and> (k, a) \<notin> L \<and>
                (\<forall>(j, b) \<in> L. obj_addrs (ps ! k) a \<inter> obj_addrs (ps ! j) b = {}) \<and>
                pools_safe (ps[k := p']) (insert (k, a) L) cs)
      else pools_safe ps L cs)"
| "pools_safe ps L (DelObj k a # cs) =
     (if k < length ps
      then (if a \<in> slots_of (parray (ps ! k))
            then (case Deallocate (ps ! k) (Some a) of
                None \<Rightarrow> False
              | Some p' \<Rightarrow> ((k, a) \<notin> L \<longrightarrow> p' = ps ! k) \<and> pools_safe (ps[k := p']) (L - {(k, a)}) cs)
            else Deallocate (ps ! k) (Some a) = None)
      else pools_safe ps L cs)"

definition pools_ok :: "pool list \<Rightarrow> (nat \<times> int) set \<Rightarrow> bool" where
  "pools_ok ps L \<longleftrightarrow> (\<forall>k < length ps. \<exists>as. pool_slots (ps ! k) as {a. (k, a) \<in> L}) \<and>
     (\<forall>(k, a) \<in> L. k < length ps) \<and>
     (\<forall>j < length ps. \<forall>k < length ps. j \<noteq> k \<longrightarrow> region (ps ! j) \<inter> region (ps ! k) = {})"

lemma slot_in_region: "i < arr_count (parray p) \<Longrightarrow> obj_addrs p (slot_addr (parray p) i) \<subseteq> region p"
proof -
  assume "i < arr_count (parray p)"
  then have "Suc i * arr_unit (parray p) \<le> arr_count (parray p) * arr_unit (parray p)" by (intro mult_le_mono1) simp
  then have "int (Suc i * arr_unit (parray p)) \<le> int (arr_count (parray p) * arr_unit (parray p))" by (rule zle_int [THEN iffD2])
  moreover have "arr_start (parray p) \<le> slot_addr (parray p) i" by (simp add: slot_addr_def)
  moreover have "slot_addr (parray p) i + int (arr_unit (parray p)) = arr_start (parray p) + int (Suc i * arr_unit (parray p))"
    by (simp add: slot_addr_def)
  ultimately show ?thesis by (auto simp: obj_addrs_def region_def mult.commute)
qed

lemma slots_apart: "i \<noteq> j \<Longrightarrow> obj_addrs p (slot_addr (parray p) i) \<inter> obj_addrs p (slot_addr (parray p) j) = {}"
  using slots_disjoint [of i j "parray p"] slots_disjoint [of j i "parray p"] by (cases "i < j") (auto simp: obj_addrs_def)

text \<open>Live and free slots of one pool.\<close>

lemma pool_slotsE:
  assumes "pool_slots p as L" and "a \<in> set as \<union> L"
  obtains i where "a = slot_addr (parray p) i" "i < arr_count (parray p)"
proof -
  obtain fs where ok: "pool_ok p fs" "as = map (slot_addr (parray p)) fs" "L = slot_addr (parray p) ` busy p"
    using assms(1) by (auto simp: pool_slots_def)
  then have "set fs \<union> busy p \<subseteq> {..<arr_count (parray p)}"
    using pool_okD(1, 4) [OF ok(1)] busy_bound by (auto simp: shape_ok_def)
  then show thesis using that assms(2) ok(2, 3) by auto
qed

lemma pool_slots_region: "pool_slots p as L \<Longrightarrow> a \<in> set as \<union> L \<Longrightarrow> obj_addrs p a \<subseteq> region p"
  by (metis pool_slotsE slot_in_region)

lemma pool_slots_apart:
  "pool_slots p as L \<Longrightarrow> a \<in> set as \<union> L \<Longrightarrow> b \<in> set as \<union> L \<Longrightarrow> a \<noteq> b \<Longrightarrow> obj_addrs p a \<inter> obj_addrs p b = {}"
  by (metis pool_slotsE slots_apart)

text \<open>What no call on a pool changes.\<close>

definition frame_of :: "pool \<Rightarrow> buffer_array \<times> nat \<times> nat \<times> int" where
  "frame_of p = (parray p, pool_unit p, pool_count p, obj_type p)"

lemma Allocate_frame: "pool_slots p as L \<Longrightarrow> Allocate p = Some (r, p') \<Longrightarrow> frame_of p' = frame_of p"
proof -
  assume "pool_slots p as L" and r: "Allocate p = Some (r, p')"
  then obtain fs where ok: "pool_ok p fs" by (auto simp: pool_slots_def)
  show ?thesis
  proof (cases fs)
    case Nil
    then show ?thesis using r ok GetFreeNode_empty by (simp add: Allocate_def)
  next
    case (Cons i fs')
    then show ?thesis using r ok Allocate_cons by (auto simp: frame_of_def pool_taken_def Let_def)
  qed
qed

lemma Deallocate_frame: "pool_slots p as L \<Longrightarrow> a \<in> L \<Longrightarrow> Deallocate p (Some a) = Some p' \<Longrightarrow> frame_of p' = frame_of p"
  using Deallocate_busy pool_okD(1) by (fastforce simp: pool_slots_def frame_of_def pool_released_def)

lemma frame_parray: "frame_of p' = frame_of p \<Longrightarrow> parray p' = parray p"
  by (simp add: frame_of_def)

lemma region_parray: "parray p' = parray p \<Longrightarrow> region p' = region p"
  by (simp add: region_def)

lemma pools_ok_update:
  assumes ok: "pools_ok ps L" and k: "k < length ps" "parray p' = parray (ps ! k)" "pool_slots p' as {a. (k, a) \<in> L'}"
    and L': "\<And>j a. j \<noteq> k \<Longrightarrow> (j, a) \<in> L' \<longleftrightarrow> (j, a) \<in> L"
  shows "pools_ok (ps[k := p']) L'"
proof -
  have r: "region (ps[k := p'] ! j) = region (ps ! j)" if "j < length ps" for j
    using that k(1) region_parray [OF k(2)] by (cases "j = k") simp_all
  have "\<exists>as. pool_slots (ps[k := p'] ! j) as {a. (j, a) \<in> L'}" if "j < length ps" for j
    using that ok k L' by (cases "j = k") (auto simp: pools_ok_def)
  moreover have "j < length ps" if "(j, a) \<in> L'" for j a
    using that L' [of j a] ok k(1) by (cases "j = k") (auto simp: pools_ok_def)
  moreover have "\<forall>i < length ps. \<forall>j < length ps. i \<noteq> j \<longrightarrow> region (ps[k := p'] ! i) \<inter> region (ps[k := p'] ! j) = {}"
    using ok r by (simp add: pools_ok_def)
  ultimately show ?thesis by (auto simp: pools_ok_def)
qed

text \<open>One call on one of the pools.\<close>

lemma pools_new:
  assumes ok: "pools_ok ps L" and k: "k < length ps"
  obtains (full) "Allocate (ps ! k) = Some (None, ps ! k)" "\<forall>a \<in> slots_of (parray (ps ! k)). (k, a) \<in> L"
  | (taken) a p' where "Allocate (ps ! k) = Some (Some a, p')" "pools_ok (ps[k := p']) (insert (k, a) L)"
      "frame_of p' = frame_of (ps ! k)" "a \<in> slots_of (parray (ps ! k))" "(k, a) \<notin> L"
      "\<forall>(j, b) \<in> L. obj_addrs (ps ! k) a \<inter> obj_addrs (ps ! j) b = {}"
proof -
  obtain as where s: "pool_slots (ps ! k) as {a. (k, a) \<in> L}" using ok k by (auto simp: pools_ok_def)
  note c = pool_slots_cover [OF s]
  show thesis
  proof (cases as)
    case Nil
    have "Allocate (ps ! k) = Some (None, ps ! k)" using pool_slots_full s Nil by simp
    moreover have "\<forall>a \<in> slots_of (parray (ps ! k)). (k, a) \<in> L" using c(3) Nil by auto
    ultimately show thesis by (rule full)
  next
    case (Cons a as')
    then obtain p' where p': "Allocate (ps ! k) = Some (Some a, p')" "pool_slots p' as' (insert a {a. (k, a) \<in> L})"
      using pool_slots_alloc s by blast
    note f = Allocate_frame [OF s p'(1)]
    have a: "a \<in> set as" "(k, a) \<notin> L" "a \<in> slots_of (parray (ps ! k))" using Cons c(2,3) by auto
    have "obj_addrs (ps ! k) a \<inter> obj_addrs (ps ! j) b = {}" if "(j, b) \<in> L" for j b
    proof (cases "j = k")
      case True
      then show ?thesis using pool_slots_apart [OF s] a that by auto
    next
      case False
      have j: "j < length ps" using ok that by (auto simp: pools_ok_def)
      then obtain bs where "pool_slots (ps ! j) bs {a. (j, a) \<in> L}" using ok by (auto simp: pools_ok_def)
      then have "obj_addrs (ps ! j) b \<subseteq> region (ps ! j)" using pool_slots_region that by auto
      moreover have "obj_addrs (ps ! k) a \<subseteq> region (ps ! k)" using pool_slots_region [OF s] a by auto
      moreover have "region (ps ! k) \<inter> region (ps ! j) = {}" using ok k j False by (simp add: pools_ok_def)
      ultimately show ?thesis by blast
    qed
    then have apart: "\<forall>(j, b) \<in> L. obj_addrs (ps ! k) a \<inter> obj_addrs (ps ! j) b = {}" by blast
    have "insert a {a. (k, a) \<in> L} = {b. (k, b) \<in> insert (k, a) L}" by auto
    then have "pools_ok (ps[k := p']) (insert (k, a) L)"
      using p'(2) by (intro pools_ok_update [OF ok k frame_parray [OF f]]) auto
    then show thesis using taken p'(1) f a apart by blast
  qed
qed

lemma pools_del:
  assumes ok: "pools_ok ps L" and k: "k < length ps" and a: "a \<in> slots_of (parray (ps ! k))"
  obtains p' where "Deallocate (ps ! k) (Some a) = Some p'" "(k, a) \<notin> L \<longrightarrow> p' = ps ! k"
    "pools_ok (ps[k := p']) (L - {(k, a)})" "frame_of p' = frame_of (ps ! k)"
proof -
  obtain as where s: "pool_slots (ps ! k) as {a. (k, a) \<in> L}" using ok k by (auto simp: pools_ok_def)
  show thesis
  proof (cases "(k, a) \<in> L")
    case True
    then have m: "a \<in> {a. (k, a) \<in> L}" by simp
    obtain p' where p': "Deallocate (ps ! k) (Some a) = Some p'" "pool_slots p' (a # as) ({a. (k, a) \<in> L} - {a})"
      using pool_slots_release [OF s m] by blast
    note f = Deallocate_frame [OF s m p'(1)]
    have "{a. (k, a) \<in> L} - {a} = {b. (k, b) \<in> L - {(k, a)}}" by auto
    then have "pools_ok (ps[k := p']) (L - {(k, a)})"
      using p'(2) by (intro pools_ok_update [OF ok k frame_parray [OF f]]) auto
    then show thesis using that p'(1) f True by blast
  next
    case False
    then have "Deallocate (ps ! k) (Some a) = Some (ps ! k)" using pool_slots_stale [OF s a] by simp
    then show thesis using that [of "ps ! k"] ok False by (simp add: list_update_id)
  qed
qed

lemma pools_ok_safe: "pools_ok ps L \<Longrightarrow> pools_safe ps L cs"
proof (induction cs arbitrary: ps L)
  case (Cons c cs)
  note ok = Cons.prems
  show ?case
  proof (cases c)
    case (NewObj k)
    show ?thesis
    proof (cases "k < length ps")
      case True
      show ?thesis using ok True by (cases rule: pools_new) (use Cons.IH ok NewObj True in simp_all)
    next
      case False
      then show ?thesis using Cons NewObj by simp
    qed
  next
    case (DelObj k a)
    show ?thesis
    proof (cases "k < length ps \<and> a \<in> slots_of (parray (ps ! k))")
      case True
      then have k: "k < length ps" "a \<in> slots_of (parray (ps ! k))" by simp_all
      show ?thesis by (rule pools_del [OF ok k]) (use Cons.IH DelObj k in simp)
    next
      case False
      then show ?thesis using Cons DelObj not_a_slot by auto
    qed
  qed
qed simp

subsection \<open>Pools from a new manager\<close>

definition pool_size_law :: "(int \<Rightarrow> int \<Rightarrow> int) \<Rightarrow> nat \<Rightarrow> bool" where
  "pool_size_law PoolSize sz \<longleftrightarrow> (\<forall>u n :: nat.
     ALIGN_SIZE (int (sz + n * 4)) 8 + ALIGN_SIZE (int u) 8 * int n \<le> PoolSize (int u) (int n))"

definition req_fits :: "pool_req \<Rightarrow> bool" where
  "req_fits r = (case r of (ty, u, n, old) \<Rightarrow> length (bit_map old) = n \<and> length (objs old) = n \<and>
     n < MAX_ALLOCATE_COUNT \<and> 0 < u \<and> int u + 8 \<le> 2 ^ 64)"

lemma free_from_frame: "free_from n p = Some p' \<Longrightarrow> frame_of p' = frame_of p"
proof (induction n arbitrary: p)
  case (Suc n)
  then obtain q where "SetFreeNode p n = Some q" "free_from n q = Some p'" by (auto split: Option.bind_splits)
  then show ?case using Suc.IH by (fastforce simp: SetFreeNode_def frame_of_def split: if_splits)
qed simp

text \<open>The frame of a pool made at \<open>self\<close>.\<close>

definition made_frame :: "nat \<Rightarrow> int \<Rightarrow> int \<Rightarrow> nat \<Rightarrow> nat \<Rightarrow> buffer_array \<times> nat \<times> nat \<times> int" where
  "made_frame sz self ty u n = (InitArray (self + int (nat (ALIGN_SIZE (int (sz + n * 4)) 8))) (nat (ALIGN_SIZE (int u) 8)) n,
     nat (ALIGN_SIZE (int u) 8), n, ty mod 2 ^ 8)"

lemma TObjPool_frame: "TObjPool sz self old ty u n False = Inr (Some p) \<Longrightarrow> frame_of p = made_frame sz self ty u n"
proof -
  assume a: "TObjPool sz self old ty u n False = Inr (Some p)"
  obtain p0 where p0: "CreatePool sz self old ty u n False = Inr p0" "frame_of p0 = made_frame sz self ty u n"
    by (simp add: CreatePool_def Let_def frame_of_def made_frame_def)
  then have "free_from (pool_count p0) p0 = Some p" using a by (simp add: TObjPool_def ConstructFreeList_def)
  then show ?thesis using free_from_frame p0(2) by simp
qed

lemma TObjPool_area:
  assumes "TObjPool sz self old ty u n False = Inr (Some p)" and "0 < u" "int u + 8 \<le> 2 ^ 64" "int (sz + n * 4) + 8 \<le> 2 ^ 64"
    and "pool_size_law PoolSize sz"
  shows "pool_area sz (self, p) \<subseteq> {self..<self + PoolSize (int u) (int n)}" and "pool_header sz (self, p) \<inter> region p = {}"
    and "0 \<le> PoolSize (int u) (int n)"
proof -
  let ?h = "ALIGN_SIZE (int (sz + n * 4)) 8" and ?u = "ALIGN_SIZE (int u) 8"
  have f: "parray p = InitArray (self + int (nat ?h)) (nat ?u) n" "pool_count p = n"
    using TObjPool_frame [OF assms(1)] by (simp_all add: frame_of_def made_frame_def)
  have a: "int (sz + n * 4) \<le> ?h" "0 \<le> ?h" "0 \<le> ?u"
    using ALIGN_SIZE_8(1) [of "int (sz + n * 4)"] ALIGN_SIZE_8(1) [of "int u"] assms(3, 4) by simp_all
  have l: "?h + ?u * int n \<le> PoolSize (int u) (int n)" using assms(5) unfolding pool_size_law_def by blast
  have r: "region p = {self + ?h..<self + ?h + ?u * int n}" using a(2,3) f(1) by (simp add: region_def InitArray_def)
  have h: "pool_header sz (self, p) = {self..<self + int (sz + n * 4)}" by (simp add: pool_header_def f(2) mult.commute)
  have u: "0 \<le> ?u * int n" using a(3) by simp
  show "pool_header sz (self, p) \<inter> region p = {}" unfolding r h using a(1) by auto
  show "0 \<le> PoolSize (int u) (int n)" using l a(2) u by linarith
  show "pool_area sz (self, p) \<subseteq> {self..<self + PoolSize (int u) (int n)}"
    unfolding pool_area_def h snd_conv r using a(1,2) u l by auto
qed

text \<open>A pool made for a request: of its type, with slots of its size rounded up to eight, as many as it asks for.\<close>

definition made_for :: "pool_req \<Rightarrow> int \<times> pool \<Rightarrow> bool" where
  "made_for r ap = (case r of (ty, u, n, old) \<Rightarrow> obj_type (snd ap) = ty mod 2 ^ 8 \<and>
     int (arr_unit (parray (snd ap))) = ALIGN_SIZE (int u) 8 \<and> arr_count (parray (snd ap)) = n)"

definition areas_apart :: "nat \<Rightarrow> (int \<times> pool) list \<Rightarrow> bool" where
  "areas_apart sz aps \<longleftrightarrow> (\<forall>ap \<in> set aps. pool_header sz ap \<inter> region (snd ap) = {}) \<and>
     (\<forall>i < length aps. \<forall>j < i. pool_area sz (aps ! i) \<inter> pool_area sz (aps ! j) = {})"

lemma areas_apart_Cons:
  "areas_apart sz (ap # aps) \<longleftrightarrow> pool_header sz ap \<inter> region (snd ap) = {} \<and>
     (\<forall>bq \<in> set aps. pool_area sz bq \<inter> pool_area sz ap = {}) \<and> areas_apart sz aps"
  by (simp add: areas_apart_def All_less_Suc2 all_set_conv_all_nth imp_conjR all_conj_distrib conj_ac)

lemma place_pools_ok:
  assumes "pool_size_law PoolSize sz" and "sz < 2 ^ 32"
    and "\<forall>r \<in> set rs. req_fits r" "\<not> m_resume m" "0 \<le> m_capacity m"
  shows "\<exists>aps m'. place_pools PoolSize sz err ins m rs = Some (aps, m') \<and>
    (\<forall>ap \<in> set aps. (\<exists>n. pool_ok (snd ap) [0..<n]) \<and> busy (snd ap) = {} \<and>
       pool_area sz ap \<subseteq> {m_nextPoolBuffer m..<m_nextPoolBuffer m + m_capacity m}) \<and>
    areas_apart sz aps \<and> list_all2 made_for (fitting PoolSize (m_capacity m) rs) aps"
  using assms(3-5)
proof (induction rs arbitrary: m)
  case Nil
  then show ?case by (simp add: areas_apart_def)
next
  case (Cons r rs)
  obtain ty u n old where r: "r = (ty, u, n, old)" by (cases r)
  then have f: "length (bit_map old) = n" "length (objs old) = n" "n < MAX_ALLOCATE_COUNT" "0 < u" "int u + 8 \<le> 2 ^ 64"
    using Cons.prems(1) by (simp_all add: req_fits_def)
  have rest: "\<forall>r \<in> set rs. req_fits r" using Cons.prems(1) by simp
  let ?need = "PoolSize (int u) (int n)" and ?a = "m_nextPoolBuffer m"
  show ?case
  proof (cases "m_capacity m < ?need")
    case True
    then have "mgr_MakePool PoolSize sz err ins m old ty u n = Inl (no_memory ?need (m_capacity m))"
      by (simp add: mgr_MakePool_def CreateObjpool_def Let_def)
    then show ?thesis using Cons.IH [OF rest Cons.prems(2, 3)] r True by simp
  next
    case False
    obtain p where p: "TObjPool sz ?a old ty u n False = Inr (Some p)" "pool_ok p [0..<n]" "busy p = {}"
      using TObjPool_new [OF f] by blast
    have "int (sz + n * 4) + 8 \<le> 2 ^ 64" using assms(2) f(3) by (simp add: MAX_ALLOCATE_COUNT_def)
    note reg = TObjPool_area [OF p(1) f(4, 5) this assms(1)]
    have "0 \<le> ALIGN_SIZE (int u) 8" using ALIGN_SIZE_8(1) [of "int u"] f(5) by simp
    then have mf: "made_for r (?a, p)" using TObjPool_frame [OF p(1)] by (simp add: made_for_def r frame_of_def made_frame_def InitArray_def)
    let ?m = "carve ?need (m\<lparr>registry := ins ty ?a (registry m)\<rparr>)"
    have mk: "mgr_MakePool PoolSize sz err ins m old ty u n = Inr (Some (0, ?a, p, ?m))"
      using False p(1) Cons.prems(2) by (simp add: mgr_MakePool_def CreateObjpool_def Let_def)
    have m: "\<not> m_resume ?m" "0 \<le> m_capacity ?m" "m_nextPoolBuffer ?m = ?a + ?need" "m_capacity ?m = m_capacity m - ?need"
      using Cons.prems(2) False by (simp_all add: carve_def)
    obtain aps m' where ih: "place_pools PoolSize sz err ins ?m rs = Some (aps, m')"
      "\<forall>ap \<in> set aps. (\<exists>n. pool_ok (snd ap) [0..<n]) \<and> busy (snd ap) = {} \<and>
         pool_area sz ap \<subseteq> {?a + ?need..<?a + ?need + (m_capacity m - ?need)}"
      "areas_apart sz aps" "list_all2 made_for (fitting PoolSize (m_capacity m - ?need) rs) aps"
      using Cons.IH [OF rest m(1, 2)] unfolding m(3, 4) by blast
    have later: "pool_area sz ap \<subseteq> {?a + ?need..<?a + m_capacity m}" if "ap \<in> set aps" for ap using ih(2) that by simp
    have "pool_area sz ap \<inter> pool_area sz (?a, p) = {}" if "ap \<in> set aps" for ap using later [OF that] reg(1) by fastforce
    then have apart: "areas_apart sz ((?a, p) # aps)" using ih(3) reg(2) by (simp add: areas_apart_Cons)
    have "pool_area sz (?a, p) \<subseteq> {?a..<?a + m_capacity m}" using reg(1) False by fastforce
    moreover have "pool_area sz ap \<subseteq> {?a..<?a + m_capacity m}" if "ap \<in> set aps" for ap
      using later [OF that] reg(3) by fastforce
    ultimately show ?thesis
      using r mk ih p(2, 3) False apart mf by (intro exI [of _ "(?a, p) # aps"] exI [of _ m']) (auto simp: Let_def)
  qed
qed

lemma fresh_pools_placed:
  assumes "pool_size_law PoolSize sz" and "sz < 2 ^ 32" and "\<forall>r \<in> set rs. req_fits r" "\<not> m_resume m" "0 \<le> m_capacity m"
  obtains aps m' where "place_pools PoolSize sz err ins m rs = Some (aps, m')" "pools_ok (map snd aps) {}"
    "\<forall>ap \<in> set aps. pool_area sz ap \<subseteq> {m_nextPoolBuffer m..<m_nextPoolBuffer m + m_capacity m}"
    "areas_apart sz aps" "list_all2 made_for (fitting PoolSize (m_capacity m) rs) aps"
proof -
  obtain aps m' where ps: "place_pools PoolSize sz err ins m rs = Some (aps, m')"
    "\<forall>ap \<in> set aps. (\<exists>n. pool_ok (snd ap) [0..<n]) \<and> busy (snd ap) = {} \<and>
       pool_area sz ap \<subseteq> {m_nextPoolBuffer m..<m_nextPoolBuffer m + m_capacity m}"
    "areas_apart sz aps" "list_all2 made_for (fitting PoolSize (m_capacity m) rs) aps"
    using place_pools_ok [OF assms] by blast
  have "\<exists>as. pool_slots (snd (aps ! k)) as {a. (k, a) \<in> ({} :: (nat \<times> int) set)}" if k: "k < length aps" for k
  proof -
    obtain n where "pool_ok (snd (aps ! k)) [0..<n]" "busy (snd (aps ! k)) = {}" using ps(2) nth_mem [OF k] by blast
    then show ?thesis using pool_slots_new by fastforce
  qed
  moreover have "region (snd (aps ! j)) \<inter> region (snd (aps ! k)) = {}" if "j < length aps" "k < length aps" "j \<noteq> k" for j k
    using ps(3) that unfolding areas_apart_def pool_area_def by (cases "j < k") (blast, metis (no_types, lifting) disjoint_iff UnCI linorder_neqE_nat)
  ultimately have "pools_ok (map snd aps) {}" by (simp add: pools_ok_def)
  then show thesis using that ps by blast
qed

lemma fresh_pools_ok:
  assumes "pool_size_law PoolSize sz" and "sz < 2 ^ 32" and "\<forall>r \<in> set rs. req_fits r" "\<not> m_resume m" "0 \<le> m_capacity m"
  obtains ps m' where "make_pools PoolSize sz err ins m rs = Some (ps, m')" "pools_ok ps {}"
  by (rule fresh_pools_placed [OF assms, of err ins]) (use that in \<open>auto simp: make_place_pools\<close>)


definition demo_pool_size :: "int \<Rightarrow> int \<Rightarrow> int" where
  "demo_pool_size u n = ALIGN_SIZE (64 + n * 4) 8 + ALIGN_SIZE u 8 * n"

definition demo_req :: "int \<Rightarrow> nat \<Rightarrow> nat \<Rightarrow> pool_req" where
  "demo_req ty u n = (ty, u, n, blank3\<lparr>bit_map := replicate n 5, objs := replicate n \<lparr>m_type = 0, m_seq = 0, m_md5 = 0\<rparr>\<rparr>)"


end
