(* ===== verification/PoolRestart.thy ===== *)
theory PoolRestart
  imports PoolSpace
begin

text \<open>
  The restart of a program whose object pools lie in shared memory: a first run makes its pools and uses them, a second
  one maps the same memory, perhaps at another address, builds its manager with \<open>resume\<close> and makes the same requests.

  \<^item> \<open>pools_run\<close> makes a list of calls and gives the pools and the live objects after it. A release of an address that is no slot of
    its pool, which fails an assert, is not made.
  \<^item> \<open>reopen\<close> gives each request the memory that the first run left at its place.
  \<^item> \<open>placed\<close> says which pool lies where, \<open>reopened\<close> what the restart keeps of a pool.
\<close>

subsection \<open>The first run\<close>

fun pools_run :: "pool list \<Rightarrow> (nat \<times> int) set \<Rightarrow> pools_call list \<Rightarrow> (pool list \<times> (nat \<times> int) set) option" where
  "pools_run ps L [] = Some (ps, L)"
| "pools_run ps L (NewObj k # cs) =
     (if k < length ps
      then (case Allocate (ps ! k) of
              None \<Rightarrow> None
            | Some (None, p') \<Rightarrow> pools_run (ps[k := p']) L cs
            | Some (Some a, p') \<Rightarrow> pools_run (ps[k := p']) (insert (k, a) L) cs)
      else pools_run ps L cs)"
| "pools_run ps L (DelObj k a # cs) =
     (if k < length ps \<and> a \<in> slots_of (parray (ps ! k))
      then (case Deallocate (ps ! k) (Some a) of None \<Rightarrow> None | Some p' \<Rightarrow> pools_run (ps[k := p']) (L - {(k, a)}) cs)
      else pools_run ps L cs)"

definition same_frames :: "pool list \<Rightarrow> pool list \<Rightarrow> bool" where
  "same_frames ps qs \<longleftrightarrow> map frame_of qs = map frame_of ps"

lemma same_frames_update: "frame_of p' = frame_of (ps ! k) \<Longrightarrow> k < length ps \<Longrightarrow> same_frames ps (ps[k := p'])"
  by (metis list_update_id map_update same_frames_def)

lemma pools_run_ok:
  assumes "pools_ok ps L"
  shows "\<exists>ps' L'. pools_run ps L cs = Some (ps', L') \<and> pools_ok ps' L' \<and> same_frames ps ps'"
  using assms
proof (induction cs arbitrary: ps L)
  case (Cons c cs)
  note ok = Cons.prems
  have step: "\<exists>ps' L'. pools_run (ps[k := p']) L1 cs = Some (ps', L') \<and> pools_ok ps' L' \<and> same_frames ps ps'"
    if "k < length ps" "pools_ok (ps[k := p']) L1" "frame_of p' = frame_of (ps ! k)" for k p' L1
    using Cons.IH [OF that(2)] same_frames_update [OF that(3, 1)] unfolding same_frames_def by fastforce
  show ?case
  proof (cases c)
    case (NewObj k)
    show ?thesis
    proof (cases "k < length ps")
      case True
      show ?thesis using ok True by (cases rule: pools_new) (use step Cons.IH [OF ok] NewObj True in simp_all)
    next
      case False
      then show ?thesis using Cons.IH [OF ok] NewObj by simp
    qed
  next
    case (DelObj k a)
    show ?thesis
    proof (cases "k < length ps \<and> a \<in> slots_of (parray (ps ! k))")
      case True
      then have k: "k < length ps" "a \<in> slots_of (parray (ps ! k))" by simp_all
      show ?thesis by (rule pools_del [OF ok k]) (use step DelObj k in simp)
    next
      case False
      then show ?thesis using Cons.IH [OF ok] DelObj by auto
    qed
  qed
qed (simp add: same_frames_def)

subsection \<open>What lies where\<close>

fun placed :: "(int \<Rightarrow> int \<Rightarrow> int) \<Rightarrow> nat \<Rightarrow> int \<Rightarrow> int \<Rightarrow> pool_req list \<Rightarrow> pool list \<Rightarrow> bool" where
  "placed PoolSize sz st cap [] ps = (ps = [])"
| "placed PoolSize sz st cap ((ty, u, n, old) # rs) ps =
     (let need = PoolSize (int u) (int n)
      in if cap < need then placed PoolSize sz st cap rs ps
         else case ps of [] \<Rightarrow> False
           | p # qs \<Rightarrow> frame_of p = made_frame sz st ty u n \<and> placed PoolSize sz (st + need) (cap - need) rs qs)"

fun reopen :: "(int \<Rightarrow> int \<Rightarrow> int) \<Rightarrow> int \<Rightarrow> pool_req list \<Rightarrow> pool list \<Rightarrow> pool_req list" where
  "reopen PoolSize cap [] ps = []"
| "reopen PoolSize cap ((ty, u, n, old) # rs) ps =
     (let need = PoolSize (int u) (int n)
      in if cap < need then (ty, u, n, old) # reopen PoolSize cap rs ps
         else (ty, u, n, hd ps) # reopen PoolSize (cap - need) rs (tl ps))"

lemma make_pools_placed:
  "make_pools PoolSize sz err ins m rs = Some (ps, m') \<Longrightarrow> \<not> m_resume m \<Longrightarrow>
   placed PoolSize sz (m_nextPoolBuffer m) (m_capacity m) rs ps"
proof (induction rs arbitrary: m ps)
  case (Cons r rs)
  obtain ty u n old where r: "r = (ty, u, n, old)" by (cases r)
  let ?need = "PoolSize (int u) (int n)"
  show ?case
  proof (cases "m_capacity m < ?need")
    case True
    then show ?thesis using Cons r by (simp add: mgr_MakePool_def CreateObjpool_def Let_def)
  next
    case False
    let ?m = "carve ?need (m\<lparr>registry := ins ty (m_nextPoolBuffer m) (registry m)\<rparr>)"
    from Cons.prems r False obtain p qs where p: "TObjPool sz (m_nextPoolBuffer m) old ty u n False = Inr (Some p)"
      "make_pools PoolSize sz err ins ?m rs = Some (qs, m')" "ps = p # qs"
      by (auto simp: mgr_MakePool_def CreateObjpool_def TObjPool_def CreatePool_def Let_def split: option.splits sum.splits)
    have "placed PoolSize sz (m_nextPoolBuffer ?m) (m_capacity ?m) rs qs"
      by (rule Cons.IH [OF p(2)]) (simp add: carve_def Cons.prems(2))
    then show ?thesis using TObjPool_frame [OF p(1)] False r p(3) by (simp add: carve_def Let_def)
  qed
qed simp

lemma placed_frames: "placed PoolSize sz st cap rs ps \<Longrightarrow> same_frames ps qs \<Longrightarrow> placed PoolSize sz st cap rs qs"
proof (induction rs arbitrary: st cap ps qs)
  case (Cons r rs)
  obtain ty u n old where r: "r = (ty, u, n, old)" by (cases r)
  show ?case
  proof (cases "cap < PoolSize (int u) (int n)")
    case True
    then show ?thesis using Cons r by simp
  next
    case False
    then show ?thesis using Cons r by (cases ps; cases qs) (auto simp: same_frames_def Let_def)
  qed
qed (simp add: same_frames_def)

subsection \<open>The second run\<close>

definition reopened :: "int \<Rightarrow> pool \<Rightarrow> pool \<Rightarrow> bool" where
  "reopened d p q \<longleftrightarrow> parray q = (parray p)\<lparr>arr_start := arr_start (parray p) + d\<rparr> \<and> busy q = busy p \<and> objs q = objs p \<and>
     (\<exists>fs. pool_ok q fs)"

lemma resume_from_parray: "resume_from n p = Some q \<Longrightarrow> parray q = parray p"
proof (induction n arbitrary: p)
  case (Suc n)
  then show ?case by (fastforce simp: SetFreeNode_def split: if_splits Option.bind_splits)
qed simp

lemma TObjPool_resume:
  assumes "pool_ok p fs" and "frame_of p = made_frame sz self ty u n" and "0 \<le> ty" "ty < 2 ^ 8"
  shows "\<exists>q. TObjPool sz (self + d) p ty u n True = Inr (Some q) \<and> reopened d p q"
proof -
  let ?u = "nat (ALIGN_SIZE (int u) 8)" and ?o = "int (nat (ALIGN_SIZE (int (sz + n * 4)) 8))"
  let ?p = "p\<lparr>parray := InitArray (self + d + ?o) ?u n\<rparr>"
  have f: "parray p = InitArray (self + ?o) ?u n" "pool_unit p = ?u" "pool_count p = n" "obj_type p = ty"
    using assms(2-4) by (simp_all add: frame_of_def made_frame_def)
  then have c: "CreatePool sz (self + d) p ty u n True = Inr ?p" by (simp add: CreatePool_def Let_def)
  have b: "busy ?p = busy p" by (simp add: busy_def)
  have s: "shape_ok ?p" using pool_okD(1) [OF assms(1)] f by (simp add: shape_ok_def InitArray_def)
  have "deallocate_count ?p \<le> allocate_count ?p" "allocate_count ?p < MAX_ALLOCATE_COUNT"
    "allocate_count ?p - deallocate_count ?p = card (busy ?p)" using pool_okD(5-7) [OF assms(1)] b by simp_all
  from ResumeNode_ok [OF s this] obtain q where q: "ResumeNode ?p = Some q" "busy q = busy ?p" "objs q = objs ?p"
    "\<exists>fs. pool_ok q fs" by blast
  have "parray q = parray ?p" using q(1) by (auto simp: ResumeNode_def dest: resume_from_parray)
  then have "parray q = (parray p)\<lparr>arr_start := arr_start (parray p) + d\<rparr>" using f(1) by (simp add: InitArray_def)
  then show ?thesis using c q b by (simp add: TObjPool_def reopened_def)
qed

lemma make_pools_again:
  assumes "placed PoolSize sz st cap rs ps" and "\<forall>p \<in> set ps. \<exists>fs. pool_ok p fs"
    and "\<forall>(ty, u, n, old) \<in> set rs. 0 \<le> ty \<and> ty < 2 ^ 8"
    and "m_resume m" "m_nextPoolBuffer m = st + d" "m_capacity m = cap"
  shows "\<exists>qs m'. make_pools PoolSize sz err ins m (reopen PoolSize cap rs ps) = Some (qs, m') \<and> list_all2 (reopened d) ps qs \<and>
    m_ResumeFix m' = m_ResumeFix m"
  using assms
proof (induction rs arbitrary: st cap ps m)
  case (Cons r rs)
  obtain ty u n old where r: "r = (ty, u, n, old)" by (cases r)
  let ?need = "PoolSize (int u) (int n)"
  show ?case
  proof (cases "cap < ?need")
    case True
    then have "mgr_MakePool PoolSize sz err ins m old ty u n = Inl (no_memory ?need cap)"
      using Cons.prems(6) by (simp add: mgr_MakePool_def CreateObjpool_def Let_def)
    then show ?thesis using Cons r True by simp
  next
    case False
    then obtain p ps' where p: "ps = p # ps'" "frame_of p = made_frame sz st ty u n"
      "placed PoolSize sz (st + ?need) (cap - ?need) rs ps'"
      using Cons.prems(1) r by (auto simp: Let_def split: list.splits)
    obtain fs where fs: "pool_ok p fs" using Cons.prems(2) p(1) by auto
    have ty: "0 \<le> ty" "ty < 2 ^ 8" using Cons.prems(3) r by auto
    obtain q where q: "TObjPool sz (st + d) p ty u n True = Inr (Some q)" "reopened d p q"
      using TObjPool_resume [OF fs p(2) ty, of d] by blast
    let ?m = "carve ?need (m\<lparr>registry := ins ty (m_nextPoolBuffer m) (registry m)\<rparr>)"
    have "mgr_MakePool PoolSize sz err ins m p ty u n = Inr (Some (0, m_nextPoolBuffer m, q, ?m))"
      using False q(1) Cons.prems(4-6) by (simp add: mgr_MakePool_def CreateObjpool_def Let_def)
    moreover have "\<exists>qs m'. make_pools PoolSize sz err ins ?m (reopen PoolSize (cap - ?need) rs ps') = Some (qs, m') \<and>
        list_all2 (reopened d) ps' qs \<and> m_ResumeFix m' = m_ResumeFix ?m"
      using Cons.prems p(1) by (intro Cons.IH [OF p(3)]) (auto simp: carve_def)
    ultimately show ?thesis using r False p(1) q(2) by (auto simp: Let_def carve_def)
  qed
qed simp

subsection \<open>Objects and ids\<close>

text \<open>The header at an offset from \<open>base\<close>, in whichever pool it lies.\<close>

fun pools_mem :: "pool list \<Rightarrow> int \<Rightarrow> int \<Rightarrow> obj_base option" where
  "pools_mem [] base off = None"
| "pools_mem (p # ps) base off = (case pool_mem p base off of None \<Rightarrow> pools_mem ps base off | Some h \<Rightarrow> Some h)"

lemma Distance_shift: "Distance (a\<lparr>arr_start := arr_start a + d\<rparr>) (x + d) = Distance a x"
  by (simp add: Distance_def)

lemma reopened_mem: "reopened d p q \<Longrightarrow> pool_mem q (base + d) = pool_mem p base"
proof -
  assume "reopened d p q"
  then have q: "parray q = (parray p)\<lparr>arr_start := arr_start (parray p) + d\<rparr>" "objs q = objs p" by (auto simp: reopened_def)
  have "Distance (parray q) (base + off + d) = Distance (parray p) (base + off)" for off by (simp add: q(1) Distance_shift)
  then have "Distance (parray q) (base + d + off) = Distance (parray p) (base + off)" for off
    by (simp only: add.assoc add.commute [of d off])
  then show "pool_mem q (base + d) = pool_mem p base" unfolding pool_mem_def q(2) fun_eq_iff by simp
qed

lemma pools_mem_reopened: "list_all2 (reopened d) ps qs \<Longrightarrow> pools_mem qs (base + d) = pools_mem ps base"
  by (induction ps qs rule: list_all2_induct) (simp_all add: fun_eq_iff reopened_mem cong: option.case_cong)

lemma pools_mem_some: "p \<in> set ps \<Longrightarrow> pool_mem p base off \<noteq> None \<Longrightarrow> pools_mem ps base off \<noteq> None"
  by (induction ps) (auto split: option.splits)

lemma live_has_header:
  assumes "pools_ok ps L" and "(k, a) \<in> L"
  shows "pools_mem ps base (a - base) \<noteq> None"
proof -
  have k: "k < length ps" using assms by (auto simp: pools_ok_def)
  then obtain as where "pool_slots (ps ! k) as {a. (k, a) \<in> L}" using assms(1) by (auto simp: pools_ok_def)
  then obtain fs i where ok: "pool_ok (ps ! k) fs" and i: "i \<in> busy (ps ! k)" "a = slot_addr (parray (ps ! k)) i"
    using assms(2) by (auto simp: pool_slots_def set_eq_iff image_iff)
  have s: "shape_ok (ps ! k)" using ok by (rule pool_okD(1))
  have "pool_mem (ps ! k) base (a - base) = Some (objs (ps ! k) ! i)"
    using pool_mem_slot [OF s] busy_bound [OF s] i by auto
  then show ?thesis using pools_mem_some [OF nth_mem [OF k]] by simp
qed

definition shift_live :: "int \<Rightarrow> (nat \<times> int) set \<Rightarrow> (nat \<times> int) set" where
  "shift_live d L = (\<lambda>(k, a). (k, a + d)) ` L"

lemma reopened_region: "reopened d p q \<Longrightarrow> region q = (\<lambda>x. x + d) ` region p"
  by (simp add: reopened_def region_def image_add_atLeastLessThan' algebra_simps)

lemma reopened_slots:
  assumes "reopened d p q" and "pool_slots p as L"
  shows "\<exists>bs. pool_slots q bs ((\<lambda>a. a + d) ` L)"
proof -
  obtain fs where fs: "pool_ok q fs" and q: "parray q = (parray p)\<lparr>arr_start := arr_start (parray p) + d\<rparr>" "busy q = busy p"
    using assms(1) by (auto simp: reopened_def)
  have "L = slot_addr (parray p) ` busy p" using assms(2) by (auto simp: pool_slots_def)
  then have "(\<lambda>a. a + d) ` L = slot_addr (parray q) ` busy q"
    using q by (simp add: image_image slot_addr_def algebra_simps)
  then show ?thesis using fs by (auto simp: pool_slots_def)
qed

lemma pools_ok_reopened:
  assumes "pools_ok ps L" and "list_all2 (reopened d) ps qs"
  shows "pools_ok qs (shift_live d L)"
proof -
  have l: "length qs = length ps" and r: "\<And>k. k < length ps \<Longrightarrow> reopened d (ps ! k) (qs ! k)"
    using assms(2) by (auto simp: list_all2_conv_all_nth)
  have "\<exists>bs. pool_slots (qs ! k) bs {a. (k, a) \<in> shift_live d L}" if k: "k < length qs" for k
  proof -
    obtain as where "pool_slots (ps ! k) as {a. (k, a) \<in> L}" using assms(1) k l by (auto simp: pools_ok_def)
    moreover have "(\<lambda>a. a + d) ` {a. (k, a) \<in> L} = {a. (k, a) \<in> shift_live d L}" by (force simp: shift_live_def)
    ultimately show ?thesis using reopened_slots [OF r] k l by metis
  qed
  moreover have "region (qs ! j) \<inter> region (qs ! k) = {}" if "j < length qs" "k < length qs" "j \<noteq> k" for j k
  proof -
    have "region (ps ! j) \<inter> region (ps ! k) = {}" using assms(1) that l by (simp add: pools_ok_def)
    then show ?thesis using reopened_region [OF r] that l by auto
  qed
  moreover have "\<forall>(k, a) \<in> shift_live d L. k < length qs" using assms(1) l by (auto simp: pools_ok_def shift_live_def)
  ultimately show ?thesis by (simp add: pools_ok_def)
qed

lemma pools_reopened:
  assumes "pool_size_law PoolSize sizeof_pool" and "sizeof_pool < 2 ^ 32" and "0 \<le> capacity"
    and "\<forall>r \<in> set reqs. req_fits r" and "\<forall>(ty, u, n, old) \<in> set reqs. 0 \<le> ty \<and> ty < 2 ^ 8"
  obtains ps m ps1 L ps2 m2 where
    "make_pools PoolSize sizeof_pool err ins (CObjPoolMgr buffer capacity False word g) reqs = Some (ps, m)"
    "pools_run ps {} calls1 = Some (ps1, L)" "pools_ok ps1 L" "length ps2 = length ps"
    "make_pools PoolSize sizeof_pool err ins (CObjPoolMgr (buffer + d) capacity True buffer g) (reopen PoolSize capacity reqs ps1) =
      Some (ps2, m2)"
    "list_all2 (reopened d) ps1 ps2" "m_ResumeFix m2 = d"
proof -
  let ?m = "CObjPoolMgr buffer capacity False word g" and ?m2 = "CObjPoolMgr (buffer + d) capacity True buffer g"
  have m: "\<not> m_resume ?m" "0 \<le> m_capacity ?m" "m_capacity ?m = capacity" "m_nextPoolBuffer ?m2 = m_nextPoolBuffer ?m + d"
    "m_capacity ?m2 = capacity" "m_resume ?m2" "m_ResumeFix ?m2 = d" using assms(3) by (simp_all add: CObjPoolMgr_def)
  obtain ps m' where ps: "make_pools PoolSize sizeof_pool err ins ?m reqs = Some (ps, m')" "pools_ok ps {}"
    by (rule fresh_pools_ok [OF assms(1, 2, 4) m(1, 2)])
  obtain ps1 L where ps1: "pools_run ps {} calls1 = Some (ps1, L)" "pools_ok ps1 L" "same_frames ps ps1"
    using pools_run_ok [OF ps(2)] by blast
  have placed: "placed PoolSize sizeof_pool (m_nextPoolBuffer ?m) capacity reqs ps1"
    using placed_frames [OF make_pools_placed [OF ps(1) m(1)] ps1(3)] m(3) by simp
  have "\<exists>fs. pool_ok p fs" if "p \<in> set ps1" for p
    using ps1(2) that by (auto simp: pools_ok_def pool_slots_def in_set_conv_nth)
  then have oks: "\<forall>p \<in> set ps1. \<exists>fs. pool_ok p fs" by blast
  obtain ps2 m2 where ps2: "make_pools PoolSize sizeof_pool err ins ?m2 (reopen PoolSize capacity reqs ps1) = Some (ps2, m2)"
    "list_all2 (reopened d) ps1 ps2" "m_ResumeFix m2 = d"
    using make_pools_again [OF placed oks assms(5) m(6, 4, 5), of err ins] m(7) by metis
  have "length ps2 = length ps1" using ps2(2) by (simp add: list_all2_lengthD)
  moreover have "length ps1 = length ps" using ps1(3) by (metis length_map same_frames_def)
  ultimately show thesis using that [OF ps(1) ps1(1,2) _ ps2(1,2,3)] by simp
qed

text \<open>C8. Object pools survive a restart. A program makes any pools in its buffer - fewer than \<open>MAX_ALLOCATE_COUNT\<close> objects of
  positive size in each, with 8-bit types - and allocates and releases objects - no address that is no
  slot, which fails an assert -; it ends,
  and another one maps the buffer, at an address that may differ by any \<open>d\<close>, builds its manager with \<open>resume\<close> and makes the
  same requests. Then every request succeeds or is refused as before; \<open>GetResumeFix\<close> is \<open>d\<close>; at every offset lies
  the header that the first program left there, so that every id resolves as it did, and each live object has one. Along any further calls the objects that were live before the
  restart stay live until they are released, and the free slots are free: \<open>Allocate\<close> returns null exactly when all slots of its pool
  hold objects that were live before the restart or became so since, and otherwise a slot that does not, which overlaps none of them.\<close>
theorem pools_survive_restart:
  assumes "pool_size_law PoolSize sizeof_pool" and "sizeof_pool < 2 ^ 32" and "0 \<le> capacity"
    and "\<forall>r \<in> set reqs. req_fits r" and "\<forall>(ty, u, n, old) \<in> set reqs. 0 \<le> ty \<and> ty < 2 ^ 8"
  shows "\<exists>ps m ps1 L ps2 m2. make_pools PoolSize sizeof_pool err ins (CObjPoolMgr buffer capacity False word g) reqs = Some (ps, m) \<and>
    pools_run ps {} calls1 = Some (ps1, L) \<and>
    make_pools PoolSize sizeof_pool err ins (CObjPoolMgr (buffer + d) capacity True buffer g) (reopen PoolSize capacity reqs ps1) =
      Some (ps2, m2) \<and>
    length ps2 = length ps \<and> GetResumeFix m2 = d \<and>
    (\<forall>base psz x. GetObject (pools_mem ps2 (base + d)) psz x = GetObject (pools_mem ps1 base) psz x) \<and>
    (\<forall>base. \<forall>(k, a) \<in> L. pools_mem ps2 (base + d) (a - base) \<noteq> None) \<and>
    pools_safe ps2 (shift_live d L) calls2"
proof (rule pools_reopened [OF assms, of err ins buffer word g calls1 d])
  fix ps m ps1 L ps2 m2
  assume ps: "make_pools PoolSize sizeof_pool err ins (CObjPoolMgr buffer capacity False word g) reqs = Some (ps, m)"
      "pools_run ps {} calls1 = Some (ps1, L)" "pools_ok ps1 L" "length ps2 = length ps"
      "make_pools PoolSize sizeof_pool err ins (CObjPoolMgr (buffer + d) capacity True buffer g) (reopen PoolSize capacity reqs ps1) =
        Some (ps2, m2)"
    and r: "list_all2 (reopened d) ps1 ps2" "m_ResumeFix m2 = d"
  have mem: "pools_mem ps2 (base + d) = pools_mem ps1 base" for base by (rule pools_mem_reopened [OF r(1)])
  moreover have "\<forall>(k, a) \<in> L. pools_mem ps2 (base + d) (a - base) \<noteq> None" for base
    using live_has_header [OF ps(3)] mem by auto
  moreover have "pools_safe ps2 (shift_live d L) calls2" by (rule pools_ok_safe [OF pools_ok_reopened [OF ps(3) r(1)]])
  ultimately show ?thesis using ps(1,2,4,5) r(2) unfolding GetResumeFix_def
    by (intro exI [of _ ps] exI [of _ m] exI [of _ ps1] exI [of _ L] exI [of _ ps2] exI [of _ m2] conjI) (blast | simp)+
qed

lemma pools_survive_restart_witness:
  "\<exists>ps m ps1 L ps2 m2. make_pools demo_pool_size 64 \<lparr>desc = []\<rparr> (\<lambda>ty a g. g) (CObjPoolMgr 1000 300 False 0 ()) [demo_req 1 12 3, demo_req 2 5 900, demo_req 3 8 4] =
       Some (ps, m) \<and>
     pools_run ps {} [NewObj 0, NewObj 1, NewObj 0, DelObj 0 1088] = Some (ps1, L) \<and>
     make_pools demo_pool_size 64 \<lparr>desc = []\<rparr> (\<lambda>ty a g. g) (CObjPoolMgr 5000 300 True 1000 ())
       (reopen demo_pool_size 300 [demo_req 1 12 3, demo_req 2 5 900, demo_req 3 8 4] ps1) = Some (ps2, m2) \<and>
     pools_safe ps2 (shift_live 4000 L) [NewObj 0, NewObj 1]"
proof -
  let ?rs = "[demo_req 1 12 3, demo_req 2 5 900, demo_req 3 8 4]"
  have "pool_size_law demo_pool_size 64" by (simp add: pool_size_law_def demo_pool_size_def)
  moreover have "\<forall>r \<in> set ?rs. req_fits r" by (simp add: demo_req_def req_fits_def MAX_ALLOCATE_COUNT_def)
  moreover have "\<forall>(ty, u, n, old) \<in> set ?rs. 0 \<le> ty \<and> ty < 2 ^ 8" by (simp add: demo_req_def)
  ultimately show ?thesis
    using pools_survive_restart [of demo_pool_size 64 300 ?rs "\<lparr>desc = []\<rparr>" "\<lambda>ty a g. g" 1000 0 "()"
        "[NewObj 0, NewObj 1, NewObj 0, DelObj 0 1088]" 4000 "[NewObj 0, NewObj 1]"] by (simp del: make_pools.simps pools_run.simps pools_safe.simps) blast
qed

end
