(* ===== verification/TimerLive.thy ===== *)
theory TimerLive
  imports TimerProps TimerTask PoolRestart
begin

text \<open>
  No timer is lost: what \<open>Tick\<close> does to one waiting timer while the tasks of others schedule and cancel.

  \<^item> \<open>held q i orphan nd\<close>: the node at position \<open>i\<close> is not on the free stack and holds \<open>nd\<close>; an orphan is being processed, any
    other is \<open>waiting\<close> in a bucket.
  \<^item> \<open>repeats nd\<close>: how often the timer is still to run; a count of 0 wraps when it is decremented. \<open>later k nd\<close>: the node after
    it has run \<open>k\<close> times.
  \<^item> \<open>spares\<close>: the calls of the tasks do not cancel this very timer, which \<open>names\<close> recognises as \<open>Cancel\<close> does.
  \<^item> \<open>logging\<close> notes for each task that runs its node, data, sequence number and the clock.
\<close>

definition held :: "'a timer_queue \<Rightarrow> nat \<Rightarrow> bool \<Rightarrow> 'a timer_node \<Rightarrow> bool" where
  "held q i orphan nd \<longleftrightarrow> i < m_count q \<and> \<not> is_in_stack (lmem q (node_addr q i)) \<and> IsOrphanNode (lmem q (node_addr q i)) = orphan \<and>
     tnodes q ! i = nd"

abbreviation waiting :: "'a timer_queue \<Rightarrow> nat \<Rightarrow> 'a timer_node \<Rightarrow> bool" where
  "waiting q i nd \<equiv> held q i False nd"

definition names :: "int \<Rightarrow> nat \<Rightarrow> 'a timer_node \<Rightarrow> bool" where
  "names tid i nd = (case DecodeTimerId tid of
     Some (True, ty, pos, sq) \<Rightarrow> u32 (pos - 1) = int i \<and> ty = m_timerType nd \<and> sq = m_timerSeq nd
   | _ \<Rightarrow> False)"

definition call_spares :: "nat \<Rightarrow> 'a timer_node \<Rightarrow> 'a tq_call \<Rightarrow> bool" where
  "call_spares i nd c = (case c of CallCancel tid \<Rightarrow> \<not> names tid i nd | CallSchedule _ _ _ _ \<Rightarrow> True)"

definition spares :: "('a, 'e) task_run \<Rightarrow> nat \<Rightarrow> 'a timer_node \<Rightarrow> bool" where
  "spares run i nd \<longleftrightarrow> (\<forall>j q e. \<forall>c \<in> set (fst (run j q e)). call_spares i nd c)"

definition logging :: "('a, 'e) task_run \<Rightarrow> ('a, 'e \<times> (nat \<times> 'a \<times> int \<times> int) list) task_run" where
  "logging run i q el = (let (cs, e') = run i q (fst el)
     in (cs, (e', snd el @ [(i, m_taskData (tnodes q ! i), m_timerSeq (tnodes q ! i), s_currentTick q)])))"

abbreviation note_of :: "nat \<Rightarrow> 'a timer_node \<Rightarrow> nat \<times> 'a \<times> int \<times> int" where
  "note_of i nd \<equiv> (i, m_taskData nd, m_timerSeq nd, m_expire nd)"

lemma logging_tasks: "tasks_ok ttype run \<Longrightarrow> tasks_ok ttype (logging run)"
  by (auto simp: tasks_ok_def logging_def split_beta Let_def)

lemma logging_spares: "spares run i nd \<Longrightarrow> spares (logging run) i nd"
  by (auto simp: spares_def logging_def split_beta Let_def)

lemma logging_grows: "keeps (\<lambda>el. x \<in> set (snd el)) (logging run) t fw cur"
  by (auto simp: keeps_def logging_def split_beta Let_def)

subsection \<open>Calls\<close>

lemma held_place:
  assumes "tq_ok q w B F" and "no_limbo q w"
  shows "held q i orphan nd \<longleftrightarrow> i < m_count q \<and> (if orphan then w i = Busy else \<exists>c. w i = InBucket c) \<and> tnodes q ! i = nd"
proof (cases "i < m_count q")
  case True
  note p = place_of_links [OF tq_okD(2,3) [OF assms(1)] True]
  have "w i \<noteq> Limbo" using assms(2) True by (simp add: no_limbo_def)
  then show ?thesis using p True by (cases "w i") (auto simp: held_def)
qed (simp add: held_def)

lemma held_busy: "tq_ok q w B F \<Longrightarrow> no_limbo q w \<Longrightarrow> held q i orphan nd \<Longrightarrow> w i \<noteq> Free \<and> i < m_count q \<and> tnodes q ! i = nd"
  unfolding held_place by (auto split: if_splits)

text \<open>A change of the queue that leaves a node and its place alone.\<close>

lemma held_same:
  assumes "tq_ok q w B F" "no_limbo q w" and "tq_ok q' w' B' F'" "no_limbo q' w'" and "same_frame q q'" "w' i = w i"
    "tnodes q' ! i = tnodes q ! i"
  shows "held q' i orphan nd \<longleftrightarrow> held q i orphan nd"
  using assms(5-7) unfolding held_place [OF assms(1,2)] held_place [OF assms(3,4)] by (simp add: same_frame_def)

lemma named_names: "named q tid = Some i \<Longrightarrow> tnodes q ! i = nd \<Longrightarrow> names tid i nd"
  by (auto simp: named_def names_def u32_def split: option.splits bool.splits if_splits)

lemma no_limbo_frame: "no_limbo q w \<Longrightarrow> same_frame q q' \<Longrightarrow> p \<noteq> Limbo \<Longrightarrow> no_limbo q' (w(j := p))"
  by (auto simp: no_limbo_def same_frame_def)

lemma Schedule_held:
  assumes inv: "loop_inv q t b w B F xs ys" and args: "sched_args ttype task d p r"
    and h: "held q i orphan nd" and s: "Schedule ttype q task d p r = Some (tid, q')"
  shows "held q' i orphan nd"
proof -
  have core: "loop_core q t b w B F xs ys" and nl: "no_limbo q w" using inv by (auto simp: loop_inv_def)
  note d = loop_coreD [OF core]
  show ?thesis
  proof (cases "F = [] \<or> p = 0 \<and> r > 1")
    case True
    then show ?thesis using Schedule_refused [OF d(1) True] s h by simp
  next
    case False
    then obtain j F' where F: "F = j # F'" and np: "\<not> (p = 0 \<and> r > 1)" by (cases F) auto
    have ok: "tq_ok q w B (j # F')" using d(1) F by simp
    obtain c B' where k: "tq_ok q' (w(j := InBucket c)) B' F'" "same_frame q q'"
      "tnodes q' = (tnodes q)[j := scheduled_node ttype q j task d p r]"
      using Schedule_accepted [OF ok args np d(8,9)] s by auto
    have "i \<noteq> j" using held_busy [OF d(1) nl h] tq_pop(3) [OF ok] by auto
    then show ?thesis using h held_same [OF d(1) nl k(1) no_limbo_frame [OF nl k(2)] k(2)] k(3) by simp
  qed
qed

lemma Cancel_held:
  assumes inv: "loop_inv q t b w B F xs ys" and arg: "cancel_arg tid" and h: "held q i orphan nd"
    and other: "\<not> names tid i nd" and s: "Cancel q tid = Some (tid', q')"
  shows "held q' i orphan nd"
proof -
  have core: "loop_core q t b w B F xs ys" and nl: "no_limbo q w" using inv by (auto simp: loop_inv_def)
  note d = loop_coreD [OF core]
  show ?thesis
  proof (cases "tid = C_INVALID_TIMER_ID \<or> (\<forall>j. named q tid = Some j \<longrightarrow> w j = Free)")
    case True
    then show ?thesis using named_None_free [OF d(1) arg] s h by (cases "tid = C_INVALID_TIMER_ID") (auto simp: Cancel_def)
  next
    case False
    then obtain j where j: "tid \<noteq> C_INVALID_TIMER_ID" "named q tid = Some j" "w j \<noteq> Free" by auto
    have ne: "i \<noteq> j" using named_names [OF j(2)] held_busy [OF d(1) nl h] other by blast
    have "w j \<noteq> Limbo" using nl named_bound [OF j(2)] by (simp add: no_limbo_def)
    then consider "w j = Busy" | c where "w j = InBucket c" using j(3) by (cases "w j") auto
    then show ?thesis
    proof cases
      case 1
      then show ?thesis using Cancel_busy(1) [OF d(1) j(1,2) 1] s h ne by (auto simp: held_def)
    next
      case (2 c)
      have j': "j < m_count q" using named_bound [OF j(2)] .
      have c: "c < NB" using links_okD(3) [OF tq_okD(3) [OF d(1)] j' 2] .
      then have "j \<in> set (B c)" using links_okD(2) [OF tq_okD(3) [OF d(1)]] j' 2 by simp
      then obtain us vs where sp: "B c = us @ j # vs" by (meson split_list)
      obtain B' where k: "tq_ok q' (w(j := Free)) B' (j # F)" "same_frame q q'" "tnodes q' = tnodes q"
        using Cancel_waiting [OF d(1) j(1,2) 2 sp] s by auto
      show ?thesis using h held_same [OF d(1) nl k(1) no_limbo_frame [OF nl k(2)] k(2)] k(3) ne by simp
    qed
  qed
qed

lemma do_calls_held:
  "loop_inv q t b w B F xs ys \<Longrightarrow> \<forall>c\<in>set cs. call_ok ttype c \<and> call_spares i nd c \<Longrightarrow> held q i orphan nd \<Longrightarrow>
   do_calls ttype cs q = Some q' \<Longrightarrow> held q' i orphan nd"
proof (induction cs arbitrary: q w B F xs ys)
  case (Cons c cs)
  show ?case
  proof (cases c)
    case (CallSchedule task d p r)
    have args: "sched_args ttype task d p r" using Cons.prems(2) CallSchedule by simp
    obtain tid q1 w1 B1 F1 xs1 ys1 where 1: "Schedule ttype q task d p r = Some (tid, q1)" "loop_inv q1 t b w1 B1 F1 xs1 ys1"
      using schedule_loop [OF Cons.prems(1) args] by blast
    have "held q1 i orphan nd" by (rule Schedule_held [OF Cons.prems(1) args Cons.prems(3) 1(1)])
    then show ?thesis using Cons.IH [OF 1(2)] Cons.prems(2,4) 1(1) CallSchedule by simp
  next
    case (CallCancel tid)
    have arg: "cancel_arg tid" "\<not> names tid i nd" using Cons.prems(2) CallCancel by (simp_all add: call_spares_def)
    obtain tid' q1 w1 B1 F1 xs1 ys1 where 1: "Cancel q tid = Some (tid', q1)" "loop_inv q1 t b w1 B1 F1 xs1 ys1"
      using cancel_loop [OF Cons.prems(1) arg(1)] by blast
    have "held q1 i orphan nd" by (rule Cancel_held [OF Cons.prems(1) arg(1) Cons.prems(3) arg(2) 1(1)])
    then show ?thesis using Cons.IH [OF 1(2)] Cons.prems(2,4) 1(1) CallCancel by simp
  qed
qed simp

subsection \<open>A bucket\<close>

lemma finish_node_others: "finish_node nexp q j = Some q' \<Longrightarrow> i \<noteq> j \<Longrightarrow> tnodes q' ! i = tnodes q ! i"
  by (auto simp: finish_node_def bucket_push_def DecTimerCount_def free_push_def Let_def split: if_splits Option.bind_splits prod.splits)

text \<open>A timer that has run and goes on.\<close>

definition again :: "'a timer_node \<Rightarrow> 'a timer_node" where
  "again nd = nd\<lparr>m_repeatCount := u32 (m_repeatCount nd - 1), m_expire := u32 (m_expire nd + m_period nd)\<rparr>"

abbreviation check_expire :: "'a timer_node \<Rightarrow> int" where
  "check_expire nd \<equiv> u32 (m_expire nd + m_period nd)"

lemma same_names:
  "names tid i (nd\<lparr>m_repeatCount := r\<rparr>) = names tid i nd" "names tid i (again nd) = names tid i nd"
  by (simp_all add: names_def again_def split: option.split prod.split bool.split)

lemma same_spares:
  "spares run i (again nd) = spares run i nd" "call_spares i (nd\<lparr>m_repeatCount := r\<rparr>) c = call_spares i nd c"
  by (simp_all add: spares_def call_spares_def same_names cong: tq_call.case_cong)

text \<open>When a timer runs, every other one that waits goes on waiting; the one that runs is noted, and waits again if it is to.\<close>

lemma fire_waiting:
  fixes q :: "'a timer_queue"
  assumes inv: "loop_inv q t b w B F xs (j # ys)" and exp: "m_expire (tnodes q ! j) \<le> t"
    and tasks: "tasks_ok ttype run" and re: "requeue_ok t (check_expire :: 'a timer_node \<Rightarrow> int)" and sp: "spares run i nd"
    and wt: "waiting q i nd" and f: "fire_node ttype (logging run) check_expire q el j = Some (q', el')"
  shows "s_currentTick q' = s_currentTick q \<and>
    (if i = j then m_expire nd = t \<and> (i, m_taskData nd, m_timerSeq nd, s_currentTick q) \<in> set (snd el') \<and>
       (m_repeatCount (again nd) \<noteq> 0 \<longrightarrow> waiting q' i (again nd)) else waiting q' i nd)"
proof (rule fire_steps [OF inv exp logging_tasks [OF tasks] re, of el])
  fix q1 cs e' q2 w2 B2 F2 xs2 ys2 q3 p B3 F3 xs3 ys3
  let ?dec = "\<lambda>nd :: 'a timer_node. nd\<lparr>m_repeatCount := u32 (m_repeatCount nd - 1)\<rparr>"
  assume 1: "tnodes q1 = (tnodes q)[j := ?dec (tnodes q ! j)]" "same_frame q q1" "m_expire (tnodes q1 ! j) = t"
      "loop_inv q1 t b (w(j := Busy)) (B(b := xs @ ys)) F xs ys"
      "logging run j q1 el = (cs, e')" "\<forall>c\<in>set cs. call_ok ttype c" "do_calls ttype cs q1 = Some q2"
    and 2: "loop_inv q2 t b w2 B2 F2 xs2 ys2" "finish_node check_expire q2 j = Some q3" "loop_inv q3 t b (w2(j := p)) B3 F3 xs3 ys3"
      "fire_node ttype (logging run) check_expire q el j = Some (q3, e')" "same_frame q q3"
      "m_repeatCount (tnodes q2 ! j) \<noteq> 0 \<longrightarrow> (\<exists>c. p = InBucket c) \<and> tnodes q3 ! j = (tnodes q2 ! j)\<lparr>m_expire := check_expire (tnodes q2 ! j)\<rparr>"
  have q3: "q' = q3" "el' = e'" using f 2(4) by simp_all
  have ok: "tq_ok q w B F" "no_limbo q w" "tq_ok q1 (w(j := Busy)) (B(b := xs @ ys)) F" "no_limbo q1 (w(j := Busy))"
    "tq_ok q2 w2 B2 F2" "no_limbo q2 w2" "tq_ok q3 (w2(j := p)) B3 F3" "no_limbo q3 (w2(j := p))"
    using inv 1(4) 2(1,3) by (auto simp: loop_inv_def loop_core_def)
  have i: "i < m_count q" "\<exists>e. w i = InBucket e" "tnodes q ! i = nd" using wt unfolding held_place [OF ok(1,2)] by auto
  have fr: "s_currentTick q1 = s_currentTick q" "s_currentTick q3 = s_currentTick q" "m_count q1 = m_count q" "m_count q3 = m_count q"
    using 1(2) 2(5) by (simp_all add: same_frame_def)
  have len: "i < length (tnodes q)" using i(1) tq_okD(6) [OF ok(1)] by simp
  have cs: "\<forall>c\<in>set cs. call_ok ttype c \<and> call_spares i nd c"
    using 1(5,6) logging_spares [OF sp] unfolding spares_def by (metis fst_conv)
  show ?thesis
  proof (cases "i = j")
    case True
    have n1: "tnodes q1 ! j = ?dec nd" using 1(1) True i(3) len by simp
    then have "held q1 j True (?dec nd)" using i(1) True fr(3) unfolding held_place [OF ok(3,4)] by simp
    then have "held q2 j True (?dec nd)" using do_calls_held [OF 1(4) _ _ 1(7)] cs True by (simp add: same_spares)
    then have n2: "tnodes q2 ! j = ?dec nd" unfolding held_place [OF ok(5,6)] by simp
    have "waiting q3 j (again nd)" if "m_repeatCount (again nd) \<noteq> 0"
      using 2(6) that i(1) True fr(4) unfolding held_place [OF ok(7,8)] n2 by (auto simp: again_def)
    moreover have "m_expire nd = t" using 1(3) n1 by simp
    moreover have "(j, m_taskData (tnodes q1 ! j), m_timerSeq (tnodes q1 ! j), s_currentTick q1) \<in> set (snd e')"
      using 1(5) by (auto simp: logging_def split_beta Let_def)
    ultimately show ?thesis using True fr(1,2) q3 n1 by simp
  next
    case False
    have "waiting q1 i nd" using i False 1(1) fr(3) unfolding held_place [OF ok(3,4)] by simp
    then have "waiting q2 i nd" by (rule do_calls_held [OF 1(4) cs _ 1(7)])
    then have "waiting q3 i nd" using False fr(4) i(1) finish_node_others [OF 2(2) False]
      unfolding held_place [OF ok(5,6)] held_place [OF ok(7,8)] by simp
    then show ?thesis using False fr(2) q3 by simp
  qed
qed

text \<open>Any property of queue and environment that running one timer keeps, the walk through a bucket keeps.\<close>

definition fire_keeps ::
  "('a timer_queue \<Rightarrow> 'e \<Rightarrow> bool) \<Rightarrow> ('a \<Rightarrow> int) \<Rightarrow> ('a, 'e) task_run \<Rightarrow> ('a timer_node \<Rightarrow> int) \<Rightarrow> int \<Rightarrow> bool" where
  "fire_keeps J ttype run nexp t \<longleftrightarrow> (\<forall>q w B F b xs j ys el q' el'. loop_inv q t b w B F xs (j # ys) \<longrightarrow>
     m_expire (tnodes q ! j) \<le> t \<longrightarrow> J q el \<longrightarrow> fire_node ttype run nexp q el j = Some (q', el') \<longrightarrow> J q' el') \<and>
     (\<forall>q x el. J q el \<longrightarrow> J (q\<lparr>m_tickIterator := x\<rparr>) el)"

lemma tick_loop_keeps:
  assumes tasks: "tasks_ok ttype run" and re: "requeue_ok t nexp" and over: "over_ok over" and J: "fire_keeps J ttype run nexp t"
  shows "loop_inv q t b w B F xs ys \<Longrightarrow> J q el \<Longrightarrow>
    tick_loop ttype run nexp over fuel q el t (bucket_nat q b) cnt = Some (c, q', el') \<Longrightarrow> J q' el'"
proof (induction fuel arbitrary: q el w B F xs ys cnt)
  case (Suc fuel)
  have core: "loop_core q t b w B F xs ys" using Suc.prems(1) by (simp add: loop_inv_def)
  note d = loop_coreD [OF core]
  show ?case
  proof (cases ys)
    case Nil
    then show ?thesis using Suc.prems d(4) by simp
  next
    case (Cons j ys')
    have inv: "loop_inv q t b w B F xs (j # ys')" using Suc.prems(1) Cons by simp
    note n = loop_next [OF inv]
    have "j < length (tnodes q)" using d(10) tq_okD(6) [OF d(1)] Cons by simp
    then have at: "node_at q (m_tickIterator q) = Some j" using n(1) node_at_node_addr by simp
    show ?thesis
    proof (cases "m_expire (tnodes q ! j) \<le> t")
      case True
      have kp: "keeps (\<lambda>_. True) run t (s_currentTick q) (m_currentTick q)" by (simp add: keeps_def)
      from fire_loop [where P = "\<lambda>_. True" and e = el, OF inv True tasks re TrueI kp] obtain q1 el1 w1 B1 F1 xs1 ys1 where
        f: "fire_node ttype run nexp q el j = Some (q1, el1)" "loop_inv q1 t b w1 B1 F1 xs1 ys1" "same_frame q q1" by blast
      have j1: "J q1 el1" using J inv True Suc.prems(2) f(1) unfolding fire_keeps_def by blast
      have "bucket_nat q1 b = bucket_nat q b" using same_frame_addr [OF f(3)] by simp
      then show ?thesis using Suc.IH [OF f(2) j1] Suc.prems(3) n(2) at True f(1) by simp
    next
      case False
      let ?q = "q\<lparr>m_tickIterator := incr (lmem q) (m_tickIterator q)\<rparr>"
      have o: "over q (bucket_nat q b) = Some (True, ?q)" using over inv unfolding over_ok_def by blast
      have "loop_inv ?q t b w B F (xs @ [j]) ys'"
        using inv False n(3) by (auto simp: loop_inv_def loop_core_def no_limbo_def)
      moreover have "J ?q el" using J Suc.prems(2) unfolding fire_keeps_def by blast
      ultimately show ?thesis using Suc.IH [of ?q w B F "xs @ [j]" ys' el cnt] Suc.prems(3) n(2) at False o by simp
    qed
  qed
qed simp

subsection \<open>Ticks\<close>

lemma wheel_waiting:
  assumes "wheel q" and "waiting q i nd"
  shows "m_currentTick q \<le> m_expire nd" and "timer_ok nd"
proof -
  obtain w B F where ok: "wheel_ok q w B F" using assms(1) by (auto simp: wheel_def)
  have nl: "no_limbo q w" using wheel_okD(3) [OF ok] by (simp add: no_limbo_def)
  obtain c where c: "i < m_count q" "w i = InBucket c" "tnodes q ! i = nd"
    using assms(2) unfolding held_place [OF wheel_okD(1) [OF ok] nl] by auto
  show "m_currentTick q \<le> m_expire nd" using wheel_okD(4) [OF ok c(1,2)] c(3) by simp
  show "timer_ok nd" using tq_okD(5) [OF wheel_okD(1) [OF ok] c(1)] c(2,3) by (simp add: place_ok_def)
qed

lemma held_updates [simp]:
  "held (q\<lparr>m_currentTick := t\<rparr>) i orphan nd = held q i orphan nd" "held (q\<lparr>s_currentTick := t\<rparr>) i orphan nd = held q i orphan nd"
  "held (q\<lparr>m_tickIterator := x\<rparr>) i orphan nd = held q i orphan nd"
  by (simp_all add: held_def)

lemma again_later:
  assumes "timer_ok nd" and "m_expire nd < 2 ^ 31" and "m_repeatCount (again nd) \<noteq> 0"
  shows "m_expire nd < m_expire (again nd)" "m_expire (again nd) = m_expire nd + m_period nd" "1 \<le> m_period nd"
proof -
  have "m_period nd < 2 ^ 31" "0 \<le> m_expire nd" using assms(1) by (simp_all add: timer_ok_def base_ok_def)
  moreover show p: "1 \<le> m_period nd" using assms(1,3) by (auto simp: timer_ok_def again_def u32_def)
  ultimately show "m_expire (again nd) = m_expire nd + m_period nd" using assms(2) by (simp add: again_def u32_id)
  then show "m_expire nd < m_expire (again nd)" using p by simp
qed

lemma bucket_live:
  fixes q :: "'a timer_queue" and el :: "'e \<times> (nat \<times> 'a \<times> int \<times> int) list"
  assumes wh: "wheel q" and t: "m_currentTick q = t" "s_currentTick q = t" "t < 2 ^ 31"
    and tasks: "tasks_ok ttype run" and sp: "spares run i nd" and wt: "waiting q i nd" and fuel: "tick_fuel q \<le> fuel"
  shows "\<exists>c q' el'. CheckTickArray ttype (logging run) fuel q el t (HashTick t) = Some (c, q', el') \<and>
    wheel (q'\<lparr>m_currentTick := t + 1\<rparr>) \<and> same_frame q q' \<and>
    (if m_expire nd = t then note_of i nd \<in> set (snd el') \<and> (m_repeatCount (again nd) \<noteq> 0 \<longrightarrow> waiting q' i (again nd))
     else waiting q' i nd)"
proof -
  define fin where "fin el \<longleftrightarrow> m_expire nd = t \<and> note_of i nd \<in> set (snd el)" for el :: "'e \<times> (nat \<times> 'a \<times> int \<times> int) list"
  define J where "J q el \<longleftrightarrow> s_currentTick q = t \<and> (waiting q i nd \<or> fin el \<and> (m_repeatCount (again nd) \<noteq> 0 \<longrightarrow> waiting q i (again nd)))"
    for q :: "'a timer_queue" and el
  have re: "requeue_ok t (check_expire :: 'a timer_node \<Rightarrow> int)" by (rule requeue_check [OF t(3)])
  have ts: "tasks_ok ttype (logging run)" by (rule logging_tasks [OF tasks])
  note nd_ok = wheel_waiting(2) [OF wh wt]
  have step: "J q' el'" if inv: "loop_inv q t b w B F xs (j # ys)" and exp: "m_expire (tnodes q ! j) \<le> t" and J: "J q el"
    and f: "fire_node ttype (logging run) check_expire q el j = Some (q', el')" for q w B F b xs j ys el q' el'
  proof (cases "waiting q i nd")
    case True
    from fire_waiting [OF inv exp tasks re sp True f] show ?thesis using J by (auto simp: J_def fin_def split: if_splits)
  next
    case False
    then have d: "fin el" "s_currentTick q = t" and ag: "m_repeatCount (again nd) \<noteq> 0 \<longrightarrow> waiting q i (again nd)"
      using J by (auto simp: J_def)
    let ?P = "\<lambda>el. note_of i nd \<in> set (snd el)"
    have "?P el" using d(1) by (auto simp: fin_def)
    from fire_loop [where P = ?P, OF inv exp ts re this logging_grows] f
    have 1: "same_frame q q'" "?P el'" by auto
    have "waiting q' i (again nd)" if r: "m_repeatCount (again nd) \<noteq> 0"
    proof -
      have sp': "spares run i (again nd)" using sp by (simp add: same_spares)
      have "t < m_expire (again nd)" using again_later(1) [OF nd_ok _ r] d(1) t(3) by (simp add: fin_def)
      then show ?thesis using fire_waiting [OF inv exp tasks re sp' mp [OF ag r] f] by (auto split: if_splits)
    qed
    then show ?thesis using 1 d by (auto simp: J_def fin_def same_frame_def)
  qed
  obtain w B F where ok: "wheel_ok q w B F" using wh by (auto simp: wheel_def)
  let ?q = "q\<lparr>m_tickIterator := al_begin (lmem q) (bucket_addr q (HashTick t))\<rparr>" and ?b = "nat (HashTick t)"
  have le: "t \<le> s_currentTick q" using t(2) by simp
  note en = enter_bucket [OF ok t(1) le]
  have inv: "loop_inv ?q t ?b w B F [] (B ?b)" using en by simp
  have ba: "bucket_nat ?q ?b = bucket_addr q (HashTick t)" using en(2) by simp
  have kp: "keeps (\<lambda>_. True) (logging run) t (s_currentTick q) t" by (simp add: keeps_def)
  from walk_bucket [where P = "\<lambda>_. True" and e = el, OF wh t(1) le ts re check_over_ok fuel TrueI kp] obtain c q' el' where
    r: "tick_loop ttype (logging run) check_expire check_over fuel ?q el t (bucket_addr q (HashTick t)) 0 = Some (c, q', el')"
      "wheel (q'\<lparr>m_currentTick := t + 1\<rparr>)" "same_frame q q'" by blast
  have "J ?q el" using wt t(2) by (simp add: J_def)
  have itr: "\<forall>q x el. J q el \<longrightarrow> J (q\<lparr>m_tickIterator := x\<rparr>) el" by (simp add: J_def)
  have "fire_keeps J ttype (logging run) check_expire t" unfolding fire_keeps_def using step itr by blast
  from tick_loop_keeps [OF ts re check_over_ok this inv \<open>J ?q el\<close>, unfolded ba, OF r(1)] have "J q' el'" .
  moreover have "m_expire nd \<noteq> t" if "waiting q' i nd" using wheel_waiting(1) [OF r(2), of i nd] that by simp
  ultimately show ?thesis using r by (auto simp: CheckTickArray_def J_def fin_def Let_def)
qed

text \<open>How often a timer is still to run, and the node after it has run \<open>k\<close> times.\<close>

definition repeats :: "'a timer_node \<Rightarrow> int" where
  "repeats nd = (if m_repeatCount nd = 0 then 2 ^ 32 else m_repeatCount nd)"

definition later :: "nat \<Rightarrow> 'a timer_node \<Rightarrow> 'a timer_node" where
  "later k nd = nd\<lparr>m_repeatCount := u32 (m_repeatCount nd - int k), m_expire := m_expire nd + int k * m_period nd\<rparr>"

lemma later_0: "timer_ok nd \<Longrightarrow> later 0 nd = nd"
  by (simp add: later_def timer_ok_def base_ok_def u32_id)

lemma repeats_pos: "timer_ok nd \<Longrightarrow> 1 \<le> repeats nd"
  by (auto simp: repeats_def timer_ok_def base_ok_def)

lemma again_0:
  assumes "timer_ok nd" and "m_repeatCount (again nd) = 0"
  shows "repeats nd = 1"
proof (cases "m_repeatCount nd = 0")
  case True
  then show ?thesis using assms(2) by (simp add: again_def u32_def)
next
  case False
  moreover have "0 \<le> m_repeatCount nd" "m_repeatCount nd < 2 ^ 32" using assms(1) by (simp_all add: timer_ok_def base_ok_def)
  ultimately show ?thesis using assms(2) by (simp add: repeats_def again_def u32_id)
qed

lemma later_again:
  assumes "timer_ok nd" and "m_expire nd < 2 ^ 31" and "m_repeatCount (again nd) \<noteq> 0"
  shows "later k (again nd) = later (Suc k) nd" "repeats (again nd) = repeats nd - 1"
proof -
  have "u32 (u32 (m_repeatCount nd - 1) - int k) = u32 (m_repeatCount nd - int (Suc k))"
    by (simp add: u32_def mod_diff_left_eq algebra_simps)
  moreover have "m_period (again nd) = m_period nd" by (simp add: again_def)
  ultimately show "later k (again nd) = later (Suc k) nd"
    unfolding later_def again_later(2) [OF assms] by (simp add: again_def algebra_simps)
  have "0 \<le> m_repeatCount nd" "m_repeatCount nd < 2 ^ 32" using assms(1) by (simp_all add: timer_ok_def base_ok_def)
  then show "repeats (again nd) = repeats nd - 1"
    using assms(3) by (cases "m_repeatCount nd = 0") (auto simp: repeats_def again_def u32_def)
qed

lemma later_due: "0 \<le> m_period nd \<Longrightarrow> m_expire nd \<le> m_expire (later k nd)"
  by (simp add: later_def)

text \<open>Each run of a timer that falls before tick \<open>lim\<close> is noted; before the first run that does not, the timer waits.\<close>

definition served :: "nat \<Rightarrow> 'a timer_node \<Rightarrow> int \<Rightarrow> (nat \<times> 'a \<times> int \<times> int) list \<Rightarrow> 'a timer_queue \<Rightarrow> bool" where
  "served i nd lim ns q \<longleftrightarrow> (\<forall>k. int k < repeats nd \<longrightarrow>
     (if m_expire (later k nd) < lim then note_of i (later k nd) \<in> set ns
      else (k = 0 \<or> m_expire (later (k - 1) nd) < lim) \<longrightarrow> waiting q i (later k nd)))"

lemma served_waiting:
  assumes "timer_ok nd" and "lim \<le> m_expire nd" and "waiting q i nd"
  shows "served i nd lim ns q"
proof -
  have p: "0 \<le> m_period nd" using assms(1) by (simp add: timer_ok_def base_ok_def)
  show ?thesis unfolding served_def
  proof (intro allI impI)
    fix k
    have "\<not> m_expire (later k nd) < lim" "\<not> m_expire (later (k - 1) nd) < lim"
      using later_due [OF p, of k] later_due [OF p, of "k - 1"] assms(2) by auto
    then show "if m_expire (later k nd) < lim then note_of i (later k nd) \<in> set ns
        else (k = 0 \<or> m_expire (later (k - 1) nd) < lim) \<longrightarrow> waiting q i (later k nd)"
      using later_0 [OF assms(1)] assms(3) by auto
  qed
qed

lemma served_again:
  assumes nd: "timer_ok nd" "m_expire nd < 2 ^ 31" "m_expire nd < lim" and n: "note_of i nd \<in> set ns"
    and ag: "m_repeatCount (again nd) \<noteq> 0 \<Longrightarrow> served i (again nd) lim ns q"
  shows "served i nd lim ns q"
  unfolding served_def
proof (intro allI impI)
  fix k
  assume k: "int k < repeats nd"
  let ?C = "\<lambda>k. if m_expire (later k nd) < lim then note_of i (later k nd) \<in> set ns
        else (k = 0 \<or> m_expire (later (k - 1) nd) < lim) \<longrightarrow> waiting q i (later k nd)"
  show "?C k"
  proof (cases k)
    case 0
    then show ?thesis using later_0 [OF nd(1)] nd(3) n by simp
  next
    case (Suc k')
    then have r: "m_repeatCount (again nd) \<noteq> 0" using again_0 [OF nd(1)] k by auto
    note l = later_again [OF nd(1,2) r]
    have "k' = 0 \<or> later (k' - 1) (again nd) = later k' nd" using l(1) [of "k' - 1"] by (cases k') simp_all
    then show ?thesis using ag [OF r] k Suc unfolding served_def l by auto
  qed
qed

lemma tick_from_live:
  assumes tasks: "tasks_ok ttype run"
  shows "wheel q \<Longrightarrow> waiting q i nd \<Longrightarrow> spares run i nd \<Longrightarrow> m_currentTick q + int n \<le> 2 ^ 31 \<Longrightarrow> tick_fuel q \<le> fuel \<Longrightarrow>
    \<exists>c q' el'. tick_from ttype (logging run) fuel n q el cnt = Some (c, q', el') \<and> wheel q' \<and>
      served i nd (m_currentTick q + int n) (snd el') q'"
proof (induction n arbitrary: q el cnt nd)
  case 0
  then show ?case using served_waiting wheel_waiting [OF 0(1,2)] by auto
next
  case (Suc n)
  let ?t = "m_currentTick q" and ?q1 = "q\<lparr>s_currentTick := m_currentTick q\<rparr>"
  have t: "?t < 2 ^ 31" "m_currentTick ?q1 = ?t" "s_currentTick ?q1 = ?t" using Suc.prems(4) by simp_all
  have wh: "wheel ?q1" using t(1) wheel_times [OF Suc.prems(1)] Suc.prems(1) by (intro wheel_set_fw) auto
  have w1: "waiting ?q1 i nd" and f1: "tick_fuel ?q1 \<le> fuel" using Suc.prems(2,5) by (simp_all add: tick_fuel_def)
  obtain c q2 el2 where b: "CheckTickArray ttype (logging run) fuel ?q1 el ?t (HashTick ?t) = Some (c, q2, el2)"
    "wheel (q2\<lparr>m_currentTick := ?t + 1\<rparr>)" "same_frame ?q1 q2"
    "if m_expire nd = ?t then note_of i nd \<in> set (snd el2) \<and> (m_repeatCount (again nd) \<noteq> 0 \<longrightarrow> waiting q2 i (again nd))
     else waiting q2 i nd"
    using bucket_live [OF wh t(2,3,1) tasks Suc.prems(3) w1 f1] by blast
  let ?q3 = "q2\<lparr>m_currentTick := ?t + 1\<rparr>"
  have fr: "m_currentTick q2 = ?t" "tick_fuel ?q3 \<le> fuel" using b(3) Suc.prems(5) by (simp_all add: same_frame_def tick_fuel_def)
  have n: "m_currentTick ?q3 + int n \<le> 2 ^ 31" "m_currentTick ?q3 + int n = ?t + int (Suc n)" using Suc.prems(4) by simp_all
  have run: "tick_from ttype (logging run) fuel (Suc n) q el cnt = tick_from ttype (logging run) fuel n ?q3 el2 (cnt + c)"
    using b(1) fr(1) by (simp add: Let_def)
  show ?case
  proof (cases "m_expire nd = ?t")
    case True
    let ?P = "\<lambda>el. note_of i nd \<in> set (snd el)"
    have "?P el2" using b(4) True by simp
    from tick_from_ok [where P = ?P, OF logging_tasks [OF tasks] b(2) n(1) fr(2) this logging_grows, of "cnt + c"]
    obtain c' q' el' where r: "tick_from ttype (logging run) fuel n ?q3 el2 (cnt + c) = Some (c', q', el')" "wheel q'" "?P el'" by blast
    have "served i (again nd) (?t + int (Suc n)) (snd el') q'" if "m_repeatCount (again nd) \<noteq> 0"
    proof -
      have w: "waiting ?q3 i (again nd)" using that b(4) True by simp
      have s: "spares run i (again nd)" using Suc.prems(3) by (simp add: same_spares)
      from Suc.IH [OF b(2) w s n(1) fr(2), of el2 "cnt + c"] show ?thesis using r(1) unfolding n(2) by simp
    qed
    then have "served i nd (?t + int (Suc n)) (snd el') q'"
      using served_again [OF wheel_waiting(2) [OF Suc.prems(1,2)]] True t(1) r(3) by simp
    then show ?thesis using r(1,2) unfolding run by blast
  next
    case False
    then have "waiting ?q3 i nd" using b(4) by simp
    from Suc.IH [OF b(2) this Suc.prems(3) n(1) fr(2), of el2 "cnt + c"] show ?thesis unfolding run n(2) .
  qed
qed

lemma Tick_live:
  assumes "wheel q" and "waiting q i nd" and "tasks_ok ttype run" and "spares run i nd"
    and "now = tick_of_time (m_systemStart q) tv_sec tv_usec" "now \<le> 2 ^ 31" and "tick_fuel q \<le> fuel"
  shows "\<exists>c q' e' ns. Tick ttype (logging run) fuel tv_sec tv_usec q (e, []) = Some (c, q', (e', ns)) \<and> served i nd now ns q'"
proof (cases "now > m_currentTick q")
  case True
  then have n: "m_currentTick q + int (nat (now - m_currentTick q)) = now" by simp
  obtain c q' el' where "tick_from ttype (logging run) fuel (nat (now - m_currentTick q)) q (e, []) 0 = Some (c, q', el')"
    "served i nd now (snd el') q'"
    using tick_from_live [OF assms(3,1,2,4) _ assms(7), of "nat (now - m_currentTick q)" "(e, [])" 0] assms(6) unfolding n by blast
  then show ?thesis using True unfolding Tick_def Let_def assms(5) [symmetric] by (cases el') auto
next
  case False
  then have "served i nd now [] q" using wheel_waiting [OF assms(1,2)] by (intro served_waiting [OF _ _ assms(2)]) auto
  then show ?thesis using False unfolding Tick_def Let_def assms(5) [symmetric] by simp
qed

lemma later_fields:
  "m_expire (later k nd) = m_expire nd + int k * m_period nd" "m_taskData (later k nd) = m_taskData nd"
  "m_timerSeq (later k nd) = m_timerSeq nd"
  by (simp_all add: later_def)

lemma served_first:
  assumes "timer_ok nd" and "served i nd lim ns q"
  shows "if m_expire nd < lim then note_of i nd \<in> set ns else waiting q i nd"
proof -
  have "int 0 < repeats nd" using repeats_pos [OF assms(1)] by simp
  then show ?thesis using assms(2) later_0 [OF assms(1)] unfolding served_def by (metis (no_types))
qed

subsection \<open>Properties\<close>

text \<open>C10. No run of a timer is lost. Let a timer wait in a well-formed queue, and let \<open>Tick\<close> catch up on any number of ticks
  while the tasks it runs schedule and cancel timers, but not this one. A timer with a repeat count is due that many times, a
  period apart, and one that is scheduled without end is due for ever. Every time that it is due before the tick that \<open>Tick\<close>
  reaches, its task runs with its data when the clock that the task reads shows exactly that time; and unless that was its last
  run, it then waits in the queue for the first time that it is due later.\<close>
theorem due_timer_runs:
  assumes "wheel q" and "waiting q i nd" and "tasks_ok ttype run" and "spares run i nd"
    and "tick_of_time (m_systemStart q) tv_sec tv_usec \<le> 2 ^ 31" and "tick_fuel q \<le> fuel"
  shows "\<exists>c q' e' ns. Tick ttype (logging run) fuel tv_sec tv_usec q (e, []) = Some (c, q', (e', ns)) \<and>
    (\<forall>k. int k < repeats nd \<longrightarrow>
      (if m_expire nd + int k * m_period nd < tick_of_time (m_systemStart q) tv_sec tv_usec
       then (i, m_taskData nd, m_timerSeq nd, m_expire nd + int k * m_period nd) \<in> set ns
       else (k = 0 \<or> m_expire nd + int (k - 1) * m_period nd < tick_of_time (m_systemStart q) tv_sec tv_usec) \<longrightarrow>
         waiting q' i (later k nd)))"
  using Tick_live [OF assms(1-4) refl assms(5,6)] by (simp only: served_def later_fields)

text \<open>A queue of four nodes with one timer in it, due at ticks 10, 30 and 50.\<close>

lemma timer10:
  fixes task :: 'a
  obtains q w B F and nd :: "'a timer_node" where "wheel_ok q w B F" "waiting q 0 nd" "m_count q = 4" "m_systemStart q = 1000"
    "m_currentTick q = 0" "m_expire nd = 10" "m_taskData nd = task" "m_period nd = 20" "m_repeatCount nd = 3"
proof -
  obtain q :: "'a timer_queue" where q: "wheel_ok q (\<lambda>_. Free) (\<lambda>_. []) [0, 1, 2, 3]" "m_count q = 4" "m_systemStart q = 1000"
    "m_currentTick q = 0" "s_currentTick q = 0" using wheel4 by blast
  let ?nd = "scheduled_node (\<lambda>_. 7) q 0 task 10 20 3"
  obtain q' b B' where s: "wheel_ok q' ((\<lambda>_. Free)(0 := InBucket b)) B' [1, 2, 3]" "tnodes q' = (tnodes q)[0 := ?nd]" "same_frame q q'"
    using wheel_Schedule [OF q(1), of "\<lambda>_. 7" task 10 20 3] by (fastforce simp: sched_args_def)
  have nl: "no_limbo q' ((\<lambda>_. Free)(0 := InBucket b))" by (simp add: no_limbo_def)
  have "tnodes q' ! 0 = ?nd" using s(2) tq_okD(6) [OF wheel_okD(1) [OF q(1)]] q(2) by simp
  then have "waiting q' 0 ?nd" using s(3) q(2) unfolding held_place [OF wheel_okD(1) [OF s(1)] nl] by (simp add: same_frame_def)
  then show thesis using that [OF s(1)] s(3) q by (simp add: same_frame_def scheduled_node_def first_delay_def)
qed

lemma rearm_spares: "spares rearm 0 nd"
  by (auto simp: spares_def rearm_def call_spares_def names_def timer_id_parts MAX_TIMER_NODE_NUM_def u32_def)

lemma tick_70: "tick_of_time 1000 1003 500000 = 70"
  by (simp add: tick_of_time_def C_TICK_COUNT_PER_SECOND_def c_div_nonneg u32_def)

lemma due_timer_runs_witness:
  "\<exists>q nd c q' ns. waiting q 0 nd \<and> Tick (\<lambda>_. 7) (logging rearm) 25 1003 500000 q ((), []) = Some (c, q', ((), ns)) \<and>
     (0, 42, m_timerSeq nd, 10) \<in> set ns \<and> (0, 42, m_timerSeq nd, 50) \<in> set ns"
proof -
  obtain q :: "nat timer_queue" and w B F nd where q: "wheel_ok q w B F" "waiting q 0 nd" "m_count q = 4" "m_systemStart q = 1000" "m_currentTick q = 0"
    "m_expire nd = 10" "m_taskData nd = 42" "m_period nd = 20" "m_repeatCount nd = 3" by (rule timer10 [of 42])
  have f: "tick_of_time (m_systemStart q) 1003 500000 \<le> 2 ^ 31" "tick_fuel q \<le> 25" by (simp_all add: tick_fuel_def q(3,4) tick_70)
  have r: "repeats nd = 3" by (simp add: repeats_def q(9))
  obtain c q' ns where t: "Tick (\<lambda>_. 7) (logging rearm) 25 1003 500000 q ((), []) = Some (c, q', ((), ns))"
    "\<And>k. int k < 3 \<Longrightarrow> 10 + int k * 20 < (70 :: int) \<Longrightarrow> (0, 42, m_timerSeq nd, 10 + int k * 20) \<in> set ns"
    using due_timer_runs [OF wheelI [OF q(1)] q(2) rearm_ok rearm_spares f, of "()"] unfolding q(4,6-8) tick_70 r by (auto split: if_splits)
  have "(0, 42, m_timerSeq nd, 10) \<in> set ns" "(0, 42, m_timerSeq nd, 50) \<in> set ns" using t(2) [of 0] t(2) [of 2] by simp_all
  then show ?thesis using q(2) t(1) by blast
qed

text \<open>
  The whole of the shared memory. \<open>ConstructTask\<close> without a source task ends in \<open>TimerConstruct\<close>, which leaves the data of
  the node as they are.
\<close>

lemma resumed_waiting:
  assumes "wheel q" and "waiting q i nd" and "even d" and "m_currentTick q < 2 ^ 31"
    and "sizeof_CTimerQueue + int (m_count q) * sizeof_NodeType \<le> buffer_size" and "rt (m_timerType nd) (m_taskData nd) = m_taskData nd"
  obtains q1 where "CreateTimerQueue rt tv_sec (self q + d) (moved d q) buffer_size (m_count q) True =
      Some (Inr (sizeof_CTimerQueue + int (m_count q) * sizeof_NodeType, q1))"
    "wheel q1" "waiting q1 i nd" "m_systemStart q1 = m_systemStart q" "tick_fuel q1 = tick_fuel q"
    "m_timerCount q1 = replicate MAX_TIMER_NUM 0"
proof -
  obtain w B F where ok: "wheel_ok q w B F" using assms(1) by (auto simp: wheel_def)
  have nl: "no_limbo q w" using wheel_okD(3) [OF ok] by (simp add: no_limbo_def)
  obtain b where i: "i < m_count q" "w i = InBucket b" "tnodes q ! i = nd"
    using assms(2) unfolding held_place [OF wheel_okD(1) [OF ok] nl] by auto
  show thesis
  proof (rule resume_queue [OF ok assms(3-5), of rt tv_sec])
    fix q1
    assume 1: "CreateTimerQueue rt tv_sec (self q + d) (moved d q) buffer_size (m_count q) True =
        Some (Inr (sizeof_CTimerQueue + int (m_count q) * sizeof_NodeType, q1))" "wheel_ok q1 w B F"
      "m_systemStart q1 = m_systemStart q" "m_count q1 = m_count q" "m_timerCount q1 = replicate MAX_TIMER_NUM 0"
      and n: "\<And>i b. i < m_count q \<Longrightarrow> w i = InBucket b \<Longrightarrow>
        tnodes q1 ! i = (tnodes q ! i)\<lparr>m_taskData := rt (m_timerType (tnodes q ! i)) (m_taskData (tnodes q ! i))\<rparr>"
    have nl1: "no_limbo q1 w" using nl 1(4) by (simp add: no_limbo_def)
    have "tnodes q1 ! i = nd" using n [OF i(1,2)] i(3) assms(6) by simp
    then have "waiting q1 i nd" using i(1,2) 1(4) unfolding held_place [OF wheel_okD(1) [OF 1(2)] nl1] by simp
    then show thesis using that [OF 1(1) wheelI [OF 1(2)]] 1(3-5) by (simp add: tick_fuel_def)
  qed
qed

text \<open>C15. Callbacks survive a restart. A program keeps its object pools and its timer queue in shared memory; it stops, and
  another one maps the memory at an address that differs by \<open>d\<close>, makes the pools again and resumes the queue. Then a timer that
  waited before the restart runs after it, when the clock shows its expiry time, or waits on if it is not yet due, with the data it
  had; and its callback finds through the id in the data the very object it would have found before, or none if it would have found
  none. Only the counters of the timers by type are lost: they start from zero.\<close>
theorem callbacks_survive_restart:
  assumes "pool_size_law PoolSize sizeof_pool" and "sizeof_pool < 2 ^ 32" and "0 \<le> capacity"
    and "\<forall>r \<in> set reqs. req_fits r" and "\<forall>(ty, u, n, old) \<in> set reqs. 0 \<le> ty \<and> ty < 2 ^ 8"
    and "wheel q" and "waiting q i nd" and "even d" and "m_currentTick q < 2 ^ 31"
    and "sizeof_CTimerQueue + int (m_count q) * sizeof_NodeType \<le> buffer_size"
    and "TimerConstruct sizeof_T (m_taskData nd) None = Some (rt (m_timerType nd) (m_taskData nd))"
    and "tasks_ok ttype run" and "spares run i nd" and "tick_of_time (m_systemStart q) tv_sec tv_usec \<le> 2 ^ 31" and "tick_fuel q \<le> fuel"
  shows "\<exists>ps m ps1 L ps2 m2 n q1 c q2 e' notes.
    make_pools PoolSize sizeof_pool err ins (CObjPoolMgr buffer capacity False word g) reqs = Some (ps, m) \<and>
    pools_run ps {} calls = Some (ps1, L) \<and>
    make_pools PoolSize sizeof_pool err ins (CObjPoolMgr (buffer + d) capacity True buffer g) (reopen PoolSize capacity reqs ps1) =
      Some (ps2, m2) \<and>
    CreateTimerQueue rt start (self q + d) (moved d q) buffer_size (m_count q) True = Some (Inr (n, q1)) \<and>
    m_timerCount q1 = replicate MAX_TIMER_NUM 0 \<and>
    Tick ttype (logging run) fuel tv_sec tv_usec q1 (e, []) = Some (c, q2, (e', notes)) \<and>
    (if m_expire nd < tick_of_time (m_systemStart q) tv_sec tv_usec
     then (i, m_taskData nd, m_timerSeq nd, m_expire nd) \<in> set notes else waiting q2 i nd) \<and>
    (\<forall>agent base size. data_RunTask agent (pools_mem ps2 (base + d)) size (m_taskData nd) =
       data_RunTask agent (pools_mem ps1 base) size (m_taskData nd))"
proof (rule pools_reopened [OF assms(1-5), of err ins buffer word g calls d])
  fix ps m ps1 L ps2 m2
  assume p: "make_pools PoolSize sizeof_pool err ins (CObjPoolMgr buffer capacity False word g) reqs = Some (ps, m)"
      "pools_run ps {} calls = Some (ps1, L)"
      "make_pools PoolSize sizeof_pool err ins (CObjPoolMgr (buffer + d) capacity True buffer g) (reopen PoolSize capacity reqs ps1) =
        Some (ps2, m2)" and r: "list_all2 (reopened d) ps1 ps2"
  have "rt (m_timerType nd) (m_taskData nd) = m_taskData nd" using assms(11) by (simp add: TimerConstruct_def split: if_splits)
  then obtain q1 where q1: "CreateTimerQueue rt start (self q + d) (moved d q) buffer_size (m_count q) True =
      Some (Inr (sizeof_CTimerQueue + int (m_count q) * sizeof_NodeType, q1))" "wheel q1" "waiting q1 i nd"
    "m_systemStart q1 = m_systemStart q" "tick_fuel q1 = tick_fuel q" "m_timerCount q1 = replicate MAX_TIMER_NUM 0"
    by (rule resumed_waiting [OF assms(6-10)])
  obtain c q2 e' ns where t: "Tick ttype (logging run) fuel tv_sec tv_usec q1 (e, []) = Some (c, q2, (e', ns))"
    "served i nd (tick_of_time (m_systemStart q) tv_sec tv_usec) ns q2"
    using Tick_live [OF q1(2,3) assms(12,13), of _ tv_sec tv_usec fuel e] assms(14,15) q1(4,5) by force
  note first = served_first [OF wheel_waiting(2) [OF assms(6,7)] t(2)]
  have "\<forall>agent base size. data_RunTask agent (pools_mem ps2 (base + d)) size (m_taskData nd) =
      data_RunTask agent (pools_mem ps1 base) size (m_taskData nd)" by (simp add: pools_mem_reopened [OF r])
  then show ?thesis using p q1(1,6) t(1) first by blast
qed

lemma callbacks_survive_restart_witness:
  "\<exists>(q :: (int, string) timer_task timer_queue) nd ps m ps1 L ps2 m2 n q1 c q2 e' ns.
    waiting q 0 nd \<and> m_taskData nd = \<lparr>task_id = id_of_obj 88 \<lparr>m_type = 1, m_seq = 1, m_md5 = 0\<rparr>, task_data = Some ''x'', task_func = 7\<rparr> \<and>
    make_pools demo_pool_size 64 \<lparr>desc = []\<rparr> (\<lambda>ty a g. g) (CObjPoolMgr 1000 300 False 0 ()) [demo_req 1 12 3, demo_req 3 8 4] = Some (ps, m) \<and>
    pools_run ps {} [NewObj 0, NewObj 1] = Some (ps1, L) \<and>
    make_pools demo_pool_size 64 \<lparr>desc = []\<rparr> (\<lambda>ty a g. g) (CObjPoolMgr 5000 300 True 1000 ())
      (reopen demo_pool_size 300 [demo_req 1 12 3, demo_req 3 8 4] ps1) = Some (ps2, m2) \<and>
    CreateTimerQueue (\<lambda>_ b. b) 2000 (self q + 4000) (moved 4000 q) 600000 (m_count q) True = Some (Inr (n, q1)) \<and>
    Tick (\<lambda>_. 7) (logging (\<lambda>i q e. ([], ()))) 25 1003 500000 q1 ((), []) = Some (c, q2, (e', ns)) \<and>
    (0, m_taskData nd, m_timerSeq nd, m_expire nd) \<in> set ns"
proof -
  let ?task = "\<lparr>task_id = id_of_obj 88 \<lparr>m_type = 1, m_seq = 1, m_md5 = 0\<rparr>, task_data = Some ''x'', task_func = 7\<rparr> :: (int, string) timer_task"
  let ?rs = "[demo_req 1 12 3, demo_req 3 8 4]"
  obtain q w B F nd where q: "wheel_ok q w B F" "waiting q 0 nd" "m_count q = 4" "m_systemStart q = 1000" "m_currentTick q = 0"
    "m_expire nd = 10" "m_taskData nd = ?task" "m_period nd = 20" "m_repeatCount nd = 3" by (rule timer10 [of ?task])
  have p: "pool_size_law demo_pool_size 64" "(64 :: nat) < 2 ^ 32" "(0 :: int) \<le> 300"
    by (simp_all add: pool_size_law_def demo_pool_size_def)
  have r: "\<forall>r \<in> set ?rs. req_fits r" "\<forall>(ty, u, n, old) \<in> set ?rs. 0 \<le> ty \<and> ty < 2 ^ 8"
    by (simp_all add: demo_req_def req_fits_def MAX_ALLOCATE_COUNT_def)
  have s: "even (4000 :: int)" "m_currentTick q < 2 ^ 31" "sizeof_CTimerQueue + int (m_count q) * sizeof_NodeType \<le> 600000"
    by (simp_all add: q(3,5) sizeof_CTimerQueue_def sizeof_NodeType_def)
  have c: "TimerConstruct 64 (m_taskData nd) None = Some (m_taskData nd)" by (simp add: TimerConstruct_def TIMER_DATA_LEN_def)
  have t: "tasks_ok (\<lambda>_. 7) (\<lambda>i q e. ([], ()))" "spares (\<lambda>i q e. ([], ())) 0 nd" by (simp_all add: tasks_ok_def spares_def)
  have f: "tick_of_time (m_systemStart q) 1003 500000 \<le> 2 ^ 31" "tick_fuel q \<le> 25" by (simp_all add: tick_fuel_def q(3,4) tick_70)
  have due: "m_expire nd < tick_of_time (m_systemStart q) 1003 500000" by (simp add: q(4,6) tick_70)
  have at: "(1000 :: int) + 4000 = 5000" by simp
  note cb = callbacks_survive_restart [where rt = "\<lambda>_ b. b" and start = 2000 and err = "\<lparr>desc = []\<rparr>" and ins = "\<lambda>ty a g. g"
      and buffer = 1000 and word = 0 and g = "()" and e = "()" and calls = "[NewObj 0, NewObj 1]", OF p r wheelI [OF q(1)] q(2) s c t f]
  show ?thesis
    by (rule exI [of _ q], rule exI [of _ nd]) (use cb [unfolded if_P [OF due] at] q(2,7) in blast)
qed

end
