(* ===== verification/MemLife.thy ===== *)
theory MemLife
  imports MemPool "HOL-Library.Multiset"
begin

text \<open>
  Where the memory of \<open>AsyncMemPool\<close> (\<open>common/config/async_mempool.cc\<close>) comes from and goes to: every \<open>malloc\<close>, \<open>new\<close>,
  \<open>realloc\<close>, \<open>free\<close> and \<open>delete\<close> of the class, its destructors included, on a ledger of the blocks that are allocated.

  \<^item> A block is a number, and never used twice. \<open>h_free\<close> of a block that is not allocated is \<open>None\<close>; of the null
    pointer it does nothing.
  \<^item> \<open>own_array\<close> is the member \<open>chunks\<close>, \<open>own_items\<close> holds for each \<open>PoolChunk\<close> the block of the object and that of its
    \<open>pool\<close>. The sizes and positions are those of \<open>mem_pool\<close>.
\<close>

subsection \<open>The ledger\<close>

record ledger =
  next_block :: nat
  alive :: "nat list"

definition h_malloc :: "ledger \<Rightarrow> nat \<times> ledger" where
  "h_malloc h = (next_block h, h\<lparr>next_block := next_block h + 1, alive := next_block h # alive h\<rparr>)"

definition h_free :: "nat option \<Rightarrow> ledger \<Rightarrow> ledger option" where
  "h_free b h = (case b of None \<Rightarrow> Some h
     | Some k \<Rightarrow> if k \<in> set (alive h) then Some (h\<lparr>alive := remove1 k (alive h)\<rparr>) else None)"

definition h_realloc :: "nat option \<Rightarrow> ledger \<Rightarrow> (nat \<times> ledger) option" where
  "h_realloc b h = map_option h_malloc (h_free b h)"

subsection \<open>The class\<close>

record mp_life =
  mp_state :: mem_pool
  own_array :: "nat option"
  own_items :: "(nat \<times> nat) list"

text \<open>\<open>new PoolChunk\<close> and \<open>delete\<close> of one.\<close>

definition new_chunk :: "ledger \<Rightarrow> (nat \<times> nat) \<times> ledger" where
  "new_chunk h = (let (ob, h1) = h_malloc h; (pl, h2) = h_malloc h1 in ((ob, pl), h2))"

definition delete_chunk :: "nat \<times> nat \<Rightarrow> ledger \<Rightarrow> ledger option" where
  "delete_chunk c h = do { h1 \<leftarrow> h_free (Some (snd c)) h; h_free (Some (fst c)) h1 }"

definition life_new :: "nat \<Rightarrow> mp_life" where
  "life_new n = \<lparr>mp_state = AsyncMemPool n, own_array = None, own_items = []\<rparr>"

definition life_initialize :: "mallocf \<Rightarrow> mp_life \<times> ledger \<Rightarrow> (mp_life \<times> ledger) option" where
  "life_initialize malloc s = (case s of (o1, h) \<Rightarrow>
     let (a, h1) = h_malloc h; (c, h2) = new_chunk h1
     in Some (o1\<lparr>mp_state := snd (mp_initialize malloc (mp_state o1)), own_array := Some a, own_items := [c]\<rparr>, h2))"

definition life_add :: "mp_life \<times> ledger \<Rightarrow> (mp_life \<times> ledger) option" where
  "life_add s = (case s of (o1, h) \<Rightarrow> do {
     (a, h1) \<leftarrow> h_realloc (own_array o1) h;
     let (c, h2) = new_chunk h1;
     Some (o1\<lparr>own_array := Some a, own_items := own_items o1 @ [c]\<rparr>, h2) })"

definition life_alloc :: "mallocf \<Rightarrow> nat \<Rightarrow> mp_life \<times> ledger \<Rightarrow> (mp_life \<times> ledger) option" where
  "life_alloc malloc n s = do {
     (o1, h1) \<leftarrow> (if chunk_take n (chunks (mp_state (fst s))) = None then life_add s else Some s);
     Some (o1\<lparr>mp_state := snd (mp_alloc malloc (mp_state o1) n)\<rparr>, h1) }"

text \<open>The last chunk is deleted when the new count is smaller.\<close>

definition life_free :: "mp_life \<times> ledger \<Rightarrow> (mp_life \<times> ledger) option" where
  "life_free s = (case s of (o1, h) \<Rightarrow>
     let p' = mp_free (mp_state o1); o2 = o1\<lparr>mp_state := p'\<rparr>
     in if length (chunks p') < length (chunks (mp_state o1))
        then map_option (\<lambda>h1. (o2\<lparr>own_items := butlast (own_items o1)\<rparr>, h1)) (delete_chunk (last (own_items o1)) h)
        else Some (o2, h))"

fun delete_chunks :: "(nat \<times> nat) list \<Rightarrow> ledger \<Rightarrow> ledger option" where
  "delete_chunks [] h = Some h"
| "delete_chunks (c # cs) h = do { h1 \<leftarrow> delete_chunk c h; delete_chunks cs h1 }"

definition life_destroy :: "mp_life \<times> ledger \<Rightarrow> ledger option" where
  "life_destroy s = do { h1 \<leftarrow> delete_chunks (own_items (fst s)) (snd s); h_free (own_array (fst s)) h1 }"

datatype life_call = LifeAlloc nat | LifeFree

fun life_run :: "mallocf \<Rightarrow> life_call list \<Rightarrow> mp_life \<times> ledger \<Rightarrow> (mp_life \<times> ledger) option" where
  "life_run malloc [] s = Some s"
| "life_run malloc (LifeAlloc n # cs) s = do { s1 \<leftarrow> life_alloc malloc n s; life_run malloc cs s1 }"
| "life_run malloc (LifeFree # cs) s = do { s1 \<leftarrow> life_free s; life_run malloc cs s1 }"

subsection \<open>Whose block it is\<close>

definition item_blocks :: "(nat \<times> nat) list \<Rightarrow> nat list" where
  "item_blocks cs = concat (map (\<lambda>(ob, pl). [ob, pl]) cs)"

definition blocks_of :: "mp_life \<Rightarrow> nat list" where
  "blocks_of o1 = item_blocks (own_items o1) @ (case own_array o1 of None \<Rightarrow> [] | Some a \<Rightarrow> [a])"

text \<open>The allocated blocks are, without repetition, those of the object and the ones of others, \<open>rest\<close>.\<close>

definition life_ok :: "nat multiset \<Rightarrow> mp_life \<times> ledger \<Rightarrow> bool" where
  "life_ok rest s \<longleftrightarrow> mset (alive (snd s)) = mset (blocks_of (fst s)) + rest \<and>
     length (own_items (fst s)) = length (chunks (mp_state (fst s)))"

lemma h_free_block:
  assumes "mset (alive h) = add_mset b M"
  obtains h' where "h_free (Some b) h = Some h'" "mset (alive h') = M"
proof -
  have "b \<in> set (alive h)" using assms by (metis set_mset_mset union_single_eq_member)
  then show thesis using that [of "h\<lparr>alive := remove1 b (alive h)\<rparr>"] assms by (simp add: h_free_def)
qed

lemma new_chunk_blocks: "new_chunk h = (c, h') \<Longrightarrow> mset (alive h') = mset (item_blocks [c]) + mset (alive h)"
  by (auto simp: new_chunk_def h_malloc_def item_blocks_def Let_def)

lemma item_blocks_append [simp]: "item_blocks (cs @ ds) = item_blocks cs @ item_blocks ds"
  by (simp add: item_blocks_def)

lemma item_blocks_Nil [simp]: "item_blocks [] = []"
  by (simp add: item_blocks_def)

lemma delete_chunk_blocks:
  assumes "mset (alive h) = mset (item_blocks [c]) + M"
  obtains h' where "delete_chunk c h = Some h'" "mset (alive h') = M"
proof -
  obtain ob pl where c: "c = (ob, pl)" by (cases c)
  have "mset (alive h) = add_mset pl (add_mset ob M)" using assms c by (simp add: item_blocks_def)
  then obtain h1 where h1: "h_free (Some pl) h = Some h1" "mset (alive h1) = add_mset ob M" by (rule h_free_block)
  obtain h2 where "h_free (Some ob) h1 = Some h2" "mset (alive h2) = M" by (rule h_free_block [OF h1(2)])
  then show thesis using that h1(1) c by (simp add: delete_chunk_def)
qed

lemma delete_chunks_blocks:
  "mset (alive h) = mset (item_blocks cs) + M \<Longrightarrow> \<exists>h'. delete_chunks cs h = Some h' \<and> mset (alive h') = M"
proof (induction cs arbitrary: h)
  case (Cons c cs)
  have "mset (alive h) = mset (item_blocks [c]) + (mset (item_blocks cs) + M)"
    using Cons.prems by (simp add: item_blocks_def)
  then obtain h1 where "delete_chunk c h = Some h1" "mset (alive h1) = mset (item_blocks cs) + M"
    by (rule delete_chunk_blocks)
  then show ?case using Cons.IH by simp
qed simp

lemma mp_alloc_count:
  "length (chunks (snd (mp_alloc malloc p n))) = length (chunks p) + (if chunk_take n (chunks p) = None then 1 else 0)"
proof (cases "chunk_take n (chunks p)")
  case None
  then show ?thesis by (simp add: mp_new_chunk Let_def)
next
  case (Some r)
  obtain a cs where r: "r = (a, cs)" by (cases r)
  have "chunk_take n ds = Some (b, es) \<Longrightarrow> length es = length ds" for ds b es
    by (induction ds arbitrary: b es) (auto split: if_splits Option.bind_splits)
  then show ?thesis using Some r by (auto simp: mp_alloc_def)
qed

lemma mp_free_count:
  "length (chunks (mp_free p)) = length (chunks p) \<or> 1 < length (chunks p) \<and> Suc (length (chunks (mp_free p))) = length (chunks p)"
  by (auto simp: mp_free_def Let_def)

lemma life_add_ok:
  assumes "mset (alive h) = mset (blocks_of o1) + rest"
  obtains o2 h2 where "life_add (o1, h) = Some (o2, h2)" "mset (alive h2) = mset (blocks_of o2) + rest"
    "length (own_items o2) = Suc (length (own_items o1))" "mp_state o2 = mp_state o1"
proof -
  obtain h1 where h1: "h_free (own_array o1) h = Some h1" "mset (alive h1) = mset (item_blocks (own_items o1)) + rest"
  proof (cases "own_array o1")
    case None
    then show thesis using that [of h] assms by (simp add: h_free_def blocks_of_def)
  next
    case (Some a)
    then have "mset (alive h) = add_mset a (mset (item_blocks (own_items o1)) + rest)" using assms by (simp add: blocks_of_def)
    then show thesis using that Some h_free_block by metis
  qed
  obtain a h2 where h2: "h_malloc h1 = (a, h2)" by fastforce
  obtain c h3 where h3: "new_chunk h2 = (c, h3)" by fastforce
  have "mset (alive h2) = add_mset a (mset (alive h1))" using h2 by (auto simp: h_malloc_def)
  then have "mset (alive h3) = mset (blocks_of (o1\<lparr>own_array := Some a, own_items := own_items o1 @ [c]\<rparr>)) + rest"
    using new_chunk_blocks [OF h3] h1(2) by (simp add: blocks_of_def)
  then show thesis using that [of "o1\<lparr>own_array := Some a, own_items := own_items o1 @ [c]\<rparr>" h3] h1(1) h2 h3
    by (simp add: life_add_def h_realloc_def)
qed

lemma life_alloc_ok:
  assumes "life_ok rest s"
  shows "\<exists>s'. life_alloc malloc n s = Some s' \<and> life_ok rest s'"
proof -
  obtain o1 h where s: "s = (o1, h)" by (cases s)
  have ok: "mset (alive h) = mset (blocks_of o1) + rest" "length (own_items o1) = length (chunks (mp_state o1))"
    using assms s by (simp_all add: life_ok_def)
  note cnt = mp_alloc_count [of malloc "mp_state o1" n]
  show ?thesis
  proof (cases "chunk_take n (chunks (mp_state o1)) = None")
    case True
    obtain o2 h2 where a: "life_add (o1, h) = Some (o2, h2)" "mset (alive h2) = mset (blocks_of o2) + rest"
      "length (own_items o2) = Suc (length (own_items o1))" "mp_state o2 = mp_state o1" by (rule life_add_ok [OF ok(1)])
    show ?thesis using a True s ok(2) cnt by (simp add: life_alloc_def life_ok_def blocks_of_def)
  next
    case False
    then show ?thesis using s ok cnt by (auto simp: life_alloc_def life_ok_def blocks_of_def)
  qed
qed

lemma life_free_ok:
  assumes "life_ok rest s"
  shows "\<exists>s'. life_free s = Some s' \<and> life_ok rest s'"
proof -
  obtain o1 h where s: "s = (o1, h)" by (cases s)
  have ok: "mset (alive h) = mset (blocks_of o1) + rest" "length (own_items o1) = length (chunks (mp_state o1))"
    using assms s by (simp_all add: life_ok_def)
  consider (same) "length (chunks (mp_free (mp_state o1))) = length (chunks (mp_state o1))"
    | (less) "1 < length (chunks (mp_state o1))" "Suc (length (chunks (mp_free (mp_state o1)))) = length (chunks (mp_state o1))"
    using mp_free_count by blast
  then show ?thesis
  proof cases
    case same
    then show ?thesis using s ok by (simp add: life_free_def life_ok_def blocks_of_def Let_def)
  next
    case less
    then obtain cs c where c: "own_items o1 = cs @ [c]" using ok(2) by (cases "own_items o1" rule: rev_cases) auto
    have "mset (alive h) = mset (item_blocks [c]) + (mset (blocks_of (o1\<lparr>own_items := cs\<rparr>)) + rest)"
      using ok(1) c by (simp add: blocks_of_def)
    then obtain h1 where "delete_chunk c h = Some h1" "mset (alive h1) = mset (blocks_of (o1\<lparr>own_items := cs\<rparr>)) + rest"
      by (rule delete_chunk_blocks)
    then show ?thesis using s less ok(2) c by (simp add: life_free_def life_ok_def blocks_of_def Let_def)
  qed
qed

lemma life_run_ok: "life_ok rest s \<Longrightarrow> \<exists>s'. life_run malloc cs s = Some s' \<and> life_ok rest s'"
proof (induction cs arbitrary: s)
  case (Cons c cs)
  obtain s1 where "life_ok rest s1" "(case c of LifeAlloc n \<Rightarrow> life_alloc malloc n s | LifeFree \<Rightarrow> life_free s) = Some s1"
    using life_alloc_ok [OF Cons.prems] life_free_ok [OF Cons.prems] by (cases c) (simp, blast)+
  then show ?case using Cons.IH by (cases c) simp_all
qed simp

lemma life_destroy_ok:
  assumes "life_ok rest s"
  shows "\<exists>h. life_destroy s = Some h \<and> mset (alive h) = rest"
proof -
  obtain o1 h where s: "s = (o1, h)" by (cases s)
  let ?a = "mset (case own_array o1 of None \<Rightarrow> [] | Some a \<Rightarrow> [a])"
  have "mset (alive h) = mset (item_blocks (own_items o1)) + (?a + rest)"
    using assms s by (simp add: life_ok_def blocks_of_def)
  then obtain h1 where h1: "delete_chunks (own_items o1) h = Some h1" "mset (alive h1) = ?a + rest"
    using delete_chunks_blocks by blast
  show ?thesis
  proof (cases "own_array o1")
    case None
    then show ?thesis using s h1 by (simp add: life_destroy_def h_free_def)
  next
    case (Some a)
    then have "mset (alive h1) = add_mset a rest" using h1(2) by simp
    then obtain h2 where "h_free (Some a) h1 = Some h2" "mset (alive h2) = rest" by (rule h_free_block)
    then show ?thesis using s h1(1) Some by (simp add: life_destroy_def)
  qed
qed

lemma life_initialize_ok:
  assumes "life_ok rest (life_new n, h)"
  shows "\<exists>s. life_initialize malloc (life_new n, h) = Some s \<and> life_ok rest s"
proof -
  obtain c h2 where c: "new_chunk (snd (h_malloc h)) = (c, h2)" by fastforce
  show ?thesis using assms c new_chunk_blocks [OF c]
    by (auto simp: life_initialize_def life_ok_def blocks_of_def life_new_def AsyncMemPool_def mp_initialize_def h_malloc_def Let_def)
qed

lemma life_new_ok: "life_ok (mset (alive h)) (life_new n, h)"
  by (simp add: life_ok_def life_new_def blocks_of_def AsyncMemPool_def)

text \<open>C30. The memory pool gives back what it takes. From its constructor, with \<open>initialize\<close> called once or not at all, along any
  calls of \<open>alloc\<close> (and of \<open>calloc\<close> and \<open>strdup\<close>, which call it) and \<open>free\<close>, the class frees no block that is not allocated, and
  after its destructor exactly the blocks are allocated that were before it was built: nothing leaks and nothing of others is
  freed. A second \<open>initialize\<close> leaks the array, the chunk and its memory.\<close>
theorem mempool_returns_memory:
  "(\<exists>s1 s2 h2. (if init then life_initialize malloc (life_new n, h) else Some (life_new n, h)) = Some s1 \<and>
      life_run malloc cs s1 = Some s2 \<and> life_destroy s2 = Some h2 \<and> mset (alive h2) = mset (alive h)) \<and>
   (\<exists>s1 s2 h2. life_initialize malloc (life_new n, h) = Some s1 \<and> life_initialize malloc s1 = Some s2 \<and>
      life_destroy s2 = Some h2 \<and> length (alive h2) = length (alive h) + 3)"
proof
  obtain s1 where s1: "(if init then life_initialize malloc (life_new n, h) else Some (life_new n, h)) = Some s1"
    "life_ok (mset (alive h)) s1"
  proof (cases init)
    case True
    then show thesis using that life_initialize_ok [OF life_new_ok [of h n], of malloc] by auto
  next
    case False
    then show thesis using that [of "(life_new n, h)"] life_new_ok by simp
  qed
  obtain s2 where s2: "life_run malloc cs s1 = Some s2" "life_ok (mset (alive h)) s2" using life_run_ok [OF s1(2)] by blast
  show "\<exists>s1 s2 h2. (if init then life_initialize malloc (life_new n, h) else Some (life_new n, h)) = Some s1 \<and>
     life_run malloc cs s1 = Some s2 \<and> life_destroy s2 = Some h2 \<and> mset (alive h2) = mset (alive h)"
    using s1(1) s2(1) life_destroy_ok [OF s2(2)] by blast
  show "\<exists>s1 s2 h2. life_initialize malloc (life_new n, h) = Some s1 \<and> life_initialize malloc s1 = Some s2 \<and>
     life_destroy s2 = Some h2 \<and> length (alive h2) = length (alive h) + 3"
    by (simp add: life_initialize_def life_new_def new_chunk_def h_malloc_def life_destroy_def delete_chunk_def h_free_def)
qed

end
