(* ===== verification/DocLife.thy ===== *)
theory DocLife
  imports MemLife
begin

text \<open>
  The memory of a configuration document, \<open>DOTCONFDocument\<close> and \<open>DOTCONFDocumentNode\<close> of \<open>common/config/dotconfpp.cc\<close>: each place of
  the code that allocates or frees, on the ledger of \<open>MemLife\<close>, and both destructors. What the strings hold is the matter of
  \<open>DotConf\<close> and \<open>ConfDoc\<close>; here each is a block.

  \<^item> \<open>doc_op\<close> names the places: a new node with its name, a value pushed to a node, a value replaced by its substitution,
    \<open>fileName\<close> set, a name put on \<open>processedFiles\<close> or \<open>requiredOptions\<close>, a call of the memory pool. An operation on a node
    or value that does not exist is not made.
\<close>

subsection \<open>Nodes\<close>

record node_mem =
  nm_block :: nat
  nm_name :: "nat option"
  nm_array :: "nat option"
  nm_values :: "nat list"

text \<open>The constructor, for an object in block \<open>b\<close>; \<open>new\<close> of a node, which is given its name at once.\<close>

definition node_ctor :: "nat \<Rightarrow> node_mem" where
  "node_ctor b = \<lparr>nm_block = b, nm_name = None, nm_array = None, nm_values = []\<rparr>"

definition node_new :: "ledger \<Rightarrow> node_mem \<times> ledger" where
  "node_new h = (let (b, h1) = h_malloc h; (n, h2) = h_malloc h1 in ((node_ctor b)\<lparr>nm_name := Some n\<rparr>, h2))"

definition node_push :: "node_mem \<Rightarrow> ledger \<Rightarrow> (node_mem \<times> ledger) option" where
  "node_push nd h = do {
     (a, h1) \<leftarrow> h_realloc (nm_array nd) h;
     let (v, h2) = h_malloc h1;
     Some (nd\<lparr>nm_array := Some a, nm_values := nm_values nd @ [v]\<rparr>, h2) }"

definition node_replace :: "nat \<Rightarrow> node_mem \<Rightarrow> ledger \<Rightarrow> (node_mem \<times> ledger) option" where
  "node_replace vi nd h = do {
     h1 \<leftarrow> h_free (Some (nm_values nd ! vi)) h;
     let (v, h2) = h_malloc h1;
     Some (nd\<lparr>nm_values := (nm_values nd)[vi := v]\<rparr>, h2) }"

fun free_all :: "nat list \<Rightarrow> ledger \<Rightarrow> ledger option" where
  "free_all [] h = Some h"
| "free_all (b # bs) h = do { h1 \<leftarrow> h_free (Some b) h; free_all bs h1 }"

text \<open>The destructor of a node, and \<open>delete\<close> of one.\<close>

definition node_destroy :: "node_mem \<Rightarrow> ledger \<Rightarrow> ledger option" where
  "node_destroy nd h = do {
     h1 \<leftarrow> h_free (nm_name nd) h;
     (case nm_array nd of
        None \<Rightarrow> Some h1
      | Some a \<Rightarrow> do { h2 \<leftarrow> free_all (nm_values nd) h1; h_free (Some a) h2 }) }"

definition node_delete :: "node_mem \<Rightarrow> ledger \<Rightarrow> ledger option" where
  "node_delete nd h = do { h1 \<leftarrow> node_destroy nd h; h_free (Some (nm_block nd)) h1 }"

fun delete_nodes :: "node_mem list \<Rightarrow> ledger \<Rightarrow> ledger option" where
  "delete_nodes [] h = Some h"
| "delete_nodes (nd # nds) h = do { h1 \<leftarrow> node_delete nd h; delete_nodes nds h1 }"

subsection \<open>Documents\<close>

record doc_mem =
  dm_nodes :: "node_mem list"
  dm_required :: "nat list"
  dm_processed :: "nat list"
  dm_file :: "nat option"
  dm_pool_block :: nat
  dm_pool :: mp_life

definition doc_new :: "mallocf \<Rightarrow> ledger \<Rightarrow> (doc_mem \<times> ledger) option" where
  "doc_new malloc h = (let (b, h1) = h_malloc h in do {
     (p, h2) \<leftarrow> life_initialize malloc (life_new 1024, h1);
     Some (\<lparr>dm_nodes = [], dm_required = [], dm_processed = [], dm_file = None, dm_pool_block = b, dm_pool = p\<rparr>, h2) })"

datatype doc_op = NewNode | PushValue nat | ReplaceValue nat nat | SetFileName | AddProcessed | AddRequired | PoolCall life_call

definition on_node :: "nat \<Rightarrow> (node_mem \<Rightarrow> ledger \<Rightarrow> (node_mem \<times> ledger) option) \<Rightarrow> doc_mem \<times> ledger \<Rightarrow> (doc_mem \<times> ledger) option" where
  "on_node i f s = map_option (\<lambda>(nd, h1). ((fst s)\<lparr>dm_nodes := (dm_nodes (fst s))[i := nd]\<rparr>, h1)) (f (dm_nodes (fst s) ! i) (snd s))"

fun doc_step :: "mallocf \<Rightarrow> doc_op \<Rightarrow> doc_mem \<times> ledger \<Rightarrow> (doc_mem \<times> ledger) option" where
  "doc_step malloc NewNode (d, h) = (let (nd, h1) = node_new h in Some (d\<lparr>dm_nodes := dm_nodes d @ [nd]\<rparr>, h1))"
| "doc_step malloc (PushValue i) (d, h) = (if i < length (dm_nodes d) then on_node i node_push (d, h) else Some (d, h))"
| "doc_step malloc (ReplaceValue i vi) (d, h) =
     (if i < length (dm_nodes d) \<and> vi < length (nm_values (dm_nodes d ! i)) then on_node i (node_replace vi) (d, h) else Some (d, h))"
| "doc_step malloc SetFileName (d, h) = (let (b, h1) = h_malloc h in Some (d\<lparr>dm_file := Some b\<rparr>, h1))"
| "doc_step malloc AddProcessed (d, h) = (let (b, h1) = h_malloc h in Some (d\<lparr>dm_processed := dm_processed d @ [b]\<rparr>, h1))"
| "doc_step malloc AddRequired (d, h) = (let (b, h1) = h_malloc h in Some (d\<lparr>dm_required := dm_required d @ [b]\<rparr>, h1))"
| "doc_step malloc (PoolCall c) (d, h) = map_option (\<lambda>(p, h1). (d\<lparr>dm_pool := p\<rparr>, h1)) (life_run malloc [c] (dm_pool d, h))"

fun doc_run :: "mallocf \<Rightarrow> doc_op list \<Rightarrow> doc_mem \<times> ledger \<Rightarrow> (doc_mem \<times> ledger) option" where
  "doc_run malloc [] s = Some s"
| "doc_run malloc (c # cs) s = do { s1 \<leftarrow> doc_step malloc c s; doc_run malloc cs s1 }"

definition doc_destroy :: "doc_mem \<times> ledger \<Rightarrow> ledger option" where
  "doc_destroy s = (case s of (d, h) \<Rightarrow> do {
     h1 \<leftarrow> delete_nodes (dm_nodes d) h;
     h2 \<leftarrow> free_all (dm_required d) h1;
     h3 \<leftarrow> free_all (dm_processed d) h2;
     h4 \<leftarrow> h_free (dm_file d) h3;
     h5 \<leftarrow> life_destroy (dm_pool d, h4);
     h_free (Some (dm_pool_block d)) h5 })"

subsection \<open>Whose block it is\<close>

definition opt_block :: "nat option \<Rightarrow> nat multiset" where
  "opt_block b = (case b of None \<Rightarrow> {#} | Some k \<Rightarrow> {#k#})"

definition node_blocks :: "node_mem \<Rightarrow> nat multiset" where
  "node_blocks nd = {#nm_block nd#} + opt_block (nm_name nd) + opt_block (nm_array nd) + mset (nm_values nd)"

definition node_mem_ok :: "node_mem \<Rightarrow> bool" where
  "node_mem_ok nd \<longleftrightarrow> nm_array nd = None \<longrightarrow> nm_values nd = []"

text \<open>All blocks of a document but those of its memory pool, for which \<open>life_ok\<close> accounts.\<close>

definition doc_blocks :: "doc_mem \<Rightarrow> nat multiset" where
  "doc_blocks d = (\<Sum>nd \<leftarrow> dm_nodes d. node_blocks nd) + mset (dm_required d) + mset (dm_processed d) + opt_block (dm_file d) +
     {#dm_pool_block d#}"

definition doc_mem_ok :: "nat multiset \<Rightarrow> doc_mem \<times> ledger \<Rightarrow> bool" where
  "doc_mem_ok rest s \<longleftrightarrow> (\<forall>nd \<in> set (dm_nodes (fst s)). node_mem_ok nd) \<and>
     life_ok (doc_blocks (fst s) + rest) (dm_pool (fst s), snd s)"

subsection \<open>Blocks in and out\<close>

lemma h_malloc_block:
  obtains b h' where "h_malloc h = (b, h')" "mset (alive h') = add_mset b (mset (alive h))"
  by (simp add: h_malloc_def)

lemma h_free_opt:
  assumes "mset (alive h) = opt_block b + M"
  obtains h' where "h_free b h = Some h'" "mset (alive h') = M"
proof (cases b)
  case None
  then show thesis using that [of h] assms by (simp add: h_free_def opt_block_def)
next
  case (Some k)
  then have "mset (alive h) = add_mset k M" using assms by (simp add: opt_block_def)
  then show thesis using that Some h_free_block by metis
qed

lemma free_all_blocks: "mset (alive h) = mset bs + M \<Longrightarrow> \<exists>h'. free_all bs h = Some h' \<and> mset (alive h') = M"
proof (induction bs arbitrary: h)
  case (Cons b bs)
  have "mset (alive h) = add_mset b (mset bs + M)" using Cons.prems by simp
  then obtain h1 where "h_free (Some b) h = Some h1" "mset (alive h1) = mset bs + M" by (rule h_free_block)
  then show ?case using Cons.IH by simp
qed simp

lemma node_new_blocks:
  "node_new h = (nd, h') \<Longrightarrow> mset (alive h') = node_blocks nd + mset (alive h) \<and> node_mem_ok nd"
  by (auto simp: node_new_def node_ctor_def node_blocks_def opt_block_def node_mem_ok_def h_malloc_def Let_def)

lemma node_push_blocks:
  assumes "mset (alive h) = node_blocks nd + M"
  shows "\<exists>nd' h'. node_push nd h = Some (nd', h') \<and> mset (alive h') = node_blocks nd' + M \<and> node_mem_ok nd'"
proof -
  have "mset (alive h) = opt_block (nm_array nd) + ({#nm_block nd#} + opt_block (nm_name nd) + mset (nm_values nd) + M)"
    using assms by (simp add: node_blocks_def)
  then obtain h1 where h1: "h_free (nm_array nd) h = Some h1"
    "mset (alive h1) = {#nm_block nd#} + opt_block (nm_name nd) + mset (nm_values nd) + M" by (rule h_free_opt)
  obtain a h2 where h2: "h_malloc h1 = (a, h2)" "mset (alive h2) = add_mset a (mset (alive h1))" by (rule h_malloc_block)
  obtain v h3 where h3: "h_malloc h2 = (v, h3)" "mset (alive h3) = add_mset v (mset (alive h2))" by (rule h_malloc_block)
  show ?thesis using h1 h2 h3 by (simp add: node_push_def h_realloc_def node_blocks_def opt_block_def node_mem_ok_def)
qed

lemma node_replace_blocks:
  assumes "mset (alive h) = node_blocks nd + M" and vi: "vi < length (nm_values nd)" and "node_mem_ok nd"
  shows "\<exists>nd' h'. node_replace vi nd h = Some (nd', h') \<and> mset (alive h') = node_blocks nd' + M \<and> node_mem_ok nd'"
proof -
  let ?v = "nm_values nd ! vi" and ?R = "{#nm_block nd#} + opt_block (nm_name nd) + opt_block (nm_array nd) + M"
  obtain V where V: "mset (nm_values nd) = add_mset ?v V" using vi by (metis mset_add nth_mem_mset)
  have upd: "mset ((nm_values nd)[vi := w]) = add_mset w V" for w using V vi by (simp add: mset_update)
  have "mset (alive h) = add_mset ?v (V + ?R)" using assms(1) by (simp add: node_blocks_def V)
  then obtain h1 where h1: "h_free (Some ?v) h = Some h1" "mset (alive h1) = V + ?R" by (rule h_free_block)
  obtain w h2 where h2: "h_malloc h1 = (w, h2)" "mset (alive h2) = add_mset w (mset (alive h1))" by (rule h_malloc_block)
  have "node_mem_ok (nd\<lparr>nm_values := (nm_values nd)[vi := w]\<rparr>)" using assms(3) by (auto simp: node_mem_ok_def)
  then show ?thesis using h1 h2 by (simp add: node_replace_def node_blocks_def upd)
qed

lemma node_delete_blocks:
  assumes "mset (alive h) = node_blocks nd + M" and "node_mem_ok nd"
  obtains h' where "node_delete nd h = Some h'" "mset (alive h') = M"
proof -
  let ?R = "add_mset (nm_block nd) M"
  have "mset (alive h) = opt_block (nm_name nd) + (opt_block (nm_array nd) + mset (nm_values nd) + ?R)"
    using assms(1) by (simp add: node_blocks_def)
  then obtain h1 where h1: "h_free (nm_name nd) h = Some h1" "mset (alive h1) = opt_block (nm_array nd) + mset (nm_values nd) + ?R"
    by (rule h_free_opt)
  obtain h2 where h2: "node_destroy nd h = Some h2" "mset (alive h2) = ?R"
  proof (cases "nm_array nd")
    case None
    then show thesis using that [of h1] h1 assms(2) by (simp add: node_destroy_def opt_block_def node_mem_ok_def)
  next
    case (Some a)
    then have "mset (alive h1) = mset (nm_values nd) + add_mset a ?R" using h1(2) by (simp add: opt_block_def)
    then obtain h2 where f: "free_all (nm_values nd) h1 = Some h2" "mset (alive h2) = add_mset a ?R" using free_all_blocks by blast
    obtain h3 where "h_free (Some a) h2 = Some h3" "mset (alive h3) = ?R" by (rule h_free_block [OF f(2)])
    then show thesis using that h1(1) f(1) Some by (simp add: node_destroy_def)
  qed
  obtain h3 where "h_free (Some (nm_block nd)) h2 = Some h3" "mset (alive h3) = M" by (rule h_free_block [OF h2(2)])
  then show thesis using that h2(1) by (simp add: node_delete_def)
qed

lemma delete_nodes_blocks:
  "mset (alive h) = (\<Sum>nd \<leftarrow> nds. node_blocks nd) + M \<Longrightarrow> \<forall>nd \<in> set nds. node_mem_ok nd \<Longrightarrow>
   \<exists>h'. delete_nodes nds h = Some h' \<and> mset (alive h') = M"
proof (induction nds arbitrary: h)
  case (Cons nd nds)
  have "mset (alive h) = node_blocks nd + ((\<Sum>nd \<leftarrow> nds. node_blocks nd) + M)" using Cons.prems(1) by (simp add: ac_simps)
  moreover have "node_mem_ok nd" using Cons.prems(2) by simp
  ultimately obtain h1 where "node_delete nd h = Some h1" "mset (alive h1) = (\<Sum>nd \<leftarrow> nds. node_blocks nd) + M"
    by (rule node_delete_blocks)
  then show ?case using Cons.IH Cons.prems(2) by simp
qed simp

lemma sum_list_nth_split:
  fixes f :: "'a \<Rightarrow> 'b multiset"
  assumes "i < length xs"
  obtains M where "(\<Sum>x \<leftarrow> xs. f x) = f (xs ! i) + M" "\<And>y. (\<Sum>x \<leftarrow> xs[i := y]. f x) = f y + M"
proof
  let ?M = "(\<Sum>x \<leftarrow> take i xs. f x) + (\<Sum>x \<leftarrow> drop (Suc i) xs. f x)"
  show "(\<Sum>x \<leftarrow> xs. f x) = f (xs ! i) + ?M" by (subst id_take_nth_drop [OF assms]) (simp add: ac_simps)
  show "(\<Sum>x \<leftarrow> xs[i := y]. f x) = f y + ?M" for y using assms by (simp add: upd_conv_take_nth_drop ac_simps)
qed

subsection \<open>The operations keep the accounts\<close>

lemma doc_mem_ok_alt:
  "doc_mem_ok rest (d, h) \<longleftrightarrow> (\<forall>nd \<in> set (dm_nodes d). node_mem_ok nd) \<and>
     mset (alive h) = doc_blocks d + (mset (blocks_of (dm_pool d)) + rest) \<and>
     length (own_items (dm_pool d)) = length (chunks (mp_state (dm_pool d)))"
  by (auto simp: doc_mem_ok_def life_ok_def ac_simps)

lemma on_node_ok:
  assumes ok: "doc_mem_ok rest (d, h)" and i: "i < length (dm_nodes d)"
    and f: "\<And>M. mset (alive h) = node_blocks (dm_nodes d ! i) + M \<Longrightarrow>
      \<exists>nd' h'. f (dm_nodes d ! i) h = Some (nd', h') \<and> mset (alive h') = node_blocks nd' + M \<and> node_mem_ok nd'"
  shows "\<exists>s. on_node i f (d, h) = Some s \<and> doc_mem_ok rest s"
proof -
  obtain N where N: "(\<Sum>nd \<leftarrow> dm_nodes d. node_blocks nd) = node_blocks (dm_nodes d ! i) + N"
    "\<And>y. (\<Sum>nd \<leftarrow> (dm_nodes d)[i := y]. node_blocks nd) = node_blocks y + N" by (rule sum_list_nth_split [OF i, of node_blocks]) blast
  let ?M = "N + mset (dm_required d) + mset (dm_processed d) + opt_block (dm_file d) + {#dm_pool_block d#} +
    (mset (blocks_of (dm_pool d)) + rest)"
  have "mset (alive h) = node_blocks (dm_nodes d ! i) + ?M" using ok by (simp add: doc_mem_ok_alt doc_blocks_def N(1))
  then obtain nd' h' where nd: "f (dm_nodes d ! i) h = Some (nd', h')" "mset (alive h') = node_blocks nd' + ?M" "node_mem_ok nd'"
    using f by blast
  have "\<forall>nd \<in> set ((dm_nodes d)[i := nd']). node_mem_ok nd" using ok nd(3) set_update_subset_insert [of "dm_nodes d" i nd']
    by (auto simp: doc_mem_ok_alt)
  then show ?thesis using ok nd(1,2) by (simp add: on_node_def doc_mem_ok_alt doc_blocks_def N(2))
qed

text \<open>The block that \<open>fileName\<close> held is what an operation loses.\<close>

definition lost :: "doc_op \<Rightarrow> doc_mem \<Rightarrow> nat multiset" where
  "lost c d = (if c = SetFileName then opt_block (dm_file d) else {#})"

lemma doc_step_ok:
  assumes ok: "doc_mem_ok rest (d, h)"
  shows "\<exists>d' h'. doc_step malloc c (d, h) = Some (d', h') \<and> doc_mem_ok (rest + lost c d) (d', h') \<and>
    (dm_file d' = None \<longleftrightarrow> dm_file d = None \<and> c \<noteq> SetFileName)"
proof (cases c)
  case NewNode
  obtain nd h1 where "node_new h = (nd, h1)" by fastforce
  then show ?thesis using ok NewNode node_new_blocks [of h nd h1] by (auto simp: doc_mem_ok_alt doc_blocks_def lost_def)
next
  case (PushValue i)
  have "\<exists>s. on_node i node_push (d, h) = Some s \<and> doc_mem_ok rest s" if "i < length (dm_nodes d)"
    using on_node_ok [OF ok that] node_push_blocks by blast
  then show ?thesis using ok PushValue by (auto simp: lost_def on_node_def)
next
  case (ReplaceValue i vi)
  have "\<exists>s. on_node i (node_replace vi) (d, h) = Some s \<and> doc_mem_ok rest s"
    if "i < length (dm_nodes d)" "vi < length (nm_values (dm_nodes d ! i))"
  proof (rule on_node_ok [OF ok that(1)])
    have "node_mem_ok (dm_nodes d ! i)" using ok that(1) by (simp add: doc_mem_ok_alt)
    then show "\<exists>nd' h'. node_replace vi (dm_nodes d ! i) h = Some (nd', h') \<and> mset (alive h') = node_blocks nd' + M \<and> node_mem_ok nd'"
      if "mset (alive h) = node_blocks (dm_nodes d ! i) + M" for M
      using node_replace_blocks [OF that \<open>vi < length (nm_values (dm_nodes d ! i))\<close>] by blast
  qed
  then show ?thesis using ok ReplaceValue by (auto simp: lost_def on_node_def)
next
  case (PoolCall k)
  obtain s where "life_run malloc [k] (dm_pool d, h) = Some s" "life_ok (doc_blocks d + rest) s"
    using life_run_ok [of "doc_blocks d + rest" "(dm_pool d, h)" malloc "[k]"] ok by (auto simp: doc_mem_ok_def)
  moreover have "doc_blocks (d\<lparr>dm_pool := p\<rparr>) = doc_blocks d" for p by (simp add: doc_blocks_def)
  ultimately show ?thesis using ok PoolCall by (cases s) (auto simp: doc_mem_ok_def lost_def)
next
  case SetFileName
  obtain b h1 where b: "h_malloc h = (b, h1)" "mset (alive h1) = add_mset b (mset (alive h))" by (rule h_malloc_block)
  then show ?thesis using ok b SetFileName by (simp add: doc_mem_ok_alt doc_blocks_def lost_def opt_block_def)
next
  case AddProcessed
  obtain b h1 where b: "h_malloc h = (b, h1)" "mset (alive h1) = add_mset b (mset (alive h))" by (rule h_malloc_block)
  then show ?thesis using ok b AddProcessed by (simp add: doc_mem_ok_alt doc_blocks_def lost_def)
next
  case AddRequired
  obtain b h1 where b: "h_malloc h = (b, h1)" "mset (alive h1) = add_mset b (mset (alive h))" by (rule h_malloc_block)
  then show ?thesis using ok b AddRequired by (simp add: doc_mem_ok_alt doc_blocks_def lost_def)
qed

text \<open>How many file names are lost, when one was set already or not.\<close>

fun names_lost :: "bool \<Rightarrow> doc_op list \<Rightarrow> nat" where
  "names_lost had [] = 0"
| "names_lost had (c # cs) = (if c = SetFileName then (if had then 1 else 0) + names_lost True cs else names_lost had cs)"

lemma doc_run_ok:
  "doc_mem_ok rest (d, h) \<Longrightarrow> \<exists>L s. doc_run malloc cs (d, h) = Some s \<and> doc_mem_ok (rest + L) s \<and> size L = names_lost (dm_file d \<noteq> None) cs"
proof (induction cs arbitrary: d h rest)
  case Nil
  then show ?case by (intro exI [of _ "{#}"]) simp
next
  case (Cons c cs)
  obtain d1 h1 where s1: "doc_step malloc c (d, h) = Some (d1, h1)" "doc_mem_ok (rest + lost c d) (d1, h1)"
    "dm_file d1 = None \<longleftrightarrow> dm_file d = None \<and> c \<noteq> SetFileName" using doc_step_ok [OF Cons.prems, of malloc c] by metis
  obtain L s where L: "doc_run malloc cs (d1, h1) = Some s" "doc_mem_ok (rest + lost c d + L) s"
    "size L = names_lost (dm_file d1 \<noteq> None) cs" using Cons.IH [OF s1(2)] by blast
  have "size (lost c d + L) = names_lost (dm_file d \<noteq> None) (c # cs)" using L(3) s1(3) by (auto simp: lost_def opt_block_def)
  moreover have "doc_mem_ok (rest + (lost c d + L)) s" using L(2) by (simp only: add.assoc)
  ultimately show ?case using s1(1) L(1) by (intro exI [of _ "lost c d + L"] exI [of _ s]) simp
qed

lemma names_lost_count: "names_lost had cs = count_list cs SetFileName - (if had then 0 else 1)"
proof (induction cs arbitrary: had)
  case (Cons c cs)
  then show ?case using Cons.IH [of True] by auto
qed simp

lemma doc_destroy_ok:
  assumes "doc_mem_ok rest s"
  shows "\<exists>h. doc_destroy s = Some h \<and> mset (alive h) = rest"
proof -
  obtain d h where s: "s = (d, h)" by (cases s)
  note ok = assms [unfolded s doc_mem_ok_alt]
  let ?P = "mset (blocks_of (dm_pool d)) + ({#dm_pool_block d#} + rest)"
  have "mset (alive h) = (\<Sum>nd \<leftarrow> dm_nodes d. node_blocks nd) + (mset (dm_required d) + (mset (dm_processed d) + (opt_block (dm_file d) + ?P)))"
    using ok by (simp add: doc_blocks_def)
  then obtain h1 where h1: "delete_nodes (dm_nodes d) h = Some h1"
    "mset (alive h1) = mset (dm_required d) + (mset (dm_processed d) + (opt_block (dm_file d) + ?P))"
    using delete_nodes_blocks ok by blast
  obtain h2 where h2: "free_all (dm_required d) h1 = Some h2" "mset (alive h2) = mset (dm_processed d) + (opt_block (dm_file d) + ?P)"
    using free_all_blocks [OF h1(2)] by blast
  obtain h3 where h3: "free_all (dm_processed d) h2 = Some h3" "mset (alive h3) = opt_block (dm_file d) + ?P"
    using free_all_blocks [OF h2(2)] by blast
  obtain h4 where h4: "h_free (dm_file d) h3 = Some h4" "mset (alive h4) = ?P" by (rule h_free_opt [OF h3(2)])
  have "life_ok ({#dm_pool_block d#} + rest) (dm_pool d, h4)" using h4(2) ok by (simp add: life_ok_def)
  then obtain h5 where h5: "life_destroy (dm_pool d, h4) = Some h5" "mset (alive h5) = add_mset (dm_pool_block d) rest"
    using life_destroy_ok by fastforce
  obtain h6 where "h_free (Some (dm_pool_block d)) h5 = Some h6" "mset (alive h6) = rest" by (rule h_free_block [OF h5(2)])
  then show ?thesis using s h1(1) h2(1) h3(1) h4(1) h5(1) by (simp add: doc_destroy_def)
qed

lemma doc_new_ok:
  obtains d h1 where "doc_new malloc h = Some (d, h1)" "doc_mem_ok (mset (alive h)) (d, h1)" "dm_file d = None"
proof -
  obtain b h0 where b: "h_malloc h = (b, h0)" "mset (alive h0) = add_mset b (mset (alive h))" by (rule h_malloc_block)
  obtain p h1 where p: "life_initialize malloc (life_new 1024, h0) = Some (p, h1)" "life_ok (mset (alive h0)) (p, h1)"
    using life_initialize_ok [OF life_new_ok] by fastforce
  then show thesis using that b by (simp add: doc_new_def doc_mem_ok_def doc_blocks_def opt_block_def)
qed

text \<open>C22. A configuration document frees each block once, and loses the file names. Whatever the order of the places where
  \<open>DOTCONFDocument\<close> and its nodes allocate (new nodes, values pushed or substituted, option names, files processed, calls of the
  memory pool), no block is freed that is not allocated, up to and with the destructor; afterwards all blocks are allocated that
  were before the constructor, and besides them exactly one for each time \<open>fileName\<close> was set beyond the first, since
  \<open>fileName = strdup(...)\<close> does not free the string it held: a file that includes none leaks nothing.\<close>
theorem document_returns_memory:
  "\<exists>s1 s2 h2 L. doc_new malloc h = Some s1 \<and> doc_run malloc cs s1 = Some s2 \<and> doc_destroy s2 = Some h2 \<and>
     mset (alive h2) = mset (alive h) + L \<and> size L = count_list cs SetFileName - 1"
proof -
  obtain d h1 where d: "doc_new malloc h = Some (d, h1)" "doc_mem_ok (mset (alive h)) (d, h1)" "dm_file d = None" by (rule doc_new_ok)
  obtain L s where L: "doc_run malloc cs (d, h1) = Some s" "doc_mem_ok (mset (alive h) + L) s"
    "size L = names_lost (dm_file d \<noteq> None) cs" using doc_run_ok [OF d(2)] by blast
  have "size L = count_list cs SetFileName - 1" using L(3) d(3) by (simp add: names_lost_count)
  then show ?thesis using d(1) L(1) doc_destroy_ok [OF L(2)] by blast
qed

subsection \<open>The reader\<close>

text \<open>
  \<open>ConfigReader\<close> (\<open>common/config/config_reader.cc\<close>) owns the document that \<open>SetSource\<close> makes. \<open>failed\<close> is the result \<open>-1\<close> of
  \<open>setContent\<close>, whose operations are \<open>cs\<close>.
\<close>

type_synonym reader_mem = "(nat \<times> doc_mem) option"

definition delete_doc :: "nat \<times> doc_mem \<Rightarrow> ledger \<Rightarrow> ledger option" where
  "delete_doc m h = do { h1 \<leftarrow> doc_destroy (snd m, h); h_free (Some (fst m)) h1 }"

definition reader_SetSource :: "mallocf \<Rightarrow> doc_op list \<Rightarrow> bool \<Rightarrow> reader_mem \<times> ledger \<Rightarrow> (reader_mem \<times> ledger) option" where
  "reader_SetSource malloc cs failed s = (let (b, h) = h_malloc (snd s) in do {
     s1 \<leftarrow> doc_new malloc h;
     (d, h2) \<leftarrow> doc_run malloc cs s1;
     (if failed then map_option (Pair None) (delete_doc (b, d) h2) else Some (Some (b, d), h2)) })"

definition reader_destroy :: "reader_mem \<times> ledger \<Rightarrow> ledger option" where
  "reader_destroy s = (case fst s of None \<Rightarrow> Some (snd s) | Some m \<Rightarrow> delete_doc m (snd s))"

lemma delete_doc_ok:
  assumes "doc_mem_ok (add_mset b rest) (d, h)"
  obtains h' where "delete_doc (b, d) h = Some h'" "mset (alive h') = rest"
proof -
  obtain h1 where h1: "doc_destroy (d, h) = Some h1" "mset (alive h1) = add_mset b rest" using doc_destroy_ok [OF assms] by blast
  obtain h2 where "h_free (Some b) h1 = Some h2" "mset (alive h2) = rest" by (rule h_free_block [OF h1(2)])
  then show thesis using that h1(1) by (simp add: delete_doc_def)
qed

text \<open>A reader that is given one source and ended frees what it took, but for the lost file names, whether the source loads or
  not.\<close>
theorem reader_returns_memory:
  "\<exists>s h' L. reader_SetSource malloc cs failed (None, h) = Some s \<and> reader_destroy s = Some h' \<and>
     mset (alive h') = mset (alive h) + L \<and> size L = count_list cs SetFileName - 1"
proof -
  obtain b h0 where b: "h_malloc h = (b, h0)" "mset (alive h0) = add_mset b (mset (alive h))" by (rule h_malloc_block)
  obtain d h1 where d: "doc_new malloc h0 = Some (d, h1)" "doc_mem_ok (mset (alive h0)) (d, h1)" "dm_file d = None" by (rule doc_new_ok)
  obtain L d2 h2 where L: "doc_run malloc cs (d, h1) = Some (d2, h2)" "doc_mem_ok (mset (alive h0) + L) (d2, h2)"
    "size L = names_lost (dm_file d \<noteq> None) cs" using doc_run_ok [OF d(2)] by force
  have "doc_mem_ok (add_mset b (mset (alive h) + L)) (d2, h2)" using L(2) b(2) by simp
  then obtain h3 where h3: "delete_doc (b, d2) h2 = Some h3" "mset (alive h3) = mset (alive h) + L" by (rule delete_doc_ok)
  have "size L = count_list cs SetFileName - 1" using L(3) d(3) by (simp add: names_lost_count)
  then show ?thesis using b(1) d(1) L(1) h3 by (cases failed) (auto simp: reader_SetSource_def reader_destroy_def)
qed

end
