(* ===== verification/Duplex.thy ===== *)
theory Duplex
  imports QueueSpsc Channel
begin

text \<open>
  The channel between two processes at the grain of loads and stores: each of its two queues has one producer and
  one consumer as in \<open>QueueSpsc\<close>, and the steps of both interleave. A state of the pair is well-formed whatever the
  order of the steps, and both queues can always be emptied.
\<close>

subsection \<open>One queue can be emptied\<close>

definition spsc_steps :: "spsc \<Rightarrow> spsc \<Rightarrow> bool" where
  "spsc_steps = spsc_step\<^sup>*\<^sup>*"

lemma spsc_steps_refl [simp]: "spsc_steps x x"
  by (simp add: spsc_steps_def)

lemma spsc_steps_step: "spsc_step x y \<Longrightarrow> spsc_steps x y"
  by (auto simp: spsc_steps_def)

lemma spsc_steps_trans [trans]: "spsc_steps x y \<Longrightarrow> spsc_steps y z \<Longrightarrow> spsc_steps x z"
  unfolding spsc_steps_def by (rule rtranclp_trans)

lemma spsc_steps_inv: "spsc_steps x y \<Longrightarrow> spsc_inv x \<Longrightarrow> spsc_inv y"
  unfolding spsc_steps_def by (induction rule: rtranclp_induct) (auto intro: spsc_step_inv)

text \<open>A call of the producer that is under way comes to its end.\<close>

lemma finish_write:
  assumes "spsc_inv x" and w: "prod x = PWriting m b b' t'"
  obtains y where "spsc_steps x y" "prod y = PIdle" "cons y = cons x"
proof -
  have t: "torn b b' b'" using assms by (auto simp: spsc_inv_def torn_def)
  let ?y = "x\<lparr>seg := set_buff (seg x) b'\<rparr>"
  let ?z = "?y\<lparr>seg := (seg ?y)\<lparr>tail_idx := t'\<rparr>, prod := PIdle, sent := sent ?y @ [m]\<rparr>"
  have y: "spsc_step x ?y" using p_tear [OF w t] .
  have "spsc_step ?y ?z" by (rule p_commit) (simp_all add: w)
  with y have "spsc_steps x ?z" by (meson spsc_steps_step spsc_steps_trans)
  then show thesis by (rule that) simp_all
qed

lemma finish_producer:
  assumes inv: "spsc_inv x"
  obtains y where "spsc_steps x y" "prod y = PIdle" "cons y = cons x"
proof (cases "prod x")
  case PIdle
  then show thesis using that [of x] by simp
next
  case (PLoaded m h t)
  let ?c = "send_copy (sh_size (seg x)) h t (queue_buff (seg x)) m (int (length m))"
  consider "?c = None" | "?c = Some None" | b' t' where "?c = Some (Some (b', t'))" by (metis option.exhaust surj_pair)
  then show thesis
  proof cases
    case 1
    then have "spsc_inv (x\<lparr>prod := PFault\<rparr>)" using p_fault [OF PLoaded] spsc_step_inv inv by blast
    then show thesis by (auto simp: spsc_inv_def)
  next
    case 2
    show thesis by (rule that [OF spsc_steps_step [OF p_reject [OF PLoaded 2]]]) simp_all
  next
    case (3 b' t')
    let ?z = "x\<lparr>prod := PWriting m (queue_buff (seg x)) b' t'\<rparr>"
    have z: "spsc_step x ?z" by (rule p_begin [OF PLoaded 3])
    obtain y where "spsc_steps ?z y" "prod y = PIdle" "cons y = cons ?z"
      by (rule finish_write [OF spsc_step_inv [OF z inv]]) simp
    then show thesis using that [of y] spsc_steps_trans [OF spsc_steps_step [OF z]] by simp
  qed
next
  case (PWriting m b b' t')
  then show thesis using finish_write [OF inv] that by blast
next
  case PFault
  then show thesis using inv by (auto simp: spsc_inv_def)
qed

text \<open>So does a call of the consumer.\<close>

lemma finish_copy:
  assumes "cons x = CCopied d h'"
  obtains y where "spsc_steps x y" "cons y = CIdle" "prod y = prod x" "sent y = sent x" "delivered y = delivered x @ [d]"
  by (rule that [OF spsc_steps_step [OF c_commit [OF assms]]]) simp_all

lemma finish_consumer:
  assumes inv: "spsc_inv x"
  obtains y where "spsc_steps x y" "cons y = CIdle" "prod y = prod x" "sent y = sent x"
proof (cases "cons x")
  case CIdle
  then show thesis using that [of x] by simp
next
  case (CLoaded h t)
  then obtain ms where "queue_holds (seg x) ms" "cons_ok (seg x) ms (CLoaded h t)" using inv by (auto simp: spsc_inv_def)
  from recv_copy_stale [OF this] consider
    l where "recv_copy (sh_size (seg x)) h t (queue_buff (seg x)) = Some (RecvNone l)"
    | l d h' where "recv_copy (sh_size (seg x)) h t (queue_buff (seg x)) = Some (RecvOk l d h')" by blast
  then show thesis
  proof cases
    case 1
    show thesis by (rule that [OF spsc_steps_step [OF c_none [OF CLoaded 1]]]) simp_all
  next
    case (2 l d h')
    have z: "spsc_step x (x\<lparr>cons := CCopied d h'\<rparr>)" by (rule c_copy [OF CLoaded 2])
    obtain y where "spsc_steps (x\<lparr>cons := CCopied d h'\<rparr>) y" "cons y = CIdle" "prod y = prod x" "sent y = sent x"
      by (rule finish_copy [of "x\<lparr>cons := CCopied d h'\<rparr>" d h']) auto
    then show thesis using that spsc_steps_trans [OF spsc_steps_step [OF z]] by blast
  qed
next
  case (CCopied d h')
  then show thesis using finish_copy that by blast
next
  case CFault
  then show thesis using inv by (auto simp: spsc_inv_def)
qed

text \<open>A consumer that finds a message waiting takes it.\<close>

lemma take_one:
  assumes inv: "spsc_inv x" and idle: "prod x = PIdle" "cons x = CIdle" and more: "sent x \<noteq> delivered x"
  obtains y d where "spsc_steps x y" "prod y = PIdle" "cons y = CIdle" "sent y = sent x" "delivered y = delivered x @ [d]"
proof -
  let ?h = "head_idx (seg x)" and ?t = "tail_idx (seg x)"
  let ?z = "x\<lparr>cons := CLoaded ?h ?t\<rparr>"
  have z: "spsc_step x ?z" by (rule c_load [OF idle(2)])
  from spsc_step_inv [OF z inv] obtain ms where ms: "queue_holds (seg x) ms" "sent x = delivered x @ ms"
    "cons_ok (seg x) ms (CLoaded ?h ?t)" by (auto simp: spsc_inv_def)
  have "?h \<noteq> ?t"
  proof
    assume "?h = ?t"
    then have "queue_used (seg x) = 0" using ms(1) by (simp add: queue_used_def queue_holds_def used_def)
    then have "frames ms = []" using queue_holds_used [OF ms(1)] by simp
    then show False using ms(2) more by (cases ms) (simp_all add: frame_def le32_def)
  qed
  then obtain d h' l where c: "recv_copy (sh_size (seg x)) ?h ?t (queue_buff (seg x)) = Some (RecvOk l d h')"
    using recv_copy_stale [OF ms(1, 3)] by blast
  have w: "spsc_step ?z (?z\<lparr>cons := CCopied d h'\<rparr>)" by (rule c_copy [where l = l and h = ?h and t = ?t]) (simp_all add: c)
  obtain y where "spsc_steps (?z\<lparr>cons := CCopied d h'\<rparr>) y" "cons y = CIdle" "prod y = prod (?z\<lparr>cons := CCopied d h'\<rparr>)"
    "sent y = sent (?z\<lparr>cons := CCopied d h'\<rparr>)" "delivered y = delivered (?z\<lparr>cons := CCopied d h'\<rparr>) @ [d]"
    by (rule finish_copy [of "?z\<lparr>cons := CCopied d h'\<rparr>" d h']) simp
  then show thesis
    using that [of y d] spsc_steps_trans [OF spsc_steps_step [OF z] spsc_steps_trans [OF spsc_steps_step [OF w]]] idle(1) by simp
qed

lemma idle_drains:
  assumes "spsc_inv x" "prod x = PIdle" "cons x = CIdle"
  shows "\<exists>y. spsc_steps x y \<and> delivered y = sent y \<and> sent y = sent x"
  using assms
proof (induction "length (sent x) - length (delivered x)" arbitrary: x rule: less_induct)
  case less
  show ?case
  proof (cases "sent x = delivered x")
    case True
    then show ?thesis by (intro exI [of _ x]) simp
  next
    case False
    obtain y d where y: "spsc_steps x y" "prod y = PIdle" "cons y = CIdle" "sent y = sent x" "delivered y = delivered x @ [d]"
      by (rule take_one [OF less.prems False])
    have inv: "spsc_inv y" by (rule spsc_steps_inv [OF y(1) less.prems(1)])
    then obtain ms where "sent y = delivered y @ ms" by (auto simp: spsc_inv_def)
    then have "length (sent y) - length (delivered y) < length (sent x) - length (delivered x)" using y(4, 5) by simp
    from less.hyps [OF this inv y(2, 3)] obtain u where "spsc_steps y u" "delivered u = sent u" "sent u = sent y" by blast
    then show ?thesis using y(1, 4) spsc_steps_trans by (intro exI [of _ u]) auto
  qed
qed

lemma spsc_drains:
  assumes "spsc_inv x"
  shows "\<exists>y. spsc_steps x y \<and> delivered y = sent y \<and> cons y \<noteq> CFault \<and> prod y \<noteq> PFault"
proof -
  obtain y where y: "spsc_steps x y" "prod y = PIdle" by (rule finish_producer [OF assms])
  obtain z where z: "spsc_steps y z" "cons z = CIdle" "prod z = prod y"
    by (rule finish_consumer [OF spsc_steps_inv [OF y(1) assms]])
  have xz: "spsc_steps x z" using y(1) z(1) by (rule spsc_steps_trans)
  obtain u where u: "spsc_steps z u" "delivered u = sent u"
    using idle_drains [OF spsc_steps_inv [OF xz assms]] y(2) z(2, 3) by auto
  have "spsc_steps x u" using xz u(1) by (rule spsc_steps_trans)
  then show ?thesis using u(2) spsc_steps_inv [OF _ assms] by (intro exI [of _ u]) (fastforce simp: spsc_inv_def)
qed

subsection \<open>Both queues of a channel\<close>

record duplex =
  q_ab :: spsc
  q_ba :: spsc

text \<open>A step of either process on either queue. The two calls of one process may even overlap here.\<close>

inductive duplex_step :: "duplex \<Rightarrow> duplex \<Rightarrow> bool" where
  on_ab: "spsc_step (q_ab x) y \<Longrightarrow> duplex_step x (x\<lparr>q_ab := y\<rparr>)"
| on_ba: "spsc_step (q_ba x) y \<Longrightarrow> duplex_step x (x\<lparr>q_ba := y\<rparr>)"

definition duplex_steps :: "duplex \<Rightarrow> duplex \<Rightarrow> bool" where
  "duplex_steps = duplex_step\<^sup>*\<^sup>*"

text \<open>The start: both queues as they are in memory, and no call under way.\<close>

definition duplex_init :: "shm_mem \<Rightarrow> nat \<Rightarrow> nat \<Rightarrow> duplex" where
  "duplex_init mem a b = \<lparr>q_ab = spsc_init (mem a), q_ba = spsc_init (mem b)\<rparr>"

definition duplex_ok :: "duplex \<Rightarrow> bool" where
  "duplex_ok x \<longleftrightarrow> spsc_inv (q_ab x) \<and> spsc_inv (q_ba x)"

inductive_cases duplex_stepE: "duplex_step x y"

lemma duplex_steps_ok: "duplex_steps x y \<Longrightarrow> duplex_ok x \<Longrightarrow> duplex_ok y"
  unfolding duplex_steps_def
  by (induction rule: rtranclp_induct) (auto simp: duplex_ok_def elim!: duplex_stepE intro: spsc_step_inv)

lemma duplex_init_ok: "queue_holds (mem a) [] \<Longrightarrow> queue_holds (mem b) [] \<Longrightarrow> duplex_ok (duplex_init mem a b)"
  by (auto simp: duplex_ok_def duplex_init_def intro: spsc_reach_inv start)

lemma lift_ab: "spsc_steps (q_ab x) y \<Longrightarrow> duplex_steps x (x\<lparr>q_ab := y\<rparr>)"
  unfolding spsc_steps_def
proof (induction rule: rtranclp_induct)
  case base
  then show ?case by (simp add: duplex_steps_def)
next
  case (step y z)
  then have "duplex_step (x\<lparr>q_ab := y\<rparr>) (x\<lparr>q_ab := z\<rparr>)" using on_ab [of "x\<lparr>q_ab := y\<rparr>" z] by simp
  with step.IH show ?case by (simp add: duplex_steps_def)
qed

lemma lift_ba: "spsc_steps (q_ba x) y \<Longrightarrow> duplex_steps x (x\<lparr>q_ba := y\<rparr>)"
  unfolding spsc_steps_def
proof (induction rule: rtranclp_induct)
  case base
  then show ?case by (simp add: duplex_steps_def)
next
  case (step y z)
  then have "duplex_step (x\<lparr>q_ba := y\<rparr>) (x\<lparr>q_ba := z\<rparr>)" using on_ba [of "x\<lparr>q_ba := y\<rparr>" z] by simp
  with step.IH show ?case by (simp add: duplex_steps_def)
qed

definition in_order :: "spsc \<Rightarrow> bool" where
  "in_order q \<longleftrightarrow> prod q \<noteq> PFault \<and> cons q \<noteq> CFault \<and> prefix (delivered q) (sent q)"

lemma spsc_inv_in_order: "spsc_inv q \<Longrightarrow> in_order q"
  by (auto simp: spsc_inv_def in_order_def)

lemma duplex_drains:
  assumes "duplex_ok x"
  shows "\<exists>y. duplex_steps x y \<and> delivered (q_ab y) = sent (q_ab y) \<and> delivered (q_ba y) = sent (q_ba y)"
proof -
  obtain u v where u: "spsc_steps (q_ab x) u" "delivered u = sent u" and v: "spsc_steps (q_ba x) v" "delivered v = sent v"
    using spsc_drains assms by (meson duplex_ok_def)
  have "duplex_steps x (x\<lparr>q_ab := u\<rparr>)" using u(1) by (rule lift_ab)
  moreover have "duplex_steps (x\<lparr>q_ab := u\<rparr>) (x\<lparr>q_ab := u, q_ba := v\<rparr>)" using lift_ba [of "x\<lparr>q_ab := u\<rparr>" v] v(1) by simp
  ultimately have "duplex_steps x (x\<lparr>q_ab := u, q_ba := v\<rparr>)" unfolding duplex_steps_def by (rule rtranclp_trans)
  then show ?thesis using u(2) v(2) by (intro exI [of _ "x\<lparr>q_ab := u, q_ba := v\<rparr>"]) simp
qed

text \<open>C5. The channel under true concurrency. Two processes create their channels with crossed keys, the first on new
  segments, the second on the existing ones. Then, however their loads, torn copies and stores on both queues interleave,
  no call faults, in each direction what has been delivered is a prefix of what has been sent, and from every state
  there are steps after which everything sent in both directions has arrived: no interleaving locks a message in.\<close>
theorem channel_concurrent:
  assumes "fresh_calls k1 ka kb sa sb a b" and "existing_calls k2 kb ka sb sa b a" and "a \<noteq> b"
    and "segment_fits (mem a) sa" "segment_fits (mem b) sb"
  shows "\<exists>mem1 c1 c2. chan_Create k1 mem MessageChannel ka kb sa sb = (True, mem1, c1) \<and>
    chan_Create k2 mem1 MessageChannel kb ka sb sa = (True, mem1, c2) \<and> crossed c1 c2 a b \<and>
    (\<forall>x. duplex_steps (duplex_init mem1 a b) x \<longrightarrow> in_order (q_ab x) \<and> in_order (q_ba x) \<and>
       (\<exists>y. duplex_steps x y \<and> delivered (q_ab y) = sent (q_ab y) \<and> delivered (q_ba y) = sent (q_ba y)))"
proof -
  let ?c1 = "\<lparr>recv_queue = Some b, send_queue = Some a, send_shm = Some a, recv_shm = Some b\<rparr>"
  let ?c2 = "\<lparr>recv_queue = Some a, send_queue = Some b, send_shm = Some b, recv_shm = Some a\<rparr>"
  obtain mem1 where 1: "chan_Create k1 mem MessageChannel ka kb sa sb = (True, mem1, ?c1)"
    "queue_holds (mem1 a) []" "queue_holds (mem1 b) []"
    by (rule create_fresh [OF assms(1, 3, 4, 5)])
  have 2: "chan_Create k2 mem1 MessageChannel kb ka sb sa = (True, mem1, ?c2)"
    using create_existing [OF assms(2)] assms(4, 5) by (simp add: segment_fits_def)
  have "duplex_ok x" if "duplex_steps (duplex_init mem1 a b) x" for x
    using duplex_steps_ok [OF that duplex_init_ok [OF 1(2, 3)]] .
  then have "in_order (q_ab x) \<and> in_order (q_ba x) \<and>
      (\<exists>y. duplex_steps x y \<and> delivered (q_ab y) = sent (q_ab y) \<and> delivered (q_ba y) = sent (q_ba y))"
    if "duplex_steps (duplex_init mem1 a b) x" for x
    using that duplex_drains spsc_inv_in_order by (simp add: duplex_ok_def)
  moreover have "crossed ?c1 ?c2 a b" using assms(3) by (simp add: crossed_def)
  ultimately show ?thesis using 1(1) 2 by blast
qed

lemma channel_concurrent_witness:
  "\<exists>mem1 c2 x. chan_Create (demo_calls False) mem1 MessageChannel 7 5 60 60 = (True, mem1, c2) \<and>
     duplex_steps (duplex_init mem1 5 7) x \<and> prod (q_ab x) = PLoaded [9] (head_idx (mem1 5)) (tail_idx (mem1 5)) \<and> in_order (q_ba x)"
proof -
  let ?mem = "\<lambda>_ :: nat. \<lparr>head_idx = 5, tail_idx = 6, sh_size = 7, queue_buff = replicate 48 (0 :: byte)\<rparr>"
  have 1: "fresh_calls (demo_calls True) 5 7 60 60 5 7" "existing_calls (demo_calls False) 7 5 60 60 7 5"
    by (simp_all add: fresh_calls_def existing_calls_def demo_calls_def)
  have 2: "segment_fits (?mem 5) 60" "segment_fits (?mem 7) 60" by (simp_all add: segment_fits_def)
  obtain mem1 c2 where r: "chan_Create (demo_calls False) mem1 MessageChannel 7 5 60 60 = (True, mem1, c2)"
    "\<forall>x. duplex_steps (duplex_init mem1 5 7) x \<longrightarrow> in_order (q_ab x) \<and> in_order (q_ba x)"
    using channel_concurrent [OF 1 _ 2] by auto
  let ?y = "(spsc_init (mem1 5))\<lparr>prod := PLoaded [9] (head_idx (mem1 5)) (tail_idx (mem1 5))\<rparr>"
  have "spsc_step (spsc_init (mem1 5)) ?y" using p_load [of "spsc_init (mem1 5)" "[9]"] by (simp add: spsc_init_def)
  then have s: "duplex_steps (duplex_init mem1 5 7) ((duplex_init mem1 5 7)\<lparr>q_ab := ?y\<rparr>)"
    using on_ab [of "duplex_init mem1 5 7" ?y] by (simp add: duplex_steps_def duplex_init_def r_into_rtranclp)
  then show ?thesis using r by (intro exI [of _ mem1] exI [of _ c2] exI [of _ "(duplex_init mem1 5 7)\<lparr>q_ab := ?y\<rparr>"]) auto
qed

end
