(* ===== verification/ListIter.thy ===== *)
theory ListIter
  imports ArrayList
begin

text \<open>
  The element access of \<open>array_list\<close> and \<open>stack_array_list\<close> (\<open>common/jybase/array_list.h\<close>): the iterator's operators,
  \<open>front\<close>, \<open>back\<close>, and the stack's \<open>back\<close>, \<open>rebind_array_addr\<close>, \<open>get_base\<close>, \<open>get_top\<close>; and the whole list as a
  sequence of its operations.

  \<^item> An iterator is the address \<open>m_node\<close>. \<open>d\<close> is the memory of \<open>m_data\<close>; at an address where no \<open>array_list_node\<close>
    lies, as at the list's own \<open>m_base\<close>, it is \<open>None\<close>, and a read there is a fault.
  \<^item> \<open>list_run\<close> is a sequence of calls on one list, \<open>seq_run\<close> what it does to the sequence of its nodes.
\<close>

subsection \<open>Iterators\<close>

text \<open>An iterator is copied by its address; the one built without arguments is null.\<close>

definition it_node :: "int \<Rightarrow> int" where "it_node x = x"
definition it_null :: int where "it_null = 0"

definition it_eq :: "int \<Rightarrow> int \<Rightarrow> bool" where "it_eq x y \<longleftrightarrow> x = y"
definition it_neq :: "int \<Rightarrow> int \<Rightarrow> bool" where "it_neq x y \<longleftrightarrow> x \<noteq> y"

definition it_deref :: "(int \<Rightarrow> 'a option) \<Rightarrow> int \<Rightarrow> 'a option" where "it_deref d it = d it"

text \<open>The result of the operator, and the iterator after it.\<close>

definition it_pre_inc :: "lmem \<Rightarrow> int \<Rightarrow> int \<times> int" where "it_pre_inc l it = (incr l it, incr l it)"
definition it_post_inc :: "lmem \<Rightarrow> int \<Rightarrow> int \<times> int" where "it_post_inc l it = (let tmp = it in (tmp, incr l it))"
definition it_pre_dec :: "lmem \<Rightarrow> int \<Rightarrow> int \<times> int" where "it_pre_dec l it = (decr l it, decr l it)"
definition it_post_dec :: "lmem \<Rightarrow> int \<Rightarrow> int \<times> int" where "it_post_dec l it = (let tmp = it in (tmp, decr l it))"

definition al_front :: "lmem \<Rightarrow> (int \<Rightarrow> 'a option) \<Rightarrow> int \<Rightarrow> 'a option" where
  "al_front l d b = it_deref d (al_begin l b)"

definition al_back :: "lmem \<Rightarrow> (int \<Rightarrow> 'a option) \<Rightarrow> int \<Rightarrow> 'a option" where
  "al_back l d b = it_deref d (offset_node b (m_prev (l b)))"

subsection \<open>The stack's base\<close>

text \<open>\<open>s_base\<close> gives the address of the array's node at an index.\<close>

record stack_list =
  s_base :: "nat \<Rightarrow> int"
  s_top :: int

definition rebind_array_addr :: "stack_list \<Rightarrow> (nat \<Rightarrow> int) \<Rightarrow> stack_list" where
  "rebind_array_addr s array = s\<lparr>s_base := array\<rparr>"

definition get_base :: "stack_list \<Rightarrow> nat \<Rightarrow> int" where "get_base s = s_base s"
definition get_top :: "stack_list \<Rightarrow> int" where "get_top s = s_top s"

text \<open>On an empty stack \<open>m_top\<close> is -1, a node before the array.\<close>

definition stack_back :: "stack_list \<Rightarrow> int option" where
  "stack_back s = (if s_top s < 0 then None else Some (s_base s (nat (s_top s))))"

text \<open>The stack in a segment that is mapped elsewhere: after the rebinding it is the same stack.\<close>

lemma free_stack_rebind:
  assumes "free_stack (s_base s) l (s_top s) is" and "\<And>i. i \<in> set is \<Longrightarrow> l' (array i) = l (s_base s i)"
  shows "free_stack (get_base (rebind_array_addr s array)) l' (get_top (rebind_array_addr s array)) is"
proof -
  have "free_stack (s_base s) l tp is \<Longrightarrow> free_stack array l' tp is" for tp
    using assms(2) by (induction "is" arbitrary: tp) auto
  then show ?thesis using assms(1) by (simp add: get_base_def get_top_def rebind_array_addr_def)
qed

lemma stack_back_top:
  "free_stack (s_base s) l (s_top s) is \<Longrightarrow> stack_back s = (case is of [] \<Rightarrow> None | i # _ \<Rightarrow> Some (s_base s i))"
  by (cases "is") (simp_all add: stack_back_def C_TAIL_OF_STACK_def)

subsection \<open>Walking\<close>

lemma walk_forward:
  assumes "dlist l b xs" and "k \<le> length xs"
  shows "(incr l ^^ k) (al_begin l b) = (xs @ [b]) ! k"
  using assms(2)
proof (induction k)
  case 0
  then show ?case using dlist_begin [OF assms(1)] by (simp add: hd_conv_nth)
next
  case (Suc k)
  then have "k < length xs" by simp
  then have xs: "xs = take k xs @ xs ! k # drop (Suc k) xs" by (rule id_take_nth_drop)
  have "incr l (xs ! k) = hd (drop (Suc k) xs @ [b])" using assms(1) dlist_incr [of l b "take k xs"] xs by metis
  also have "\<dots> = (xs @ [b]) ! Suc k"
    using Suc.prems by (cases "Suc k = length xs") (simp_all add: hd_append hd_drop_conv_nth nth_append)
  finally show ?case using Suc.IH \<open>k < length xs\<close> by (simp add: nth_append)
qed

lemma walk_backward:
  assumes "dlist l b xs" and "k \<le> length xs"
  shows "(decr l ^^ k) (al_rbegin l b) = (b # xs) ! (length xs - k)"
  using assms(2)
proof (induction k)
  case 0
  then show ?case using dlist_rbegin [OF assms(1)] by (simp add: last_conv_nth)
next
  case (Suc k)
  let ?j = "length xs - Suc k"
  have j: "?j < length xs" using Suc.prems by simp
  have e: "length xs - k = Suc ?j" using Suc.prems by simp
  have xs: "xs = take ?j xs @ xs ! ?j # drop (Suc ?j) xs" using j by (rule id_take_nth_drop)
  have "decr l (xs ! ?j) = last (b # take ?j xs)" using assms(1) dlist_decr [of l b "take ?j xs"] xs by metis
  also have "\<dots> = take (Suc ?j) (b # xs) ! ?j" using j last_conv_nth [of "take (Suc ?j) (b # xs)"] by (simp add: min_def)
  also have "\<dots> = (b # xs) ! ?j" by (simp only: nth_take lessI)
  finally show ?case using Suc.IH Suc.prems unfolding e by simp
qed


subsection \<open>A list over all its operations\<close>

datatype list_call = PushBack int | EraseAt int | PopBack

definition list_call :: "int \<Rightarrow> lmem \<Rightarrow> list_call \<Rightarrow> lmem option" where
  "list_call b l c =
     (case c of
        PushBack n \<Rightarrow> Some (al_push_back l b n)
      | EraseAt a \<Rightarrow> map_option snd (al_erase l a)
      | PopBack \<Rightarrow> al_pop_back l b)"

fun list_run :: "int \<Rightarrow> lmem \<Rightarrow> list_call list \<Rightarrow> lmem option" where
  "list_run b l [] = Some l"
| "list_run b l (c # cs) = do { l' \<leftarrow> list_call b l c; list_run b l' cs }"

fun seq_call :: "int list \<Rightarrow> list_call \<Rightarrow> int list" where
  "seq_call xs (PushBack n) = xs @ [n]"
| "seq_call xs (EraseAt a) = remove1 a xs"
| "seq_call xs PopBack = butlast xs"

text \<open>What the code asks of its callers: a new node comes from the array and is in no list, an erased one is in the list,
  and the list is not empty when its last node is removed.\<close>

fun call_fits :: "int \<Rightarrow> int list \<Rightarrow> list_call \<Rightarrow> bool" where
  "call_fits b xs (PushBack n) \<longleftrightarrow> even n \<and> n \<notin> insert b (set xs)"
| "call_fits b xs (EraseAt a) \<longleftrightarrow> a \<in> set xs"
| "call_fits b xs PopBack \<longleftrightarrow> xs \<noteq> []"

fun seq_run :: "int list \<Rightarrow> list_call list \<Rightarrow> int list" where
  "seq_run xs [] = xs"
| "seq_run xs (c # cs) = seq_run (seq_call xs c) cs"

fun run_fits :: "int \<Rightarrow> int list \<Rightarrow> list_call list \<Rightarrow> bool" where
  "run_fits b xs [] \<longleftrightarrow> True"
| "run_fits b xs (c # cs) \<longleftrightarrow> call_fits b xs c \<and> run_fits b (seq_call xs c) cs"

lemma list_call_refines:
  assumes d: "dlist l b xs" and ev: "even_nodes (b # xs)" and f: "call_fits b xs c"
  shows "\<exists>l'. list_call b l c = Some l' \<and> dlist l' b (seq_call xs c) \<and> even_nodes (b # seq_call xs c) \<and>
    (\<forall>a. a \<notin> set (b # xs) \<longrightarrow> c \<noteq> PushBack a \<longrightarrow> l' a = l a)"
proof (cases c)
  case (PushBack n)
  then show ?thesis using dlist_push_back [OF d] f ev by (auto simp: list_call_def even_nodes_def)
next
  case (EraseAt a)
  then obtain us vs where xs: "xs = us @ a # vs" "a \<notin> set us" using f split_list_first by fastforce
  then show ?thesis using dlist_erase [of l b us a vs] d ev EraseAt
    by (auto simp: list_call_def even_nodes_def remove1_append)
next
  case PopBack
  then obtain us a where xs: "xs = us @ [a]" using f by (cases xs rule: rev_cases) auto
  have "offset_node b (m_prev (l b)) = a" using dlist_rbegin [OF d] xs by (simp add: al_rbegin_def)
  then show ?thesis using dlist_erase [of l b us a "[]"] d ev xs PopBack
    by (auto simp: list_call_def even_nodes_def al_pop_back_def)
qed

lemma list_run_refines:
  assumes "dlist l b xs" and "even_nodes (b # xs)" and "run_fits b xs cs"
  shows "\<exists>l'. list_run b l cs = Some l' \<and> dlist l' b (seq_run xs cs)"
  using assms
proof (induction cs arbitrary: l xs)
  case (Cons c cs)
  then have "call_fits b xs c" "run_fits b (seq_call xs c) cs" by simp_all
  with list_call_refines [OF Cons.prems(1, 2)] Cons.IH show ?case by fastforce
qed simp

text \<open>C32. \<open>array_list\<close> is a list. After \<open>init\<close> and any calls of \<open>push_back\<close>, \<open>erase\<close> and \<open>pop_back\<close> that fit, no assert fails
  and the links spell the list that the same calls make of the empty one: \<open>++\<close> from \<open>begin()\<close> visits its nodes in order
  and \<open>--\<close> from \<open>rbegin()\<close> in reverse, each once, and comes to \<open>end()\<close> after the last; \<open>empty\<close>, \<open>front\<close> and \<open>back\<close> agree,
  and the two read outside every node exactly when the list is empty.\<close>
theorem array_list_refines:
  assumes "even b" and "run_fits b [] cs" and "\<forall>a. d a = None \<longleftrightarrow> a = b"
  shows "\<exists>l'. list_run b (al_init l b) cs = Some l' \<and>
    (let xs = seq_run [] cs
     in (\<forall>k \<le> length xs. (incr l' ^^ k) (al_begin l' b) = (xs @ [al_end b]) ! k \<and>
          (decr l' ^^ k) (al_rbegin l' b) = (rev xs @ [al_end b]) ! k) \<and>
        distinct (al_end b # xs) \<and> al_empty l' b = (xs = []) \<and>
        al_front l' d b = (if xs = [] then None else d (hd xs)) \<and> al_back l' d b = (if xs = [] then None else d (last xs)))"
proof -
  let ?xs = "seq_run [] cs"
  have "even_nodes [b]" using assms(1) by (simp add: even_nodes_def)
  then obtain l' where l': "list_run b (al_init l b) cs = Some l'" "dlist l' b ?xs"
    using list_run_refines [OF dlist_init _ assms(2), of l] by auto
  have "(incr l' ^^ k) (al_begin l' b) = (?xs @ [al_end b]) ! k" if "k \<le> length ?xs" for k
    using walk_forward [OF l'(2) that] by (simp add: al_end_def)
  moreover have "(decr l' ^^ k) (al_rbegin l' b) = (rev ?xs @ [al_end b]) ! k" if "k \<le> length ?xs" for k
  proof -
    have "(rev ?xs @ [b]) ! k = rev (b # ?xs) ! k" by simp
    also have "\<dots> = (b # ?xs) ! (length ?xs - k)" using that by (simp only: rev_nth length_Cons) simp
    finally show ?thesis using walk_backward [OF l'(2) that] by (simp add: al_end_def)
  qed
  moreover have "distinct (al_end b # ?xs)" using l'(2) by (simp add: dlist_def al_end_def)
  moreover have "al_empty l' b = (?xs = [])" by (rule dlist_empty [OF l'(2)])
  moreover have "al_front l' d b = (if ?xs = [] then None else d (hd ?xs))"
    using dlist_begin [OF l'(2)] assms(3) by (simp add: al_front_def it_deref_def hd_append)
  moreover have "al_back l' d b = (if ?xs = [] then None else d (last ?xs))"
    using dlist_rbegin [OF l'(2)] assms(3) by (simp add: al_back_def al_rbegin_def it_deref_def)
  ultimately show ?thesis using l'(1) by (simp add: Let_def)
qed

lemma array_list_refines_witness:
  "\<exists>l'. list_run 8 (al_init (\<lambda>_. \<lparr>m_next = 3, m_prev = 4\<rparr>) 8) [PushBack 100, PushBack 40, PushBack 16, EraseAt 40, PushBack 40, PopBack] =
     Some l' \<and> incr l' (al_begin l' 8) = 16 \<and> al_back l' (\<lambda>a. if a = 8 then None else Some a) 8 = Some 16"
proof -
  let ?cs = "[PushBack 100, PushBack 40, PushBack 16, EraseAt 40, PushBack 40, PopBack]"
  let ?d = "\<lambda>a :: int. if a = 8 then None else Some a"
  have h: "even (8 :: int)" "run_fits 8 [] ?cs" "\<forall>a. ?d a = None \<longleftrightarrow> a = 8" and xs: "seq_run [] ?cs = [100, 16]" by simp_all
  obtain l' where l: "list_run 8 (al_init (\<lambda>_. \<lparr>m_next = 3, m_prev = 4\<rparr>) 8) ?cs = Some l'"
    "\<forall>k \<le> length [100, 16 :: int]. (incr l' ^^ k) (al_begin l' 8) = ([100, 16] @ [al_end 8]) ! k" "al_back l' ?d 8 = ?d 16"
    using array_list_refines [OF h, of "\<lambda>_. \<lparr>m_next = 3, m_prev = 4\<rparr>"] unfolding xs Let_def by auto
  have "(incr l' ^^ 1) (al_begin l' 8) = 16" using l(2) [rule_format, of 1] by simp
  then show ?thesis using l by simp
qed

end
