(* ===== verification/NumText.thy ===== *)
theory NumText
  imports CString
begin

text \<open>
  Numbers as texts: \<open>_i64toa\<close>, \<open>_ui64toa\<close>, \<open>_atoi64\<close>, \<open>_atoui64\<close> of \<open>common/platform/os_comm.h\<close>, \<open>str2llu\<close> of
  \<open>common/platform/common.h\<close> and \<open>SleepUS\<close> of \<open>common/platform/os_comm.cc\<close>. \<open>long\<close> and \<open>long long\<close> have 64 bits
  both, so \<open>strtoll\<close> and \<open>strtoull\<close> are \<open>strtol\<close> and \<open>strtoul\<close>.
\<close>

subsection \<open>The functions\<close>

text \<open>\<open>sprintf\<close> into a buffer; \<open>None\<close> is a write past its end. The base is not used.\<close>

definition i64toa :: "int \<Rightarrow> string \<Rightarrow> int \<Rightarrow> string option" where
  "i64toa num buffer base = strcpy buffer (fmt_d 0 num)"

definition ui64toa :: "int \<Rightarrow> string \<Rightarrow> int \<Rightarrow> string option" where
  "ui64toa num buffer base = strcpy buffer (fmt_d 0 num)"

definition atoi64 :: "string \<Rightarrow> int" where "atoi64 x = strtol x 10"
definition atoui64 :: "string \<Rightarrow> int" where "atoui64 x = strtoul x 10"

text \<open>\<open>value\<close> is what the uninitialised variable holds; it stays when \<open>sscanf\<close> finds no digit.\<close>

definition str2llu :: "int \<Rightarrow> string \<Rightarrow> int" where
  "str2llu value s = (let t = snd (strto_sign s) in if t \<noteq> [] \<and> digit_val (hd t) < 10 then strtoul s 10 else value)"

text \<open>The argument that reaches \<open>usleep\<close>, a \<open>useconds_t\<close>.\<close>

definition SleepUS :: "int \<Rightarrow> int" where "SleepUS us = u32 us"

subsection \<open>Reading back what was written\<close>

definition digits :: "string \<Rightarrow> bool" where
  "digits s \<longleftrightarrow> (\<forall>c \<in> set s. 48 \<le> (of_char c :: nat) \<and> (of_char c :: nat) \<le> 57)"

lemma digits_dec: "digits (dec n) \<and> dec n \<noteq> []"
proof (induction n rule: dec.induct)
  case (1 n)
  have one: "digits [char_of (48 + m)]" if "m < 10" for m :: nat using that by (simp add: digits_def of_char_digit)
  have more: "digits (xs @ ys)" if "digits xs" "digits ys" for xs ys using that by (auto simp: digits_def)
  show ?case
  proof (cases "n < 10")
    case True
    then show ?thesis using one by (simp add: dec.simps [of n])
  next
    case False
    then show ?thesis using 1 more one [of "n mod 10"] by (simp add: dec.simps [of n])
  qed
qed

lemma digits_val_undec: "digits s \<Longrightarrow> digits_val 10 s (int k) = int (foldl (\<lambda>n c. 10 * n + (of_char c - 48)) k s)"
proof (induction s arbitrary: k)
  case (Cons c s)
  have c: "48 \<le> (of_char c :: nat)" "(of_char c :: nat) \<le> 57" and s: "digits s" using Cons.prems by (simp_all add: digits_def)
  have "int k * 10 + digit_val c = int (10 * k + (of_char c - 48))" "digit_val c < 10"
    using c by (simp_all add: digit_val_def Let_def of_nat_diff flip: of_char_of [where ?'a = nat])
  then show ?case using Cons.IH [OF s, of "10 * k + (of_char c - 48)"] by (simp only: digits_val.simps foldl_Cons if_True)
qed simp


lemma strto_mag_dec: "strto_mag 10 (dec n) = int n"
  using digits_val_undec [of "dec n" 0] digits_dec undec_dec [of n] by (simp add: strto_mag_def undec_def)

lemma digit_not_special:
  assumes "digits s" "s \<noteq> []"
  shows "\<not> isspace (hd s)" "hd s \<noteq> CHR ''-''" "hd s \<noteq> CHR ''+''" "digit_val (hd s) < 10" "NUL \<notin> set s"
proof -
  have "hd s \<in> set s" using assms(2) by simp
  then have h: "48 \<le> (of_char (hd s) :: nat)" "(of_char (hd s) :: nat) \<le> 57" using assms(1) by (auto simp: digits_def)
  show "\<not> isspace (hd s)" "hd s \<noteq> CHR ''-''" "hd s \<noteq> CHR ''+''" using h by (auto simp: isspace_def)
  show "digit_val (hd s) < 10" using h by (simp add: digit_val_def Let_def flip: of_char_of [where ?'a = nat])
  show "NUL \<notin> set s" using assms(1) by (auto simp: digits_def)
qed

lemma strto_sign_fmt:
  shows "strto_sign (fmt_d 0 i) = (i < 0, dec (nat \<bar>i\<bar>))" and "NUL \<notin> set (fmt_d 0 i)"
proof -
  note d = digit_not_special [OF digits_dec [THEN conjunct1] digits_dec [THEN conjunct2], of "nat \<bar>i\<bar>"]
  obtain c cs where c: "dec (nat \<bar>i\<bar>) = c # cs" using digits_dec by (cases "dec (nat \<bar>i\<bar>)") auto
  show "strto_sign (fmt_d 0 i) = (i < 0, dec (nat \<bar>i\<bar>))"
    using d c by (auto simp: strto_sign_def fmt_d_def Let_def isspace_def)
  show "NUL \<notin> set (fmt_d 0 i)" using d(5) by (simp add: fmt_d_def Let_def)
qed

lemma strtol_fmt: "- (2 ^ 63) \<le> i \<Longrightarrow> i < 2 ^ 63 \<Longrightarrow> strtol (fmt_d 0 i) 10 = i"
  by (simp add: strtol_def strto_sign_fmt strto_mag_dec Let_def)

lemma strtoul_fmt: "0 \<le> i \<Longrightarrow> i < 2 ^ 64 \<Longrightarrow> strtoul (fmt_d 0 i) 10 = i"
  by (simp add: strtoul_def strto_sign_fmt strto_mag_dec Let_def)

lemma fmt_d_fits:
  assumes "\<bar>i\<bar> < 10 ^ 20" "i < 0 \<longrightarrow> \<bar>i\<bar> < 10 ^ 19" shows "length (fmt_d 0 i) \<le> 20"
proof (cases "i < 0")
  case True
  then show ?thesis using length_fmt_d [of i 18 0] assms by simp
next
  case False
  then have "length (dec (nat \<bar>i\<bar>)) \<le> Suc 19" using assms(1) by (intro length_dec) (simp add: nat_less_iff)
  then show ?thesis using False by (simp add: fmt_d_def)
qed

text \<open>Numbers survive as texts. For every 64-bit number, signed or not, and a buffer of 21 characters or more, the
  text is written in bounds and is read back to the same number, by \<open>_atoi64\<close> or by \<open>_atoui64\<close> and \<open>str2llu\<close>; the
  \<open>base\<close> argument changes nothing. In a buffer of 20 characters the smallest signed and the largest unsigned number
  are written past the end. \<open>str2llu\<close> of a text without a number is whatever its variable held.\<close>
theorem number_text_roundtrip:
  assumes "- (2 ^ 63) \<le> i" "i < 2 ^ 63" and "0 \<le> u" "u < 2 ^ 64" and "21 \<le> length buf" "length small = 20"
  shows "(\<exists>b s. i64toa i buf base = Some b \<and> cstr b = Some s \<and> length b = length buf \<and> atoi64 s = i) \<and>
    (\<exists>b s. ui64toa u buf base = Some b \<and> cstr b = Some s \<and> length b = length buf \<and> atoui64 s = u \<and> str2llu v s = u) \<and>
    i64toa (- (2 ^ 63)) small base = None \<and> ui64toa (2 ^ 64 - 1) small base = None \<and>
    (str2llu v [] = v \<and> str2llu v ''- 5'' = v)"
proof -
  have text_fits: "\<exists>b. strcpy buf (fmt_d 0 k) = Some b \<and> cstr b = Some (fmt_d 0 k) \<and> length b = length buf"
    if "length (fmt_d 0 k) \<le> 20" for k
    using strcpy_holds [OF strto_sign_fmt(2), of buf k] that assms(5) by (simp add: strcpy_def)
  have i: "length (fmt_d 0 i) \<le> 20" and u: "length (fmt_d 0 u) \<le> 20"
    using assms by (intro fmt_d_fits; simp)+
  have v: "str2llu v (fmt_d 0 u) = u"
    using digit_not_special(4) [OF digits_dec [THEN conjunct1] digits_dec [THEN conjunct2], of "nat u"] digits_dec [of "nat u"] assms(3)
      strtoul_fmt [OF assms(3, 4)] by (simp add: str2llu_def strto_sign_fmt)
  have s: "length (fmt_d 0 (- (2 ^ 63))) = 20" "length (fmt_d 0 (2 ^ 64 - 1)) = 20"
    by (simp_all add: fmt_d_def dec.simps)
  show ?thesis
  proof (intro conjI)
    show "\<exists>b s. i64toa i buf base = Some b \<and> cstr b = Some s \<and> length b = length buf \<and> atoi64 s = i"
      using text_fits [OF i] strtol_fmt [OF assms(1, 2)] unfolding i64toa_def atoi64_def by blast
    show "\<exists>b s. ui64toa u buf base = Some b \<and> cstr b = Some s \<and> length b = length buf \<and> atoui64 s = u \<and> str2llu v s = u"
      using text_fits [OF u] strtoul_fmt [OF assms(3, 4)] v unfolding ui64toa_def atoui64_def by blast
    show "i64toa (- (2 ^ 63)) small base = None" "ui64toa (2 ^ 64 - 1) small base = None"
      unfolding i64toa_def ui64toa_def strcpy_def using s assms(6) by simp_all
    show "str2llu v [] = v" "str2llu v ''- 5'' = v" by (simp_all add: str2llu_def strto_sign_def isspace_def digit_val_def)
  qed
qed

lemma number_text_roundtrip_witness:
  "\<exists>b s. i64toa (- 42) (replicate 21 NUL) 16 = Some b \<and> cstr b = Some s \<and> atoi64 s = - 42"
  using number_text_roundtrip [of "- 42" 7 "replicate 21 NUL" "replicate 20 NUL" 16 0] by auto

end
