(* ===== verification/NetAddr.thy ===== *)
theory NetAddr
  imports Tcp NumText
begin

text \<open>
  Network addresses as texts: \<open>Socket::IPString\<close>, \<open>Socket::INetAddressIP\<close> (\<open>common/network/socket.cc\<close>) and
  \<open>TcpSocket::RemoteIPString\<close> (\<open>common/network/tcp_socket.cc\<close>), with the functions of the C library they call.

  \<^item> An \<open>ipaddr_t\<close> is 64 bits wide; the library's addresses are the lower 32, in network byte order, on a
    little-endian machine.
  \<^item> \<open>inet_addr\<close> reads one to four numbers, decimal, octal after \<open>0\<close> or hexadecimal after \<open>0x\<close>; the last one
    fills the bytes that remain. A text that is no address gives \<open>INADDR_NONE\<close>.
\<close>

subsection \<open>The library's functions\<close>

definition INADDR_NONE :: int where "INADDR_NONE = 0xFFFFFFFF"

definition addr_byte :: "int \<Rightarrow> nat \<Rightarrow> int" where
  "addr_byte ip k = ip div 256 ^ k mod 256"

definition inet_ntoa :: "int \<Rightarrow> string" where
  "inet_ntoa ip = fmt_d 0 (addr_byte ip 0) @ ''.'' @ fmt_d 0 (addr_byte ip 1) @ ''.'' @
     fmt_d 0 (addr_byte ip 2) @ ''.'' @ fmt_d 0 (addr_byte ip 3)"

definition htonl :: "int \<Rightarrow> int" where
  "htonl x = addr_byte x 0 * 256 ^ 3 + addr_byte x 1 * 256 ^ 2 + addr_byte x 2 * 256 + addr_byte x 3"

fun dot_parts :: "string \<Rightarrow> string \<Rightarrow> string list" where
  "dot_parts cur [] = [cur]"
| "dot_parts cur (c # cs) = (if c = CHR ''.'' then cur # dot_parts [] cs else dot_parts (cur @ [c]) cs)"

definition all_digits :: "int \<Rightarrow> string \<Rightarrow> bool" where
  "all_digits base s \<longleftrightarrow> (\<forall>c \<in> set s. digit_val c < base)"

definition c_number :: "string \<Rightarrow> int option" where
  "c_number s =
     (if s = [] then None
      else if has_0x s then (if drop 2 s \<noteq> [] \<and> all_digits 16 (drop 2 s) then Some (digits_val 16 (drop 2 s) 0) else None)
      else if hd s = CHR ''0'' then (if all_digits 8 s then Some (digits_val 8 s 0) else None)
      else if all_digits 10 s then Some (digits_val 10 s 0) else None)"

fun inet_parts :: "int option list \<Rightarrow> int option" where
  "inet_parts [Some a] = (if a < 256 ^ 4 then Some a else None)"
| "inet_parts [Some a, Some b] = (if a < 256 \<and> b < 256 ^ 3 then Some (a * 256 ^ 3 + b) else None)"
| "inet_parts [Some a, Some b, Some c] =
     (if a < 256 \<and> b < 256 \<and> c < 256 ^ 2 then Some (a * 256 ^ 3 + b * 256 ^ 2 + c) else None)"
| "inet_parts [Some a, Some b, Some c, Some d] =
     (if a < 256 \<and> b < 256 \<and> c < 256 \<and> d < 256 then Some (a * 256 ^ 3 + b * 256 ^ 2 + c * 256 + d) else None)"
| "inet_parts ps = None"

definition inet_addr :: "string \<Rightarrow> int" where
  "inet_addr s = (case inet_parts (map c_number (dot_parts [] s)) of None \<Rightarrow> INADDR_NONE | Some v \<Rightarrow> htonl v)"

subsection \<open>\<open>Socket\<close> and \<open>TcpSocket\<close>\<close>

definition IPString :: "int \<Rightarrow> string" where
  "IPString ip = inet_ntoa (u32 ip)"

text \<open>\<open>ntohs\<close> is \<open>htons\<close>; the text goes into an array of 256 characters, and past its end is \<open>None\<close>.\<close>

definition IPString_port :: "int \<Rightarrow> int \<Rightarrow> string option" where
  "IPString_port ip port = do {
     b \<leftarrow> strcpy (replicate 256 NUL) (inet_ntoa (u32 ip) @ '':'' @ fmt_d 0 (htons port));
     cstr b }"

definition INetAddressIP :: "string \<Rightarrow> int" where
  "INetAddressIP ip = inet_addr ip"

definition RemoteIPString :: "tcp_socket \<Rightarrow> string option" where
  "RemoteIPString s = IPString_port (remote_ip s) (remote_port s)"

subsection \<open>Reading an address back\<close>

lemma dec_digits: "c \<in> set (dec n) \<Longrightarrow> c \<noteq> CHR ''.'' \<and> digit_val c < 10 \<and> c \<noteq> CHR ''x'' \<and> c \<noteq> CHR ''X''"
proof -
  assume "c \<in> set (dec n)"
  then have h: "48 \<le> (of_char c :: nat)" "(of_char c :: nat) \<le> 57" using digits_dec [of n] by (auto simp: digits_def)
  then have "digit_val c < 10" by (simp add: digit_val_def Let_def flip: of_char_of [where ?'a = nat])
  then show ?thesis using h by auto
qed

lemma dec_leading_zero: "hd (dec n) = CHR ''0'' \<Longrightarrow> n = 0"
proof (induction n rule: dec.induct)
  case (1 n)
  show ?case
  proof (cases "n < 10")
    case True
    then have "char_of (48 + n) = CHR ''0''" using 1(2) by (simp add: dec.simps [of n])
    then have "of_char (char_of (48 + n :: nat)) = (48 :: nat)" by simp
    then show ?thesis using of_char_digit [OF True] by simp
  next
    case False
    moreover have "dec (n div 10) \<noteq> []" using digits_dec by blast
    ultimately have "hd (dec (n div 10)) = CHR ''0''" using 1(2) by (simp add: dec.simps [of n])
    then show ?thesis using 1(1) False by simp
  qed
qed

lemma c_number_dec: "c_number (dec n) = Some (int n)"
proof -
  have e: "dec n \<noteq> []" using digits_dec by blast
  have x: "\<not> has_0x (dec n)"
  proof
    assume "has_0x (dec n)"
    then consider "take 2 (dec n) = ''0x''" | "take 2 (dec n) = ''0X''" unfolding has_0x_def by blast
    then have "last (take 2 (dec n)) = CHR ''x'' \<or> last (take 2 (dec n)) = CHR ''X''" by cases simp_all
    moreover have "last (take 2 (dec n)) \<in> set (dec n)" by (rule in_set_takeD [OF last_in_set]) (use e in simp)
    ultimately show False using dec_digits [of "last (take 2 (dec n))" n] by blast
  qed
  have v: "digits_val 10 (dec n) 0 = int n" using strto_mag_dec [of n] by (simp add: strto_mag_def)
  show ?thesis
  proof (cases "hd (dec n) = CHR ''0''")
    case True
    then have "n = 0" by (rule dec_leading_zero)
    moreover have "c_number (dec 0) = Some 0"
      by (simp add: dec.simps [of 0] c_number_def has_0x_def all_digits_def digit_val_def)
    ultimately show ?thesis by simp
  next
    case False
    then show ?thesis using e x v dec_digits by (simp add: c_number_def all_digits_def)
  qed
qed

lemma dot_parts_dec: "(\<forall>c \<in> set s. c \<noteq> CHR ''.'') \<Longrightarrow> dot_parts cur (s @ CHR ''.'' # t) = (cur @ s) # dot_parts [] t"
  by (induction s arbitrary: cur) auto

lemma dot_parts_end: "(\<forall>c \<in> set s. c \<noteq> CHR ''.'') \<Longrightarrow> dot_parts cur s = [cur @ s]"
  by (induction s arbitrary: cur) auto

lemma fmt_d_dec: "0 \<le> i \<Longrightarrow> fmt_d 0 i = dec (nat i)"
  by (simp add: fmt_d_def)

lemma addr_byte_range: "0 \<le> addr_byte ip k \<and> addr_byte ip k < 256"
  by (simp add: addr_byte_def)

lemma addr_byte_of:
  assumes "0 \<le> b" "b < 256" "0 \<le> c" "c < 256" "0 \<le> d" "d < 256" "0 \<le> a" "a < (256 :: int)"
  defines "x \<equiv> a * 256 ^ 3 + b * 256 ^ 2 + c * 256 + d"
  shows "addr_byte x 0 = d" "addr_byte x 1 = c" "addr_byte x 2 = b" "addr_byte x 3 = a"
proof -
  have r: "x = (a * 65536 + b * 256 + c) * 256 + d" "a * 65536 + b * 256 + c = (a * 256 + b) * 256 + c" by (simp_all add: x_def)
  have q: "(y * 256 + z) div 256 = y" "(y * 256 + z) mod 256 = z" if "0 \<le> z" "z < (256 :: int)" for y z using that by simp_all
  have 1: "x div 256 = a * 65536 + b * 256 + c" unfolding r(1) by (rule q(1)) (use assms in simp_all)
  have 2: "x div 256 div 256 = a * 256 + b" unfolding 1 r(2) by (rule q(1)) (use assms in simp_all)
  have 3: "x div 256 div 256 div 256 = a" unfolding 2 by (rule q(1)) (use assms in simp_all)
  have p: "x div 256 ^ 2 = x div 256 div 256" "x div 256 ^ 3 = x div 256 div 256 div 256"
    by (simp_all add: zdiv_zmult2_eq [symmetric])
  show "addr_byte x 0 = d" unfolding addr_byte_def r(1) power_0 div_by_1 by (rule q(2)) (use assms in simp_all)
  show "addr_byte x 1 = c" unfolding addr_byte_def power_one_right 1 r(2) by (rule q(2)) (use assms in simp_all)
  show "addr_byte x 2 = b" unfolding addr_byte_def p(1) 2 by (rule q(2)) (use assms in simp_all)
  show "addr_byte x 3 = a" unfolding addr_byte_def p(2) 3 using assms by simp
qed

lemma bytes_whole:
  assumes "0 \<le> ip" "ip < 2 ^ 32"
  shows "addr_byte ip 3 * 256 ^ 3 + addr_byte ip 2 * 256 ^ 2 + addr_byte ip 1 * 256 + addr_byte ip 0 = ip"
proof -
  have p: "ip div 256 ^ 2 = ip div 256 div 256" "ip div 256 ^ 3 = ip div 256 div 256 div 256"
    by (simp_all add: zdiv_zmult2_eq [symmetric])
  have "ip div 256 div 256 div 256 = addr_byte ip 3"
    unfolding addr_byte_def p(2) using assms by simp
  moreover have "ip = ip div 256 * 256 + addr_byte ip 0" "ip div 256 = ip div 256 div 256 * 256 + addr_byte ip 1"
    "ip div 256 div 256 = ip div 256 div 256 div 256 * 256 + addr_byte ip 2"
    unfolding addr_byte_def p by simp_all
  ultimately show ?thesis by simp
qed

lemma bytes_back:
  assumes "0 \<le> ip" "ip < 2 ^ 32"
  shows "htonl (addr_byte ip 0 * 256 ^ 3 + addr_byte ip 1 * 256 ^ 2 + addr_byte ip 2 * 256 + addr_byte ip 3) = ip"
  unfolding htonl_def using bytes_whole [OF assms] by (simp only: addr_byte_of addr_byte_range)

lemma inet_round:
  assumes "0 \<le> ip" "ip < 2 ^ 32"
  shows "inet_addr (inet_ntoa ip) = ip"
proof -
  have d: "\<forall>c \<in> set (dec n). c \<noteq> CHR ''.''" for n using dec_digits by blast
  have "dot_parts [] (inet_ntoa ip) = map (\<lambda>k. dec (nat (addr_byte ip k))) [0, 1, 2, 3]"
    by (simp add: inet_ntoa_def fmt_d_dec addr_byte_range dot_parts_dec [OF d] dot_parts_end [OF d])
  then have "map c_number (dot_parts [] (inet_ntoa ip)) = map (\<lambda>k. Some (addr_byte ip k)) [0, 1, 2, 3]"
    by (simp add: c_number_dec addr_byte_range)
  then show ?thesis using bytes_back [OF assms] addr_byte_range by (simp add: inet_addr_def del: power_numeral)
qed

subsection \<open>Ports\<close>

lemma htons_htons: "htons (htons p) = p mod 2 ^ 16"
proof -
  let ?y = "p mod 2 ^ 16"
  have y: "0 \<le> ?y" "?y < 65536" by simp_all
  have hi: "0 \<le> ?y div 256" "?y div 256 < 256" using y by (auto simp: div_less_iff_less_mult)
  then have "(?y mod 256 * 256 + ?y div 256) mod 65536 = ?y mod 256 * 256 + ?y div 256" using y by (intro mod_pos_pos_trivial) auto
  moreover have "(?y mod 256 * 256 + ?y div 256) mod 256 = ?y div 256" using hi by simp
  moreover have "(?y mod 256 * 256 + ?y div 256) div 256 = ?y mod 256" using hi by simp
  ultimately show ?thesis by (simp add: htons_def Let_def mult.commute)
qed

lemma htons_range: "0 \<le> htons p \<and> htons p < 2 ^ 16"
proof -
  have "p mod 65536 div 256 < 256" "0 \<le> p mod 65536 div 256" by (auto simp: div_less_iff_less_mult)
  then show ?thesis by (auto simp: htons_def Let_def)
qed

lemma IPString_port_text: "IPString_port ip port = Some (IPString ip @ '':'' @ fmt_d 0 (htons port))"
proof -
  have l: "length (fmt_d 0 i) \<le> 5" if "0 \<le> i" "i < 2 ^ 16" for i :: int
    using that length_dec [of "nat i" 4] by (simp add: fmt_d_dec nat_less_iff)
  have "addr_byte (u32 ip) k < 2 ^ 16" for k using addr_byte_range [of "u32 ip" k] by simp
  then have "length (fmt_d 0 (addr_byte (u32 ip) k)) \<le> 5" for k using l addr_byte_range by blast
  from this [of 0] this [of 1] this [of 2] this [of 3] l [of "htons port"] htons_range [of port]
  have "length (IPString ip @ '':'' @ fmt_d 0 (htons port)) < 256" by (simp add: IPString_def inet_ntoa_def)
  moreover have "NUL \<notin> set (IPString ip @ '':'' @ fmt_d 0 (htons port))"
    using strto_sign_fmt(2) by (simp add: IPString_def inet_ntoa_def)
  moreover have "\<exists>d. strcpy (replicate 256 NUL) t = Some d" if "length t < 256" for t using that by (simp add: strcpy_def)
  ultimately obtain d where "strcpy (replicate 256 NUL) (IPString ip @ '':'' @ fmt_d 0 (htons port)) = Some d"
    "cstr d = Some (IPString ip @ '':'' @ fmt_d 0 (htons port))" using strcpy_holds by blast
  then show ?thesis by (simp add: IPString_port_def IPString_def)
qed

text \<open>C37. An address survives as text. \<open>RemoteIPString\<close> always fits its array and is the dotted address, a colon and the port
  in decimal. Its two parts read back to the address and the port they came from, so that \<open>Connect\<close> with these texts is
  \<open>Connect\<close> to that peer, and \<open>Listen\<close>'s port is the same. A text that is no address gives 255.255.255.255, and \<open>Connect\<close> does
  not notice: it is the call for that address.\<close>
theorem address_roundtrip:
  assumes "remote_ip s = ip" "remote_port s = port" and "0 \<le> ip" "ip < 2 ^ 32" and "0 \<le> port" "port < 2 ^ 16"
    and "inet_parts (map c_number (dot_parts [] bad)) = None"
  shows "\<exists>a p. RemoteIPString s = Some (a @ '':'' @ p) \<and> INetAddressIP a = ip \<and> INetAddressPort p = port \<and>
      tcp_Connect_str inet_addr e t a p = tcp_Connect e t ip port \<and>
      tcp_Connect_str inet_addr e t bad p = tcp_Connect_str inet_addr e t ''255.255.255.255'' p"
proof -
  have h: "htons (htons port) = port" using assms(5, 6) by (simp add: htons_htons)
  have v: "strtol (fmt_d 0 (htons port)) 10 = htons port" using htons_range [of port] by (intro strtol_fmt) auto
  have i: "i32 (htons port) = htons port" using htons_range [of port] by (intro i32_id) auto
  have "inet_ntoa 0xFFFFFFFF = ''255.255.255.255''" by (simp add: inet_ntoa_def addr_byte_def fmt_d_def dec.simps char_of_def bit_0)
  then have broadcast: "inet_addr ''255.255.255.255'' = INADDR_NONE" using inet_round [of "0xFFFFFFFF"] by (simp add: INADDR_NONE_def)
  have bad: "inet_addr bad = INADDR_NONE" using assms(7) by (simp add: inet_addr_def)
  have ip: "inet_addr (IPString ip) = ip" using inet_round [OF assms(3, 4)] assms(3, 4) by (simp add: IPString_def u32_def)
  show ?thesis
    by (rule exI [of _ "IPString ip"], rule exI [of _ "fmt_d 0 (htons port)"])
      (simp add: RemoteIPString_def assms(1, 2) IPString_port_text INetAddressIP_def INetAddressPort_def tcp_Connect_str_def ip v i h bad broadcast)
qed

lemma address_roundtrip_witness:
  "\<exists>a p. RemoteIPString ((TcpSocket 0 0 0 0 (False, 0, 0))\<lparr>remote_ip := 0x0100007F, remote_port := 0x5000\<rparr>) = Some (a @ '':'' @ p) \<and>
     INetAddressIP a = 0x0100007F \<and> INetAddressPort p = 0x5000"
proof -
  let ?e = "\<lparr>env_socket = 3, env_reuse = True, env_keepalive = True, env_nodelay = True, env_linger = True, env_sndbuf = True,
    env_connect = 0, env_inprogress = False, env_listen = 0, env_new_bytes = \<lambda>n. replicate n 0\<rparr>"
  have "inet_parts (map c_number (dot_parts [] ''localhost'')) = None"
    by (simp add: c_number_def has_0x_def all_digits_def digit_val_def)
  then show ?thesis
    using address_roundtrip [of "(TcpSocket 0 0 0 0 (False, 0, 0))\<lparr>remote_ip := 0x0100007F, remote_port := 0x5000\<rparr>" "0x0100007F" "0x5000"
        "''localhost''" ?e "TcpSocket 0 0 0 0 (False, 0, 0)"] by auto
qed

end
