(* ===== verification/SockAccess.thy ===== *)
theory SockAccess
  imports SockProofs
begin

text \<open>
  The accessors of \<open>Socket\<close>, \<open>TcpSocket\<close> (\<open>common/network/socket.h\<close>, \<open>tcp_socket.h\<close>) and \<open>SocketManager\<close> (\<open>socket_manager.h\<close>,
  \<open>.cc\<close>), and what a call of a setter from outside does to the manager's invariant. A time is in milliseconds in
  \<open>cur_time_ms\<close>; \<open>cur_time_\<close> and \<open>cur_timeval_\<close>, which \<open>UpdateTime\<close> writes and no function reads, are arguments.
\<close>

subsection \<open>Reading\<close>

definition GetFD :: "tcp_socket \<Rightarrow> int" where "GetFD s = sock_fd s"
definition GetRemoteIP :: "tcp_socket \<Rightarrow> int" where "GetRemoteIP s = remote_ip s"
definition GetRemotePort :: "tcp_socket \<Rightarrow> int" where "GetRemotePort s = remote_port s"
definition GetState :: "tcp_socket \<Rightarrow> sock_state" where "GetState s = sstate s"
definition GetEventFlag :: "tcp_socket \<Rightarrow> 32 word" where "GetEventFlag s = event_flag s"
definition GetHandler :: "tcp_socket \<Rightarrow> bool" where "GetHandler s = event_handler s"
definition GetLastActiveTime :: "tcp_socket \<Rightarrow> int" where "GetLastActiveTime s = last_active_time s"
definition GetLastRecvTime :: "tcp_socket \<Rightarrow> int" where "GetLastRecvTime s = last_recv_time s"
definition GetActiveTimeOut :: "tcp_socket \<Rightarrow> int" where "GetActiveTimeOut s = active_time_out s"
definition GetRecvTimeOut :: "tcp_socket \<Rightarrow> int" where "GetRecvTimeOut s = recv_time_out s"
definition GetConn :: "tcp_socket \<Rightarrow> int" where "GetConn s = hconn s"

definition GetCurTimeMs :: "sock_mgr \<Rightarrow> int" where "GetCurTimeMs m = cur_time_ms m"

text \<open>The events of a listener, of a connecting socket and of the others; none of the four does anything.\<close>

definition ProcessAccept :: "tcp_socket \<Rightarrow> bool" where "ProcessAccept s = True"
definition ProcessConnect :: "tcp_socket \<Rightarrow> bool" where "ProcessConnect s = True"
definition ProcessTcpRead :: "tcp_socket \<Rightarrow> bool" where "ProcessTcpRead s = True"
definition ProcessTcpWrite :: "tcp_socket \<Rightarrow> bool" where "ProcessTcpWrite s = True"

subsection \<open>Writing\<close>

definition SetEventFlag :: "32 word \<Rightarrow> tcp_socket \<Rightarrow> tcp_socket" where "SetEventFlag e s = s\<lparr>event_flag := e\<rparr>"
definition SetHandle :: "bool \<Rightarrow> tcp_socket \<Rightarrow> tcp_socket" where "SetHandle h s = s\<lparr>event_handler := h\<rparr>"
definition SetActiveTimeOut :: "int \<Rightarrow> tcp_socket \<Rightarrow> tcp_socket" where "SetActiveTimeOut t s = s\<lparr>active_time_out := t\<rparr>"

text \<open>The parameter is a \<open>time_t\<close>, the member an \<open>int\<close>.\<close>

definition SetRecvTimeOut :: "int \<Rightarrow> tcp_socket \<Rightarrow> tcp_socket" where "SetRecvTimeOut t s = s\<lparr>recv_time_out := i32 t\<rparr>"

definition SetState :: "sock_state \<Rightarrow> tcp_socket \<Rightarrow> tcp_socket" where "SetState st s = s\<lparr>sstate := st\<rparr>"
definition SetConn :: "int \<Rightarrow> tcp_socket \<Rightarrow> tcp_socket" where "SetConn h s = s\<lparr>hconn := h\<rparr>"

text \<open>The member at an address is replaced; a dangling pointer is \<open>None\<close>.\<close>

definition on_socket :: "(tcp_socket \<Rightarrow> tcp_socket) \<Rightarrow> nat \<Rightarrow> sock_mgr \<Rightarrow> sock_mgr option" where
  "on_socket f a m = (case socks m a of None \<Rightarrow> None | Some s \<Rightarrow> Some (m\<lparr>socks := (socks m)(a \<mapsto> f s)\<rparr>))"

subsection \<open>The manager's invariant\<close>

lemma on_socket_keeps:
  assumes "mgr_ok m" and "\<And>s. hconn (f s) = hconn s \<and> sstate (f s) = sstate s \<and> sock_fd (f s) = sock_fd s \<and> (sock_ok s \<longrightarrow> sock_ok (f s))"
    and "on_socket f a m = Some m'"
  shows "mgr_ok m'"
proof -
  obtain s where s: "socks m a = Some s" "m' = m\<lparr>socks := (socks m)(a \<mapsto> f s)\<rparr>"
    using assms(3) by (auto simp: on_socket_def split: option.splits)
  note t = tables_okD [OF assms(1) [unfolded mgr_ok_def]]
  have h: "\<exists>u. ((socks m)(a \<mapsto> f s)) b = Some u \<and> hconn u = h \<and> sock_ok u \<and> (h \<in> set (closing_sockets m) \<longleftrightarrow> sstate u = SS_CLOSING)"
    if "(h, b) \<in> set (hconn_map m)" for h b
    using t(5) [OF that] s(1) assms(2) [of s] by (cases "b = a") auto
  have g: "\<exists>u. ((socks m)(a \<mapsto> f s)) b = Some u \<and> sock_fd u = fd \<and> (hconn u, b) \<in> set (hconn_map m)"
    if "(fd, b) \<in> set (fd_map m)" for fd b
    using t(6) [OF that] s(1) assms(2) [of s] by (cases "b = a") auto
  have "((socks m)(a \<mapsto> f s)) b = None" if "b \<in> set (deleted m)" for b using t(7) [OF that] s(1) by auto
  then show ?thesis using t(1-4) h g s(2) unfolding mgr_ok_def tables_ok_def by simp
qed

text \<open>The setters of the handler, the events and the timeouts keep the invariant, so the theorems on the manager hold
  with such calls in between. \<open>SetState\<close> and \<open>SetConn\<close>, public as well, do not: a socket that is marked as closing from
  outside is in the state for which \<open>Close\<close> has nothing left to do, without a place in the list of the sockets to free.\<close>
theorem setters_and_manager:
  assumes "mgr_ok m" "(h, a) \<in> set (hconn_map m)" "h \<notin> set (closing_sockets m)"
  shows "(\<forall>f \<in> {SetEventFlag e, SetHandle b, SetActiveTimeOut t, SetRecvTimeOut t}. \<exists>m'. on_socket f a m = Some m' \<and> mgr_ok m') \<and>
    (\<exists>m'. on_socket (SetState SS_CLOSING) a m = Some m' \<and> \<not> mgr_ok m') \<and>
    (\<exists>m'. on_socket (SetConn (h + 1)) a m = Some m' \<and> \<not> mgr_ok m')"
proof -
  obtain s where s: "socks m a = Some s" using tables_okD(5) [OF assms(1) [unfolded mgr_ok_def] assms(2)] by blast
  have good: "\<exists>m'. on_socket f a m = Some m' \<and> mgr_ok m'"
    if "\<And>s. hconn (f s) = hconn s \<and> sstate (f s) = sstate s \<and> sock_fd (f s) = sock_fd s \<and> (sock_ok s \<longrightarrow> sock_ok (f s))" for f
  proof -
    have "on_socket f a m = Some (m\<lparr>socks := (socks m)(a \<mapsto> f s)\<rparr>)" using s by (simp add: on_socket_def)
    then show ?thesis using on_socket_keeps [OF assms(1) that] by blast
  qed
  have bad: "\<exists>m'. on_socket f a m = Some m' \<and> \<not> mgr_ok m'"
    if "sstate (f s) = SS_CLOSING \<or> hconn (f s) \<noteq> h" for f
  proof -
    let ?m = "m\<lparr>socks := (socks m)(a \<mapsto> f s)\<rparr>"
    have "\<not> mgr_ok ?m"
    proof
      assume "mgr_ok ?m"
      from tables_okD(5) [OF this [unfolded mgr_ok_def], of h a] show False using assms(2, 3) that by simp
    qed
    then show ?thesis using s by (simp add: on_socket_def)
  qed
  have "\<forall>f \<in> {SetEventFlag e, SetHandle b, SetActiveTimeOut t, SetRecvTimeOut t}. \<exists>m'. on_socket f a m = Some m' \<and> mgr_ok m'"
    using good [of "SetEventFlag e"] good [of "SetHandle b"] good [of "SetActiveTimeOut t"] good [of "SetRecvTimeOut t"]
    by (simp add: SetEventFlag_def SetHandle_def SetActiveTimeOut_def SetRecvTimeOut_def sock_ok_def)
  then show ?thesis using bad [of "SetState SS_CLOSING"] bad [of "SetConn (h + 1)"] by (simp add: SetState_def SetConn_def)
qed

end
