(* ===== verification/SockLife.thy ===== *)
theory SockLife
  imports SockAccess TcpProps
begin

text \<open>
  The end of a socket and of the manager: the destructors of \<open>Socket\<close>, \<open>TcpSocket\<close>, \<open>SocketManager\<close> and
  \<open>EpollSocketManager\<close> (\<open>common/network/*.cc\<close>), on the list of the descriptors that the process has open. \<open>arrays\<close> counts what a
  socket has allocated with \<open>new\<close>.
\<close>

subsection \<open>Destructors\<close>

definition Socket_destroy :: "tcp_socket \<Rightarrow> int list \<Rightarrow> int list" where
  "Socket_destroy s fds = (if INVALID_SOCKET \<noteq> sock_fd s then remove1 (sock_fd s) fds else fds)"

text \<open>\<open>~TcpSocket\<close> calls the empty \<open>TcpSocket::Close\<close> and frees no array; \<open>~Socket\<close> follows.\<close>

definition tcp_destroy :: "tcp_socket \<Rightarrow> int list \<Rightarrow> int list" where
  "tcp_destroy s fds = Socket_destroy (tcp_Close s) fds"

definition arrays :: "tcp_socket \<Rightarrow> nat" where
  "arrays s = (if cached_send_buf s = None then 0 else 1) + (if recv_buf s = None then 0 else 1)"

text \<open>The global pointer to the manager is the first component; \<open>None\<close> is null.\<close>

definition SocketManager_destroy :: "nat option \<times> int list \<Rightarrow> nat option \<times> int list" where
  "SocketManager_destroy g = (None, snd g)"

definition ep_destroy :: "int \<Rightarrow> nat option \<times> int list \<Rightarrow> nat option \<times> int list" where
  "ep_destroy ep_fd g = SocketManager_destroy (fst g, remove1 ep_fd (snd g))"

subsection \<open>What is left open\<close>

text \<open>The manager does not end its sockets: their descriptors stay open.\<close>

lemma manager_forgets_sockets:
  assumes "(h, a) \<in> set (hconn_map m)" and "socks m a = Some s" and "sock_fd s \<in> set fds" "sock_fd s \<noteq> ep_fd"
  shows "sock_fd s \<in> set (snd (ep_destroy ep_fd (Some p, fds)))"
  using assms by (simp add: ep_destroy_def SocketManager_destroy_def)

text \<open>A socket whose \<open>Connect\<close> has come to the end, and so has failed: its descriptor is still open, since \<open>Close\<close> is empty, and
  is closed by the destructor only; its array is lost then; and to call \<open>Connect\<close> again fails an assert.\<close>
theorem failed_connect_keeps_socket:
  assumes "env_nodelay e" "env_linger e" "env_reuse e" "env_sndbuf e" and "env_socket e \<noteq> INVALID_SOCKET" "env_socket e \<notin> set fds"
  shows "\<exists>s. tcp_Connect e (TcpSocket sb rb ms mr junk) ip port = Some (False, s) \<and> sock_fd s = env_socket e \<and> arrays s = 1 \<and>
    tcp_destroy s (env_socket e # fds) = fds \<and> tcp_Connect e s ip' port' = None"
proof -
  note defs = tcp_Connect_def tcp_Create_def Socket_Create_def set_options_def SetOptNoDelay_def SetOptNonBlock_def
    SetOptLinger_def SetOptReuse_def SetOptSendBufSize_def InitRecvBuf_def SetRemoteAddr_def DoConnect_def UpdateRecvTime_def
    UpdateActiveTime_def tcp_Close_def TcpSocket_def
  obtain s where s: "tcp_Connect e (TcpSocket sb rb ms mr junk) ip port = Some (False, s)" "sock_fd s = env_socket e"
    "cached_send_buf s = None" "recv_buf s \<noteq> None" "sstate s \<noteq> SS_INVALID"
    using assms by (cases "-1 = env_connect e \<and> env_inprogress e") (simp_all add: defs Let_def)
  have "tcp_Connect e s ip' port' = None" using assms s(4,5) by (auto simp: defs Let_def)
  then show ?thesis using s assms(5,6) by (auto simp: arrays_def tcp_destroy_def Socket_destroy_def tcp_Close_def)
qed

end
