(* ===== verification/Spec2Isabelle.thy ===== *)
theory Spec2Isabelle
  imports QueueProps BaseProps PoolProps TimerProps PoolMgr MemPool SysTime ConfProps SockProps ConnProps Zone
    Signals ConfError TimerTask OsTime Trig ConnRun ConnStart PoolSpace PoolRestart TimerLive MemLife DocLife Duplex ListIter NumText NetAddr SockAccess
    SockLife
begin

text \<open>
  A model of jserver, a game server in two programs: the connection server (\<open>ConnSvr/\<close>), which owns the
  clients' sockets, and the zone server (\<open>Zone/\<close>), which runs the game. They exchange messages through two
  queues in shared memory. Below both lies \<open>common/\<close>: queues, object pools and timers that live in shared
  memory and survive a restart, the configuration parser, sockets and platform helpers.

  \<^bold>\<open>Parts and theories\<close> (all source paths are under \<open>src/\<close>)

  \<^item> \<^emph>\<open>Shared notions.\<close> \<open>Prelude\<close>: C integers (\<open>i32\<close>, \<open>u32\<close>, \<open>u64\<close> wrap; signed overflow is taken to wrap), C division,
    byte buffers with checked \<open>memcpy\<close>. \<open>Decimal\<close>: \<open>%d\<close> output. \<open>CString\<close>: strings in arrays and the helpers of
    \<open>common/platform/common.h\<close> and \<open>os_comm.cc\<close>.
  \<^item> \<^emph>\<open>Message queue\<close> (\<open>common/container/message_queue.*\<close>). \<open>Ring\<close>: byte lists read and written around their end.
    \<open>MessageQueue\<close>: the segment and \<open>Attach\<close>, \<open>SendMsg\<close>, \<open>RecvMsg\<close>. \<open>QueueProofs\<close>: the invariant, the abstraction to a list of
    messages and the locale \<open>fifo\<close>, interpreted on the queue as \<open>mq\<close>. \<open>QueueSpsc\<close>: the interleaving of a producer and a
    consumer process as a step relation with torn copies. \<open>QueueProps\<close>: the properties.
  \<^item> \<^emph>\<open>Channel\<close> (\<open>common/platform/os_shm.cc\<close>, \<open>common/container/message_channel.*\<close>). \<open>Channel\<close>: segments by key, the pair of queues,
    and two processes whose channels have crossed keys. \<open>Duplex\<close>: the same two processes interleaved at the grain of
    \<open>QueueSpsc\<close> on both queues.
  \<^item> \<^emph>\<open>Run flags, ids, alignment\<close> (\<open>common/base/run_flags.*\<close>, \<open>common/jybase/obj_desc.*\<close>, \<open>obj_pool.h\<close>, \<open>common.h\<close>): \<open>RunFlags\<close>,
    \<open>ObjId\<close>, \<open>Align\<close>, \<open>BaseProps\<close>.
  \<^item> \<^emph>\<open>Object pools\<close> (\<open>common/jybase/obj_pool.*\<close>, \<open>buffer_array.h\<close>). \<open>ObjPool\<close>: the pool in its buffer. \<open>FreeList\<close>: the locale
    \<open>slot_alloc\<close> of the allocators of slots, interpreted for the pool (\<open>PoolProofs\<close>) and for the timers of a queue (\<open>TimerWheel\<close>). \<open>PoolProofs\<close>,
    \<open>PoolProps\<close>: invariant and properties. \<open>Bump\<close>: the locale \<open>bump\<close> of allocators that only advance, interpreted in \<open>PoolMgr\<close>
    (the manager that carves pools out of one buffer) and in \<open>MemPool\<close> (\<open>common/config/async_mempool.*\<close>).
    \<open>PoolSpace\<close>: several pools of one manager, with their headers and objects. \<open>PoolRestart\<close>: the same pools mapped again by a second
    program. \<open>MemLife\<close>: what the memory pool allocates and frees, on a ledger of blocks.
  \<^item> \<^emph>\<open>Timers\<close> (\<open>common/jybase/timer_queue.*\<close>, \<open>array_list.h\<close>, \<open>timer_data.h\<close>, \<open>sys_time.h\<close>). \<open>ArrayList\<close>: lists linked by relative offsets.
    \<open>ListIter\<close>: their iterators, and a list over all its calls.
    \<open>TimerQueue\<close>: the wheel, \<open>Schedule\<close>, \<open>Cancel\<close>, \<open>Tick\<close>, \<open>SkipTick\<close>, \<open>Resume\<close>. \<open>TimerLinks\<close>, \<open>TimerProofs\<close>, \<open>TimerCalls\<close>, \<open>TimerLoop\<close>, \<open>TimerTick\<close>,
    \<open>TimerWheel\<close>: its invariant, operation by operation. \<open>TimerProps\<close>: the properties. \<open>TimerTask\<close>: the callbacks on objects named
    by ids, which joins timers with object ids. \<open>TimerLive\<close>: a waiting timer runs each time it is due, also after a restart, on the
    object that its id names in the pools of \<open>PoolRestart\<close>. \<open>SysTime\<close>: clock values.
  \<^item> \<^emph>\<open>Configuration\<close> (\<open>common/config/dotconfpp.*\<close>, \<open>config_reader.*\<close>, \<open>common/base/file_reader.cc\<close>, \<open>global_buff.*\<close>,
    \<open>common/pb_config/pb_config.h\<close>). \<open>DotConf\<close>: lines, words and the node tree. \<open>ConfDoc\<close>: macros, checks, included files.
    \<open>ConfReader\<close>: typed values. \<open>ConfError\<close>: its messages. \<open>DocLife\<close>: the memory of a document and its destructors.
    \<open>ConfTree\<close>, \<open>ConfText\<close>, \<open>ConfProps\<close>: invariant, termination, round trip.
  \<^item> \<^emph>\<open>Network\<close> (\<open>common/network/*\<close>). \<open>Tcp\<close>: one socket. \<open>SockMgr\<close>: the manager with its epoll implementation. \<open>TcpProps\<close>, \<open>SockProofs\<close>,
    \<open>SockProps\<close>: what goes on the wire, the received stream, the life of a connection.
    \<open>SockAccess\<close>: getters and setters. \<open>SockLife\<close>: the destructors, on the open descriptors. \<open>NetAddr\<close>: addresses as texts.
  \<^item> \<^emph>\<open>Connection server.\<close> \<open>ConnTables\<close>: \<open>conn_client_mgr.*\<close>, with the locale \<open>id_table\<close> of its maps. \<open>ConnMgr\<close>: \<open>conn_mgr.*\<close> over
    sockets, channel and reader. \<open>ConnMain\<close>: \<open>conn_svr.*\<close>, \<open>main.cc\<close>. \<open>ConnProps\<close>: the properties.
    \<open>ConnRun\<close>: the whole loop, over sockets, tables, channel and queue at once. \<open>ConnStart\<close>: when the program reaches its loop.
  \<^item> \<^emph>\<open>Zone server.\<close> \<open>Zone\<close>: \<open>main.cc\<close>, \<open>world.cc\<close>, \<open>zone_config.cc\<close>, over reader and run flags. \<open>Signals\<close>: signal actions of both programs.
  \<^item> \<^emph>\<open>Platform.\<close> \<open>NumText\<close>: numbers as texts. \<open>OsTime\<close>: clock texts of \<open>os_time.*\<close>. \<open>Trig\<close>: the tables of \<open>common.h\<close>.

  \<^bold>\<open>How state is modelled.\<close> A class is a record with a field for each member and a member function is a function that
  returns the new record. A result \<open>None\<close> is a fault: undefined behaviour of the source (an access outside a buffer, a null or
  dangling pointer, a division by zero) or a failed assert - except in \<open>epoll_socket_manager.cc\<close>, which compiles only with assertions off
  and whose asserts therefore do nothing -; a return code or a null result of the source is a value
  under it. Pointers are addresses, indices or offsets into an explicit store, as the code uses them. Where members are left
  uninitialised by the source, their values are parameters.

  \<^bold>\<open>What the lemmas show.\<close> For each stateful part an invariant (\<open>queue_ok\<close>, \<open>pool_ok\<close>, \<open>tq_ok\<close>, \<open>tree_ok\<close>, \<open>mgr_ok\<close>) is kept by every operation, and
  no operation faults under it; an abstraction (\<open>queue_holds\<close>, \<open>pool_slots\<close>, \<open>dlist\<close>, the partial functions of \<open>client_maps_refine\<close>) is
  refined by the operations; the loops end; a timer that is due runs; what the parser's classes allocate is counted block by
  block. Runs of calls, interleavings of processes and the time between ticks are
  explicit sequences or step relations. Where the code does not do what it means to, the theorem states what it does
  (\<open>send_spec\<close>, \<open>connections_never_open\<close>, \<open>conn_server_serves_only_broken\<close>, \<open>zone_config_loaded\<close>).

  \<^bold>\<open>Bounds and fuel.\<close> Rings are limited to \<open>2 ^ 30\<close> bytes, so that sums of two indices fit an \<open>int\<close>; the channels of the program have
  100 MB. The loading of included files takes fuel, and \<open>setContent_ends\<close> shows that some amount is enough and that more gives
  the same. The tick loop takes fuel for the tasks' calls; \<open>Tick_terminates\<close> and \<open>SkipTick_terminates\<close> give enough of it. The zone's main loop is a
  partial function, and \<open>zone_ends_iff_asked\<close> says when it returns. The connection server's endless loop is the list of its first rounds.

  \<^bold>\<open>Parameters.\<close> The kernel (\<open>send\<close>, \<open>recv\<close>, \<open>epoll\<close>, \<open>shmget\<close>, the clock, \<open>mkdir\<close>), the file system and the environment, \<open>malloc\<close>, the tasks that a
  timer runs and the functions given to \<open>ForeachObj\<close> are arguments of the definitions. Documented behaviour that a
  property needs is a named hypothesis (\<open>recv_law\<close>, \<open>mkdir_law\<close>, \<open>fresh_calls\<close>, \<open>existing_calls\<close>), and its witness has an instance.

  \<^bold>\<open>Not modelled.\<close> Output to the terminal; the generated protobuf classes and the vendored library;
  \<open>Zone/src/framework/asyn_queue.*\<close>, which does not compile (it names members that its class does not have) and is not
  used; the MD5 check of objects, whose function is not in the repository; the const accessors of \<open>array_list\<close>, which cannot
  be instantiated; what is compiled for Windows only; functions and destructors with empty bodies.
\<close>

end
